(* ===== verification/WH_Prelude.thy ===== *)
theory WH_Prelude
  imports Main "HOL-Library.Sublist"
begin

text \<open>
  Shared ground of the development: the reading of Go values used everywhere (missing map keys,
  bytes of string literals that are not ASCII), generic list lemmas, and the two interfaces that
  several components implement: a deterministic machine with an invariant (\<open>invariant_machine\<close>) and
  a bounded log that keeps the most recent entries (\<open>bounded_log\<close>).

  Go's \<open>int\<close> and \<open>int64\<close> values are \<open>int\<close>: the quantities of these components (milliseconds, counts,
  byte sums) stay far from the limits of 64 bits. Where the width matters (marks, addresses) the
  component uses words and says so.
\<close>

named_theorems go_simps \<open>readings of Go's map and slice operations\<close>

type_synonym go_time = int \<comment> \<open>unix milliseconds, or a duration\<close>
type_synonym go_id = string

section \<open>Go maps\<close>

text \<open>A read of a missing key yields the value type's zero value.\<close>

definition mget :: "('k \<rightharpoonup> 'v) \<Rightarrow> 'k \<Rightarrow> 'v \<Rightarrow> 'v" where
  "mget m k zero = (case m k of None \<Rightarrow> zero | Some v \<Rightarrow> v)"

lemma mget_upd [simp, go_simps]: "mget (m(k \<mapsto> v)) k' z = (if k' = k then v else mget m k' z)"
  by (simp add: mget_def)

lemma mget_del [simp, go_simps]: "mget (m(k := None)) k' z = (if k' = k then z else mget m k' z)"
  by (simp add: mget_def)

lemma mget_empty [simp, go_simps]: "mget Map.empty k z = z"
  by (simp add: mget_def)

text \<open>The three UTF-8 bytes of the arrow used in reason strings, and of the em dash.\<close>

definition u_arrow :: string where
  "u_arrow = [CHR 0xE2, CHR 0x86, CHR 0x92]"

definition u_dash :: string where
  "u_dash = [CHR 0xE2, CHR 0x80, CHR 0x94]"

section \<open>Integer division\<close>

text \<open>Go's \<open>/\<close> on integers truncates towards zero.\<close>

definition go_div :: "int \<Rightarrow> int \<Rightarrow> int" where
  "go_div a b = sgn a * sgn b * (\<bar>a\<bar> div \<bar>b\<bar>)"

lemma go_div_pos: "0 \<le> a \<Longrightarrow> 0 < b \<Longrightarrow> go_div a b = a div b"
  by (cases "a = 0") (simp_all add: go_div_def)

lemma go_div_neg: "a \<le> 0 \<Longrightarrow> 0 < b \<Longrightarrow> go_div a b \<le> 0"
  by (cases "a = 0") (simp_all add: go_div_def div_int_pos_iff)

section \<open>The last entries of a list\<close>

definition last_n :: "nat \<Rightarrow> 'a list \<Rightarrow> 'a list" where
  "last_n n xs = drop (length xs - n) xs"

lemma length_last_n [simp]: "length (last_n n xs) = min n (length xs)"
  by (simp add: last_n_def min_def)

lemma last_n_all [simp]: "length xs \<le> n \<Longrightarrow> last_n n xs = xs"
  by (simp add: last_n_def)

lemma last_n_Nil [simp]: "last_n n [] = []"
  by (simp add: last_n_def)

lemma last_n_last_n: "last_n n (last_n m xs) = last_n (min n m) xs"
  by (cases "m \<le> length xs") (auto simp: last_n_def min_def)

lemma set_last_n: "set (last_n n xs) \<subseteq> set xs"
  by (simp add: last_n_def set_drop_subset)

lemma suffix_last_n: "suffix (last_n n xs) xs"
  by (simp add: last_n_def suffix_drop)

lemma last_n_append: "last_n n (xs @ ys) = last_n (n - length ys) xs @ last_n n ys"
  by (cases "n \<le> length ys") (auto simp: last_n_def)

lemma last_n_absorb: "last_n n (last_n n xs @ ys) = last_n n (xs @ ys)"
  by (simp add: last_n_append[of n _ ys] last_n_last_n min_absorb1)

lemma last_n_snoc: "0 < n \<Longrightarrow> last_n n (xs @ [x]) = last_n (n - 1) xs @ [x]"
  by (simp add: last_n_append)

lemma last_n_map: "last_n n (map f xs) = map f (last_n n xs)"
  by (simp add: last_n_def drop_map)

lemma last_n_snoc_full:
  assumes "0 < n" "length xs = n"
  shows "last_n n (xs @ [x]) = tl xs @ [x]"
  using assms by (simp add: last_n_append) (simp add: last_n_def drop_Suc)

section \<open>Counting the elements of an updated list\<close>

lemma filter_update:
  assumes "i < length xs"
  shows "length (filter P (xs[i := x])) + (if P (xs ! i) then 1 else 0)
     = length (filter P xs) + (if P x then 1 else 0)"
proof -
  have "length (filter P xs) = length (filter P (take i xs @ xs ! i # drop (Suc i) xs))"
    using assms by (simp add: id_take_nth_drop[symmetric])
  moreover have "length (filter P (xs[i := x])) = length (filter P (take i xs @ x # drop (Suc i) xs))"
    using assms by (simp add: upd_conv_take_nth_drop)
  ultimately show ?thesis by simp
qed

lemma filter_pos: "i < length xs \<Longrightarrow> P (xs ! i) \<Longrightarrow> 1 \<le> length (filter P xs)"
  by (metis One_nat_def Suc_le_eq filter_empty_conv length_greater_0_conv nth_mem)

section \<open>Positions in a ring\<close>

lemma mod_shift_ne:
  assumes "(i::nat) < n" "j < n" "i \<noteq> j"
  shows "(a + i) mod n \<noteq> (a + j) mod n"
proof
  assume "(a + i) mod n = (a + j) mod n"
  then have "(int a + int i) mod int n = (int a + int j) mod int n" by (metis of_nat_add zmod_int)
  then have "int n dvd int i - int j" by (simp add: mod_eq_dvd_iff)
  then have "int i = int j"
    using assms zdvd_imp_le[of "int n" "\<bar>int i - int j\<bar>"] by (cases "int i = int j") auto
  then show False using assms(3) by simp
qed

text \<open>Reading \<open>count\<close> slots of an array of length \<open>n\<close> from \<open>start\<close>, wrapping around.\<close>

definition ring_read :: "'a list \<Rightarrow> nat \<Rightarrow> nat \<Rightarrow> nat \<Rightarrow> 'a list" where
  "ring_read buf n start count = map (\<lambda>i. buf ! ((start + i) mod n)) [0..<count]"

lemma length_ring_read [simp]: "length (ring_read buf n start count) = count"
  by (simp add: ring_read_def)

lemma nth_ring_read [simp]: "i < count \<Longrightarrow> ring_read buf n start count ! i = buf ! ((start + i) mod n)"
  by (simp add: ring_read_def)

lemma ring_read_0 [simp]: "ring_read buf n start 0 = []"
  by (simp add: ring_read_def)

text \<open>Writing the slot after the last one read.\<close>

lemma ring_read_grow:
  assumes "count < n" "length buf = n"
  shows "ring_read (buf[(start + count) mod n := x]) n start (Suc count) = ring_read buf n start count @ [x]"
proof (rule nth_equalityI)
  fix i
  assume i: "i < length (ring_read (buf[(start + count) mod n := x]) n start (Suc count))"
  show "ring_read (buf[(start + count) mod n := x]) n start (Suc count) ! i = (ring_read buf n start count @ [x]) ! i"
  proof (cases "i = count")
    case True
    then show ?thesis using assms by (simp add: nth_append)
  next
    case False
    then have lt: "i < count" using i by simp
    have "(start + i) mod n \<noteq> (start + count) mod n" by (rule mod_shift_ne) (use lt assms in auto)
    then show ?thesis using lt by (simp add: nth_append)
  qed
qed simp

text \<open>Overwriting the oldest slot of a full ring and moving its start.\<close>

lemma ring_read_full:
  assumes "length buf = n" "start < n"
  shows "ring_read (buf[start := x]) n ((start + 1) mod n) n = last_n n (ring_read buf n start n @ [x])"
proof -
  have "ring_read (buf[start := x]) n ((start + 1) mod n) n = drop 1 (ring_read buf n start n @ [x])"
  proof (rule nth_equalityI)
    fix i
    assume i: "i < length (ring_read (buf[start := x]) n ((start + 1) mod n) n)"
    have suc: "((start + 1) mod n + i) mod n = (start + Suc i) mod n" by (simp add: mod_add_left_eq)
    show "ring_read (buf[start := x]) n ((start + 1) mod n) n ! i = drop 1 (ring_read buf n start n @ [x]) ! i"
    proof (cases "Suc i = n")
      case True
      then have "(start + Suc i) mod n = start" using assms by simp
      then show ?thesis using i True suc assms by (auto simp: nth_append)
    next
      case False
      have "(start + Suc i) mod n \<noteq> start"
        using mod_shift_ne[of "Suc i" n 0 start] assms False i by simp
      then show ?thesis using i False suc assms by (auto simp: nth_append)
    qed
  qed (use assms in simp)
  then show ?thesis by (simp add: last_n_def)
qed

section \<open>A deterministic machine and its runs\<close>

locale invariant_machine =
  fixes step :: "'s \<Rightarrow> 'e \<Rightarrow> 's"
    and inv :: "'s \<Rightarrow> bool"
  assumes step_inv: "inv s \<Longrightarrow> inv (step s e)"
begin

lemma run_inv: "inv s \<Longrightarrow> inv (foldl step s es)"
  by (induction es arbitrary: s) (auto intro: step_inv)

text \<open>A quantity that no step lowers is not lowered by a run.\<close>

lemma run_mono:
  fixes f :: "'s \<Rightarrow> 'o::preorder"
  assumes mono: "\<And>s e. inv s \<Longrightarrow> f s \<le> f (step s e)" and "inv s"
  shows "f s \<le> f (foldl step s es)"
  using \<open>inv s\<close>
proof (induction es arbitrary: s)
  case Nil
  then show ?case by simp
next
  case (Cons e es)
  then have "f s \<le> f (step s e)" and "f (step s e) \<le> f (foldl step (step s e) es)"
    by (auto intro: mono step_inv)
  then show ?case by (auto intro: order_trans)
qed

end

section \<open>A bounded log of the most recent entries\<close>

text \<open>
  The contract of the program's ring buffers (traffic samples, probe outcomes, failover events):
  pushing one entry keeps at most \<open>cap\<close> of them and forgets the oldest.
\<close>

locale bounded_log =
  fixes push :: "'a \<Rightarrow> 'q \<Rightarrow> 'q"
    and contents :: "'q \<Rightarrow> 'a list"
    and cap :: nat
    and ok :: "'q \<Rightarrow> bool"
  assumes cap_pos: "0 < cap"
    and push_ok: "ok q \<Longrightarrow> ok (push x q)"
    and contents_push: "ok q \<Longrightarrow> contents (push x q) = last_n cap (contents q @ [x])"
    and contents_le: "ok q \<Longrightarrow> length (contents q) \<le> cap"
begin

lemma pushes_ok: "ok q \<Longrightarrow> ok (foldl (\<lambda>q x. push x q) q xs)"
  by (induction xs arbitrary: q) (auto intro: push_ok)

lemma contents_pushes:
  "ok q \<Longrightarrow> contents (foldl (\<lambda>q x. push x q) q xs) = last_n cap (contents q @ xs)"
proof (induction xs arbitrary: q)
  case Nil
  then show ?case by (simp add: contents_le)
next
  case (Cons x xs)
  have "contents (foldl (\<lambda>q x. push x q) (push x q) xs)
      = last_n cap (last_n cap (contents q @ [x]) @ xs)"
    using Cons by (simp add: push_ok contents_push)
  also have "\<dots> = last_n cap ((contents q @ [x]) @ xs)"
    by (rule last_n_absorb)
  finally show ?case by simp
qed

lemma newest_kept: "ok q \<Longrightarrow> contents (push x q) \<noteq> [] \<and> last (contents (push x q)) = x"
  using cap_pos by (simp add: contents_push last_n_snoc)

lemma contents_bounded: "ok q \<Longrightarrow> length (contents (foldl (\<lambda>q x. push x q) q xs)) \<le> cap"
  by (rule contents_le[OF pushes_ok])

end

section \<open>Association by first match\<close>

text \<open>Go code often scans a slice for the first element with an id.\<close>

lemma find_Some_first:
  "find P xs = Some x \<longleftrightarrow> (\<exists>ys zs. xs = ys @ x # zs \<and> P x \<and> (\<forall>y\<in>set ys. \<not> P y))"
proof (induction xs)
  case Nil
  then show ?case by simp
next
  case (Cons a xs)
  show ?case
  proof (cases "P a")
    case True
    then show ?thesis
      by (auto simp: Cons_eq_append_conv)
  next
    case False
    then have "find P (a # xs) = Some x \<longleftrightarrow> (\<exists>ys zs. xs = ys @ x # zs \<and> P x \<and> (\<forall>y\<in>set ys. \<not> P y))"
      using Cons by simp
    also have "\<dots> \<longleftrightarrow> (\<exists>ys zs. a # xs = ys @ x # zs \<and> P x \<and> (\<forall>y\<in>set ys. \<not> P y))"
      using False by (auto simp: Cons_eq_append_conv) (metis set_ConsD)
    finally show ?thesis .
  qed
qed

end
