(* ===== verification/Failover_Controller.thy ===== *)
theory Failover_Controller
  imports WH_Prelude
begin

text \<open>
  The pure decision of a managed failover group, \<open>internal/failover/controller.go\<close>: which member the
  policy wants (\<open>ideal\<close>), and whether the switch to it may commit now (\<open>Decide\<close>). Members come in
  the group's preference order. The theorems say what a committed switch guarantees, when an emergency
  always commits, and when a switch is held.
\<close>

section \<open>Data\<close>

record MemberHealth =
  mhID :: go_id
  mhAlive :: bool
  mhLatencyMs :: int

type_synonym policy = string

definition PolicyLatency :: policy where "PolicyLatency = ''urltest''"
definition PolicyOrdered :: policy where "PolicyOrdered = ''fallback''"
definition PolicySelector :: policy where "PolicySelector = ''selector''"

lemmas policy_defs = PolicyLatency_def PolicyOrdered_def PolicySelector_def

record Config =
  ToleranceMs :: int
  MinDwellMS :: int
  FailbackHoldMS :: int

definition defaultToleranceMs :: int where "defaultToleranceMs = 50"
definition defaultMinDwellMS :: int where "defaultMinDwellMS = 10000"
definition defaultFailbackHoldMS :: int where "defaultFailbackHoldMS = 30000"

definition tolerance :: "Config \<Rightarrow> int" where
  "tolerance c = (if ToleranceMs c > 0 then ToleranceMs c else defaultToleranceMs)"

definition minDwell :: "Config \<Rightarrow> int" where
  "minDwell c = (if MinDwellMS c > 0 then MinDwellMS c else defaultMinDwellMS)"

definition failbackHold :: "Config \<Rightarrow> int" where
  "failbackHold c = (if FailbackHoldMS c > 0 then FailbackHoldMS c else defaultFailbackHoldMS)"

lemma tuning_pos [simp]: "0 < tolerance c" "0 < minDwell c" "0 < failbackHold c"
  by (simp_all add: tolerance_def minDwell_def failbackHold_def defaultToleranceMs_def
      defaultMinDwellMS_def defaultFailbackHoldMS_def)

record DecideInput =
  diPolicy :: policy
  diMembers :: "MemberHealth list"
  diCurrent :: go_id
  diLastSwitch :: go_time
  diNow :: go_time
  diCfg :: Config
  diCurrentRawAlive :: "bool option"

section \<open>Queries over the members\<close>

text \<open>\<open>memberAlive\<close> scans for the first member with the id: (alive, latency, present).\<close>

fun memberAlive_in :: "MemberHealth list \<Rightarrow> go_id \<Rightarrow> bool \<times> int \<times> bool" where
  "memberAlive_in [] i = (False, 0, False)"
| "memberAlive_in (m # ms) i =
     (if mhID m = i then (mhAlive m, mhLatencyMs m, True) else memberAlive_in ms i)"

definition memberAlive :: "DecideInput \<Rightarrow> go_id \<Rightarrow> bool \<times> int \<times> bool" where
  "memberAlive inp i = memberAlive_in (diMembers inp) i"

fun firstAlive_in :: "MemberHealth list \<Rightarrow> go_id \<times> bool" where
  "firstAlive_in [] = ('''', False)"
| "firstAlive_in (m # ms) = (if mhAlive m then (mhID m, True) else firstAlive_in ms)"

definition firstAlive :: "DecideInput \<Rightarrow> go_id \<times> bool" where
  "firstAlive inp = firstAlive_in (diMembers inp)"

text \<open>The loop of \<open>lowestLatencyAlive\<close> carries (best, bestLat, found).\<close>

fun lowestLatencyAlive_loop ::
  "MemberHealth list \<Rightarrow> go_id \<times> int \<times> bool \<Rightarrow> go_id \<times> int \<times> bool" where
  "lowestLatencyAlive_loop [] acc = acc"
| "lowestLatencyAlive_loop (m # ms) (best, bestLat, found) =
     (if \<not> mhAlive m then lowestLatencyAlive_loop ms (best, bestLat, found)
      else if \<not> found \<or> mhLatencyMs m < bestLat
        then lowestLatencyAlive_loop ms (mhID m, mhLatencyMs m, True)
        else lowestLatencyAlive_loop ms (best, bestLat, found))"

definition lowestLatencyAlive :: "DecideInput \<Rightarrow> go_id \<times> int \<times> bool" where
  "lowestLatencyAlive inp = lowestLatencyAlive_loop (diMembers inp) ('''', 0, False)"

section \<open>The decision\<close>

definition ideal :: "DecideInput \<Rightarrow> go_id \<times> string" where
  "ideal inp =
    (let (curAlive, curLat, _) = memberAlive inp (diCurrent inp)
     in if diPolicy inp = PolicyOrdered then
          (case firstAlive inp of (m, ok) \<Rightarrow>
             if \<not> ok then ('''', ''no live member'')
             else if m = diCurrent inp then (diCurrent inp, ''stable (top healthy member)'')
             else if curAlive then (m, ''higher-priority member recovered'')
             else (m, ''current down '' @ u_arrow @ '' next healthy in order''))
        else if diPolicy inp = PolicySelector then
          (if diCurrent inp \<noteq> '''' \<and> curAlive then (diCurrent inp, ''manual pick still healthy'')
           else (case firstAlive inp of (m, ok) \<Rightarrow>
             if \<not> ok then (diCurrent inp, ''no live member'')
             else (m, ''manual pick down '' @ u_arrow @ '' first healthy'')))
        else
          (case lowestLatencyAlive inp of (best, bestLat, ok) \<Rightarrow>
             if \<not> ok then (diCurrent inp, ''no live member'')
             else if diCurrent inp = '''' \<or> \<not> curAlive then (best, ''select fastest alive'')
             else if curLat - bestLat > tolerance (diCfg inp)
               then (best, ''a faster member beats current beyond tolerance'')
             else (diCurrent inp, ''stable (within latency tolerance)'')))"

definition decide_curAlive :: "DecideInput \<Rightarrow> bool" where
  "decide_curAlive inp =
    (case diCurrentRawAlive inp of
       Some b \<Rightarrow> b
     | None \<Rightarrow> fst (memberAlive inp (diCurrent inp)))"

definition decide_emergency :: "DecideInput \<Rightarrow> bool" where
  "decide_emergency inp \<longleftrightarrow> diCurrent inp = '''' \<or> \<not> decide_curAlive inp"

definition Decide :: "DecideInput \<Rightarrow> go_id \<times> string \<times> bool" where
  "Decide inp =
    (let (want, why) = ideal inp
     in if want = '''' \<or> want = diCurrent inp then (diCurrent inp, why, False)
        else if \<not> decide_emergency inp \<and> diLastSwitch inp > 0
                \<and> diNow inp - diLastSwitch inp < minDwell (diCfg inp)
          then (diCurrent inp, ''held (min-dwell)'', False)
        else (want, why, True))"

section \<open>Facts about the queries\<close>

lemma firstAlive_in_Some:
  "firstAlive_in ms = (i, True) \<Longrightarrow>
     \<exists>pre m post. ms = pre @ m # post \<and> mhAlive m \<and> mhID m = i \<and> (\<forall>x\<in>set pre. \<not> mhAlive x)"
proof (induction ms)
  case Nil
  then show ?case by simp
next
  case (Cons a ms)
  show ?case
  proof (cases "mhAlive a")
    case True
    with Cons.prems have "a # ms = [] @ a # ms \<and> mhAlive a \<and> mhID a = i" by simp
    then show ?thesis by (metis empty_iff empty_set)
  next
    case False
    with Cons obtain pre m post where
      "ms = pre @ m # post \<and> mhAlive m \<and> mhID m = i \<and> (\<forall>x\<in>set pre. \<not> mhAlive x)" by auto
    with False have "a # ms = (a # pre) @ m # post \<and> mhAlive m \<and> mhID m = i
        \<and> (\<forall>x\<in>set (a # pre). \<not> mhAlive x)" by simp
    then show ?thesis by blast
  qed
qed

lemma firstAlive_in_ok: "snd (firstAlive_in ms) \<longleftrightarrow> (\<exists>m\<in>set ms. mhAlive m)"
  by (induction ms) auto

lemma memberAlive_in_sound:
  "memberAlive_in ms i = (a, l, True) \<Longrightarrow> \<exists>m\<in>set ms. mhID m = i \<and> mhAlive m = a \<and> mhLatencyMs m = l"
  by (induction ms) (auto split: if_splits)

lemma memberAlive_in_alive: "fst (memberAlive_in ms i) \<Longrightarrow>
    \<exists>m\<in>set ms. mhID m = i \<and> mhAlive m \<and> mhLatencyMs m = fst (snd (memberAlive_in ms i))"
  by (induction ms) (auto split: if_splits)

lemma memberAlive_in_distinct:
  "distinct (map mhID ms) \<Longrightarrow> m \<in> set ms \<Longrightarrow>
     memberAlive_in ms (mhID m) = (mhAlive m, mhLatencyMs m, True)"
  by (induction ms) (auto simp: image_iff)

text \<open>The running minimum: the result is an alive member no slower than any other.\<close>

lemma lowestLatencyAlive_loop_spec:
  assumes "lowestLatencyAlive_loop ms (b, bl, f) = (b', bl', f')"
  shows "f' \<longleftrightarrow> f \<or> (\<exists>m\<in>set ms. mhAlive m)"
    and "f' \<Longrightarrow> (f \<and> b' = b \<and> bl' = bl) \<or> (\<exists>m\<in>set ms. mhAlive m \<and> mhID m = b' \<and> mhLatencyMs m = bl')"
    and "f' \<Longrightarrow> (f \<longrightarrow> bl' \<le> bl) \<and> (\<forall>m\<in>set ms. mhAlive m \<longrightarrow> bl' \<le> mhLatencyMs m)"
proof -
  have *: "(f' \<longleftrightarrow> f \<or> (\<exists>m\<in>set ms. mhAlive m)) \<and>
    (f' \<longrightarrow> (f \<and> b' = b \<and> bl' = bl) \<or> (\<exists>m\<in>set ms. mhAlive m \<and> mhID m = b' \<and> mhLatencyMs m = bl')) \<and>
    (f' \<longrightarrow> (f \<longrightarrow> bl' \<le> bl) \<and> (\<forall>m\<in>set ms. mhAlive m \<longrightarrow> bl' \<le> mhLatencyMs m))"
    using assms
  proof (induction ms arbitrary: b bl f)
    case Nil
    then show ?case by auto
  next
    case (Cons m ms)
    show ?case
    proof (cases "mhAlive m \<and> (\<not> f \<or> mhLatencyMs m < bl)")
      case True
      then have "lowestLatencyAlive_loop ms (mhID m, mhLatencyMs m, True) = (b', bl', f')"
        using Cons.prems by simp
      from Cons.IH[OF this] True show ?thesis by auto
    next
      case False
      then have "lowestLatencyAlive_loop ms (b, bl, f) = (b', bl', f')"
        using Cons.prems by (auto split: if_splits)
      from Cons.IH[OF this] False show ?thesis by auto
    qed
  qed
  show "f' \<longleftrightarrow> f \<or> (\<exists>m\<in>set ms. mhAlive m)" using * by blast
  show "f' \<Longrightarrow> (f \<and> b' = b \<and> bl' = bl) \<or> (\<exists>m\<in>set ms. mhAlive m \<and> mhID m = b' \<and> mhLatencyMs m = bl')"
    using * by blast
  show "f' \<Longrightarrow> (f \<longrightarrow> bl' \<le> bl) \<and> (\<forall>m\<in>set ms. mhAlive m \<longrightarrow> bl' \<le> mhLatencyMs m)" using * by blast
qed

lemma lowestLatencyAlive_ok:
  "snd (snd (lowestLatencyAlive inp)) \<longleftrightarrow> (\<exists>m\<in>set (diMembers inp). mhAlive m)"
  unfolding lowestLatencyAlive_def
  by (cases "lowestLatencyAlive_loop (diMembers inp) ('''', 0, False)")
    (auto dest: lowestLatencyAlive_loop_spec(1))

lemma lowestLatencyAlive_Some:
  assumes "lowestLatencyAlive inp = (b, bl, True)"
  shows "\<exists>m\<in>set (diMembers inp). mhAlive m \<and> mhID m = b \<and> mhLatencyMs m = bl"
    and "\<And>m. m \<in> set (diMembers inp) \<Longrightarrow> mhAlive m \<Longrightarrow> bl \<le> mhLatencyMs m"
  using lowestLatencyAlive_loop_spec(2,3)[OF assms[unfolded lowestLatencyAlive_def]] by auto

lemma firstAlive_ok: "snd (firstAlive inp) \<longleftrightarrow> (\<exists>m\<in>set (diMembers inp). mhAlive m)"
  by (simp add: firstAlive_def firstAlive_in_ok)

lemma firstAlive_member:
  assumes "snd (firstAlive inp)"
  shows "\<exists>m\<in>set (diMembers inp). mhAlive m \<and> mhID m = fst (firstAlive inp)"
proof -
  have "firstAlive_in (diMembers inp) = (fst (firstAlive inp), True)"
    using assms by (simp add: firstAlive_def prod_eq_iff)
  from firstAlive_in_Some[OF this] show ?thesis by auto
qed

lemma lowestLatencyAlive_member:
  assumes "snd (snd (lowestLatencyAlive inp))"
  shows "\<exists>m\<in>set (diMembers inp). mhAlive m \<and> mhID m = fst (lowestLatencyAlive inp)"
  using lowestLatencyAlive_Some(1)[of inp "fst (lowestLatencyAlive inp)" "fst (snd (lowestLatencyAlive inp))"]
    assms by (auto simp: prod_eq_iff)

lemmas choice_ok = firstAlive_ok lowestLatencyAlive_ok
lemmas choice_member = firstAlive_member lowestLatencyAlive_member

section \<open>Facts about the policy's choice\<close>

text \<open>Whatever the policy wants, other than staying put, is an alive member of the group.\<close>

lemma ideal_alive:
  assumes "ideal inp = (w, r)" "w \<noteq> ''''" "w \<noteq> diCurrent inp"
  shows "\<exists>m\<in>set (diMembers inp). mhID m = w \<and> mhAlive m"
proof -
  show ?thesis
    using assms choice_member[of inp]
    by (auto simp: ideal_def split: prod.splits if_splits)
qed

lemma Decide_unchanged: "Decide inp = (d, r, False) \<Longrightarrow> d = diCurrent inp"
  by (auto simp: Decide_def Let_def split: prod.splits if_splits)

lemma Decide_changed:
  "Decide inp = (d, r, True) \<longleftrightarrow>
     ideal inp = (d, r) \<and> d \<noteq> '''' \<and> d \<noteq> diCurrent inp \<and>
     (decide_emergency inp \<or> diLastSwitch inp \<le> 0
        \<or> minDwell (diCfg inp) \<le> diNow inp - diLastSwitch inp)"
  by (auto simp: Decide_def Let_def split: prod.splits if_splits)

text \<open>With an emergency and a live alternative, every policy wants some other member.\<close>

lemma ideal_emergency_wants:
  assumes dead: "\<not> fst (memberAlive inp (diCurrent inp))"
    and uniq: "distinct (map mhID (diMembers inp))"
    and named: "'''' \<notin> mhID ` set (diMembers inp)"
    and alive: "m \<in> set (diMembers inp)" "mhAlive m"
  shows "fst (ideal inp) \<noteq> '''' \<and> fst (ideal inp) \<noteq> diCurrent inp"
proof -
  have cur_dead: "\<And>x. x \<in> set (diMembers inp) \<Longrightarrow> mhAlive x \<Longrightarrow> mhID x \<noteq> diCurrent inp"
    using dead memberAlive_in_distinct[OF uniq] by (metis fst_conv memberAlive_def)
  have ok: "snd (firstAlive inp)" "snd (snd (lowestLatencyAlive inp))"
    using alive by (auto simp: choice_ok)
  have A: "\<And>i. \<exists>x\<in>set (diMembers inp). mhAlive x \<and> mhID x = i \<Longrightarrow> i \<noteq> '''' \<and> i \<noteq> diCurrent inp"
    using cur_dead named by force
  have "fst (firstAlive inp) \<noteq> '''' \<and> fst (firstAlive inp) \<noteq> diCurrent inp"
    and "fst (lowestLatencyAlive inp) \<noteq> '''' \<and> fst (lowestLatencyAlive inp) \<noteq> diCurrent inp"
    using A choice_member[of inp] ok by blast+
  then show ?thesis
    using ok dead
    by (cases "firstAlive inp"; cases "lowestLatencyAlive inp"; cases "memberAlive inp (diCurrent inp)")
      (simp add: ideal_def)
qed

lemma Decide_emergency:
  assumes "decide_emergency inp"
    and "\<not> fst (memberAlive inp (diCurrent inp))"
    and "distinct (map mhID (diMembers inp))"
    and "'''' \<notin> mhID ` set (diMembers inp)"
    and "\<exists>m\<in>set (diMembers inp). mhAlive m"
  shows "\<exists>d r. Decide inp = (d, r, True) \<and> (\<exists>m\<in>set (diMembers inp). mhID m = d \<and> mhAlive m)"
proof -
  obtain w r where wr: "ideal inp = (w, r)" by fastforce
  have want: "w \<noteq> ''''" "w \<noteq> diCurrent inp"
    using ideal_emergency_wants[OF assms(2-4)] assms(5) wr by auto
  have "Decide inp = (w, r, True)"
    using assms(1) wr want by (simp add: Decide_changed)
  with ideal_alive[OF wr want] show ?thesis by blast
qed

section \<open>Properties\<close>

text \<open>A switch that \<open>Decide\<close> reports as committable goes to a member of the group that the
  selection view shows alive, differs from the current one, and is either an emergency move or
  respects the min-dwell window since the last switch.\<close>

theorem decide_switch_sound:
  assumes "Decide inp = (d, r, True)"
  shows "(\<exists>m\<in>set (diMembers inp). mhID m = d \<and> mhAlive m) \<and> d \<noteq> diCurrent inp \<and> d \<noteq> ''''
    \<and> (decide_emergency inp \<or> diLastSwitch inp \<le> 0
        \<or> minDwell (diCfg inp) \<le> diNow inp - diLastSwitch inp)"
  using assms ideal_alive[of inp d r] by (auto simp: Decide_changed)

definition sampleCfg :: Config where
  "sampleCfg = \<lparr>ToleranceMs = 0, MinDwellMS = 0, FailbackHoldMS = 0\<rparr>"

definition sampleInput :: DecideInput where
  "sampleInput = \<lparr>diPolicy = PolicyLatency,
     diMembers = [\<lparr>mhID = ''a'', mhAlive = True, mhLatencyMs = 200\<rparr>,
                  \<lparr>mhID = ''b'', mhAlive = True, mhLatencyMs = 90\<rparr>],
     diCurrent = ''a'', diLastSwitch = 1000, diNow = 20000, diCfg = sampleCfg,
     diCurrentRawAlive = None\<rparr>"

lemmas controller_eval = sampleInput_def sampleCfg_def Decide_def ideal_def decide_emergency_def
  decide_curAlive_def memberAlive_def firstAlive_def lowestLatencyAlive_def tolerance_def minDwell_def
  defaultToleranceMs_def defaultMinDwellMS_def policy_defs

lemma sampleInput_switches:
  "Decide sampleInput = (''b'', ''a faster member beats current beyond tolerance'', True)"
  by (simp add: controller_eval)

theorem decide_switch_sound_witness:
  "(\<exists>m\<in>set (diMembers sampleInput). mhID m = ''b'' \<and> mhAlive m) \<and> ''b'' \<noteq> diCurrent sampleInput"
  using decide_switch_sound[OF sampleInput_switches] by blast

text \<open>An emergency always commits: when the current member is unset, dead or gone in the selection
  view and in the caller's raw verdict, and some member with its own id is alive, \<open>Decide\<close> reports a
  switch to an alive member, whatever the policy, the last switch and the clock.\<close>

theorem decide_emergency_commits:
  assumes "decide_emergency inp"
    and "\<not> fst (memberAlive inp (diCurrent inp))"
    and "distinct (map mhID (diMembers inp))"
    and "'''' \<notin> mhID ` set (diMembers inp)"
    and "\<exists>m\<in>set (diMembers inp). mhAlive m"
  shows "\<exists>d r. Decide inp = (d, r, True) \<and> (\<exists>m\<in>set (diMembers inp). mhID m = d \<and> mhAlive m)"
  using assms by (rule Decide_emergency)

theorem decide_emergency_commits_witness:
  "\<exists>d r. Decide (sampleInput\<lparr>diCurrent := ''gone'', diNow := 1001\<rparr>) = (d, r, True)"
proof -
  let ?i = "sampleInput\<lparr>diCurrent := ''gone'', diNow := 1001\<rparr>"
  have "decide_emergency ?i" "\<not> fst (memberAlive ?i (diCurrent ?i))"
    "distinct (map mhID (diMembers ?i))" "'''' \<notin> mhID ` set (diMembers ?i)"
    "\<exists>m\<in>set (diMembers ?i). mhAlive m"
    by (simp_all add: controller_eval)
  from decide_emergency_commits[OF this] show ?thesis by blast
qed

text \<open>What each policy picks. Ordered fallback: the first alive member in preference order, every
  earlier one being dead. Latency: an alive member no slower than any alive member and, when it moves
  off an alive current member, faster by more than the tolerance. Selector: it only leaves a current
  member that is unset or not alive, for the first alive one.\<close>

theorem decide_policy_choice:
  assumes "Decide inp = (d, r, True)"
  shows "(diPolicy inp \<in> {PolicyOrdered, PolicySelector} \<longrightarrow>
            (\<exists>pre m post. diMembers inp = pre @ m # post \<and> mhID m = d \<and> mhAlive m
               \<and> (\<forall>x\<in>set pre. \<not> mhAlive x)))
       \<and> (diPolicy inp = PolicySelector \<longrightarrow>
            diCurrent inp = '''' \<or> \<not> fst (memberAlive inp (diCurrent inp)))
       \<and> (diPolicy inp \<notin> {PolicyOrdered, PolicySelector} \<longrightarrow>
            (\<exists>m\<in>set (diMembers inp). mhID m = d \<and> mhAlive m
               \<and> (\<forall>x\<in>set (diMembers inp). mhAlive x \<longrightarrow> mhLatencyMs m \<le> mhLatencyMs x)
               \<and> (diCurrent inp \<noteq> '''' \<and> fst (memberAlive inp (diCurrent inp)) \<longrightarrow>
                    tolerance (diCfg inp) < fst (snd (memberAlive inp (diCurrent inp))) - mhLatencyMs m)))"
proof -
  have id: "ideal inp = (d, r)" "d \<noteq> ''''" "d \<noteq> diCurrent inp"
    using assms by (auto simp: Decide_changed)
  obtain fm fo where fa: "firstAlive inp = (fm, fo)" by fastforce
  obtain bm bl bo where ll: "lowestLatencyAlive inp = (bm, bl, bo)" by (cases "lowestLatencyAlive inp")
  obtain ca cl cp where cur: "memberAlive inp (diCurrent inp) = (ca, cl, cp)"
    by (cases "memberAlive inp (diCurrent inp)")
  note split = id[unfolded ideal_def fa ll cur Let_def, simplified]
  have first: "\<exists>pre m post. diMembers inp = pre @ m # post \<and> mhID m = d \<and> mhAlive m
      \<and> (\<forall>x\<in>set pre. \<not> mhAlive x)" if "fo" "fm = d"
    using firstAlive_in_Some[of "diMembers inp" d] fa that by (auto simp: firstAlive_def)
  have low: "\<exists>m\<in>set (diMembers inp). mhID m = d \<and> mhAlive m \<and> mhLatencyMs m = bl
      \<and> (\<forall>x\<in>set (diMembers inp). mhAlive x \<longrightarrow> bl \<le> mhLatencyMs x)" if "bo" "bm = d"
    using lowestLatencyAlive_Some[of inp d bl] ll that by auto
  have ord: "fo \<and> fm = d" if "diPolicy inp \<in> {PolicyOrdered, PolicySelector}"
    using split that by (auto split: if_splits)
  have selr: "diCurrent inp = '''' \<or> \<not> ca" if "diPolicy inp = PolicySelector"
    using split that by (auto simp: policy_defs split: if_splits)
  have lat: "bo \<and> bm = d \<and> (diCurrent inp \<noteq> '''' \<and> ca \<longrightarrow> tolerance (diCfg inp) < cl - bl)"
    if "diPolicy inp \<notin> {PolicyOrdered, PolicySelector}"
    using split that by (auto split: if_splits)
  have "\<exists>m\<in>set (diMembers inp). mhID m = d \<and> mhAlive m
      \<and> (\<forall>x\<in>set (diMembers inp). mhAlive x \<longrightarrow> mhLatencyMs m \<le> mhLatencyMs x)
      \<and> (diCurrent inp \<noteq> '''' \<and> ca \<longrightarrow> tolerance (diCfg inp) < cl - mhLatencyMs m)"
    if "diPolicy inp \<notin> {PolicyOrdered, PolicySelector}"
    using low lat[OF that] by metis
  with first ord selr show ?thesis by (simp add: cur)
qed

theorem decide_policy_choice_witness:
  "\<exists>m\<in>set (diMembers sampleInput). mhID m = ''b'' \<and> mhAlive m
     \<and> tolerance (diCfg sampleInput) < 200 - mhLatencyMs m"
proof -
  have "diPolicy sampleInput \<notin> {PolicyOrdered, PolicySelector}"
    "diCurrent sampleInput \<noteq> '''' \<and> fst (memberAlive sampleInput (diCurrent sampleInput))"
    "fst (snd (memberAlive sampleInput (diCurrent sampleInput))) = 200"
    by (simp_all add: controller_eval)
  with decide_policy_choice[OF sampleInput_switches] show ?thesis by auto
qed

end
