(* ===== verification/Failover_Detectors.thy ===== *)
theory Failover_Detectors
  imports Complex_Main WH_Prelude
begin

text \<open>
  The two detectors that hide members from selection: flap damping
  (\<open>internal/failover/damper.go\<close>) and passive outlier ejection (\<open>internal/failover/outlier.go\<close>). Both
  keep one state per member, created on the member's first event; both take the clock as an argument.
  \<open>member_judge\<close> is the contract the runner relies on: a member's verdict depends only on the
  events about that member, and a member without events is never hidden.

  Penalties are reals: Go's \<open>float64\<close> rounding is idealised away, and \<open>math.Exp2 x\<close> is \<open>2 powr x\<close>.
\<close>

section \<open>Flap damping\<close>

record dampState =
  penalty :: real
  lastUpdate :: go_time
  seen :: bool
  suppressed :: bool
  suppSince :: go_time

record DampConfig =
  FlapPenalty :: real
  HalfLifeMS :: int
  SuppressAt :: real
  ReuseAt :: real
  MaxSuppressMS :: int

record Damper =
  dcfg :: DampConfig
  dstate :: "go_id \<rightharpoonup> dampState"

definition flapPenalty :: "DampConfig \<Rightarrow> real" where
  "flapPenalty c = (if FlapPenalty c > 0 then FlapPenalty c else 1000)"

definition halfLife :: "DampConfig \<Rightarrow> int" where
  "halfLife c = (if HalfLifeMS c > 0 then HalfLifeMS c else 90000)"

definition suppressAt :: "DampConfig \<Rightarrow> real" where
  "suppressAt c = (if SuppressAt c > 0 then SuppressAt c else 2000)"

definition reuseAt :: "DampConfig \<Rightarrow> real" where
  "reuseAt c = (if ReuseAt c > 0 then ReuseAt c else 750)"

definition maxSuppress :: "DampConfig \<Rightarrow> int" where
  "maxSuppress c = (if MaxSuppressMS c > 0 then MaxSuppressMS c else 600000)"

lemma damp_tuning_pos [simp]:
  "0 < flapPenalty c" "0 < halfLife c" "0 < suppressAt c" "0 < reuseAt c" "0 < maxSuppress c"
  by (simp_all add: flapPenalty_def halfLife_def suppressAt_def reuseAt_def maxSuppress_def)

definition zeroDampState :: dampState where
  "zeroDampState = \<lparr>penalty = 0, lastUpdate = 0, seen = False, suppressed = False, suppSince = 0\<rparr>"

definition NewDamper :: "DampConfig \<Rightarrow> Damper" where
  "NewDamper c = \<lparr>dcfg = c, dstate = Map.empty\<rparr>"

text \<open>\<open>get\<close> returns the member's state, creating it when missing; the caller stores it back.\<close>

definition damper_get :: "Damper \<Rightarrow> go_id \<Rightarrow> dampState" where
  "damper_get d m = (case dstate d m of None \<Rightarrow> zeroDampState | Some s \<Rightarrow> s)"

definition decay :: "DampConfig \<Rightarrow> dampState \<Rightarrow> go_time \<Rightarrow> dampState" where
  "decay c s now =
    (let p = (if seen s \<and> now > lastUpdate s
              then penalty s * 2 powr (- real_of_int (now - lastUpdate s) / real_of_int (halfLife c))
              else penalty s)
     in s\<lparr>penalty := p, lastUpdate := now, seen := True\<rparr>)"

definition Penalize :: "Damper \<Rightarrow> go_id \<Rightarrow> go_time \<Rightarrow> Damper" where
  "Penalize d m now =
    (let s = decay (dcfg d) (damper_get d m) now
     in d\<lparr>dstate := (dstate d)(m \<mapsto> s\<lparr>penalty := penalty s + flapPenalty (dcfg d)\<rparr>)\<rparr>)"

definition hysteresis :: "DampConfig \<Rightarrow> dampState \<Rightarrow> go_time \<Rightarrow> dampState" where
  "hysteresis c s now =
    (if suppressed s then
       (if penalty s \<le> reuseAt c \<or> now - suppSince s \<ge> maxSuppress c
        then s\<lparr>suppressed := False\<rparr> else s)
     else if penalty s > suppressAt c then s\<lparr>suppressed := True, suppSince := now\<rparr>
     else s)"

definition Suppressed :: "Damper \<Rightarrow> go_id \<Rightarrow> go_time \<Rightarrow> bool \<times> Damper" where
  "Suppressed d m now =
    (case dstate d m of
       None \<Rightarrow> (False, d)
     | Some s \<Rightarrow>
        (let s' = hysteresis (dcfg d) (decay (dcfg d) s now) now
         in (suppressed s', d\<lparr>dstate := (dstate d)(m \<mapsto> s')\<rparr>)))"

section \<open>Outlier ejection\<close>

record outlierState =
  consecFails :: int
  ejections :: int
  ejectedUntil :: go_time

record OutlierConfig =
  ConsecutiveFailures :: int
  BaseEjectionMS :: int
  MaxEjectionMS :: int

record OutlierDetector =
  ocfg :: OutlierConfig
  ostate :: "go_id \<rightharpoonup> outlierState"

definition consecutiveFailures :: "OutlierConfig \<Rightarrow> int" where
  "consecutiveFailures c = (if ConsecutiveFailures c > 0 then ConsecutiveFailures c else 5)"

definition baseEjection :: "OutlierConfig \<Rightarrow> int" where
  "baseEjection c = (if BaseEjectionMS c > 0 then BaseEjectionMS c else 30000)"

definition maxEjection :: "OutlierConfig \<Rightarrow> int" where
  "maxEjection c = (if MaxEjectionMS c > 0 then MaxEjectionMS c else 300000)"

lemma outlier_tuning_pos [simp]:
  "0 < consecutiveFailures c" "0 < baseEjection c" "0 < maxEjection c"
  by (simp_all add: consecutiveFailures_def baseEjection_def maxEjection_def)

definition zeroOutlierState :: outlierState where
  "zeroOutlierState = \<lparr>consecFails = 0, ejections = 0, ejectedUntil = 0\<rparr>"

definition NewOutlierDetector :: "OutlierConfig \<Rightarrow> OutlierDetector" where
  "NewOutlierDetector c = \<lparr>ocfg = c, ostate = Map.empty\<rparr>"

definition outlier_get :: "OutlierDetector \<Rightarrow> go_id \<Rightarrow> outlierState" where
  "outlier_get d m = (case ostate d m of None \<Rightarrow> zeroOutlierState | Some s \<Rightarrow> s)"

definition record_outcome :: "OutlierConfig \<Rightarrow> outlierState \<Rightarrow> bool \<Rightarrow> go_time \<Rightarrow> outlierState" where
  "record_outcome c s success now =
    (if success then s\<lparr>consecFails := 0\<rparr>
     else
       (let s1 = s\<lparr>consecFails := consecFails s + 1\<rparr>
        in if consecFails s1 \<ge> consecutiveFailures c \<and> now \<ge> ejectedUntil s1 then
             (let n = ejections s1 + 1;
                  window = baseEjection c * n;
                  window' = (if window > maxEjection c then maxEjection c else window)
              in s1\<lparr>ejections := n, ejectedUntil := now + window', consecFails := 0\<rparr>)
           else s1))"

definition Record :: "OutlierDetector \<Rightarrow> go_id \<Rightarrow> bool \<Rightarrow> go_time \<Rightarrow> OutlierDetector" where
  "Record d m success now =
    d\<lparr>ostate := (ostate d)(m \<mapsto> record_outcome (ocfg d) (outlier_get d m) success now)\<rparr>"

definition Ejected :: "OutlierDetector \<Rightarrow> go_id \<Rightarrow> go_time \<Rightarrow> bool" where
  "Ejected d m now = (case ostate d m of None \<Rightarrow> False | Some s \<Rightarrow> now < ejectedUntil s)"

section \<open>The contract of a detector\<close>

locale member_judge =
  fixes fresh :: 'd
    and step :: "'d \<Rightarrow> 'e \<Rightarrow> 'd"
    and subject :: "'e \<Rightarrow> go_id"
    and slice :: "'d \<Rightarrow> go_id \<Rightarrow> 's"
    and hidden :: "'d \<Rightarrow> go_id \<Rightarrow> go_time \<Rightarrow> bool"
  assumes slice_other: "subject e \<noteq> m \<Longrightarrow> slice (step d e) m = slice d m"
    and slice_own: "slice d m = slice d' m \<Longrightarrow> subject e = m \<Longrightarrow> slice (step d e) m = slice (step d' e) m"
    and hidden_slice: "slice d m = slice d' m \<Longrightarrow> hidden d m t = hidden d' m t"
    and fresh_visible: "\<not> hidden fresh m t"
begin

lemma slice_run:
  "slice d m = slice d' m \<Longrightarrow>
     slice (foldl step d es) m = slice (foldl step d' (filter (\<lambda>e. subject e = m) es)) m"
proof (induction es arbitrary: d d')
  case Nil
  then show ?case by simp
next
  case (Cons e es)
  show ?case
  proof (cases "subject e = m")
    case True
    with Cons.IH[OF slice_own[OF Cons.prems True]] show ?thesis by simp
  next
    case False
    then have "slice (step d e) m = slice d' m" by (simp add: slice_other Cons.prems)
    with Cons.IH[OF this] False show ?thesis by simp
  qed
qed

lemma hidden_run_own:
  "hidden (foldl step d es) m t = hidden (foldl step d (filter (\<lambda>e. subject e = m) es)) m t"
  by (rule hidden_slice[OF slice_run]) simp

lemma never_judged_visible:
  assumes "\<forall>e\<in>set es. subject e \<noteq> m"
  shows "\<not> hidden (foldl step fresh es) m t"
proof -
  have "filter (\<lambda>e. subject e = m) es = []"
    using assms by (simp add: filter_empty_conv)
  then show ?thesis
    using hidden_run_own[of fresh es m t] by (simp add: fresh_visible)
qed

end

datatype damp_event = Flap go_id go_time | Ask go_id go_time

fun damp_subject :: "damp_event \<Rightarrow> go_id" where
  "damp_subject (Flap m t) = m"
| "damp_subject (Ask m t) = m"

fun damp_step :: "Damper \<Rightarrow> damp_event \<Rightarrow> Damper" where
  "damp_step d (Flap m t) = Penalize d m t"
| "damp_step d (Ask m t) = snd (Suppressed d m t)"

definition damp_slice :: "Damper \<Rightarrow> go_id \<Rightarrow> DampConfig \<times> dampState option" where
  "damp_slice d m = (dcfg d, dstate d m)"

lemma dcfg_damp_step [simp]: "dcfg (damp_step d e) = dcfg d"
  by (cases e) (auto simp: Penalize_def Suppressed_def Let_def split: option.splits)

interpretation flap: member_judge "NewDamper c" damp_step damp_subject damp_slice "\<lambda>d m t. fst (Suppressed d m t)"
proof unfold_locales
  fix e m d assume "damp_subject e \<noteq> m"
  then show "damp_slice (damp_step d e) m = damp_slice d m"
    by (cases e) (auto simp: damp_slice_def Penalize_def Suppressed_def Let_def split: option.splits)
next
  fix d m d' e assume "damp_slice d m = damp_slice d' m" "damp_subject e = m"
  then show "damp_slice (damp_step d e) m = damp_slice (damp_step d' e) m"
    by (cases e) (auto simp: damp_slice_def Penalize_def Suppressed_def damper_get_def Let_def split: option.splits)
next
  fix d m d' t assume "damp_slice d m = damp_slice d' m"
  then show "fst (Suppressed d m t) = fst (Suppressed d' m t)"
    by (auto simp: damp_slice_def Suppressed_def Let_def split: option.splits)
next
  fix m t show "\<not> fst (Suppressed (NewDamper c) m t)"
    by (simp add: Suppressed_def NewDamper_def)
qed

datatype outlier_event = Outcome go_id bool go_time

fun outlier_subject :: "outlier_event \<Rightarrow> go_id" where
  "outlier_subject (Outcome m s t) = m"

fun outlier_step :: "OutlierDetector \<Rightarrow> outlier_event \<Rightarrow> OutlierDetector" where
  "outlier_step d (Outcome m s t) = Record d m s t"

definition outlier_slice :: "OutlierDetector \<Rightarrow> go_id \<Rightarrow> OutlierConfig \<times> outlierState option" where
  "outlier_slice d m = (ocfg d, ostate d m)"

interpretation outl: member_judge "NewOutlierDetector c" outlier_step outlier_subject outlier_slice Ejected
proof unfold_locales
  fix e m d assume "outlier_subject e \<noteq> m"
  then show "outlier_slice (outlier_step d e) m = outlier_slice d m"
    by (cases e) (auto simp: outlier_slice_def Record_def)
next
  fix d m d' e assume "outlier_slice d m = outlier_slice d' m" "outlier_subject e = m"
  then show "outlier_slice (outlier_step d e) m = outlier_slice (outlier_step d' e) m"
    by (cases e) (auto simp: outlier_slice_def Record_def outlier_get_def)
next
  fix d m d' t assume "outlier_slice d m = outlier_slice d' m"
  then show "Ejected d m t = Ejected d' m t"
    by (auto simp: outlier_slice_def Ejected_def)
next
  fix m t show "\<not> Ejected (NewOutlierDetector c) m t"
    by (simp add: Ejected_def NewOutlierDetector_def)
qed

section \<open>Flap damping: how much it takes to suppress, and for how long\<close>

lemma decay_penalty_le:
  assumes "0 \<le> penalty s"
  shows "0 \<le> penalty (decay c s now)" "penalty (decay c s now) \<le> penalty s"
proof -
  let ?f = "2 powr (- real_of_int (now - lastUpdate s) / real_of_int (halfLife c))"
  have f: "?f \<le> 1" if "now > lastUpdate s"
    using powr_mono[of "- real_of_int (now - lastUpdate s) / real_of_int (halfLife c)" 0 2] that
    by (simp add: divide_nonpos_pos)
  show "0 \<le> penalty (decay c s now)"
    using assms by (simp add: decay_def Let_def)
  show "penalty (decay c s now) \<le> penalty s"
    using f assms mult_left_mono[OF f assms] by (auto simp: decay_def Let_def)
qed

lemma dcfg_run [simp]: "dcfg (foldl damp_step d es) = dcfg d"
  by (induction es rule: rev_induct) simp_all

lemma new_cfg [simp]: "dcfg (NewDamper dc) = dc" "ocfg (NewOutlierDetector oc) = oc"
  by (simp_all add: NewDamper_def NewOutlierDetector_def)

lemma decay_frame [simp]: "suppressed (decay c s now) = suppressed s" "suppSince (decay c s now) = suppSince s"
  by (simp_all add: decay_def Let_def)

definition flaps_of :: "go_id \<Rightarrow> damp_event list \<Rightarrow> nat" where
  "flaps_of m es = length (filter (\<lambda>e. case e of Flap m' t \<Rightarrow> m' = m | Ask _ _ \<Rightarrow> False) es)"

lemma flaps_of_simps [simp]:
  "flaps_of m [] = 0"
  "flaps_of m (es @ [Flap m' t]) = flaps_of m es + (if m' = m then 1 else 0)"
  "flaps_of m (es @ [Ask m' t]) = flaps_of m es"
  by (simp_all add: flaps_of_def)

text \<open>The penalty is at most one flap penalty per recorded flap, whatever the times.\<close>

lemma damper_penalty_bound:
  assumes "dstate (foldl damp_step (NewDamper c) es) m = Some s"
  shows "0 \<le> penalty s \<and> penalty s \<le> real (flaps_of m es) * flapPenalty c"
  using assms
proof (induction es arbitrary: s rule: rev_induct)
  case Nil
  then show ?case by (simp add: NewDamper_def)
next
  case (snoc e es)
  let ?d = "foldl damp_step (NewDamper c) es"
  have cfg: "dcfg ?d = c" by simp
  have old: "0 \<le> penalty (damper_get ?d m) \<and> penalty (damper_get ?d m) \<le> real (flaps_of m es) * flapPenalty c"
    using snoc.IH by (auto simp: damper_get_def zeroDampState_def less_imp_le split: option.splits)
  show ?case
  proof (cases e)
    case (Flap m' t)
    show ?thesis
    proof (cases "m' = m")
      case True
      then have "penalty s = penalty (decay c (damper_get ?d m) t) + flapPenalty c"
        using snoc.prems Flap by (auto simp: Penalize_def Let_def cfg)
      then show ?thesis
        using old decay_penalty_le[of "damper_get ?d m" c t] Flap True
        by (simp add: algebra_simps less_imp_le add_nonneg_pos)
    next
      case False
      then show ?thesis using snoc Flap by (simp add: Penalize_def Let_def)
    qed
  next
    case (Ask m' t)
    show ?thesis
    proof (cases "m' = m")
      case True
      then obtain s0 where s0: "dstate ?d m = Some s0"
        and "penalty s = penalty (decay c s0 t)"
        using snoc.prems Ask
        by (auto simp: Suppressed_def hysteresis_def Let_def cfg split: option.splits if_splits)
      then show ?thesis
        using old decay_penalty_le[of s0 c t] Ask by (simp add: damper_get_def)
    next
      case False
      then show ?thesis using snoc Ask by (auto simp: Suppressed_def Let_def split: option.splits)
    qed
  qed
qed

lemma damper_never_suppressed:
  assumes "real (flaps_of m es) * flapPenalty c \<le> suppressAt c"
    and "dstate (foldl damp_step (NewDamper c) es) m = Some s"
  shows "\<not> suppressed s"
  using assms
proof (induction es arbitrary: s rule: rev_induct)
  case Nil
  then show ?case by (simp add: NewDamper_def)
next
  case (snoc e es)
  let ?d = "foldl damp_step (NewDamper c) es"
  have cfg: "dcfg ?d = c" by simp
  have few: "real (flaps_of m es) * flapPenalty c \<le> suppressAt c"
  proof -
    have "real (flaps_of m es) \<le> real (flaps_of m (es @ [e]))" by (cases e) auto
    then have "real (flaps_of m es) * flapPenalty c \<le> real (flaps_of m (es @ [e])) * flapPenalty c"
      by (simp add: mult_right_mono)
    with snoc.prems(1) show ?thesis by linarith
  qed
  have old: "\<not> suppressed (damper_get ?d m)"
    using snoc.IH[OF few] by (auto simp: damper_get_def zeroDampState_def split: option.splits)
  show ?case
  proof (cases e)
    case (Flap m' t)
    then show ?thesis
      using snoc.prems old snoc.IH[OF few] by (auto simp: Penalize_def Let_def cfg split: if_splits)
  next
    case (Ask m' t)
    show ?thesis
    proof (cases "m' = m \<and> dstate ?d m \<noteq> None")
      case True
      then obtain s0 where s0: "dstate ?d m = Some s0" by auto
      have b: "penalty (decay c s0 t) \<le> suppressAt c"
        using damper_penalty_bound[OF s0] decay_penalty_le(2)[of s0 c t] few by simp
      have "s = hysteresis c (decay c s0 t) t"
        using snoc.prems Ask True s0 by (auto simp: Suppressed_def Let_def cfg)
      then show ?thesis
        using b snoc.IH[OF few s0] by (auto simp: hysteresis_def)
    next
      case False
      then show ?thesis
        using snoc.prems snoc.IH[OF few] Ask by (auto simp: Suppressed_def Let_def split: option.splits if_splits)
    qed
  qed
qed

text \<open>Every query of the member answers that it is suppressed.\<close>

fun all_asks_hidden :: "Damper \<Rightarrow> go_id \<Rightarrow> damp_event list \<Rightarrow> bool" where
  "all_asks_hidden d m [] = True"
| "all_asks_hidden d m (Flap m' t # es) = all_asks_hidden (damp_step d (Flap m' t)) m es"
| "all_asks_hidden d m (Ask m' t # es) =
     ((m' = m \<longrightarrow> fst (Suppressed d m' t)) \<and> all_asks_hidden (damp_step d (Ask m' t)) m es)"

lemma hidden_stretch:
  assumes "dstate d m = Some s" "suppressed s" "all_asks_hidden d m es" "Ask m t \<in> set es"
  shows "t - suppSince s < maxSuppress (dcfg d)"
  using assms
proof (induction es arbitrary: d s)
  case Nil
  then show ?case by simp
next
  case (Cons e es)
  show ?case
  proof (cases e)
    case (Flap m' t')
    let ?d = "damp_step d e"
    obtain s' where s': "dstate ?d m = Some s'" "suppressed s'" "suppSince s' = suppSince s"
      using Cons.prems(1,2) Flap
      by (cases "m' = m") (auto simp: Penalize_def Let_def damper_get_def)
    have "t - suppSince s' < maxSuppress (dcfg ?d)"
      by (rule Cons.IH[OF s'(1,2)]) (use Cons.prems Flap in auto)
    then show ?thesis using s' by simp
  next
    case (Ask m' t')
    show ?thesis
    proof (cases "m' = m")
      case True
      let ?s = "hysteresis (dcfg d) (decay (dcfg d) s t') t'"
      have hid: "suppressed ?s" "dstate (damp_step d e) m = Some ?s"
        using Cons.prems Ask True by (auto simp: Suppressed_def Let_def)
      have stays: "t' - suppSince s < maxSuppress (dcfg d)" "suppSince ?s = suppSince s"
        using hid(1) Cons.prems(2) by (auto simp: hysteresis_def split: if_splits)
      show ?thesis
      proof (cases "Ask m t \<in> set es")
        case True
        have "t - suppSince ?s < maxSuppress (dcfg (damp_step d e))"
          by (rule Cons.IH[OF hid(2,1)]) (use Cons.prems Ask True in auto)
        then show ?thesis using stays by simp
      next
        case False
        then show ?thesis using stays Cons.prems(4) Ask True by auto
      qed
    next
      case False
      have "dstate (damp_step d e) m = Some s"
        using Cons.prems(1) Ask False by (auto simp: Suppressed_def Let_def split: option.splits)
      then have "t - suppSince s < maxSuppress (dcfg (damp_step d e))"
        by (rule Cons.IH) (use Cons.prems Ask False in auto)
      then show ?thesis by simp
    qed
  qed
qed

section \<open>Outlier ejection: what it takes, and how long it lasts\<close>

lemma last_n_takeWhile_rev:
  assumes "n \<le> length (takeWhile P (rev xs))"
  shows "\<forall>x\<in>set (last_n n xs). P x"
proof -
  have "last_n n xs = rev (take n (rev xs))"
    by (simp add: last_n_def take_rev)
  also have "take n (rev xs) = take n (takeWhile P (rev xs))"
    using assms by (metis append_Nil2 diff_is_0_eq take0 take_append takeWhile_dropWhile_id)
  finally show ?thesis
    by (auto dest!: in_set_takeD set_takeWhileD)
qed

fun outcome_failed :: "outlier_event \<Rightarrow> bool" where
  "outcome_failed (Outcome m s t) = (\<not> s)"

fun outcome_time :: "outlier_event \<Rightarrow> go_time" where
  "outcome_time (Outcome m s t) = t"

abbreviation outcomes_of :: "go_id \<Rightarrow> outlier_event list \<Rightarrow> outlier_event list" where
  "outcomes_of m es \<equiv> filter (\<lambda>e. outlier_subject e = m) es"

text \<open>A block of \<open>K\<close> failed outcomes in a row whose last one opened a window that reaches \<open>u\<close>.\<close>

definition eject_block :: "OutlierConfig \<Rightarrow> go_id \<Rightarrow> outlier_event list \<Rightarrow> go_time \<Rightarrow> bool" where
  "eject_block c m es u \<longleftrightarrow>
     (\<exists>pre mid post. outcomes_of m es = pre @ mid @ post
        \<and> int (length mid) = consecutiveFailures c \<and> (\<forall>e\<in>set mid. outcome_failed e)
        \<and> u \<le> outcome_time (last mid) + maxEjection c)"

lemma eject_block_snoc: "eject_block c m es u \<Longrightarrow> eject_block c m (es @ [e]) u"
  unfolding eject_block_def by (auto; metis)

lemma ocfg_run [simp]: "ocfg (foldl outlier_step d es) = ocfg d"
proof (induction es rule: rev_induct)
  case Nil
  then show ?case by simp
next
  case (snoc e es)
  then show ?case by (cases e) (simp add: Record_def)
qed

definition outlier_hist :: "OutlierConfig \<Rightarrow> go_id \<Rightarrow> outlier_event list \<Rightarrow> outlierState \<Rightarrow> bool" where
  "outlier_hist c m es s \<longleftrightarrow>
     0 \<le> consecFails s
     \<and> consecFails s \<le> int (length (takeWhile outcome_failed (rev (outcomes_of m es))))
     \<and> (0 < ejectedUntil s \<longrightarrow> eject_block c m es (ejectedUntil s))"

lemma outlier_hist_run:
  "outlier_hist c m es (outlier_get (foldl outlier_step (NewOutlierDetector c) es) m)"
proof (induction es rule: rev_induct)
  case Nil
  then show ?case
    by (simp add: outlier_hist_def outlier_get_def NewOutlierDetector_def zeroOutlierState_def)
next
  case (snoc e es)
  let ?d = "foldl outlier_step (NewOutlierDetector c) es"
  obtain m' ok t where e: "e = Outcome m' ok t" by (cases e)
  have cfg: "ocfg ?d = c" by simp
  show ?case
  proof (cases "m' = m")
    case False
    then have "outlier_get (outlier_step ?d e) m = outlier_get ?d m"
      by (simp add: e Record_def outlier_get_def)
    then show ?thesis
      using snoc.IH False by (auto simp: outlier_hist_def e intro: eject_block_snoc)
  next
    case True
    define s where "s = outlier_get ?d m"
    have s': "outlier_get (outlier_step ?d e) m = record_outcome c s ok t"
      by (simp add: e Record_def outlier_get_def s_def True cfg)
    have IH: "outlier_hist c m es s" using snoc.IH by (simp add: s_def)
    let ?tail = "length (takeWhile outcome_failed (rev (outcomes_of m es)))"
    have tail: "takeWhile outcome_failed (rev (outcomes_of m (es @ [e])))
        = (if ok then [] else e # takeWhile outcome_failed (rev (outcomes_of m es)))"
      by (simp add: e True)
    have block: "eject_block c m (es @ [e]) (t + w)"
      if "\<not> ok" "consecutiveFailures c \<le> consecFails s + 1" "w \<le> maxEjection c" for w
    proof -
      let ?K = "nat (consecutiveFailures c)"
      let ?xs = "outcomes_of m (es @ [e])"
      have K: "?K \<le> length (takeWhile outcome_failed (rev ?xs))"
        unfolding tail using that(1,2) IH by (auto simp: outlier_hist_def)
      have len: "?K \<le> length ?xs"
        using K length_takeWhile_le[of outcome_failed "rev ?xs"] by simp
      have "?xs = take (length ?xs - ?K) ?xs @ last_n ?K ?xs @ []"
        by (simp only: last_n_def append_take_drop_id append_Nil2)
      moreover have "int (length (last_n ?K ?xs)) = consecutiveFailures c"
        using len by (simp add: min_def less_imp_le del: filter_append)
      moreover have "\<forall>e\<in>set (last_n ?K ?xs). outcome_failed e"
        by (rule last_n_takeWhile_rev[OF K])
      moreover have "last (last_n ?K ?xs) = e"
        by (simp add: e True last_n_snoc)
      ultimately show ?thesis
        unfolding eject_block_def using that(3) e by (metis add_left_mono outcome_time.simps)
    qed
    have "outlier_hist c m (es @ [e]) (record_outcome c s ok t)"
      unfolding outlier_hist_def tail
      using IH block eject_block_snoc[of c m es]
      by (auto simp: record_outcome_def Let_def outlier_hist_def)
    then show ?thesis using s' by simp
  qed
qed

section \<open>Properties\<close>

definition zeroDampConfig :: DampConfig where
  "zeroDampConfig = \<lparr>FlapPenalty = 0, HalfLifeMS = 0, SuppressAt = 0, ReuseAt = 0, MaxSuppressMS = 0\<rparr>"

definition zeroOutlierConfig :: OutlierConfig where
  "zeroOutlierConfig = \<lparr>ConsecutiveFailures = 0, BaseEjectionMS = 0, MaxEjectionMS = 0\<rparr>"

lemmas damper_eval = zeroDampConfig_def NewDamper_def Penalize_def Suppressed_def hysteresis_def decay_def
  damper_get_def zeroDampState_def flapPenalty_def halfLife_def suppressAt_def reuseAt_def maxSuppress_def

lemmas outlier_eval = zeroOutlierConfig_def NewOutlierDetector_def Record_def record_outcome_def
  outlier_get_def zeroOutlierState_def Ejected_def consecutiveFailures_def baseEjection_def maxEjection_def

text \<open>Few flaps never suppress a member: over any interleaving of flaps and queries at any times, a
  member whose recorded flaps are worth at most the suppress threshold (two flaps with the default
  tuning) is never reported suppressed.\<close>

theorem damper_few_flaps:
  assumes "real (flaps_of m es) * flapPenalty c \<le> suppressAt c"
  shows "\<not> fst (Suppressed (foldl damp_step (NewDamper c) es) m t)"
proof (cases "dstate (foldl damp_step (NewDamper c) es) m")
  case None
  then show ?thesis by (simp add: Suppressed_def)
next
  case (Some s)
  let ?s = "hysteresis c (decay c s t) t"
  have "dstate (foldl damp_step (NewDamper c) (es @ [Ask m t])) m = Some ?s"
    using Some by (simp add: Suppressed_def Let_def)
  then have "\<not> suppressed ?s"
    by (rule damper_never_suppressed[rotated]) (use assms in simp)
  with Some show ?thesis by (simp add: Suppressed_def Let_def)
qed

theorem damper_few_flaps_witness:
  "\<not> fst (Suppressed (foldl damp_step (NewDamper zeroDampConfig)
      [Flap ''a'' 10, Flap ''b'' 11, Ask ''a'' 12, Flap ''a'' 13]) ''a'' 14)"
  by (rule damper_few_flaps) (simp add: flaps_of_def zeroDampConfig_def flapPenalty_def suppressAt_def)

text \<open>Suppression is bounded: when a query at \<open>t0\<close> starts a suppression and every later query of
  the member answers suppressed, all those queries lie within the max-suppress cap after \<open>t0\<close>, however
  many flaps are recorded in between.\<close>

theorem damper_suppression_bounded:
  assumes "fst (Suppressed d m t0)"
    and "\<forall>s. dstate d m = Some s \<longrightarrow> \<not> suppressed s"
    and "all_asks_hidden (snd (Suppressed d m t0)) m es"
    and "Ask m t \<in> set es"
  shows "t - t0 < maxSuppress (dcfg d)"
proof -
  obtain s where s: "dstate d m = Some s"
    using assms(1) by (auto simp: Suppressed_def split: option.splits)
  let ?s = "hysteresis (dcfg d) (decay (dcfg d) s t0) t0"
  have new: "suppressed ?s" "dstate (snd (Suppressed d m t0)) m = Some ?s"
    using assms(1) s by (auto simp: Suppressed_def Let_def)
  have "suppSince ?s = t0"
    using new(1) assms(2) s by (auto simp: hysteresis_def split: if_splits)
  then show ?thesis
    using hidden_stretch[OF new(2,1) assms(3,4)] dcfg_damp_step[of d "Ask m t0"] by simp
qed

theorem damper_suppression_bounded_witness:
  "(5::int) - 5 < maxSuppress zeroDampConfig"
proof -
  let ?d = "foldl damp_step (NewDamper zeroDampConfig) [Flap ''a'' 5, Flap ''a'' 5, Flap ''a'' 5]"
  have "fst (Suppressed ?d ''a'' 5)"
    "\<forall>s. dstate ?d ''a'' = Some s \<longrightarrow> \<not> suppressed s"
    "all_asks_hidden (snd (Suppressed ?d ''a'' 5)) ''a'' [Flap ''a'' 5, Ask ''a'' 5]"
    "Ask ''a'' 5 \<in> set [Flap ''a'' 5, Ask ''a'' 5]"
    by (simp_all add: damper_eval Let_def)
  from damper_suppression_bounded[OF this] show ?thesis by simp
qed

text \<open>Ejection is earned and expires: a member that is ejected at time \<open>t\<close> has, somewhere in the
  record of its own outcomes, \<open>ConsecutiveFailures\<close> failed outcomes in a row, and \<open>t\<close> lies less than the
  maximal window after the last of them. Outcomes of other members play no part.\<close>

theorem outlier_ejection_earned:
  assumes "Ejected (foldl outlier_step (NewOutlierDetector c) es) m t" and "0 \<le> t"
  shows "\<exists>pre mid post. outcomes_of m es = pre @ mid @ post
     \<and> int (length mid) = consecutiveFailures c \<and> (\<forall>e\<in>set mid. outcome_failed e)
     \<and> t < outcome_time (last mid) + maxEjection c"
proof -
  let ?s = "outlier_get (foldl outlier_step (NewOutlierDetector c) es) m"
  have t: "t < ejectedUntil ?s"
    using assms(1) by (auto simp: Ejected_def outlier_get_def split: option.splits)
  then have "eject_block c m es (ejectedUntil ?s)"
    using outlier_hist_run[of c m es] assms(2) by (simp add: outlier_hist_def)
  then obtain pre mid post where "outcomes_of m es = pre @ mid @ post"
    "int (length mid) = consecutiveFailures c" "\<forall>e\<in>set mid. outcome_failed e"
    "ejectedUntil ?s \<le> outcome_time (last mid) + maxEjection c"
    unfolding eject_block_def by blast
  with t have "outcomes_of m es = pre @ mid @ post \<and> int (length mid) = consecutiveFailures c
      \<and> (\<forall>e\<in>set mid. outcome_failed e) \<and> t < outcome_time (last mid) + maxEjection c"
    by simp
  then show ?thesis by blast
qed

definition sampleOutcomes :: "outlier_event list" where
  "sampleOutcomes = [Outcome ''a'' False 1, Outcome ''a'' False 2, Outcome ''b'' True 3, Outcome ''a'' False 4]"

theorem outlier_ejection_earned_witness:
  "\<exists>mid. int (length mid) = 3 \<and> (\<forall>e\<in>set mid. outcome_failed e) \<and> 10 < outcome_time (last mid) + 300000"
proof -
  let ?c = "zeroOutlierConfig\<lparr>ConsecutiveFailures := 3\<rparr>"
  have K: "consecutiveFailures ?c = 3" "maxEjection ?c = 300000"
    by (simp_all add: zeroOutlierConfig_def consecutiveFailures_def maxEjection_def)
  have ej: "Ejected (foldl outlier_step (NewOutlierDetector ?c) sampleOutcomes) ''a'' 10"
    by (simp add: sampleOutcomes_def outlier_eval Let_def)
  have "(0::int) \<le> 10" by simp
  from outlier_ejection_earned[OF ej this] show ?thesis unfolding K by blast
qed

end
