(* ===== verification/Failover_Runner.thy ===== *)
theory Failover_Runner
  imports Failover_Controller Failover_Detectors
begin

text \<open>
  The control loop of managed failover groups, \<open>internal/failover/runner.go\<close>. The interfaces the
  runner calls (the health source, the live selector, the real-traffic failure source) have no
  implementation it is tied to, so a tick takes their answers as an environment: what the \<open>k\<close>-th group
  of the tick reads and whether its \<open>Select\<close> succeeds. Calls into the selector are emitted as effects.

  The group loop is split as the code is: \<open>filteredHealth\<close> (observe, then hide), the decision, and the
  hold/commit part.
\<close>

section \<open>Data\<close>

record GroupSpec =
  gsID :: go_id
  gsPolicy :: policy
  gsMembers :: "go_id list"
  gsCfg :: Config

record Switch =
  swGroup :: go_id
  swFrom :: go_id
  swTo :: go_id
  swReason :: string
  swEmergency :: bool

record pendingSwitch =
  psTo :: go_id
  psSince :: go_time

text \<open>\<open>failures\<close> tells whether a \<open>FailureSource\<close> is wired; nil detectors are \<open>None\<close>.\<close>

record Runner =
  lastSwitch :: "go_id \<rightharpoonup> go_time"
  pending :: "go_id \<rightharpoonup> pendingSwitch"
  damper :: "Damper option"
  lastAlive :: "go_id \<rightharpoonup> bool"
  outlier :: "OutlierDetector option"
  failures :: bool

definition NewRunner :: Runner where
  "NewRunner = \<lparr>lastSwitch = Map.empty, pending = Map.empty,
     damper = Some (NewDamper zeroDampConfig), lastAlive = Map.empty,
     outlier = Some (NewOutlierDetector zeroOutlierConfig), failures = False\<rparr>"

definition SetFailureSource :: "Runner \<Rightarrow> bool \<Rightarrow> Runner" where
  "SetFailureSource r wired = r\<lparr>failures := wired\<rparr>"

text \<open>What the \<open>k\<close>-th group of one tick gets from the interfaces. \<open>teFailing\<close> is the map of
  \<open>Failing()\<close>, \<open>None\<close> standing for a nil map.\<close>

record TickEnv =
  teHealth :: "nat \<Rightarrow> go_id list \<Rightarrow> MemberHealth list"
  teCurrent :: "nat \<Rightarrow> go_id \<Rightarrow> go_id"
  teFailing :: "nat \<Rightarrow> (go_id \<Rightarrow> bool) option"
  teSelect :: "nat \<Rightarrow> go_id \<Rightarrow> go_id \<Rightarrow> bool"

datatype effect = SelectCall go_id go_id | InterruptCall go_id

section \<open>The filtered view\<close>

definition penalize_opt :: "Damper option \<Rightarrow> go_id \<Rightarrow> go_time \<Rightarrow> Damper option" where
  "penalize_opt d m now = map_option (\<lambda>d. Penalize d m now) d"

definition ejected_opt :: "OutlierDetector option \<Rightarrow> go_id \<Rightarrow> go_time \<Rightarrow> bool" where
  "ejected_opt o' m now = (case o' of None \<Rightarrow> False | Some d \<Rightarrow> Ejected d m now)"

text \<open>First loop: flaps and real-traffic outcomes of this tick enter the detectors; an outcome is
  recorded at most once per tick and member.\<close>

definition observe_member ::
  "(go_id \<Rightarrow> bool) option \<Rightarrow> go_time \<Rightarrow> MemberHealth \<Rightarrow> Runner \<times> go_id set \<Rightarrow> Runner \<times> go_id set" where
  "observe_member failing now mh st =
    (let (r, recorded) = st;
         r1 = (if lastAlive r (mhID mh) = Some True \<and> \<not> mhAlive mh
               then r\<lparr>damper := penalize_opt (damper r) (mhID mh) now\<rparr> else r);
         r2 = r1\<lparr>lastAlive := (lastAlive r1)(mhID mh \<mapsto> mhAlive mh)\<rparr>
     in case failing of
          None \<Rightarrow> (r2, recorded)
        | Some f \<Rightarrow>
           (if mhID mh \<in> recorded then (r2, recorded)
            else (r2\<lparr>outlier := map_option (\<lambda>d. Record d (mhID mh) (\<not> f (mhID mh)) now) (outlier r2)\<rparr>,
                  insert (mhID mh) recorded)))"

fun observe_members ::
  "(go_id \<Rightarrow> bool) option \<Rightarrow> go_time \<Rightarrow> MemberHealth list \<Rightarrow> Runner \<times> go_id set \<Rightarrow> Runner \<times> go_id set" where
  "observe_members failing now [] st = st"
| "observe_members failing now (mh # mhs) st =
     observe_members failing now mhs (observe_member failing now mh st)"

text \<open>Second loop: an alive member that is suppressed or ejected is shown as not alive. The query of
  the damper advances its state; \<open>||\<close> asks the outlier detector only when the damper says no.\<close>

fun hide_members ::
  "bool \<Rightarrow> go_time \<Rightarrow> MemberHealth list \<Rightarrow> Damper \<Rightarrow> OutlierDetector option \<Rightarrow> MemberHealth list \<times> Damper" where
  "hide_members useOutlier now [] d o' = ([], d)"
| "hide_members useOutlier now (mh # mhs) d o' =
     (if mhAlive mh then
        (let (supp, d1) = Suppressed d (mhID mh) now;
             hid = (supp \<or> (useOutlier \<and> ejected_opt o' (mhID mh) now));
             (rest, d2) = hide_members useOutlier now mhs d1 o'
         in ((if hid then mh\<lparr>mhAlive := False\<rparr> else mh) # rest, d2))
      else
        (let (rest, d2) = hide_members useOutlier now mhs d o' in (mh # rest, d2)))"

definition failing_map :: "Runner \<Rightarrow> (go_id \<Rightarrow> bool) option \<Rightarrow> (go_id \<Rightarrow> bool) option" where
  "failing_map r src = (if failures r \<and> outlier r \<noteq> None then src else None)"

definition filteredHealth ::
  "Runner \<Rightarrow> (go_id \<Rightarrow> bool) option \<Rightarrow> MemberHealth list \<Rightarrow> go_time \<Rightarrow> go_id set
     \<Rightarrow> MemberHealth list \<times> Runner \<times> go_id set" where
  "filteredHealth r src health now recorded =
    (case damper r of
       None \<Rightarrow> (health, r, recorded)
     | Some _ \<Rightarrow>
        (let failing = failing_map r src;
             (r1, recorded1) = observe_members failing now health (r, recorded)
         in case damper r1 of
              None \<Rightarrow> (health, r1, recorded1)
            | Some d \<Rightarrow>
               (let (out, d2) = hide_members (failing \<noteq> None) now health d (outlier r1);
                    aliveBefore = length (filter mhAlive health);
                    aliveAfter = length (filter mhAlive out)
                in (if aliveBefore > 0 \<and> aliveAfter = 0 then health else out,
                    r1\<lparr>damper := Some d2\<rparr>, recorded1))))"

section \<open>The verdict about the incumbent\<close>

definition currentDeadOrEmpty :: "go_id \<Rightarrow> MemberHealth list \<Rightarrow> bool" where
  "currentDeadOrEmpty current health =
    (if current = '''' then True
     else case find (\<lambda>m. mhID m = current) health of Some m \<Rightarrow> \<not> mhAlive m | None \<Rightarrow> True)"

definition currentEjected :: "Runner \<Rightarrow> go_id \<Rightarrow> go_time \<Rightarrow> bool" where
  "currentEjected r current now \<longleftrightarrow> current \<noteq> '''' \<and> failures r \<and> ejected_opt (outlier r) current now"

section \<open>One group of a tick\<close>

definition tick_decide ::
  "TickEnv \<Rightarrow> nat \<Rightarrow> GroupSpec \<Rightarrow> go_time \<Rightarrow> Runner \<Rightarrow> go_id set
     \<Rightarrow> (go_id \<times> string \<times> bool) \<times> bool \<times> Runner \<times> go_id set" where
  "tick_decide env k g now r recorded =
    (let from' = teCurrent env k (gsID g);
         health = teHealth env k (gsMembers g);
         rawCurrentAlive = (\<not> (currentDeadOrEmpty from' health \<or> currentEjected r from' now));
         (view, r1, recorded1) = filteredHealth r (teFailing env k) health now recorded
     in (Decide \<lparr>diPolicy = gsPolicy g, diMembers = view, diCurrent = from',
                 diLastSwitch = mget (lastSwitch r1) (gsID g) 0, diNow = now, diCfg = gsCfg g,
                 diCurrentRawAlive = Some rawCurrentAlive\<rparr>,
         rawCurrentAlive, r1, recorded1))"

text \<open>Hold, apply and account: the rest of the loop body, given the decision.\<close>

definition tick_commit ::
  "TickEnv \<Rightarrow> nat \<Rightarrow> GroupSpec \<Rightarrow> go_time \<Rightarrow> go_id \<times> string \<times> bool \<Rightarrow> bool \<Rightarrow> Runner
     \<Rightarrow> Runner \<times> Switch option \<times> effect list" where
  "tick_commit env k g now dec rawCurrentAlive r =
    (let (desired, reason, changed) = dec;
         gid = gsID g;
         emergency = (\<not> rawCurrentAlive)
     in if \<not> changed then (r\<lparr>pending := (pending r)(gid := None)\<rparr>, None, [])
        else if \<not> emergency \<and>
             (case pending r gid of None \<Rightarrow> True | Some p \<Rightarrow> psTo p \<noteq> desired) then
          (r\<lparr>pending := (pending r)(gid \<mapsto> \<lparr>psTo = desired, psSince = now\<rparr>)\<rparr>, None, [])
        else if \<not> emergency \<and>
             (case pending r gid of None \<Rightarrow> False | Some p \<Rightarrow> now - psSince p < failbackHold (gsCfg g)) then
          (r, None, [])
        else if \<not> teSelect env k gid desired then (r, None, [SelectCall gid desired])
        else
          (r\<lparr>lastSwitch := (lastSwitch r)(gid \<mapsto> now), pending := (pending r)(gid := None)\<rparr>,
           Some \<lparr>swGroup = gid, swFrom = teCurrent env k gid, swTo = desired, swReason = reason,
                 swEmergency = emergency\<rparr>,
           SelectCall gid desired # (if emergency then [InterruptCall gid] else [])))"

definition tick_group ::
  "TickEnv \<Rightarrow> nat \<Rightarrow> GroupSpec \<Rightarrow> go_time \<Rightarrow> Runner \<times> go_id set
     \<Rightarrow> (Runner \<times> go_id set) \<times> Switch option \<times> effect list" where
  "tick_group env k g now st =
    (let (r, recorded) = st;
         (dec, raw, r1, recorded1) = tick_decide env k g now r recorded;
         (r2, sw, effs) = tick_commit env k g now dec raw r1
     in ((r2, recorded1), sw, effs))"

fun tick_groups ::
  "TickEnv \<Rightarrow> nat \<Rightarrow> GroupSpec list \<Rightarrow> go_time \<Rightarrow> Runner \<times> go_id set
     \<Rightarrow> Runner \<times> Switch list \<times> effect list" where
  "tick_groups env k [] now st = (fst st, [], [])"
| "tick_groups env k (g # gs) now st =
     (let (st1, sw, effs) = tick_group env k g now st;
          (r', sws, effs') = tick_groups env (Suc k) gs now st1
      in (r', (case sw of None \<Rightarrow> sws | Some s \<Rightarrow> s # sws), effs @ effs'))"

text \<open>\<open>None\<close> as the environment stands for a nil health source or selector.\<close>

definition Tick :: "Runner \<Rightarrow> GroupSpec list \<Rightarrow> TickEnv option \<Rightarrow> go_time \<Rightarrow> Runner \<times> Switch list \<times> effect list" where
  "Tick r groups env now =
    (case env of
       None \<Rightarrow> (r, [], [])
     | Some e \<Rightarrow> (if groups = [] then (r, [], []) else tick_groups e 0 groups now (r, {})))"

section \<open>The filtered view\<close>

text \<open>Hiding keeps order, ids and latencies and only turns alive members off.\<close>

definition weaker_view :: "MemberHealth list \<Rightarrow> MemberHealth list \<Rightarrow> bool" where
  "weaker_view out health \<longleftrightarrow> list_all2 (\<lambda>o' h. mhID o' = mhID h \<and> mhLatencyMs o' = mhLatencyMs h
      \<and> (mhAlive o' \<longrightarrow> mhAlive h)) out health"

lemma weaker_view_refl [simp]: "weaker_view h h"
  by (simp add: weaker_view_def list.rel_refl)

lemma hide_members_weaker: "weaker_view (fst (hide_members u now hs d o')) hs"
  by (induction u now hs d o' rule: hide_members.induct)
    (auto simp: weaker_view_def Let_def split: prod.splits)

lemma weaker_view_ids: "weaker_view out hs \<Longrightarrow> map mhID out = map mhID hs"
  unfolding weaker_view_def by (induction rule: list_all2_induct) auto

lemma weaker_view_alive:
  "weaker_view out hs \<Longrightarrow> m \<in> set out \<Longrightarrow> mhAlive m \<Longrightarrow> \<exists>h\<in>set hs. mhID h = mhID m \<and> mhAlive h"
  unfolding weaker_view_def by (induction rule: list_all2_induct) auto

lemma filteredHealth_cases:
  obtains (raw) "fst (filteredHealth r src hs now rec) = hs"
  | (hidden) u d o' where "fst (filteredHealth r src hs now rec) = fst (hide_members u now hs d o')"
      "filter mhAlive hs \<noteq> [] \<longrightarrow> filter mhAlive (fst (hide_members u now hs d o')) \<noteq> []"
proof (cases "damper r")
  case None
  then show ?thesis by (auto simp: filteredHealth_def intro: raw)
next
  case (Some d0)
  obtain r1 rec1 where o': "observe_members (failing_map r src) now hs (r, rec) = (r1, rec1)" by fastforce
  show ?thesis
  proof (cases "damper r1")
    case None
    with Some o' show ?thesis by (auto simp: filteredHealth_def intro: raw)
  next
    case (Some d)
    obtain out d2 where h: "hide_members (failing_map r src \<noteq> None) now hs d (outlier r1) = (out, d2)"
      by fastforce
    show ?thesis
    proof (cases "filter mhAlive hs \<noteq> [] \<and> filter mhAlive out = []")
      case True
      with Some \<open>damper r = Some d0\<close> o' h show ?thesis
        by (auto simp: filteredHealth_def intro: raw)
    next
      case False
      with Some \<open>damper r = Some d0\<close> o' h
      have "fst (filteredHealth r src hs now rec) = out" by (auto simp: filteredHealth_def)
      with False h show ?thesis by (metis hidden fst_conv)
    qed
  qed
qed

lemma filteredHealth_view: "weaker_view (fst (filteredHealth r src hs now rec)) hs"
  by (rule filteredHealth_cases[of r src hs now rec]) (simp_all add: hide_members_weaker)

lemma filteredHealth_keeps_one:
  assumes "\<exists>m\<in>set hs. mhAlive m"
  shows "\<exists>m\<in>set (fst (filteredHealth r src hs now rec)). mhAlive m"
proof (rule filteredHealth_cases[of r src hs now rec])
  show ?thesis if "fst (filteredHealth r src hs now rec) = hs" using assms that by simp
next
  fix u d o'
  assume "fst (filteredHealth r src hs now rec) = fst (hide_members u now hs d o')"
    "filter mhAlive hs \<noteq> [] \<longrightarrow> filter mhAlive (fst (hide_members u now hs d o')) \<noteq> []"
  then show ?thesis using assms by (metis (mono_tags, lifting) filter_empty_conv)
qed

section \<open>What the loop leaves alone\<close>

lemma observe_member_frame [simp]:
  "lastSwitch (fst (observe_member f now mh st)) = lastSwitch (fst st)"
  "pending (fst (observe_member f now mh st)) = pending (fst st)"
  "failures (fst (observe_member f now mh st)) = failures (fst st)"
  by (auto simp: observe_member_def Let_def split: prod.splits option.splits)

lemma observe_members_frame [simp]:
  "lastSwitch (fst (observe_members f now mhs st)) = lastSwitch (fst st)"
  "pending (fst (observe_members f now mhs st)) = pending (fst st)"
  "failures (fst (observe_members f now mhs st)) = failures (fst st)"
  by (induction mhs arbitrary: st) simp_all

lemma filteredHealth_frame:
  assumes "filteredHealth r src hs now rec = (v, r1, rec1)"
  shows "lastSwitch r1 = lastSwitch r" "pending r1 = pending r" "failures r1 = failures r"
proof -
  let ?f = "failing_map r src"
  obtain r' rec' where o': "observe_members ?f now hs (r, rec) = (r', rec')" by fastforce
  have "lastSwitch r' = lastSwitch r \<and> pending r' = pending r \<and> failures r' = failures r"
    using observe_members_frame[of ?f now hs "(r, rec)"] o' by simp
  then show "lastSwitch r1 = lastSwitch r" "pending r1 = pending r" "failures r1 = failures r"
    using assms o' by (auto simp: filteredHealth_def Let_def split: option.splits prod.splits)
qed

section \<open>The outcomes of the commit part\<close>

lemma tick_commit_cases:
  assumes "tick_commit env k g now (desired, reason, changed) raw r = (r2, sw, effs)"
  obtains (quiet) "\<not> changed" "r2 = r\<lparr>pending := (pending r)(gsID g := None)\<rparr>" "sw = None" "effs = []"
  | (start) "changed" "raw" "sw = None" "effs = []"
      "r2 = r\<lparr>pending := (pending r)(gsID g \<mapsto> \<lparr>psTo = desired, psSince = now\<rparr>)\<rparr>"
  | (keep) "changed" "r2 = r" "sw = None"
      "\<forall>p. raw \<and> pending r (gsID g) = Some p \<longrightarrow> psTo p = desired" "\<not> raw \<longrightarrow> effs = [SelectCall (gsID g) desired]"
  | (commit) "changed" "teSelect env k (gsID g) desired"
      "r2 = r\<lparr>lastSwitch := (lastSwitch r)(gsID g \<mapsto> now), pending := (pending r)(gsID g := None)\<rparr>"
      "sw = Some \<lparr>swGroup = gsID g, swFrom = teCurrent env k (gsID g), swTo = desired,
                  swReason = reason, swEmergency = (\<not> raw)\<rparr>"
      "effs = SelectCall (gsID g) desired # (if raw then [] else [InterruptCall (gsID g)])"
      "raw \<longrightarrow> (\<exists>p. pending r (gsID g) = Some p \<and> psTo p = desired
                 \<and> failbackHold (gsCfg g) \<le> now - psSince p)"
proof (cases "changed")
  case False
  then show thesis using assms quiet by (simp add: tick_commit_def)
next
  case ch: True
  show thesis
  proof (cases "raw \<and> (case pending r (gsID g) of None \<Rightarrow> True | Some p \<Rightarrow> psTo p \<noteq> desired)")
    case True
    then show thesis using assms start ch by (simp add: tick_commit_def)
  next
    case nostart: False
    show thesis
    proof (cases "(raw \<and> (case pending r (gsID g) of None \<Rightarrow> False
        | Some p \<Rightarrow> now - psSince p < failbackHold (gsCfg g))) \<or> \<not> teSelect env k (gsID g) desired")
      case True
      have "r2 = r" "sw = None" "\<not> raw \<longrightarrow> effs = [SelectCall (gsID g) desired]"
        using assms ch nostart True by (auto simp: tick_commit_def Let_def split: if_splits)
      then show thesis using ch nostart by (intro keep) auto
    next
      case False
      then show thesis
        using assms ch nostart by (intro commit) (auto simp: tick_commit_def Let_def split: option.splits)
    qed
  qed
qed

section \<open>The log of a run\<close>

text \<open>
  One entry per visited group: what \<open>Decide\<close> wanted (when it reported a change), whether the loop took
  it for an emergency, the switch it committed, and whether it asked the selector and was refused.
\<close>

record GroupLog =
  glNow :: go_time
  glGroup :: go_id
  glCfg :: Config
  glWant :: "go_id option"
  glEmergency :: bool
  glSwitch :: "Switch option"
  glRefused :: bool

definition group_log :: "TickEnv \<Rightarrow> nat \<Rightarrow> GroupSpec \<Rightarrow> go_time \<Rightarrow> Runner \<times> go_id set \<Rightarrow> GroupLog" where
  "group_log env k g now st =
    (let (r, recorded) = st;
         ((desired, reason, changed), raw, r1, recorded1) = tick_decide env k g now r recorded;
         (r2, sw, effs) = tick_commit env k g now (desired, reason, changed) raw r1
     in \<lparr>glNow = now, glGroup = gsID g, glCfg = gsCfg g,
         glWant = (if changed then Some desired else None),
         glEmergency = (\<not> raw), glSwitch = sw, glRefused = (effs \<noteq> [] \<and> sw = None)\<rparr>)"

fun tick_log :: "TickEnv \<Rightarrow> nat \<Rightarrow> GroupSpec list \<Rightarrow> go_time \<Rightarrow> Runner \<times> go_id set \<Rightarrow> GroupLog list" where
  "tick_log env k [] now st = []"
| "tick_log env k (g # gs) now st =
     group_log env k g now st # tick_log env (Suc k) gs now (fst (tick_group env k g now st))"

type_synonym tick = "GroupSpec list \<times> TickEnv option \<times> go_time"

fun run_ticks :: "Runner \<Rightarrow> tick list \<Rightarrow> Runner" where
  "run_ticks r [] = r"
| "run_ticks r ((gs, env, now) # ts) = run_ticks (fst (Tick r gs env now)) ts"

fun run_log :: "Runner \<Rightarrow> tick list \<Rightarrow> GroupLog list" where
  "run_log r [] = []"
| "run_log r ((gs, env, now) # ts) =
     (case env of None \<Rightarrow> [] | Some e \<Rightarrow> tick_log e 0 gs now (r, {}))
     @ run_log (fst (Tick r gs env now)) ts"

text \<open>The log holds exactly the switches that the ticks return.\<close>

lemma tick_group_switch: "fst (snd (tick_group env k g now st)) = glSwitch (group_log env k g now st)"
  by (cases st) (auto simp: tick_group_def group_log_def Let_def split: prod.splits)

lemma tick_groups_log:
  "fst (snd (tick_groups env k gs now st)) = List.map_filter glSwitch (tick_log env k gs now st)"
proof (induction gs arbitrary: k st)
  case Nil
  then show ?case by simp
next
  case (Cons g gs)
  obtain st1 sw effs where t: "tick_group env k g now st = (st1, sw, effs)" by (cases "tick_group env k g now st")
  obtain r' sws effs' where ts: "tick_groups env (Suc k) gs now st1 = (r', sws, effs')"
    by (cases "tick_groups env (Suc k) gs now st1")
  have "sw = glSwitch (group_log env k g now st)" using tick_group_switch[of env k g now st] t by simp
  then show ?case using Cons[of "Suc k" st1] t ts by (simp split: option.splits)
qed

section \<open>Dwell and hold over a run\<close>

abbreviation own :: "go_id \<Rightarrow> GroupLog list \<Rightarrow> GroupLog list" where
  "own gid L \<equiv> filter (\<lambda>e. glGroup e = gid) L"

definition last_commit :: "GroupLog list \<Rightarrow> go_id \<Rightarrow> go_time option" where
  "last_commit L gid =
     (case filter (\<lambda>e. glSwitch e \<noteq> None) (own gid L) of [] \<Rightarrow> None | es \<Rightarrow> Some (glNow (last es)))"

lemma last_commit_Nil [simp]: "last_commit [] gid = None"
  by (simp add: last_commit_def)

lemma last_commit_snoc [simp]:
  "last_commit (L @ [e]) gid =
     (if glGroup e = gid \<and> glSwitch e \<noteq> None then Some (glNow e) else last_commit L gid)"
proof -
  have "(case xs @ [e] of [] \<Rightarrow> None | es \<Rightarrow> Some (glNow (last es))) = Some (glNow e)" for xs
    by (cases xs) auto
  then show ?thesis by (simp add: last_commit_def)
qed

text \<open>A hold in progress: since its start, no commit, and every visit wanted its target, except an emergency
  visit that asked the selector for another member and was refused. The first visit wanted the target.\<close>

definition wanting :: "go_id option \<Rightarrow> GroupLog \<Rightarrow> bool" where
  "wanting w e \<longleftrightarrow> glSwitch e = None \<and> (glWant e = w \<or> glEmergency e \<and> glRefused e \<and> glWant e \<noteq> None)"

definition held :: "GroupLog list \<Rightarrow> go_id \<Rightarrow> pendingSwitch \<Rightarrow> bool" where
  "held L gid p \<longleftrightarrow> (\<exists>pre e0 es. own gid L = pre @ e0 # es \<and> glNow e0 = psSince p \<and> glWant e0 = Some (psTo p)
     \<and> (\<forall>e\<in>set (e0 # es). wanting (Some (psTo p)) e))"

lemma held_extend:
  assumes "held L gid p" "glGroup e = gid" "wanting (Some (psTo p)) e"
  shows "held (L @ [e]) gid p"
proof -
  obtain pre e0 es where "own gid L = pre @ e0 # es" "glNow e0 = psSince p" "glWant e0 = Some (psTo p)"
    "\<forall>e\<in>set (e0 # es). wanting (Some (psTo p)) e"
    using assms(1) unfolding held_def by blast
  then have "own gid (L @ [e]) = pre @ e0 # (es @ [e]) \<and> glNow e0 = psSince p \<and> glWant e0 = Some (psTo p)
    \<and> (\<forall>e\<in>set (e0 # es @ [e]). wanting (Some (psTo p)) e)"
    using assms(2-) by auto
  then show ?thesis unfolding held_def by blast
qed

lemma held_start:
  "glGroup e = gid \<Longrightarrow> glSwitch e = None \<Longrightarrow> glNow e = psSince p \<Longrightarrow> glWant e = Some (psTo p) \<Longrightarrow>
     held (L @ [e]) gid p"
  unfolding held_def by (intro exI[of _ "own gid L"] exI[of _ e] exI[of _ "[]"]) (simp add: wanting_def)

lemma held_other: "held L gid p \<Longrightarrow> glGroup e \<noteq> gid \<Longrightarrow> held (L @ [e]) gid p"
  unfolding held_def by simp

definition dwell_ok :: "GroupLog list \<Rightarrow> GroupLog \<Rightarrow> bool" where
  "dwell_ok L e \<longleftrightarrow> (\<forall>t. last_commit L (glGroup e) = Some t \<and> 0 < t \<longrightarrow> minDwell (glCfg e) \<le> glNow e - t)"

definition hold_ok :: "GroupLog list \<Rightarrow> GroupLog \<Rightarrow> bool" where
  "hold_ok L e \<longleftrightarrow> (\<exists>pre e0 es. own (glGroup e) L = pre @ e0 # es
     \<and> failbackHold (glCfg e) \<le> glNow e - glNow e0 \<and> glWant e0 = glWant e
     \<and> (\<forall>e'\<in>set (e0 # es). wanting (glWant e) e'))"

definition runner_hist :: "Runner \<Rightarrow> GroupLog list \<Rightarrow> bool" where
  "runner_hist r L \<longleftrightarrow> (\<forall>gid. lastSwitch r gid = last_commit L gid)
     \<and> (\<forall>gid p. pending r gid = Some p \<longrightarrow> held L gid p)"

lemma runner_hist_init: "runner_hist NewRunner []"
  by (simp add: runner_hist_def NewRunner_def)

text \<open>One visit keeps the history and commits a graceful switch only after dwell and hold.\<close>

lemma tick_group_hist:
  assumes hist: "runner_hist (fst st) L"
  shows "runner_hist (fst (fst (tick_group env k g now st))) (L @ [group_log env k g now st])"
    and "glSwitch (group_log env k g now st) \<noteq> None \<Longrightarrow> \<not> glEmergency (group_log env k g now st) \<Longrightarrow>
      dwell_ok L (group_log env k g now st) \<and> hold_ok L (group_log env k g now st)"
proof -
  obtain r rec where st: "st = (r, rec)" by (cases st)
  obtain desired reason changed raw r1 rec1 where
    dec: "tick_decide env k g now r rec = ((desired, reason, changed), raw, r1, rec1)"
    by (cases "tick_decide env k g now r rec") auto
  obtain r2 sw effs where com: "tick_commit env k g now (desired, reason, changed) raw r1 = (r2, sw, effs)"
    by (cases "tick_commit env k g now (desired, reason, changed) raw r1")
  define e where "e = group_log env k g now st"
  have e: "glNow e = now" "glGroup e = gsID g" "glCfg e = gsCfg g" "glEmergency e = (\<not> raw)"
    "glSwitch e = sw" "glWant e = (if changed then Some desired else None)" "glRefused e = (effs \<noteq> [] \<and> sw = None)"
    by (simp_all add: e_def group_log_def st dec com)
  have new: "fst (fst (tick_group env k g now st)) = r2"
    by (simp add: tick_group_def st dec com)
  have frame: "lastSwitch r1 = lastSwitch r" "pending r1 = pending r"
    using dec filteredHealth_frame[of r "teFailing env k" "teHealth env k (gsMembers g)" now rec]
    by (auto simp: tick_decide_def Let_def split: prod.splits)
  have ls: "\<And>gid. lastSwitch r1 gid = last_commit L gid"
    and pe: "\<And>gid p. pending r1 gid = Some p \<Longrightarrow> held L gid p"
    using hist by (auto simp: runner_hist_def st frame)
  have others: "held (L @ [e]) gid p" if "gid \<noteq> gsID g" "pending r1 gid = Some p" for gid p
    using held_other[OF pe[OF that(2)]] that(1) e by auto
  have "runner_hist r2 (L @ [e])"
    using com
  proof (cases rule: tick_commit_cases)
    case quiet
    then show ?thesis using ls others e by (auto simp: runner_hist_def)
  next
    case start
    then show ?thesis using ls others e held_start[of e "gsID g" _ L] by (auto simp: runner_hist_def)
  next
    case keep
    have ext: "held (L @ [e]) (gsID g) p" if "pending r1 (gsID g) = Some p" for p
      by (rule held_extend[OF pe[OF that]]) (use that keep e in \<open>auto simp: wanting_def\<close>)
    then have "pending r1 gid = Some p \<Longrightarrow> held (L @ [e]) gid p" for gid p
      using others by (cases "gid = gsID g") auto
    then show ?thesis using ls keep e by (simp add: runner_hist_def)
  next
    case commit
    then show ?thesis using ls others e by (auto simp: runner_hist_def)
  qed
  then show "runner_hist (fst (fst (tick_group env k g now st))) (L @ [group_log env k g now st])"
    by (simp add: new e_def)
  show "dwell_ok L (group_log env k g now st) \<and> hold_ok L (group_log env k g now st)"
    if "glSwitch (group_log env k g now st) \<noteq> None" "\<not> glEmergency (group_log env k g now st)"
  proof -
    have raw: "raw" and sw: "sw \<noteq> None" using that e by (auto simp: e_def)
    then have ch: "changed" and "\<exists>p. pending r1 (gsID g) = Some p \<and> psTo p = desired
        \<and> failbackHold (gsCfg g) \<le> now - psSince p"
      by (cases rule: tick_commit_cases[OF com]; simp)+
    then obtain p where p: "pending r1 (gsID g) = Some p" "psTo p = desired"
      "failbackHold (gsCfg g) \<le> now - psSince p" by blast
    have "hold_ok L e"
      using pe[OF p(1)] p(2,3) ch unfolding held_def hold_ok_def e by fastforce
    moreover have "dwell_ok L e"
      using dec ch raw ls
      by (auto simp: tick_decide_def Let_def Decide_changed decide_emergency_def decide_curAlive_def
          currentDeadOrEmpty_def dwell_ok_def e mget_def split: prod.splits option.splits)
    ultimately show ?thesis by (simp add: e_def)
  qed
qed

definition graceful :: "GroupLog \<Rightarrow> bool" where
  "graceful e \<longleftrightarrow> glSwitch e \<noteq> None \<and> \<not> glEmergency e"

lemma tick_groups_step:
  "fst (tick_groups env k (g # gs) now st) = fst (tick_groups env (Suc k) gs now (fst (tick_group env k g now st)))"
  by (auto simp: Let_def split: prod.splits)

lemma tick_groups_hist:
  assumes "runner_hist (fst st) L"
  shows "runner_hist (fst (tick_groups env k gs now st)) (L @ tick_log env k gs now st)
    \<and> (\<forall>pre e post. tick_log env k gs now st = pre @ e # post \<and> graceful e
         \<longrightarrow> dwell_ok (L @ pre) e \<and> hold_ok (L @ pre) e)"
  using assms
proof (induction gs arbitrary: k st L)
  case Nil
  then show ?case by simp
next
  case (Cons g gs)
  let ?e = "group_log env k g now st"
  let ?st = "fst (tick_group env k g now st)"
  note one = tick_group_hist[OF Cons.prems, of env k g now]
  note rest = Cons.IH[of ?st "L @ [?e]" "Suc k", OF one(1)]
  have "dwell_ok (L @ pre) e \<and> hold_ok (L @ pre) e"
    if "tick_log env k (g # gs) now st = pre @ e # post" "graceful e" for pre e post
  proof (cases pre)
    case Nil
    then show ?thesis using that one(2) by (auto simp: graceful_def)
  next
    case (Cons e' pre')
    then have "e' = ?e" "tick_log env (Suc k) gs now ?st = pre' @ e # post" using that(1) by auto
    then show ?thesis using rest that(2) Cons by auto
  qed
  then show ?case using rest by (simp only: tick_groups_step tick_log.simps) auto
qed

lemma Tick_run: "fst (Tick r gs env now) = (case env of None \<Rightarrow> r | Some e \<Rightarrow> fst (tick_groups e 0 gs now (r, {})))"
  by (auto simp: Tick_def split: option.splits)

lemma run_log_hist:
  assumes "runner_hist r L" "run_log r ts = pre @ e # post" "graceful e"
  shows "dwell_ok (L @ pre) e \<and> hold_ok (L @ pre) e"
  using assms
proof (induction ts arbitrary: r L pre)
  case Nil
  then show ?case by simp
next
  case (Cons t ts)
  obtain gs env now where t: "t = (gs, env, now)" by (cases t)
  let ?here = "case env of None \<Rightarrow> [] | Some e \<Rightarrow> tick_log e 0 gs now (r, {})"
  let ?r = "fst (Tick r gs env now)"
  have step: "runner_hist ?r (L @ ?here)"
    and here: "\<And>pre e post. ?here = pre @ e # post \<Longrightarrow> graceful e \<Longrightarrow>
      dwell_ok (L @ pre) e \<and> hold_ok (L @ pre) e"
    using tick_groups_hist[of "(r, {})" L _ 0 gs now] Cons.prems(1)
    by (auto simp: Tick_run split: option.splits)
  from Cons.prems(2) have "?here @ run_log ?r ts = pre @ e # post" by (simp add: t)
  then consider us where "?here = pre @ us" "us @ run_log ?r ts = e # post"
    | us where "pre = ?here @ us" "run_log ?r ts = us @ e # post"
    by (auto simp: append_eq_append_conv2)
  then show ?case
  proof cases
    case (1 us)
    show ?thesis
    proof (cases us)
      case Nil
      then have "run_log ?r ts = [] @ e # post" using 1 by simp
      from Cons.IH[OF step this Cons.prems(3)] 1 Nil show ?thesis by simp
    next
      case (Cons u us')
      then show ?thesis using 1 here[of pre e us'] Cons.prems(3) by simp
    qed
  next
    case (2 us)
    from Cons.IH[OF step 2(2) Cons.prems(3)] 2(1) show ?thesis by simp
  qed
qed

section \<open>Outcomes are recorded once per tick\<close>

definition outlier_at :: "Runner \<Rightarrow> go_id \<Rightarrow> (OutlierConfig \<times> outlierState option) option" where
  "outlier_at r m = map_option (\<lambda>d. outlier_slice d m) (outlier r)"

definition recorded_once :: "Runner \<Rightarrow> Runner \<Rightarrow> go_time \<Rightarrow> go_id \<Rightarrow> bool" where
  "recorded_once r r' now m \<longleftrightarrow> outlier_at r' m = outlier_at r m
     \<or> (\<exists>ok. outlier_at r' m = map_option (\<lambda>d. outlier_slice (Record d m ok now) m) (outlier r))"

definition once_inv :: "Runner \<Rightarrow> go_time \<Rightarrow> Runner \<times> go_id set \<Rightarrow> bool" where
  "once_inv r0 now st \<longleftrightarrow> (\<forall>m. recorded_once r0 (fst st) now m)
     \<and> (\<forall>m. m \<notin> snd st \<longrightarrow> outlier_at (fst st) m = outlier_at r0 m)"

lemma outlier_at_Record:
  "outlier_at (r\<lparr>outlier := map_option (\<lambda>d. Record d x ok now) (outlier r)\<rparr>) m =
     (if m = x then map_option (\<lambda>d. outlier_slice (Record d x ok now) x) (outlier r) else outlier_at r m)"
  by (cases "outlier r") (auto simp: outlier_at_def outlier_slice_def Record_def)

lemma Record_slice_cong:
  "outlier_at r m = outlier_at r0 m \<Longrightarrow>
     map_option (\<lambda>d. outlier_slice (Record d m ok now) m) (outlier r)
       = map_option (\<lambda>d. outlier_slice (Record d m ok now) m) (outlier r0)"
  by (cases "outlier r"; cases "outlier r0")
    (auto simp: outlier_at_def outlier_slice_def Record_def outlier_get_def)

lemma observe_member_once:
  assumes "once_inv r0 now st"
  shows "once_inv r0 now (observe_member f now mh st)"
proof -
  obtain r rec where st: "st = (r, rec)" by (cases st)
  define r2 where "r2 = (let r1 = (if lastAlive r (mhID mh) = Some True \<and> \<not> mhAlive mh
               then r\<lparr>damper := penalize_opt (damper r) (mhID mh) now\<rparr> else r)
     in r1\<lparr>lastAlive := (lastAlive r1)(mhID mh \<mapsto> mhAlive mh)\<rparr>)"
  have same: "outlier_at r2 m = outlier_at r m" for m
    by (simp add: r2_def outlier_at_def Let_def)
  have inv2: "once_inv r0 now (r2, rec)"
    using assms same by (simp add: once_inv_def recorded_once_def st)
  show ?thesis
  proof (cases "f = None \<or> mhID mh \<in> rec")
    case True
    then have "observe_member f now mh st = (r2, rec)"
      by (auto simp: observe_member_def r2_def st Let_def split: option.splits)
    then show ?thesis using inv2 by simp
  next
    case False
    then obtain ff where f: "f = Some ff" "mhID mh \<notin> rec" by auto
    then have o': "observe_member f now mh st =
        (r2\<lparr>outlier := map_option (\<lambda>d. Record d (mhID mh) (\<not> ff (mhID mh)) now) (outlier r2)\<rparr>,
         insert (mhID mh) rec)"
      by (auto simp: observe_member_def r2_def st Let_def)
    have "outlier_at r2 (mhID mh) = outlier_at r0 (mhID mh)"
      using inv2 f(2) by (simp add: once_inv_def)
    note cong = Record_slice_cong[OF this]
    show ?thesis
      unfolding o' using inv2 cong
      by (auto simp: once_inv_def recorded_once_def outlier_at_Record)
  qed
qed

lemma observe_members_once: "once_inv r0 now st \<Longrightarrow> once_inv r0 now (observe_members f now mhs st)"
  by (induction mhs arbitrary: st) (simp_all add: observe_member_once)

lemma once_inv_frame: "outlier r' = outlier r \<Longrightarrow> once_inv r0 now (r, rec) \<Longrightarrow> once_inv r0 now (r', rec)"
  by (simp add: once_inv_def recorded_once_def outlier_at_def)

lemma filteredHealth_once:
  assumes "once_inv r0 now (r, rec)" "filteredHealth r src hs now rec = (v, r1, rec1)"
  shows "once_inv r0 now (r1, rec1)"
proof -
  obtain r' rec' where o': "observe_members (failing_map r src) now hs (r, rec) = (r', rec')" by fastforce
  have "once_inv r0 now (r', rec')"
    using observe_members_once[OF assms(1)] o' by metis
  then show ?thesis
    using assms o' once_inv_frame[of r1 r' r0 now rec1]
    by (auto simp: filteredHealth_def split: option.splits prod.splits)
qed

lemma tick_commit_outlier:
  assumes "tick_commit env k g now (desired, reason, changed) raw r = (r2, sw, effs)"
  shows "outlier r2 = outlier r"
  using assms by (cases rule: tick_commit_cases) auto

lemma tick_group_once:
  assumes "once_inv r0 now (r, rec)"
  shows "once_inv r0 now (fst (tick_group env k g now (r, rec)))"
proof -
  obtain view r1 rec1 where
    f: "filteredHealth r (teFailing env k) (teHealth env k (gsMembers g)) now rec = (view, r1, rec1)"
    by (cases "filteredHealth r (teFailing env k) (teHealth env k (gsMembers g)) now rec")
  obtain desired reason changed raw where
    dec: "tick_decide env k g now r rec = ((desired, reason, changed), raw, r1, rec1)"
    by (cases "tick_decide env k g now r rec") (auto simp: tick_decide_def f Let_def)
  obtain r2 sw effs where com: "tick_commit env k g now (desired, reason, changed) raw r1 = (r2, sw, effs)"
    by (cases "tick_commit env k g now (desired, reason, changed) raw r1")
  have "tick_group env k g now (r, rec) = ((r2, rec1), sw, effs)"
    by (simp add: tick_group_def dec com)
  then show ?thesis
    using once_inv_frame[OF tick_commit_outlier[OF com] filteredHealth_once[OF assms f]] by simp
qed

lemma tick_groups_once:
  "once_inv r0 now st \<Longrightarrow> \<exists>rec. once_inv r0 now (fst (tick_groups env k gs now st), rec)"
proof (induction gs arbitrary: k st)
  case Nil
  then show ?case by (cases st) auto
next
  case (Cons g gs)
  obtain r rec where st: "st = (r, rec)" by (cases st)
  from Cons.IH[OF tick_group_once[OF Cons.prems[unfolded st], of env k g], of "Suc k"]
  show ?case by (simp only: tick_groups_step st)
qed

section \<open>An emergency visit\<close>

lemma currentDeadOrEmpty_view:
  assumes "weaker_view view health" "distinct (map mhID health)" "currentDeadOrEmpty cur health"
    "'''' \<notin> mhID ` set health"
  shows "\<not> fst (memberAlive_in view cur)"
proof
  assume "fst (memberAlive_in view cur)"
  then obtain m where m: "m \<in> set view" "mhID m = cur" "mhAlive m"
    using memberAlive_in_alive by blast
  obtain h where h: "h \<in> set health" "mhID h = cur" "mhAlive h"
    using weaker_view_alive[OF assms(1) m(1,3)] m(2) by auto
  have "find (\<lambda>x. mhID x = cur) health \<noteq> None"
    using h by (auto simp: find_None_iff)
  then obtain x where x: "find (\<lambda>x. mhID x = cur) health = Some x" by blast
  then have "x \<in> set health" "mhID x = cur" by (auto simp: find_Some_iff)
  then have "x = h" using h assms(2) by (metis distinct_map inj_onD)
  moreover have "cur \<noteq> ''''" using h assms(4) by force
  ultimately show False using x h(3) assms(3) by (simp add: currentDeadOrEmpty_def)
qed

section \<open>Properties\<close>

text \<open>What the selection view may hide: the filtered view lists the same members in the same order
  with the same latencies, never shows a dead member as alive, and keeps an alive member whenever the
  raw health has one, whatever the detectors say.\<close>

theorem filtered_view_safe:
  "weaker_view (fst (filteredHealth r src health now recorded)) health
   \<and> ((\<exists>m\<in>set health. mhAlive m) \<longrightarrow> (\<exists>m\<in>set (fst (filteredHealth r src health now recorded)). mhAlive m))"
  using filteredHealth_view filteredHealth_keeps_one by blast

definition sampleHealth :: "MemberHealth list" where
  "sampleHealth = [\<lparr>mhID = ''a'', mhAlive = True, mhLatencyMs = 20\<rparr>,
                   \<lparr>mhID = ''b'', mhAlive = False, mhLatencyMs = 0\<rparr>]"

theorem filtered_view_safe_witness:
  "\<exists>m\<in>set (fst (filteredHealth NewRunner None sampleHealth 5 {})). mhAlive m"
  using filtered_view_safe[of NewRunner None sampleHealth 5 "{}"] by (auto simp: sampleHealth_def)

text \<open>C1. Graceful switches are paced over any run of ticks, for any health, selection, failures and
  clock values. A committed switch that is not an emergency comes at least min-dwell after the group's
  previous committed switch, and only after an unbroken series of visits to that group, the first at
  least the failback hold earlier and wanting this target, none of which committed a switch and each of
  which wanted exactly this target, with one exception: an emergency visit that asked the selector for
  some member and was refused does not end the series. No other visit is exempt.\<close>

theorem runner_paces_graceful_switches:
  assumes "run_log NewRunner ts = pre @ e # post" and "graceful e"
  shows "dwell_ok pre e \<and> hold_ok pre e"
  using run_log_hist[OF runner_hist_init assms] by simp

definition sampleGroup :: GroupSpec where
  "sampleGroup = \<lparr>gsID = ''g'', gsPolicy = PolicyOrdered, gsMembers = [''b'', ''a''], gsCfg = sampleCfg\<rparr>"

text \<open>A tick in which both members answer and the group sits on the second.\<close>

definition sampleEnv :: TickEnv where
  "sampleEnv = \<lparr>teHealth = (\<lambda>k ids. map (\<lambda>i. \<lparr>mhID = i, mhAlive = True, mhLatencyMs = 10\<rparr>) ids),
     teCurrent = (\<lambda>k gid. ''a''), teFailing = (\<lambda>k. None), teSelect = (\<lambda>k gid m. True)\<rparr>"

lemmas runner_eval = Tick_def tick_group_def tick_decide_def tick_commit_def group_log_def NewRunner_def
  filteredHealth_def failing_map_def observe_member_def currentDeadOrEmpty_def currentEjected_def
  ejected_opt_def penalize_opt_def Let_def damper_eval outlier_eval mget_def failbackHold_def
  defaultFailbackHoldMS_def

lemma sampleRun:
  "\<exists>e1 e2. run_log NewRunner [([sampleGroup], Some sampleEnv, 100000), ([sampleGroup], Some sampleEnv, 130000)]
     = [e1] @ e2 # [] \<and> graceful e2"
  by (simp add: sampleGroup_def sampleEnv_def runner_eval controller_eval graceful_def)

theorem runner_paces_graceful_switches_witness:
  "\<exists>e1 e2. run_log NewRunner [([sampleGroup], Some sampleEnv, 100000), ([sampleGroup], Some sampleEnv, 130000)]
     = [e1] @ e2 # [] \<and> dwell_ok [e1] e2 \<and> hold_ok [e1] e2"
proof -
  obtain e1 e2 where run: "run_log NewRunner
      [([sampleGroup], Some sampleEnv, 100000), ([sampleGroup], Some sampleEnv, 130000)] = [e1] @ e2 # []"
    and g: "graceful e2"
    using sampleRun by blast
  from runner_paces_graceful_switches[OF run g] run show ?thesis by blast
qed

text \<open>The exception is real. The group sits on \<open>a\<close> and wants \<open>b\<close> back; in the middle of the hold \<open>a\<close> and \<open>b\<close> are both
  dead, the emergency visit asks for \<open>c\<close> and the selector refuses; \<open>b\<close> then takes the traffic back at the end of the
  hold that began before it died.\<close>

definition flapEnv :: TickEnv where
  "flapEnv = sampleEnv\<lparr>teHealth := (\<lambda>k ids. map (\<lambda>i. \<lparr>mhID = i, mhAlive = (i = ''c''), mhLatencyMs = 10\<rparr>) ids),
     teSelect := (\<lambda>k gid m. False)\<rparr>"

definition flapGroup :: GroupSpec where
  "flapGroup = sampleGroup\<lparr>gsMembers := [''b'', ''a'', ''c'']\<rparr>"

lemma hold_survives_refused_emergency:
  "map (\<lambda>e. (glWant e, glEmergency e, map_option swTo (glSwitch e)))
     (run_log NewRunner [([flapGroup], Some sampleEnv, 100000), ([flapGroup], Some flapEnv, 115000), ([flapGroup], Some sampleEnv, 130000)])
   = [(Some ''b'', False, None), (Some ''c'', True, None), (Some ''b'', False, Some ''b'')]"
proof -
  have "(2 :: real) powr - (1 / 6) \<le> 2" using powr_mono[of "- (1 / 6)" 0 "2 :: real"] by simp
  then show ?thesis by (simp add: flapGroup_def flapEnv_def sampleGroup_def sampleEnv_def runner_eval controller_eval)
qed

text \<open>C9. An emergency is immediate: when the incumbent is unset, dead or no longer a member in the raw
  health, some member is alive and \<open>Select\<close> works, the visit commits a switch to a member that is alive
  in the raw health, marks it an emergency, and cuts the group's connections. Damping, ejection, dwell
  and hold cannot prevent it.\<close>

theorem runner_emergency_immediate:
  assumes "currentDeadOrEmpty (teCurrent env k (gsID g)) (teHealth env k (gsMembers g))"
    and "distinct (map mhID (teHealth env k (gsMembers g)))"
    and "'''' \<notin> mhID ` set (teHealth env k (gsMembers g))"
    and "\<exists>m\<in>set (teHealth env k (gsMembers g)). mhAlive m"
    and "\<forall>m. teSelect env k (gsID g) m"
  shows "\<exists>st' sw. tick_group env k g now (r, recorded) =
        (st', Some sw, [SelectCall (gsID g) (swTo sw), InterruptCall (gsID g)])
      \<and> swEmergency sw \<and> swGroup sw = gsID g
      \<and> (\<exists>m\<in>set (teHealth env k (gsMembers g)). mhID m = swTo sw \<and> mhAlive m)"
proof -
  let ?health = "teHealth env k (gsMembers g)"
  let ?cur = "teCurrent env k (gsID g)"
  obtain view r1 rec1 where f: "filteredHealth r (teFailing env k) ?health now recorded = (view, r1, rec1)"
    by (cases "filteredHealth r (teFailing env k) ?health now recorded")
  have view: "weaker_view view ?health" "\<exists>m\<in>set view. mhAlive m"
    using filteredHealth_view[of r "teFailing env k" ?health now recorded]
      filteredHealth_keeps_one[OF assms(4), of r "teFailing env k" now recorded] f by simp_all
  let ?inp = "\<lparr>diPolicy = gsPolicy g, diMembers = view, diCurrent = ?cur,
     diLastSwitch = mget (lastSwitch r1) (gsID g) 0, diNow = now, diCfg = gsCfg g,
     diCurrentRawAlive = Some False\<rparr>"
  have "\<exists>d r. Decide ?inp = (d, r, True) \<and> (\<exists>m\<in>set (diMembers ?inp). mhID m = d \<and> mhAlive m)"
  proof (rule Decide_emergency)
    show "decide_emergency ?inp" by (simp add: decide_emergency_def decide_curAlive_def)
    show "\<not> fst (memberAlive ?inp (diCurrent ?inp))"
      using currentDeadOrEmpty_view[OF view(1) assms(2,1,3)] by (simp add: memberAlive_def)
    show "distinct (map mhID (diMembers ?inp))" using weaker_view_ids[OF view(1)] assms(2) by simp
    show "'''' \<notin> mhID ` set (diMembers ?inp)"
      using weaker_view_ids[OF view(1)] assms(3) by (metis DecideInput.select_convs(2) list.set_map)
    show "\<exists>m\<in>set (diMembers ?inp). mhAlive m" using view(2) by simp
  qed
  then obtain d reason m where d: "Decide ?inp = (d, reason, True)" "m \<in> set view" "mhID m = d" "mhAlive m"
    by auto
  obtain h where "h \<in> set ?health" "mhID h = d" "mhAlive h"
    using weaker_view_alive[OF view(1) d(2,4)] d(3) by auto
  moreover have "tick_group env k g now (r, recorded) =
      ((r1\<lparr>lastSwitch := (lastSwitch r1)(gsID g \<mapsto> now), pending := (pending r1)(gsID g := None)\<rparr>, rec1),
       Some \<lparr>swGroup = gsID g, swFrom = ?cur, swTo = d, swReason = reason, swEmergency = True\<rparr>,
       [SelectCall (gsID g) d, InterruptCall (gsID g)])"
    using assms(1,5) d(1) by (simp add: tick_group_def tick_decide_def tick_commit_def f Let_def)
  ultimately show ?thesis by auto
qed

theorem runner_emergency_immediate_witness:
  "\<exists>st' sw. tick_group (sampleEnv\<lparr>teCurrent := (\<lambda>k gid. ''gone'')\<rparr>) 0 sampleGroup 5 (NewRunner, {}) =
     (st', Some sw, [SelectCall ''g'' (swTo sw), InterruptCall ''g'']) \<and> swEmergency sw"
proof -
  let ?env = "sampleEnv\<lparr>teCurrent := (\<lambda>k gid. ''gone'')\<rparr>"
  have "currentDeadOrEmpty (teCurrent ?env 0 (gsID sampleGroup)) (teHealth ?env 0 (gsMembers sampleGroup))"
    "distinct (map mhID (teHealth ?env 0 (gsMembers sampleGroup)))"
    "'''' \<notin> mhID ` set (teHealth ?env 0 (gsMembers sampleGroup))"
    "\<exists>m\<in>set (teHealth ?env 0 (gsMembers sampleGroup)). mhAlive m"
    "\<forall>m. teSelect ?env 0 (gsID sampleGroup) m"
    by (simp_all add: sampleGroup_def sampleEnv_def currentDeadOrEmpty_def)
  from runner_emergency_immediate[OF this, of 5 NewRunner "{}"]
  show ?thesis by (auto simp: sampleGroup_def)
qed

text \<open>C37. A tick folds each member's real-traffic outcome into the outlier detector at most once, even
  when several of the tick's groups share the member: the member's detector state after the tick is the
  one before it, or that state after exactly one \<open>Record\<close>.\<close>

theorem tick_records_outcome_once:
  "recorded_once r (fst (Tick r groups env now)) now m"
proof (cases env)
  case None
  then show ?thesis by (simp add: Tick_def recorded_once_def)
next
  case (Some e)
  have "once_inv r now (r, {})" by (simp add: once_inv_def recorded_once_def)
  from tick_groups_once[OF this, of e 0 groups] Some show ?thesis
    by (auto simp: Tick_run once_inv_def)
qed

definition failingEnv :: TickEnv where
  "failingEnv = sampleEnv\<lparr>teFailing := (\<lambda>k. Some (\<lambda>m. m = ''a''))\<rparr>"

definition ejectionRun :: "tick list" where
  "ejectionRun = map (\<lambda>t. ([sampleGroup\<lparr>gsPolicy := PolicySelector\<rparr>], Some failingEnv, t))
     [10000, 20000, 30000, 40000, 50000]"

text \<open>A member that starts failing real traffic is ejected by the tick that records its fifth
  failure in a row, but that same tick does not treat the group's incumbent as an emergency: the
  verdict is read before the outcome is recorded, so the tick commits no switch although the incumbent
  is ejected when it ends and another member is alive and selectable.\<close>

theorem ejection_takes_effect_one_tick_late:
  "(let r4 = run_ticks (SetFailureSource NewRunner True) (butlast ejectionRun);
        (r5, switches, effs) = Tick r4 [sampleGroup\<lparr>gsPolicy := PolicySelector\<rparr>] (Some failingEnv) 50000
    in \<not> ejected_opt (outlier r4) ''a'' 50000 \<and> ejected_opt (outlier r5) ''a'' 50000
       \<and> switches = [] \<and> effs = []
       \<and> map swTo (fst (snd (Tick r5 [sampleGroup\<lparr>gsPolicy := PolicySelector\<rparr>] (Some failingEnv) 60000))) = [''b''])"
  by (simp add: ejectionRun_def failingEnv_def SetFailureSource_def sampleGroup_def sampleEnv_def
      runner_eval controller_eval)

end
