(* ===== verification/Failsafe_Manager.thy ===== *)
theory Failsafe_Manager
  imports WH_Prelude
begin

text \<open>
  The fail-safe window of an unsaved Apply, \<open>internal/failsafe/failsafe.go\<close>: every operation of
  \<open>Manager\<close> that runs under its lock is one function on the state. The operations that release the lock
  in the middle (\<open>rollbackNow\<close>) are split where they do. The goroutine \<open>run\<close> and the interleaving of
  all callers are in \<open>Failsafe_Concurrent\<close>.

  Callbacks are opaque: a rollback closure is named by the window (epoch) it was armed for. A context
  is named by the window too; cancelling it puts the window into \<open>fsCancelled\<close>.
\<close>

section \<open>Data\<close>

datatype Action = ActNone | ActRollback | ActReboot | ActDone

datatype Health = HealthUnknown | HealthUp | HealthDown

datatype phase = PIdle | PArmed | PDegraded | PRolledBack | PRollbackFailed | PCommitted
  | PLiveUnsaved | PReboot | PUnverified

text \<open>Durations are nanoseconds, as \<open>time.Duration\<close> is; the machine compares milliseconds.\<close>

record Durations =
  Grace :: int
  Interval :: int
  RollbackAfter :: int
  RebootAfter :: int
  KeepWindow :: int

definition second :: int where "second = 1000000000"

definition DefaultDurations :: Durations where
  "DefaultDurations = \<lparr>Grace = 20 * second, Interval = 15 * second, RollbackAfter = 45 * second,
     RebootAfter = 5 * 60 * second, KeepWindow = 3 * 60 * second\<rparr>"

definition in_ms :: "int \<Rightarrow> int" where
  "in_ms d = go_div d 1000000"

datatype rb_error = ErrSuperseded | ErrInProgress | ErrRollback string

type_synonym rb_result = "rb_error option" \<comment> \<open>\<open>None\<close> is Go's nil error\<close>

definition ErrSuperseded_text :: string where
  "ErrSuperseded_text = ''a newer Apply, Keep or routing switch replaced this fail-safe window before the rollback ran '' @ u_dash @ '' nothing was rolled back''"

definition ErrInProgress_text :: string where
  "ErrInProgress_text = ''a rollback is already in progress '' @ u_dash @ '' retry once it finishes (status will show rolled_back or rollback_failed)''"

fun err_text :: "rb_error \<Rightarrow> string" where
  "err_text ErrSuperseded = ErrSuperseded_text"
| "err_text ErrInProgress = ErrInProgress_text"
| "err_text (ErrRollback s) = s"

record Manager =
  fsD :: Durations
  fsPending :: bool
  fsPhase :: phase
  fsArmedAt :: go_time
  fsDeadline :: go_time
  fsBad :: bool
  fsBadSince :: go_time
  fsRolledBack :: bool
  fsDispatched :: bool
  fsRollbackDone :: bool
  fsRollbackFailed :: bool
  fsEpoch :: int
  fsLastOk :: bool
  fsLastAt :: go_time
  fsLastErr :: string
  fsRollback :: "int option"
  fsReboot :: bool
  fsAllowReboot :: bool
  fsCancel :: "int option"
  fsCancelled :: "int set"

definition New :: "Durations \<Rightarrow> Manager" where
  "New d = \<lparr>fsD = d, fsPending = False, fsPhase = PIdle, fsArmedAt = 0, fsDeadline = 0, fsBad = False,
     fsBadSince = 0, fsRolledBack = False, fsDispatched = False, fsRollbackDone = False,
     fsRollbackFailed = False, fsEpoch = 0, fsLastOk = False, fsLastAt = 0, fsLastErr = '''',
     fsRollback = None, fsReboot = False, fsAllowReboot = False, fsCancel = None, fsCancelled = {}\<rparr>"

section \<open>Operations\<close>

definition cancel_current :: "Manager \<Rightarrow> Manager" where
  "cancel_current m =
    (case fsCancel m of None \<Rightarrow> m | Some w \<Rightarrow> m\<lparr>fsCancelled := insert w (fsCancelled m)\<rparr>)"

text \<open>\<open>hasRb\<close> and \<open>hasReboot\<close>: the callbacks are not nil. The new window is the new epoch.\<close>

definition ArmHealth :: "go_time \<Rightarrow> bool \<Rightarrow> bool \<Rightarrow> bool \<Rightarrow> Manager \<Rightarrow> int \<times> Manager" where
  "ArmHealth now hasRb hasReboot allowReboot m =
    (let m1 = cancel_current m;
         ep = fsEpoch m1 + 1
     in (ep, m1\<lparr>fsCancel := Some ep, fsEpoch := ep, fsPending := True, fsPhase := PArmed,
           fsRolledBack := False, fsDispatched := False, fsRollbackDone := False,
           fsRollbackFailed := False, fsBad := False, fsBadSince := 0, fsLastErr := '''',
           fsArmedAt := now, fsDeadline := now + in_ms (KeepWindow (fsD m1)),
           fsRollback := (if hasRb then Some ep else None), fsReboot := hasReboot,
           fsAllowReboot := allowReboot\<rparr>))"

definition IsCurrent :: "Manager \<Rightarrow> int \<Rightarrow> bool" where
  "IsCurrent m ep \<longleftrightarrow> fsEpoch m = ep"

definition claimRollback :: "int \<Rightarrow> Manager \<Rightarrow> bool \<times> Manager" where
  "claimRollback ep m =
    (if fsEpoch m \<noteq> ep \<or> fsDispatched m then (False, m) else (True, m\<lparr>fsDispatched := True\<rparr>))"

definition claimReboot :: "int \<Rightarrow> Manager \<Rightarrow> bool" where
  "claimReboot ep m \<longleftrightarrow> fsEpoch m = ep"

definition markRollbackDone :: "int \<Rightarrow> Manager \<Rightarrow> Manager" where
  "markRollbackDone ep m = (if fsEpoch m = ep then m\<lparr>fsRollbackDone := True\<rparr> else m)"

definition markRollbackFailed :: "int \<Rightarrow> rb_result \<Rightarrow> Manager \<Rightarrow> Manager" where
  "markRollbackFailed ep err m =
    (if fsEpoch m \<noteq> ep then m
     else (let m1 = m\<lparr>fsPhase := PRollbackFailed, fsRollbackFailed := True\<rparr>
           in case err of None \<Rightarrow> m1 | Some e \<Rightarrow> m1\<lparr>fsLastErr := err_text e\<rparr>))"

definition tick_unknown :: "go_time \<Rightarrow> Manager \<Rightarrow> Manager" where
  "tick_unknown now m =
    (let prevAt = fsLastAt m;
         m1 = (if fsBad m \<and> prevAt > 0 \<and> now > prevAt
               then (let b = fsBadSince m + (now - prevAt)
                     in m\<lparr>fsBadSince := (if b > now then now else b)\<rparr>)
               else m);
         m2 = m1\<lparr>fsLastAt := now\<rparr>
     in if \<not> fsRolledBack m2 \<and> \<not> fsRollbackFailed m2 then m2\<lparr>fsPhase := PUnverified\<rparr> else m2)"

definition tick_up :: "go_time \<Rightarrow> Manager \<Rightarrow> Action \<times> Manager" where
  "tick_up now m =
    (let m1 = m\<lparr>fsBad := False, fsBadSince := 0\<rparr>
     in if fsRolledBack m1 then (ActDone, m1\<lparr>fsPending := False\<rparr>)
        else if now \<ge> fsDeadline m1 then
          (ActDone, (if \<not> fsRollbackFailed m1 then m1\<lparr>fsPending := False, fsPhase := PLiveUnsaved\<rparr>
                     else m1\<lparr>fsPending := False\<rparr>))
        else (ActNone, (if \<not> fsRollbackFailed m1 then m1\<lparr>fsPhase := PArmed\<rparr> else m1)))"

definition tick_down :: "go_time \<Rightarrow> Manager \<Rightarrow> Action \<times> Manager" where
  "tick_down now m =
    (let m1 = (if \<not> fsBad m then m\<lparr>fsBad := True, fsBadSince := now\<rparr> else m);
         badFor = now - fsBadSince m1
     in if badFor \<ge> in_ms (RebootAfter (fsD m1)) \<and> fsRolledBack m1 then
          (ActReboot, (if fsAllowReboot m1 \<and> fsReboot m1 then m1\<lparr>fsPending := False, fsPhase := PReboot\<rparr>
                       else m1\<lparr>fsPending := False\<rparr>))
        else if \<not> fsRolledBack m1 \<and> badFor \<ge> in_ms (RollbackAfter (fsD m1)) then
          (ActRollback, m1\<lparr>fsRolledBack := True, fsPhase := PRolledBack\<rparr>)
        else (ActNone, (if \<not> fsRolledBack m1 \<and> \<not> fsRollbackFailed m1 then m1\<lparr>fsPhase := PDegraded\<rparr> else m1)))"

definition tickHealth :: "go_time \<Rightarrow> Health \<Rightarrow> Manager \<Rightarrow> Action \<times> Manager" where
  "tickHealth now h m =
    (if \<not> fsPending m then (ActNone, m)
     else (case h of
             HealthUnknown \<Rightarrow> (ActNone, tick_unknown now m)
           | HealthUp \<Rightarrow> tick_up now (m\<lparr>fsLastOk := True, fsLastAt := now\<rparr>)
           | HealthDown \<Rightarrow> tick_down now (m\<lparr>fsLastOk := False, fsLastAt := now\<rparr>)))"

definition tick :: "go_time \<Rightarrow> bool \<Rightarrow> Manager \<Rightarrow> Action \<times> Manager" where
  "tick now ok m = tickHealth now (if ok then HealthUp else HealthDown) m"

definition Confirm :: "Manager \<Rightarrow> Manager" where
  "Confirm m = cancel_current (m\<lparr>fsPending := False, fsPhase := PCommitted, fsEpoch := fsEpoch m + 1\<rparr>)"

definition Disarm :: "Manager \<Rightarrow> bool \<times> Manager" where
  "Disarm m =
    (fsPending m,
     (cancel_current (m\<lparr>fsPending := False, fsPhase := PIdle, fsEpoch := fsEpoch m + 1\<rparr>))\<lparr>fsCancel := None\<rparr>)"

definition MarkRolledBack :: "Manager \<Rightarrow> Manager" where
  "MarkRolledBack m =
    (if \<not> fsPending m \<and> fsPhase m \<noteq> PRollbackFailed then m
     else cancel_current (m\<lparr>fsPending := False, fsPhase := PRolledBack, fsRolledBack := True,
        fsRollbackDone := True, fsRollbackFailed := False, fsLastErr := '''', fsEpoch := fsEpoch m + 1\<rparr>))"

text \<open>\<open>rollbackNow\<close>, first locked part: answer at once, or claim window \<open>ep\<close> and run its closure.\<close>

datatype rb_start = RbReturn rb_result | RbRun int "int option"

definition rollbackNow_begin :: "int \<Rightarrow> bool \<Rightarrow> Manager \<Rightarrow> rb_start \<times> Manager" where
  "rollbackNow_begin epoch only m =
    (if only \<and> fsEpoch m \<noteq> epoch then (RbReturn (Some ErrSuperseded), m)
     else if fsDispatched m \<and> \<not> fsRollbackDone m \<and> \<not> fsRollbackFailed m
       then (RbReturn (Some ErrInProgress), m)
     else
       (let priorSucceeded = (fsRollbackDone m \<and> \<not> fsRollbackFailed m);
            m1 = m\<lparr>fsDispatched := True\<rparr>;
            m2 = (if \<not> priorSucceeded then m1\<lparr>fsRollbackDone := False, fsRollbackFailed := False\<rparr> else m1)
        in if priorSucceeded
           then (RbReturn None,
                 cancel_current (m2\<lparr>fsPending := False, fsPhase := PRolledBack, fsRolledBack := True\<rparr>))
           else (RbRun (fsEpoch m2) (fsRollback m), m2)))"

text \<open>Second locked part, with what the closure reported. \<open>Inl\<close> means the lock is released and
  \<open>markRollbackFailed\<close> takes it again before the error is returned.\<close>

definition rollbackNow_end :: "int \<Rightarrow> rb_result \<Rightarrow> Manager \<Rightarrow> (rb_error + rb_result) \<times> Manager" where
  "rollbackNow_end ep rbErr m =
    (if fsEpoch m \<noteq> ep \<or> rbErr = Some ErrSuperseded then (Inr rbErr, m)
     else (case rbErr of
             Some e \<Rightarrow> (Inl e, m)
           | None \<Rightarrow> (Inr None, cancel_current (m\<lparr>fsPending := False, fsPhase := PRolledBack,
               fsRolledBack := True, fsRollbackDone := True, fsRollbackFailed := False, fsLastErr := ''''\<rparr>))))"

text \<open>The whole of \<open>rollbackNow\<close> when nothing else runs meanwhile; \<open>rb\<close> is what the closure returns.\<close>

definition rollbackNow :: "int \<Rightarrow> bool \<Rightarrow> rb_result \<Rightarrow> Manager \<Rightarrow> rb_result \<times> Manager" where
  "rollbackNow epoch only rb m =
    (case rollbackNow_begin epoch only m of
       (RbReturn res, m1) \<Rightarrow> (res, m1)
     | (RbRun ep clo, m1) \<Rightarrow>
        (let rbErr = (case clo of None \<Rightarrow> None | Some _ \<Rightarrow> rb)
         in case rollbackNow_end ep rbErr m1 of
              (Inr res, m2) \<Rightarrow> (res, m2)
            | (Inl e, m2) \<Rightarrow> (Some e, markRollbackFailed ep (Some e) m2)))"

definition RollbackNow :: "rb_result \<Rightarrow> Manager \<Rightarrow> rb_result \<times> Manager" where
  "RollbackNow rb m = rollbackNow 0 False rb m"

definition RollbackNowAt :: "int \<Rightarrow> rb_result \<Rightarrow> Manager \<Rightarrow> rb_result \<times> Manager" where
  "RollbackNowAt epoch rb m = rollbackNow epoch True rb m"

record Status =
  stPending :: bool
  stPhase :: phase
  stSecondsLeft :: int
  stLastCheckOk :: bool
  stLastCheckAt :: go_time
  stLastError :: string

definition Status_of :: "go_time \<Rightarrow> Manager \<Rightarrow> Status" where
  "Status_of now m =
    \<lparr>stPending = fsPending m, stPhase = fsPhase m,
     stSecondsLeft = (if fsPending m \<and> \<not> fsRolledBack m
        then (let left = go_div (fsDeadline m - now) 1000 in if left > 0 then left else 0) else 0),
     stLastCheckOk = fsLastOk m, stLastCheckAt = fsLastAt m, stLastError = fsLastErr m\<rparr>"

lemmas fs_defs = ArmHealth_def IsCurrent_def claimRollback_def claimReboot_def markRollbackDone_def
  markRollbackFailed_def tickHealth_def tick_unknown_def tick_up_def tick_down_def Confirm_def Disarm_def
  MarkRolledBack_def rollbackNow_begin_def rollbackNow_end_def cancel_current_def Let_def

section \<open>What an open window does: the abstract machine\<close>

text \<open>
  The promise of a window, without timestamps: it knows whether the rollback was triggered and how much
  measured outage has accumulated since connectivity was last measured good. Only time that ends in a
  \<open>HealthDown\<close> observation counts.
\<close>

record Window =
  wOpen :: bool
  wRolled :: bool
  wDown :: "int option"
  wLast :: go_time

fun window_step :: "Durations \<Rightarrow> go_time \<Rightarrow> Window \<Rightarrow> go_time \<times> Health \<Rightarrow> Action \<times> Window" where
  "window_step d dl w (t, HealthUnknown) =
     (ActNone, (if wOpen w then w\<lparr>wLast := t\<rparr> else w))"
| "window_step d dl w (t, HealthUp) =
     (if \<not> wOpen w then (ActNone, w)
      else if wRolled w \<or> t \<ge> dl then (ActDone, w\<lparr>wOpen := False, wDown := None, wLast := t\<rparr>)
      else (ActNone, w\<lparr>wDown := None, wLast := t\<rparr>))"
| "window_step d dl w (t, HealthDown) =
     (if \<not> wOpen w then (ActNone, w)
      else (let down = (case wDown w of None \<Rightarrow> 0 | Some x \<Rightarrow> x + (t - wLast w));
                w1 = w\<lparr>wDown := Some down, wLast := t\<rparr>
            in if wRolled w \<and> down \<ge> in_ms (RebootAfter d) then (ActReboot, w1\<lparr>wOpen := False\<rparr>)
               else if \<not> wRolled w \<and> down \<ge> in_ms (RollbackAfter d) then (ActRollback, w1\<lparr>wRolled := True\<rparr>)
               else (ActNone, w1)))"

definition abs_window :: "Manager \<Rightarrow> Window" where
  "abs_window m = \<lparr>wOpen = fsPending m, wRolled = fsRolledBack m,
     wDown = (if fsBad m then Some (fsLastAt m - fsBadSince m) else None), wLast = fsLastAt m\<rparr>"

text \<open>While a bad stretch is open, its start does not lie after the last observation, which was made at
  a positive time.\<close>

definition tick_inv :: "Manager \<Rightarrow> bool" where
  "tick_inv m \<longleftrightarrow> (fsBad m \<longrightarrow> 0 < fsLastAt m \<and> fsBadSince m \<le> fsLastAt m)"

lemma tickHealth_refines:
  assumes "tick_inv m" "fsBad m \<longrightarrow> fsLastAt m \<le> now" "0 < now"
  shows "tickHealth now h m = (a, m') \<Longrightarrow>
      window_step (fsD m) (fsDeadline m) (abs_window m) (now, h) = (a, abs_window m')"
  using assms
  by (cases h) (auto simp: fs_defs abs_window_def tick_inv_def split: if_splits)

lemma tickHealth_inv:
  assumes "tick_inv m" "fsBad m \<longrightarrow> fsLastAt m \<le> now" "0 < now"
  shows "tick_inv (snd (tickHealth now h m))"
  using assms by (cases h) (auto simp: fs_defs tick_inv_def)

lemma tickHealth_frame:
  "fsD (snd (tickHealth now h m)) = fsD m"
  "fsDeadline (snd (tickHealth now h m)) = fsDeadline m"
  "fsEpoch (snd (tickHealth now h m)) = fsEpoch m"
  "fsDispatched (snd (tickHealth now h m)) = fsDispatched m"
  "fsRollbackDone (snd (tickHealth now h m)) = fsRollbackDone m"
  "fsRollbackFailed (snd (tickHealth now h m)) = fsRollbackFailed m"
  "fsCancel (snd (tickHealth now h m)) = fsCancel m"
  "fsCancelled (snd (tickHealth now h m)) = fsCancelled m"
  "fsPending m \<Longrightarrow> fsLastAt (snd (tickHealth now h m)) = now"
  by (cases h; simp add: fs_defs)+

text \<open>Runs: the actions of a sequence of observations.\<close>

type_synonym obs = "go_time \<times> Health"

fun tick_run :: "Manager \<Rightarrow> obs list \<Rightarrow> Action list \<times> Manager" where
  "tick_run m [] = ([], m)"
| "tick_run m ((t, h) # os) =
     (let (a, m1) = tickHealth t h m; (acts, m2) = tick_run m1 os in (a # acts, m2))"

fun window_run :: "Durations \<Rightarrow> go_time \<Rightarrow> Window \<Rightarrow> obs list \<Rightarrow> Action list \<times> Window" where
  "window_run d dl w [] = ([], w)"
| "window_run d dl w (ob # os) =
     (let (a, w1) = window_step d dl w ob; (acts, w2) = window_run d dl w1 os in (a # acts, w2))"

definition obs_ok :: "obs list \<Rightarrow> bool" where
  "obs_ok os \<longleftrightarrow> sorted (map fst os) \<and> (\<forall>t\<in>set (map fst os). 0 < t)"

lemma tick_run_refines:
  assumes "tick_inv m" "fsBad m \<longrightarrow> (\<forall>t\<in>set (map fst os). fsLastAt m \<le> t)" "obs_ok os"
  shows "tick_run m os = (acts, m') \<Longrightarrow>
     window_run (fsD m) (fsDeadline m) (abs_window m) os = (acts, abs_window m')"
  using assms
proof (induction os arbitrary: m acts)
  case Nil
  then show ?case by simp
next
  case (Cons ob os)
  obtain t h where ob: "ob = (t, h)" by (cases ob)
  obtain a m1 where st: "tickHealth t h m = (a, m1)" by fastforce
  obtain acts' where rest: "tick_run m1 os = (acts', m')" "acts = a # acts'"
    using Cons.prems(1) st by (auto simp: ob split: prod.splits)
  have t: "0 < t" "fsBad m \<longrightarrow> fsLastAt m \<le> t" "obs_ok os" "\<forall>x\<in>set (map fst os). t \<le> x"
    using Cons.prems(3,4) by (auto simp: obs_ok_def ob)
  have m1: "m1 = snd (tickHealth t h m)" using st by simp
  have inv1: "tick_inv m1" using tickHealth_inv[OF Cons.prems(2) t(2,1)] st by (metis snd_conv)
  have last1: "fsBad m1 \<longrightarrow> (\<forall>x\<in>set (map fst os). fsLastAt m1 \<le> x)"
  proof (cases "fsPending m")
    case True
    then show ?thesis using t(4) tickHealth_frame(9)[OF True] by (simp add: m1)
  next
    case False
    then have "m1 = m" using st by (simp add: tickHealth_def)
    then show ?thesis using Cons.prems(3) by (auto simp: ob)
  qed
  have "window_run (fsD m1) (fsDeadline m1) (abs_window m1) os = (acts', abs_window m')"
    by (rule Cons.IH[OF rest(1) inv1 last1 t(3)])
  moreover have "window_step (fsD m) (fsDeadline m) (abs_window m) (t, h) = (a, abs_window m1)"
    by (rule tickHealth_refines[OF Cons.prems(2) t(2,1) st])
  moreover have "fsD m1 = fsD m" "fsDeadline m1 = fsDeadline m"
    using m1 by (simp_all add: tickHealth_frame)
  ultimately show ?case using rest(2) by (simp add: ob)
qed

section \<open>Measured outage\<close>

text \<open>
  The outage that a history of observations (newest first) has measured: from the first
  \<open>HealthDown\<close> after the last \<open>HealthUp\<close>, counting only the intervals that end in a \<open>HealthDown\<close>.
\<close>

fun measured_outage :: "obs list \<Rightarrow> int option" where
  "measured_outage [] = None"
| "measured_outage ((t, HealthUp) # hs) = None"
| "measured_outage ((t, HealthUnknown) # hs) = measured_outage hs"
| "measured_outage ((t, HealthDown) # hs) =
     Some (case measured_outage hs of None \<Rightarrow> 0 | Some x \<Rightarrow> x + (t - fst (hd hs)))"

lemma measured_outage_nonempty: "measured_outage hs = Some x \<Longrightarrow> hs \<noteq> []"
  by auto

lemma window_run_append:
  "window_run d dl w (xs @ ys) =
     (let (a, w1) = window_run d dl w xs; (b, w2) = window_run d dl w1 ys in (a @ b, w2))"
  by (induction xs arbitrary: w) (auto split: prod.splits)

definition fresh_window :: "go_time \<Rightarrow> Window" where
  "fresh_window l = \<lparr>wOpen = True, wRolled = False, wDown = None, wLast = l\<rparr>"

text \<open>While the window is open, its state is what the history says.\<close>

definition window_hist :: "Window \<Rightarrow> obs list \<Rightarrow> Action list \<Rightarrow> bool" where
  "window_hist w os acts \<longleftrightarrow>
     (wOpen w \<longleftrightarrow> ActDone \<notin> set acts \<and> ActReboot \<notin> set acts)
     \<and> (wRolled w \<longleftrightarrow> ActRollback \<in> set acts)
     \<and> (wOpen w \<longrightarrow> wDown w = measured_outage (rev os) \<and> (os \<noteq> [] \<longrightarrow> wLast w = fst (last os)))"

lemma window_hist_step:
  assumes "window_hist w os acts" "window_step d dl w (t, h) = (a, w')"
  shows "window_hist w' (os @ [(t, h)]) (acts @ [a])"
  using assms measured_outage_nonempty[of "rev os"]
  by (cases h) (auto simp: window_hist_def Let_def hd_rev split: if_splits option.splits)

lemma window_hist_run:
  "window_run d dl (fresh_window l) os = (acts, w) \<Longrightarrow> window_hist w os acts"
proof (induction os arbitrary: acts w rule: rev_induct)
  case Nil
  then show ?case by (auto simp: window_hist_def fresh_window_def)
next
  case (snoc ob os)
  obtain acts0 w0 where r0: "window_run d dl (fresh_window l) os = (acts0, w0)" by fastforce
  obtain t h where ob: "ob = (t, h)" by (cases ob)
  obtain a w1 where st: "window_step d dl w0 (t, h) = (a, w1)" by fastforce
  have "acts = acts0 @ [a]" "w = w1" using snoc.prems r0 st by (auto simp: window_run_append ob)
  then show ?case using window_hist_step[OF snoc.IH[OF r0] st] by (simp add: ob)
qed

lemma armed_window:
  assumes "ArmHealth now hasRb hasReboot allow m = (ep, m1)"
  shows "abs_window m1 = fresh_window (fsLastAt m1)" "tick_inv m1" "\<not> fsBad m1" "fsD m1 = fsD m"
    "fsDeadline m1 = now + in_ms (KeepWindow (fsD m))" "fsEpoch m1 = fsEpoch m + 1" "ep = fsEpoch m + 1"
    "fsPending m1"
  using assms
  by (auto simp: fs_defs abs_window_def fresh_window_def tick_inv_def split: option.splits)

section \<open>Properties\<close>

text \<open>C36. An armed window refines its abstract promise: for every manager, every way of arming it and
  every sequence of observations at increasing times, the actions of the timestamp machine are those
  of the machine that only tracks measured outage.\<close>

theorem failsafe_window_refines:
  assumes "ArmHealth now hasRb hasReboot allow m = (ep, m1)" and "obs_ok os"
    and "tick_run m1 os = (acts, m2)"
  shows "window_run (fsD m) (now + in_ms (KeepWindow (fsD m))) (fresh_window (fsLastAt m1)) os
    = (acts, abs_window m2)"
  using tick_run_refines[OF armed_window(2)[OF assms(1)] _ assms(2,3)] armed_window[OF assms(1)] by simp

definition sampleDurations :: Durations where
  "sampleDurations = \<lparr>Grace = 0, Interval = 0, RollbackAfter = 45000000, RebootAfter = 300000000,
     KeepWindow = 180000000\<rparr>"

definition sampleObs :: "obs list" where
  "sampleObs = [(20, HealthDown), (40, HealthUnknown), (70, HealthDown), (95, HealthDown), (400, HealthDown)]"

lemmas fs_eval = sampleDurations_def sampleObs_def New_def fs_defs in_ms_def go_div_def

lemma sampleWindow:
  "fst (tick_run (snd (ArmHealth 10 True True True (New sampleDurations))) sampleObs)
     = [ActNone, ActNone, ActNone, ActRollback, ActReboot]"
  by (simp add: fs_eval)

theorem failsafe_window_refines_witness:
  "fst (window_run sampleDurations 190 (fresh_window 0) sampleObs)
     = [ActNone, ActNone, ActNone, ActRollback, ActReboot]"
proof -
  let ?m = "New sampleDurations"
  obtain ep m1 where arm: "ArmHealth 10 True True True ?m = (ep, m1)" by fastforce
  obtain acts m2 where run: "tick_run m1 sampleObs = (acts, m2)" by fastforce
  have ok: "obs_ok sampleObs" by (simp add: obs_ok_def sampleObs_def)
  have base: "fsD ?m = sampleDurations" "10 + in_ms (KeepWindow sampleDurations) = 190" "fsLastAt m1 = 0"
    using arm by (auto simp: fs_eval)
  have "acts = [ActNone, ActNone, ActNone, ActRollback, ActReboot]"
    using sampleWindow arm run by simp
  then show ?thesis using failsafe_window_refines[OF arm ok run] base by simp
qed

text \<open>C2. Escalation is earned, ordered and certain. In an armed window, a rollback is triggered only by
  a \<open>HealthDown\<close> observation once the measured outage reaches \<open>RollbackAfter\<close>, and at most once; a reboot
  only once the measured outage reaches \<open>RebootAfter\<close> and strictly after a triggered rollback; and a
  measured outage of \<open>RollbackAfter\<close> in a window that has not closed has triggered the rollback, and one of
  \<open>RebootAfter\<close> in a window that has not closed and has triggered its rollback triggers the reboot.
  Observations that established nothing never escalate.\<close>

theorem failsafe_escalation:
  assumes "ArmHealth now hasRb hasReboot allow m = (ep, m1)" and "obs_ok (os @ [(t, h)])"
    and "tick_run m1 (os @ [(t, h)]) = (acts @ [a], m2)" and "length acts = length os"
  shows "(a = ActRollback \<longrightarrow> h = HealthDown \<and> ActRollback \<notin> set acts
            \<and> (\<exists>x. measured_outage (rev (os @ [(t, h)])) = Some x \<and> in_ms (RollbackAfter (fsD m)) \<le> x))
       \<and> (a = ActReboot \<longrightarrow> h = HealthDown \<and> ActRollback \<in> set acts
            \<and> (\<exists>x. measured_outage (rev (os @ [(t, h)])) = Some x \<and> in_ms (RebootAfter (fsD m)) \<le> x))
       \<and> (\<forall>x. h = HealthDown \<and> ActDone \<notin> set acts \<and> ActReboot \<notin> set acts
            \<and> measured_outage (rev (os @ [(t, h)])) = Some x \<and> in_ms (RollbackAfter (fsD m)) \<le> x
            \<longrightarrow> ActRollback \<in> set (acts @ [a]))
       \<and> (\<forall>x. h = HealthDown \<and> ActDone \<notin> set acts \<and> ActReboot \<notin> set acts \<and> ActRollback \<in> set acts
            \<and> measured_outage (rev (os @ [(t, h)])) = Some x \<and> in_ms (RebootAfter (fsD m)) \<le> x
            \<longrightarrow> a = ActReboot)
       \<and> (h = HealthUnknown \<longrightarrow> a = ActNone)"
proof -
  let ?dl = "now + in_ms (KeepWindow (fsD m))"
  let ?w0 = "fresh_window (fsLastAt m1)"
  have run: "window_run (fsD m) ?dl ?w0 (os @ [(t, h)]) = (acts @ [a], abs_window m2)"
    using tick_run_refines[OF armed_window(2)[OF assms(1)] _ assms(2,3)] armed_window[OF assms(1)] by simp
  obtain acts0 w where r0: "window_run (fsD m) ?dl ?w0 os = (acts0, w)" by fastforce
  obtain a' w' where st: "window_step (fsD m) ?dl w (t, h) = (a', w')" by fastforce
  have eq: "acts0 = acts" "a' = a" using run r0 st by (auto simp: window_run_append)
  have hist: "window_hist w os acts" using window_hist_run[OF r0] eq by simp
  then show ?thesis
    using st measured_outage_nonempty[of "rev os"] unfolding eq
    by (cases h) (auto simp: window_hist_def Let_def hd_rev split: if_splits option.splits)
qed

theorem failsafe_escalation_witness:
  "\<exists>x. measured_outage (rev sampleObs) = Some x \<and> 300 \<le> x"
proof -
  let ?m = "New sampleDurations"
  let ?os = "[(20, HealthDown), (40, HealthUnknown), (70, HealthDown), (95, HealthDown)] :: obs list"
  let ?acts = "[ActNone, ActNone, ActNone, ActRollback]"
  obtain ep m1 where arm: "ArmHealth 10 True True True ?m = (ep, m1)" by fastforce
  have split: "sampleObs = ?os @ [(400, HealthDown)]" by (simp add: sampleObs_def)
  obtain m2 where run: "tick_run m1 (?os @ [(400, HealthDown)]) = (?acts @ [ActReboot], m2)"
    using sampleWindow arm unfolding split by (metis append_Cons append_Nil prod.collapse snd_conv)
  have ok: "obs_ok (?os @ [(400, HealthDown)])" by (simp add: obs_ok_def)
  have d: "in_ms (RebootAfter (fsD ?m)) = 300" by (simp add: fs_eval)
  from failsafe_escalation[OF arm ok run] show ?thesis unfolding split d by simp
qed

text \<open>A manual rollback never reports false success. It returns nil only when the closure ran in
  this call and returned nil, when no closure is set, or when an earlier dispatch completed without
  failing; then the window is closed as rolled back. Every other answer leaves the window pending and
  its context alive, so the escalation to a reboot stays armed; a closure's own error is recorded as
  the failed verdict.\<close>

theorem rollbackNow_never_false_success:
  assumes "rollbackNow epoch only rb m = (res, m')"
  shows "(res = None \<longrightarrow> \<not> fsPending m' \<and> fsPhase m' = PRolledBack
            \<and> (rb = None \<or> fsRollback m = None \<or> fsRollbackDone m \<and> \<not> fsRollbackFailed m))
       \<and> (res \<noteq> None \<longrightarrow> fsPending m' = fsPending m \<and> fsCancelled m' = fsCancelled m
            \<and> fsEpoch m' = fsEpoch m)
       \<and> (\<forall>e. res = Some (ErrRollback e) \<longrightarrow>
            fsPhase m' = PRollbackFailed \<and> fsRollbackFailed m' \<and> fsLastErr m' = e)"
  using assms
  by (auto simp: rollbackNow_def rollbackNow_begin_def rollbackNow_end_def cancel_current_def
      markRollbackFailed_def Let_def split: if_splits option.splits rb_start.splits sum.splits prod.splits)

theorem rollbackNow_never_false_success_witness:
  "\<exists>m'. rollbackNow 0 False (Some (ErrRollback ''ip rule'')) (snd (ArmHealth 10 True True True (New sampleDurations)))
      = (Some (ErrRollback ''ip rule''), m') \<and> fsPending m' \<and> fsLastErr m' = ''ip rule''"
proof -
  let ?m = "snd (ArmHealth 10 True True True (New sampleDurations))"
  obtain res m' where r: "rollbackNow 0 False (Some (ErrRollback ''ip rule'')) ?m = (res, m')" by fastforce
  have "res = Some (ErrRollback ''ip rule'')" using r by (auto simp: rollbackNow_def fs_eval)
  moreover have "fsPending ?m" by (simp add: fs_eval)
  ultimately show ?thesis
    using rollbackNow_never_false_success[OF r] r by auto
qed

end
