(* ===== verification/Failsafe_Concurrent.thy ===== *)
theory Failsafe_Concurrent
  imports Failsafe_Manager
begin

text \<open>
  The fail-safe manager with everything that can run on it at the same time: the goroutine \<open>run\<close> of each
  armed window, any number of manual rollbacks, and Arm, Confirm, Disarm and MarkRolledBack from the
  Apply path. A move is one section that the code executes under the manager's lock, or one step of a
  goroutine between two such sections; rollback closures start and return in separate moves, since the
  code calls them unlocked. Clock values, connectivity readings and closure results are arbitrary.
\<close>

section \<open>Threads\<close>

datatype rpc = RGrace | RTop | RPend | RProbe | RClaim | RCalling | RMarking rb_result
  | RClaimReboot | RCallReboot | RWait | RExit

record runner =
  gEpoch :: int
  gPc :: rpc
  gHasRb :: bool
  gHasReboot :: bool
  gAllow :: bool

datatype mpc = MRun | MEnd rb_result | MMark rb_error | MRet rb_result

record manual =
  mEpoch :: int
  mPc :: mpc

datatype fs_event = EvAuto int | EvManual int | EvReboot int

record System =
  sysM :: Manager
  sysG :: "runner list"
  sysC :: "manual list"
  sysTrace :: "fs_event list" \<comment> \<open>newest first\<close>

definition init_sys :: "Durations \<Rightarrow> System" where
  "init_sys d = \<lparr>sysM = New d, sysG = [], sysC = [], sysTrace = []\<rparr>"

datatype gmove = GGrace | GCtxDone | GTop | GPend | GTick go_time Health | GClaim | GReturn rb_result
  | GMark | GClaimReboot | GReboot | GTicker

datatype mmove = MReturn rb_result | MFinish | MMarkFailed

datatype move = MvArm go_time bool bool bool | MvConfirm | MvDisarm | MvMarkRolledBack
  | MvRollbackNow int bool | MvRun nat gmove | MvManual nat mmove

definition after_action :: "runner \<Rightarrow> Action \<Rightarrow> rpc" where
  "after_action g a =
    (case a of
       ActNone \<Rightarrow> RWait
     | ActRollback \<Rightarrow> (if gHasRb g then RClaim else RWait)
     | ActReboot \<Rightarrow> (if gAllow g \<and> gHasReboot g then RClaimReboot else RExit)
     | ActDone \<Rightarrow> RExit)"

text \<open>One move of the goroutine \<open>run\<close>: new program counter, manager and events.\<close>

fun run_step :: "Manager \<Rightarrow> runner \<Rightarrow> gmove \<Rightarrow> (rpc \<times> Manager \<times> fs_event list) option" where
  "run_step m g GGrace = (if gPc g = RGrace then Some (RTop, m, []) else None)"
| "run_step m g GCtxDone =
     (if gPc g \<in> {RGrace, RWait} \<and> gEpoch g \<in> fsCancelled m then Some (RExit, m, []) else None)"
| "run_step m g GTop =
     (if gPc g = RTop then Some (if gEpoch g \<in> fsCancelled m then RExit else RPend, m, []) else None)"
| "run_step m g GPend =
     (if gPc g = RPend then Some (if fsPending m then RProbe else RExit, m, []) else None)"
| "run_step m g (GTick now h) =
     (if gPc g = RProbe then (case tickHealth now h m of (a, m') \<Rightarrow> Some (after_action g a, m', []))
      else None)"
| "run_step m g GClaim =
     (if gPc g = RClaim then
        (case claimRollback (gEpoch g) m of
           (True, m') \<Rightarrow> Some (RCalling, m', [EvAuto (gEpoch g)])
         | (False, m') \<Rightarrow> Some (RWait, m', []))
      else None)"
| "run_step m g (GReturn res) = (if gPc g = RCalling then Some (RMarking res, m, []) else None)"
| "run_step m g GMark =
     (case gPc g of
        RMarking None \<Rightarrow> Some (RWait, markRollbackDone (gEpoch g) m, [])
      | RMarking (Some e) \<Rightarrow> Some (RWait, markRollbackFailed (gEpoch g) (Some e) m, [])
      | _ \<Rightarrow> None)"
| "run_step m g GClaimReboot =
     (if gPc g = RClaimReboot then Some (if claimReboot (gEpoch g) m then RCallReboot else RExit, m, [])
      else None)"
| "run_step m g GReboot =
     (if gPc g = RCallReboot then Some (RExit, m, [EvReboot (gEpoch g)]) else None)"
| "run_step m g GTicker = (if gPc g = RWait then Some (RTop, m, []) else None)"

fun manual_step :: "Manager \<Rightarrow> manual \<Rightarrow> mmove \<Rightarrow> (mpc \<times> Manager) option" where
  "manual_step m c (MReturn res) = (if mPc c = MRun then Some (MEnd res, m) else None)"
| "manual_step m c MFinish =
     (case mPc c of
        MEnd res \<Rightarrow> (case rollbackNow_end (mEpoch c) res m of
                       (Inr r, m') \<Rightarrow> Some (MRet r, m') | (Inl e, m') \<Rightarrow> Some (MMark e, m'))
      | _ \<Rightarrow> None)"
| "manual_step m c MMarkFailed =
     (case mPc c of
        MMark e \<Rightarrow> Some (MRet (Some e), markRollbackFailed (mEpoch c) (Some e) m)
      | _ \<Rightarrow> None)"

fun fs_exec :: "System \<Rightarrow> move \<Rightarrow> System option" where
  "fs_exec s (MvArm now rb reboot allow) =
     (case ArmHealth now rb reboot allow (sysM s) of (ep, m') \<Rightarrow>
        Some (s\<lparr>sysM := m', sysG := sysG s @ [\<lparr>gEpoch = ep, gPc = RGrace, gHasRb = rb,
                 gHasReboot = reboot, gAllow = allow\<rparr>]\<rparr>))"
| "fs_exec s MvConfirm = Some (s\<lparr>sysM := Confirm (sysM s)\<rparr>)"
| "fs_exec s MvDisarm = Some (s\<lparr>sysM := snd (Disarm (sysM s))\<rparr>)"
| "fs_exec s MvMarkRolledBack = Some (s\<lparr>sysM := MarkRolledBack (sysM s)\<rparr>)"
| "fs_exec s (MvRollbackNow epoch only) =
     (case rollbackNow_begin epoch only (sysM s) of
        (RbReturn res, m') \<Rightarrow> Some (s\<lparr>sysM := m'\<rparr>)
      | (RbRun ep clo, m') \<Rightarrow>
         Some (s\<lparr>sysM := m',
            sysC := sysC s @ [\<lparr>mEpoch = ep, mPc = (if clo = None then MEnd None else MRun)\<rparr>],
            sysTrace := (if clo = None then sysTrace s else EvManual ep # sysTrace s)\<rparr>))"
| "fs_exec s (MvRun i gm) =
     (if i < length (sysG s) then
        (case run_step (sysM s) (sysG s ! i) gm of
           None \<Rightarrow> None
         | Some (pc, m', evs) \<Rightarrow>
            Some (s\<lparr>sysM := m', sysG := (sysG s)[i := (sysG s ! i)\<lparr>gPc := pc\<rparr>],
                    sysTrace := evs @ sysTrace s\<rparr>))
      else None)"
| "fs_exec s (MvManual i mm) =
     (if i < length (sysC s) then
        (case manual_step (sysM s) (sysC s ! i) mm of
           None \<Rightarrow> None
         | Some (pc, m') \<Rightarrow>
            Some (s\<lparr>sysM := m', sysC := (sysC s)[i := (sysC s ! i)\<lparr>mPc := pc\<rparr>]\<rparr>))
      else None)"

inductive fs_reach :: "Durations \<Rightarrow> System \<Rightarrow> bool" for d where
  start: "fs_reach d (init_sys d)"
| move: "fs_reach d s \<Longrightarrow> fs_exec s mv = Some s' \<Longrightarrow> fs_reach d s'"

fun fs_moves :: "System \<Rightarrow> move list \<Rightarrow> System option" where
  "fs_moves s [] = Some s"
| "fs_moves s (mv # mvs) = (case fs_exec s mv of None \<Rightarrow> None | Some s' \<Rightarrow> fs_moves s' mvs)"

lemma fs_moves_reach: "fs_reach d s \<Longrightarrow> fs_moves s mvs = Some s' \<Longrightarrow> fs_reach d s'"
  by (induction mvs arbitrary: s) (auto split: option.splits intro: fs_reach.move)

section \<open>Rollbacks in flight\<close>

definition calling :: "int \<Rightarrow> runner \<Rightarrow> bool" where
  "calling w g \<longleftrightarrow> gEpoch g = w \<and> (case gPc g of RCalling \<Rightarrow> True | RMarking _ \<Rightarrow> True | _ \<Rightarrow> False)"

definition pressing :: "int \<Rightarrow> manual \<Rightarrow> bool" where
  "pressing w c \<longleftrightarrow> mEpoch c = w \<and> (case mPc c of MRet _ \<Rightarrow> False | _ \<Rightarrow> True)"

text \<open>How many invocations of window \<open>w\<close>'s rollback are between their claim and their verdict.\<close>

definition inflight :: "System \<Rightarrow> int \<Rightarrow> nat" where
  "inflight s w = length (filter (calling w) (sysG s)) + length (filter (pressing w) (sysC s))"

definition unresolved :: "Manager \<Rightarrow> bool" where
  "unresolved m \<longleftrightarrow> fsDispatched m \<and> \<not> fsRollbackDone m \<and> \<not> fsRollbackFailed m"

text \<open>
  Windows only look back: every thread belongs to a window armed so far, and only windows that were
  armed have a goroutine. For the current window, an invocation in flight means that it was claimed and
  has no verdict yet; and a window that was armed and not claimed has no verdict either.
\<close>

definition sys_inv :: "System \<Rightarrow> bool" where
  "sys_inv s \<longleftrightarrow>
     (\<forall>g\<in>set (sysG s). gEpoch g \<le> fsEpoch (sysM s)) \<and> (\<forall>c\<in>set (sysC s). mEpoch c \<le> fsEpoch (sysM s))
     \<and> (\<forall>w. inflight s w \<le> 1)
     \<and> (0 < inflight s (fsEpoch (sysM s)) \<longrightarrow> unresolved (sysM s))
     \<and> ((\<exists>g\<in>set (sysG s). gEpoch g = fsEpoch (sysM s)) \<and> \<not> fsDispatched (sysM s)
          \<longrightarrow> \<not> fsRollbackDone (sysM s) \<and> \<not> fsRollbackFailed (sysM s))"

lemma inflight_zero:
  assumes "\<forall>g\<in>set (sysG s). gEpoch g < w" "\<forall>c\<in>set (sysC s). mEpoch c < w"
  shows "inflight s w = 0"
  using assms by (auto simp: inflight_def calling_def pressing_def filter_empty_conv)

text \<open>A move that starts a new epoch keeps the invariant: nothing can be in flight for it.\<close>

lemma sys_inv_new_epoch:
  assumes "sys_inv s" "fsEpoch m' = fsEpoch (sysM s) + 1"
  shows "sys_inv (s\<lparr>sysM := m'\<rparr>)"
proof -
  have le: "\<forall>g\<in>set (sysG s). gEpoch g < fsEpoch m'" "\<forall>c\<in>set (sysC s). mEpoch c < fsEpoch m'"
    using assms by (auto simp: sys_inv_def)
  have "inflight s (fsEpoch m') = 0" by (rule inflight_zero[OF le])
  moreover have "inflight (s\<lparr>sysM := m'\<rparr>) w = inflight s w" for w by (simp add: inflight_def)
  ultimately show ?thesis using assms le by (auto simp: sys_inv_def)
qed

lemma epoch_ops:
  "fsEpoch (Confirm m) = fsEpoch m + 1" "fsEpoch (snd (Disarm m)) = fsEpoch m + 1"
  "MarkRolledBack m = m \<or> fsEpoch (MarkRolledBack m) = fsEpoch m + 1"
  by (auto simp: fs_defs split: option.splits)

lemma sys_inv_arm:
  assumes "sys_inv s" "ArmHealth now rb reboot allow (sysM s) = (ep, m')"
  shows "sys_inv (s\<lparr>sysM := m', sysG := sysG s @ [\<lparr>gEpoch = ep, gPc = RGrace, gHasRb = rb,
                 gHasReboot = reboot, gAllow = allow\<rparr>]\<rparr>)"
proof -
  have ep: "fsEpoch m' = fsEpoch (sysM s) + 1" "ep = fsEpoch (sysM s) + 1"
    using armed_window[OF assms(2)] by auto
  have flags: "\<not> fsRollbackDone m'" "\<not> fsRollbackFailed m'"
    using assms(2) by (auto simp: ArmHealth_def Let_def)
  have base: "sys_inv (s\<lparr>sysM := m'\<rparr>)" by (rule sys_inv_new_epoch[OF assms(1) ep(1)])
  let ?s = "s\<lparr>sysM := m', sysG := sysG s @ [\<lparr>gEpoch = ep, gPc = RGrace, gHasRb = rb,
                 gHasReboot = reboot, gAllow = allow\<rparr>]\<rparr>"
  have "inflight ?s w = inflight (s\<lparr>sysM := m'\<rparr>) w" for w by (simp add: inflight_def calling_def)
  then show ?thesis using base flags ep by (auto simp: sys_inv_def)
qed

lemma inflight_run_update:
  assumes "i < length (sysG s)"
  shows "inflight (s\<lparr>sysM := m', sysG := (sysG s)[i := g'], sysTrace := tr\<rparr>) w
       + (if calling w (sysG s ! i) then 1 else 0) = inflight s w + (if calling w g' then 1 else 0)"
  using filter_update[OF assms, of "calling w" g'] by (simp add: inflight_def)

lemma inflight_manual_update:
  assumes "i < length (sysC s)"
  shows "inflight (s\<lparr>sysM := m', sysC := (sysC s)[i := c']\<rparr>) w
       + (if pressing w (sysC s ! i) then 1 else 0) = inflight s w + (if pressing w c' then 1 else 0)"
  using filter_update[OF assms, of "pressing w" c'] by (simp add: inflight_def)

text \<open>What one goroutine move does to the manager and to its own invocation.\<close>

definition same_verdict :: "Manager \<Rightarrow> Manager \<Rightarrow> bool" where
  "same_verdict m m' \<longleftrightarrow> fsDispatched m' = fsDispatched m \<and> fsRollbackDone m' = fsRollbackDone m
     \<and> fsRollbackFailed m' = fsRollbackFailed m"

lemma same_verdict_refl [simp]: "same_verdict m m"
  by (simp add: same_verdict_def)

lemma run_step_cases:
  assumes "run_step m g gm = Some (pc, m', evs)"
  obtains (quiet) "fsEpoch m' = fsEpoch m" "same_verdict m m'"
      "\<And>w. calling w (g\<lparr>gPc := pc\<rparr>) = calling w g" "\<And>w. EvAuto w \<notin> set evs"
  | (claim) "gPc g = RClaim" "pc = RCalling" "gEpoch g = fsEpoch m" "\<not> fsDispatched m"
      "m' = m\<lparr>fsDispatched := True\<rparr>" "evs = [EvAuto (gEpoch g)]"
  | (verdict) res where "gPc g = RMarking res" "pc = RWait" "evs = []" "fsEpoch m' = fsEpoch m"
      "fsDispatched m' = fsDispatched m" "gEpoch g \<noteq> fsEpoch m \<longrightarrow> m' = m"
proof -
  have neutral: thesis if "m' = m" "\<forall>w. calling w (g\<lparr>gPc := pc\<rparr>) = calling w g" "\<forall>w. EvAuto w \<notin> set evs"
    using quiet that by simp
  show thesis
  proof (cases gm)
  case (GTick now h)
  then show thesis
    using assms tickHealth_frame(1-8)[of now h m]
    by (intro quiet) (auto simp: same_verdict_def calling_def after_action_def
        split: if_splits prod.splits Action.splits)
next
  case GClaim
  then show thesis
    using assms claim quiet
    by (auto simp: claimRollback_def calling_def split: if_splits)
next
  case GMark
  then show thesis
    using assms verdict
    by (auto simp: markRollbackDone_def markRollbackFailed_def Let_def split: rpc.splits option.splits if_splits)
qed (rule neutral; use assms in \<open>auto simp: calling_def split: if_splits\<close>)+
qed

lemma sys_inv_run:
  assumes inv: "sys_inv s" and i: "i < length (sysG s)"
    and st: "run_step (sysM s) (sysG s ! i) gm = Some (pc, m', evs)"
  shows "sys_inv (s\<lparr>sysM := m', sysG := (sysG s)[i := (sysG s ! i)\<lparr>gPc := pc\<rparr>], sysTrace := tr\<rparr>)"
    (is "sys_inv ?s")
proof -
  let ?g = "sysG s ! i"
  have g: "?g \<in> set (sysG s)" using i by simp
  note upd = inflight_run_update[OF i, where m' = m' and g' = "?g\<lparr>gPc := pc\<rparr>" and tr = tr]
  have sub: "set (sysG ?s) \<subseteq> insert (?g\<lparr>gPc := pc\<rparr>) (set (sysG s))"
    by (simp add: set_update_subset_insert)
  have eps: "gEpoch x \<le> fsEpoch (sysM s)" if "x \<in> set (sysG ?s)" for x
    using subsetD[OF sub that] inv g by (auto simp: sys_inv_def)
  have exg: "(\<exists>x\<in>set (sysG ?s). gEpoch x = w) \<Longrightarrow> (\<exists>x\<in>set (sysG s). gEpoch x = w)" for w
    using sub g by fastforce
  show ?thesis
    using st
  proof (cases rule: run_step_cases)
    case quiet
    have "inflight ?s w = inflight s w" for w using upd[of w] quiet(3)[of w] by simp
    then show ?thesis
      using inv quiet(1,2) eps exg by (auto simp: sys_inv_def same_verdict_def unresolved_def)
  next
    case claim
    have nv: "\<not> fsRollbackDone (sysM s)" "\<not> fsRollbackFailed (sysM s)"
      using inv g claim(3,4) by (auto simp: sys_inv_def)
    have z: "inflight s (fsEpoch (sysM s)) = 0"
      using inv claim(4) by (auto simp: sys_inv_def unresolved_def)
    have "inflight ?s w = inflight s w + (if w = gEpoch ?g then 1 else 0)" for w
      using upd[of w] claim(1,2) by (auto simp: calling_def)
    then show ?thesis
      using inv claim(3,5) z nv eps by (auto simp: sys_inv_def unresolved_def)
  next
    case (verdict res)
    have dec: "inflight ?s w + (if w = gEpoch ?g then 1 else 0) = inflight s w" for w
      using upd[of w] verdict(1,2) by (auto simp: calling_def)
    then have le: "inflight ?s w \<le> 1" for w using inv by (auto simp: sys_inv_def; metis add_leD1)
    have own: "inflight s (gEpoch ?g) \<le> 1" using inv by (simp add: sys_inv_def)
    show ?thesis
    proof (cases "gEpoch ?g = fsEpoch (sysM s)")
      case True
      have "inflight ?s (fsEpoch (sysM s)) = 0" using dec[of "gEpoch ?g"] own True by simp
      moreover have "fsDispatched (sysM s)"
        using inv dec[of "gEpoch ?g"] True by (auto simp: sys_inv_def unresolved_def)
      ultimately show ?thesis using inv verdict(4,5) le eps by (auto simp: sys_inv_def)
    next
      case False
      then have "m' = sysM s" using verdict(6) by simp
      moreover have "inflight ?s (fsEpoch (sysM s)) = inflight s (fsEpoch (sysM s))"
        using dec[of "fsEpoch (sysM s)"] False by simp
      ultimately show ?thesis using inv le eps exg by (auto simp: sys_inv_def)
    qed
  qed
qed

lemma manual_step_cases:
  assumes "manual_step m c mm = Some (pc, m')"
  obtains (quiet) "m' = m" "\<And>w. pressing w (c\<lparr>mPc := pc\<rparr>) = pressing w c"
  | (verdict) "pressing (mEpoch c) c" "\<And>w. \<not> pressing w (c\<lparr>mPc := pc\<rparr>)" "fsEpoch m' = fsEpoch m"
      "fsDispatched m' = fsDispatched m" "mEpoch c \<noteq> fsEpoch m \<longrightarrow> m' = m"
proof (cases mm)
  case (MReturn res)
  then show thesis using assms by (intro quiet) (auto simp: pressing_def split: if_splits)
next
  case MFinish
  then obtain res where res: "mPc c = MEnd res" using assms by (auto split: mpc.splits)
  show thesis
  proof (cases "rollbackNow_end (mEpoch c) res m")
    case (Pair r m1)
    then show thesis
      using assms MFinish res quiet verdict
      by (cases r) (auto simp: rollbackNow_end_def cancel_current_def pressing_def
          split: if_splits option.splits)
  qed
next
  case MMarkFailed
  then show thesis
    using assms by (intro verdict) (auto simp: pressing_def markRollbackFailed_def Let_def split: mpc.splits if_splits)
qed

lemma sys_inv_manual:
  assumes inv: "sys_inv s" and i: "i < length (sysC s)"
    and st: "manual_step (sysM s) (sysC s ! i) mm = Some (pc, m')"
  shows "sys_inv (s\<lparr>sysM := m', sysC := (sysC s)[i := (sysC s ! i)\<lparr>mPc := pc\<rparr>]\<rparr>)" (is "sys_inv ?s")
proof -
  let ?c = "sysC s ! i"
  have c: "?c \<in> set (sysC s)" using i by simp
  note upd = inflight_manual_update[OF i, where m' = m' and c' = "?c\<lparr>mPc := pc\<rparr>"]
  have sub: "set (sysC ?s) \<subseteq> insert (?c\<lparr>mPc := pc\<rparr>) (set (sysC s))"
    by (simp add: set_update_subset_insert)
  have eps: "mEpoch x \<le> fsEpoch (sysM s)" if "x \<in> set (sysC ?s)" for x
    using subsetD[OF sub that] inv c by (auto simp: sys_inv_def)
  show ?thesis
    using st
  proof (cases rule: manual_step_cases)
    case quiet
    have "inflight ?s w = inflight s w" for w using upd[of w] quiet(2)[of w] by simp
    then show ?thesis using inv quiet(1) eps by (auto simp: sys_inv_def)
  next
    case verdict
    have dec: "inflight ?s w + (if w = mEpoch ?c then 1 else 0) = inflight s w" for w
      using upd[of w] verdict(1,2) by (auto simp: pressing_def)
    then have le: "inflight ?s w \<le> 1" for w using inv by (auto simp: sys_inv_def; metis add_leD1)
    have own: "inflight s (mEpoch ?c) \<le> 1" using inv by (simp add: sys_inv_def)
    show ?thesis
    proof (cases "mEpoch ?c = fsEpoch (sysM s)")
      case True
      have "inflight ?s (fsEpoch (sysM s)) = 0" using dec[of "mEpoch ?c"] own True by simp
      moreover have "fsDispatched (sysM s)"
        using inv dec[of "mEpoch ?c"] True by (auto simp: sys_inv_def unresolved_def)
      ultimately show ?thesis using inv verdict(3,4) le eps by (auto simp: sys_inv_def)
    next
      case False
      then have "m' = sysM s" using verdict(5) by simp
      moreover have "inflight ?s (fsEpoch (sysM s)) = inflight s (fsEpoch (sysM s))"
        using dec[of "fsEpoch (sysM s)"] False by simp
      ultimately show ?thesis using inv le eps by (auto simp: sys_inv_def)
    qed
  qed
qed

lemma rollbackNow_begin_cases:
  assumes "rollbackNow_begin epoch only m = (r, m')"
  obtains (refused) res where "r = RbReturn (Some res)" "m' = m"
  | (finalized) "r = RbReturn None" "fsEpoch m' = fsEpoch m" "fsRollbackDone m" "\<not> fsRollbackFailed m"
      "fsDispatched m'" "\<not> fsPending m'"
  | (claimed) clo where "r = RbRun (fsEpoch m) clo" "clo = fsRollback m" "fsEpoch m' = fsEpoch m"
      "\<not> unresolved m" "unresolved m'" "fsPending m' = fsPending m"
proof -
  let ?ok = "fsRollbackDone m \<and> \<not> fsRollbackFailed m"
  consider (sup) "only" "fsEpoch m \<noteq> epoch" | (busy) "\<not> (only \<and> fsEpoch m \<noteq> epoch)" "unresolved m"
    | (prior) "\<not> (only \<and> fsEpoch m \<noteq> epoch)" "\<not> unresolved m" "?ok"
    | (fresh) "\<not> (only \<and> fsEpoch m \<noteq> epoch)" "\<not> unresolved m" "\<not> ?ok" by blast
  then show thesis
  proof cases
    case sup
    show thesis by (rule refused[of ErrSuperseded]) (use assms sup in \<open>simp_all add: rollbackNow_begin_def\<close>)
  next
    case busy
    show thesis
      by (rule refused[of ErrInProgress])
        (use assms busy in \<open>simp_all add: rollbackNow_begin_def unresolved_def\<close>)
  next
    case prior
    show thesis
      by (rule finalized) (use assms prior in \<open>auto simp: rollbackNow_begin_def unresolved_def
          cancel_current_def Let_def split: option.splits\<close>)
  next
    case fresh
    show thesis
      by (rule claimed[of "fsRollback m"])
        (use assms fresh in \<open>simp_all add: rollbackNow_begin_def unresolved_def Let_def\<close>, auto)
  qed
qed

lemma sys_inv_begin:
  assumes inv: "sys_inv s" and st: "rollbackNow_begin epoch only (sysM s) = (r, m')"
    and s': "fs_exec s (MvRollbackNow epoch only) = Some s'"
  shows "sys_inv s'"
  using st
proof (cases rule: rollbackNow_begin_cases)
  case (refused res)
  then show ?thesis using inv s' st by simp
next
  case finalized
  then have "s' = s\<lparr>sysM := m'\<rparr>" using s' st by simp
  moreover have "inflight s (fsEpoch (sysM s)) = 0"
    using inv finalized by (auto simp: sys_inv_def unresolved_def)
  ultimately show ?thesis using inv finalized by (auto simp: sys_inv_def inflight_def)
next
  case (claimed clo)
  let ?c = "\<lparr>mEpoch = fsEpoch (sysM s), mPc = (if clo = None then MEnd None else MRun)\<rparr>"
  have s'': "sysM s' = m'" "sysG s' = sysG s" "sysC s' = sysC s @ [?c]"
    using s' st claimed by auto
  have p: "pressing w ?c \<longleftrightarrow> w = fsEpoch (sysM s)" for w by (auto simp: pressing_def)
  have "inflight s' w = inflight s w + (if w = fsEpoch (sysM s) then 1 else 0)" for w
    using p[of w] by (simp add: inflight_def s'')
  moreover have "inflight s (fsEpoch (sysM s)) = 0"
    using inv claimed by (auto simp: sys_inv_def)
  ultimately show ?thesis using inv claimed by (auto simp: sys_inv_def s'' unresolved_def)
qed

lemma fs_exec_inv:
  assumes "sys_inv s" "fs_exec s mv = Some s'"
  shows "sys_inv s'"
proof (cases mv)
  case (MvArm now rb reboot allow)
  then show ?thesis
    using assms sys_inv_arm[OF assms(1)] by (auto split: prod.splits)
next
  case MvConfirm
  then show ?thesis using assms sys_inv_new_epoch[OF assms(1)] epoch_ops(1) by auto
next
  case MvDisarm
  then show ?thesis using assms sys_inv_new_epoch[OF assms(1)] epoch_ops(2) by auto
next
  case MvMarkRolledBack
  then show ?thesis
    using assms sys_inv_new_epoch[OF assms(1)] epoch_ops(3)[of "sysM s"] by auto
next
  case (MvRollbackNow epoch only)
  then show ?thesis
    using sys_inv_begin[OF assms(1)] assms(2) by (metis prod.exhaust)
next
  case (MvRun i gm)
  then show ?thesis using assms sys_inv_run[OF assms(1)] by (auto split: if_splits option.splits)
next
  case (MvManual i mm)
  then show ?thesis using assms sys_inv_manual[OF assms(1)] by (auto split: if_splits option.splits)
qed

lemma reach_inv: "fs_reach d s \<Longrightarrow> sys_inv s"
proof (induction rule: fs_reach.induct)
  case start
  show ?case by (simp add: sys_inv_def init_sys_def inflight_def)
next
  case (move s mv s')
  then show ?case by (blast intro: fs_exec_inv)
qed

section \<open>Automatic rollbacks in the trace\<close>

definition autos :: "int \<Rightarrow> fs_event list \<Rightarrow> nat" where
  "autos w tr = length (filter (\<lambda>e. e = EvAuto w) tr)"

definition trace_inv :: "System \<Rightarrow> bool" where
  "trace_inv s \<longleftrightarrow> (\<forall>w. autos w (sysTrace s) \<le> 1) \<and> (\<forall>w. 0 < autos w (sysTrace s) \<longrightarrow> w \<le> fsEpoch (sysM s))
     \<and> (0 < autos (fsEpoch (sysM s)) (sysTrace s) \<longrightarrow> fsDispatched (sysM s))"

lemma trace_inv_keep:
  assumes "trace_inv s" "sysTrace s' = evs @ sysTrace s" "\<And>w. EvAuto w \<notin> set evs"
    "fsEpoch (sysM s') = fsEpoch (sysM s) \<and> (fsDispatched (sysM s) \<longrightarrow> fsDispatched (sysM s'))
      \<or> fsEpoch (sysM s') = fsEpoch (sysM s) + 1"
  shows "trace_inv s'"
proof -
  have eq: "autos w (sysTrace s') = autos w (sysTrace s)" for w
  proof -
    have "filter (\<lambda>e. e = EvAuto w) evs = []" using assms(3)[of w] by (auto simp: filter_empty_conv)
    then show ?thesis by (simp add: autos_def assms(2))
  qed
  have old: "autos w (sysTrace s) \<le> 1" "0 < autos w (sysTrace s) \<Longrightarrow> w \<le> fsEpoch (sysM s)" for w
    using assms(1) by (auto simp: trace_inv_def)
  show ?thesis
    using assms(4)
  proof
    assume "fsEpoch (sysM s') = fsEpoch (sysM s) \<and> (fsDispatched (sysM s) \<longrightarrow> fsDispatched (sysM s'))"
    then show ?thesis using assms(1) by (simp add: trace_inv_def eq)
  next
    assume ep: "fsEpoch (sysM s') = fsEpoch (sysM s) + 1"
    then have "autos (fsEpoch (sysM s')) (sysTrace s) = 0" using old(2)[of "fsEpoch (sysM s')"] by linarith
    moreover have "0 < autos w (sysTrace s) \<Longrightarrow> w \<le> fsEpoch (sysM s')" for w
      using old(2)[of w] ep by linarith
    ultimately show ?thesis using old(1) by (simp add: trace_inv_def eq)
  qed
qed

lemma fs_exec_trace:
  assumes "trace_inv s" "fs_exec s mv = Some s'"
  shows "trace_inv s'"
proof (cases mv)
  case (MvArm now rb reboot allow)
  obtain ep m' where arm: "ArmHealth now rb reboot allow (sysM s) = (ep, m')" by fastforce
  show ?thesis
    by (rule trace_inv_keep[OF assms(1), where evs = "[]"])
      (use assms(2) arm MvArm armed_window[OF arm] in auto)
next
  case MvConfirm
  show ?thesis
    by (rule trace_inv_keep[OF assms(1), where evs = "[]"]) (use assms(2) MvConfirm epoch_ops(1) in auto)
next
  case MvDisarm
  show ?thesis
    by (rule trace_inv_keep[OF assms(1), where evs = "[]"]) (use assms(2) MvDisarm epoch_ops(2) in auto)
next
  case MvMarkRolledBack
  show ?thesis
    by (rule trace_inv_keep[OF assms(1), where evs = "[]"])
      (use assms(2) MvMarkRolledBack epoch_ops(3)[of "sysM s"] in auto)
next
  case (MvRollbackNow epoch only)
  obtain r m' where st: "rollbackNow_begin epoch only (sysM s) = (r, m')" by fastforce
  have "\<exists>evs. sysTrace s' = evs @ sysTrace s \<and> (\<forall>w. EvAuto w \<notin> set evs)" and "sysM s' = m'"
    using assms(2) MvRollbackNow st by (auto split: rb_start.splits)
  then obtain evs where evs: "sysTrace s' = evs @ sysTrace s" "\<And>w. EvAuto w \<notin> set evs" "sysM s' = m'" by blast
  have "fsEpoch m' = fsEpoch (sysM s) \<and> (fsDispatched (sysM s) \<longrightarrow> fsDispatched m')"
    using st by (cases rule: rollbackNow_begin_cases) (auto simp: unresolved_def)
  then show ?thesis using trace_inv_keep[OF assms(1) evs(1,2)] evs(3) by simp
next
  case (MvManual i mm)
  then obtain pc m' where i: "i < length (sysC s)"
    and st: "manual_step (sysM s) (sysC s ! i) mm = Some (pc, m')" and s': "sysM s' = m'" "sysTrace s' = sysTrace s"
    using assms(2) by (auto split: if_splits option.splits)
  have "fsEpoch m' = fsEpoch (sysM s) \<and> fsDispatched m' = fsDispatched (sysM s)"
    using st by (cases rule: manual_step_cases) auto
  then show ?thesis using trace_inv_keep[OF assms(1), where evs = "[]"] s' by simp
next
  case (MvRun i gm)
  then obtain pc m' evs where i: "i < length (sysG s)"
    and st: "run_step (sysM s) (sysG s ! i) gm = Some (pc, m', evs)"
    and s': "sysM s' = m'" "sysTrace s' = evs @ sysTrace s"
    using assms(2) by (auto split: if_splits option.splits)
  show ?thesis
    using st
  proof (cases rule: run_step_cases)
    case quiet
    then show ?thesis using trace_inv_keep[OF assms(1) s'(2)] s'(1) by (simp add: same_verdict_def)
  next
    case claim
    have "autos (fsEpoch (sysM s)) (sysTrace s) = 0"
      using assms(1) claim(4) by (auto simp: trace_inv_def)
    moreover have "autos w (sysTrace s') = autos w (sysTrace s) + (if w = fsEpoch (sysM s) then 1 else 0)" for w
      using claim s' by (auto simp: autos_def)
    ultimately show ?thesis using assms(1) claim s'(1) by (auto simp: trace_inv_def)
  next
    case (verdict res)
    then show ?thesis using trace_inv_keep[OF assms(1) s'(2)] s'(1) by simp
  qed
qed

lemma reach_trace: "fs_reach d s \<Longrightarrow> trace_inv s"
proof (induction rule: fs_reach.induct)
  case start
  show ?case by (simp add: trace_inv_def init_sys_def autos_def)
next
  case (move s mv s')
  then show ?case by (blast intro: fs_exec_trace)
qed


section \<open>Properties\<close>

text \<open>An execution in which the window's goroutine sees an outage and dispatches the rollback, while
  the operator presses the manual button during the call.\<close>

definition auto_run :: "move list" where
  "auto_run =
    [MvArm 0 True True True, MvRun 0 GGrace, MvRun 0 GTop, MvRun 0 GPend, MvRun 0 (GTick 20000 HealthDown),
     MvRun 0 GTicker, MvRun 0 GTop, MvRun 0 GPend, MvRun 0 (GTick 70000 HealthDown),
     MvRun 0 GClaim, MvRollbackNow 0 False]"

definition auto_state :: System where
  "auto_state = the (fs_moves (init_sys DefaultDurations) auto_run)"

lemma auto_state_reach: "fs_reach DefaultDurations auto_state"
  by (rule fs_moves_reach[OF fs_reach.start, of _ auto_run]) code_simp

text \<open>C6. However the goroutines of past and present windows, manual rollbacks and the Apply path
  interleave, at most one invocation of a window's rollback is between its claim and its verdict.
\<close>

theorem one_rollback_in_flight:
  assumes "fs_reach d s"
  shows "inflight s w \<le> 1"
  using reach_inv[OF assms] by (simp add: sys_inv_def)

theorem one_rollback_in_flight_witness:
  "inflight auto_state 1 \<le> 1 \<and> inflight auto_state 1 = 1"
  using one_rollback_in_flight[OF auto_state_reach, of 1] by code_simp

text \<open>Over the whole life of the system, the automatic fail-safe starts the rollback of a given window
  at most once, whatever else runs: failed automatic rollbacks are not retried by the goroutine.
\<close>

theorem one_automatic_dispatch:
  assumes "fs_reach d s"
  shows "length (filter (\<lambda>e. e = EvAuto w) (sysTrace s)) \<le> 1"
  using reach_trace[OF assms] by (simp add: trace_inv_def autos_def)

theorem one_automatic_dispatch_witness:
  "length (filter (\<lambda>e. e = EvAuto 1) (sysTrace auto_state)) \<le> 1 \<and> sysTrace auto_state = [EvAuto 1]"
  using one_automatic_dispatch[OF auto_state_reach, of 1] by code_simp

text \<open>
  A superseded goroutine that has passed its pending check and is still probing ticks whatever window is
  current when the probe returns.
\<close>

definition stale_run :: "move list" where
  "stale_run =
    [MvArm 0 True True True, MvRun 0 GGrace, MvRun 0 GTop, MvRun 0 GPend,
     MvArm 1000 True True True, MvRun 1 GGrace, MvRun 1 GTop, MvRun 1 GPend,
     MvRun 1 (GTick 21000 HealthDown),
     MvRun 0 (GTick 70000 HealthDown), MvRun 0 GClaim]"

text \<open>The tick is not tied to the window it was started for: an execution is possible after which the
  current window is still pending and reports that it was rolled back, although no rollback, automatic or
  manual, was ever started. The goroutine of the first window, whose probe outlasted the second Arm,
  consumed the second window's rollback action and then failed the epoch check of its own claim.
\<close>

theorem stale_goroutine_consumes_rollback:
  "\<exists>s. fs_reach DefaultDurations s \<and> fsEpoch (sysM s) = 2 \<and> fsPending (sysM s)
     \<and> fsRolledBack (sysM s) \<and> fsPhase (sysM s) = PRolledBack \<and> fsRollback (sysM s) = Some 2
     \<and> \<not> fsDispatched (sysM s) \<and> sysTrace s = []"
proof -
  let ?s = "the (fs_moves (init_sys DefaultDurations) stale_run)"
  have "fs_moves (init_sys DefaultDurations) stale_run = Some ?s" by code_simp
  then have "fs_reach DefaultDurations ?s" by (rule fs_moves_reach[OF fs_reach.start])
  moreover have "fsEpoch (sysM ?s) = 2 \<and> fsPending (sysM ?s) \<and> fsRolledBack (sysM ?s)
     \<and> fsPhase (sysM ?s) = PRolledBack \<and> fsRollback (sysM ?s) = Some 2
     \<and> \<not> fsDispatched (sysM ?s) \<and> sysTrace ?s = []" by code_simp
  ultimately show ?thesis by blast
qed

end
