(* ===== verification/Watchdog.thy ===== *)
theory Watchdog
  imports WH_Prelude
begin

text \<open>
  The crash watchdog, \<open>internal/watchdog/watchdog.go\<close>: one supervision cycle \<open>tick\<close> with everything it
  reads (the supervisor's answers, the clock, the random source) as an argument, the jittered
  exponential backoff, restart accounting, and the theorem that restarts of a crash loop are paced.
  Clock values and durations are in nanoseconds; a zero \<open>time.Time\<close> is \<open>None\<close>.
\<close>

section \<open>State\<close>

type_synonym wd_time = "int option"

record Watchdog =
  wdName :: string
  wdMinBackoff :: int
  wdMaxBackoff :: int
  wdStable :: int
  wdRng :: bool \<comment> \<open>rng is not nil\<close>
  wdNotify :: bool \<comment> \<open>notify is not nil\<close>
  wdRestarts :: int
  wdFailed :: int
  wdLastRestart :: wd_time
  wdLastErr :: string
  wdBackoff :: int
  wdNextAttempt :: wd_time

definition sec :: int where "sec = 1000000000"

definition New_watchdog :: "string \<Rightarrow> Watchdog" where
  "New_watchdog name = \<lparr>wdName = name, wdMinBackoff = 1 * sec, wdMaxBackoff = 60 * sec, wdStable = 30 * sec,
     wdRng = True, wdNotify = False, wdRestarts = 0, wdFailed = 0, wdLastRestart = None, wdLastErr = '''',
     wdBackoff = 0, wdNextAttempt = None\<rparr>"

definition SetNotify :: "bool \<Rightarrow> Watchdog \<Rightarrow> Watchdog" where
  "SetNotify f w = w\<lparr>wdNotify := f\<rparr>"

text \<open>
  What one cycle reads. A supervisor either has the atomic restart (answering whether it started, and
  the error) or only \<open>Start\<close>; \<open>wRng\<close> is the random source that a tick may draw from.
\<close>

datatype restart_answer = StartIfDesiredDead bool "string option" | Start "string option"

record WdEnv =
  wDesired :: bool
  wAlive :: bool
  wNow :: int
  wRng :: "int \<Rightarrow> int"
  wAnswer :: restart_answer

text \<open>The alert texts, as their format arguments.\<close>

datatype wd_message =
    Crashed string int int        \<comment> \<open>name, restart number, next backoff\<close>
  | CrashedFailed string int string

section \<open>Operations\<close>

definition jittered :: "(int \<Rightarrow> int) \<Rightarrow> Watchdog \<Rightarrow> int \<Rightarrow> int" where
  "jittered rng w d =
    (if \<not> wdRng w \<or> d \<le> 0 then d
     else (let half = go_div d 2 in half + rng (half + 1)))"

definition clearBackoff :: "Watchdog \<Rightarrow> Watchdog" where
  "clearBackoff w = w\<lparr>wdBackoff := 0, wdNextAttempt := None\<rparr>"

text \<open>\<open>(err, deliberateStop)\<close>\<close>

fun restart_wd :: "restart_answer \<Rightarrow> string option \<times> bool" where
  "restart_wd (StartIfDesiredDead started err) =
     (if \<not> started \<and> err = None then (None, True) else (err, False))"
| "restart_wd (Start err) = (err, False)"

definition advance_backoff :: "Watchdog \<Rightarrow> int" where
  "advance_backoff w =
    (if wdBackoff w = 0 then wdMinBackoff w
     else if wdBackoff w < wdMaxBackoff w
       then (let b = wdBackoff w * 2 in if b > wdMaxBackoff w then wdMaxBackoff w else b)
     else wdBackoff w)"

definition tick_alive :: "int \<Rightarrow> Watchdog \<Rightarrow> Watchdog" where
  "tick_alive now w =
    (if wdBackoff w > 0 \<and> (case wdLastRestart w of None \<Rightarrow> False | Some lr \<Rightarrow> now - lr \<ge> wdStable w)
     then w\<lparr>wdBackoff := 0, wdNextAttempt := None\<rparr> else w)"

definition account :: "int \<Rightarrow> string option \<Rightarrow> Watchdog \<Rightarrow> Watchdog" where
  "account now err w =
    (let w1 = w\<lparr>wdRestarts := wdRestarts w + 1, wdLastRestart := Some now\<rparr>
     in (case err of
           Some e \<Rightarrow> w1\<lparr>wdFailed := wdFailed w1 + 1, wdLastErr := e\<rparr>
         | None \<Rightarrow> w1\<lparr>wdLastErr := ''''\<rparr>))"

definition notice :: "string option \<Rightarrow> Watchdog \<Rightarrow> wd_message list" where
  "notice err w =
    (if wdNotify w
     then [case err of None \<Rightarrow> Crashed (wdName w) (wdRestarts w) (wdBackoff w)
                     | Some e \<Rightarrow> CrashedFailed (wdName w) (wdRestarts w) e]
     else [])"

text \<open>The crash branch of \<open>tick\<close>: the process should be up and is not.\<close>

definition tick_crashed :: "WdEnv \<Rightarrow> Watchdog \<Rightarrow> Watchdog \<times> wd_message list" where
  "tick_crashed e w =
    (if (case wdNextAttempt w of None \<Rightarrow> False | Some na \<Rightarrow> wNow e < na) then (w, [])
     else
       (let prevBackoff = wdBackoff w; prevNextAttempt = wdNextAttempt w;
            w1 = w\<lparr>wdBackoff := advance_backoff w\<rparr>;
            w2 = w1\<lparr>wdNextAttempt := Some (wNow e + jittered (wRng e) w1 (wdBackoff w1))\<rparr>;
            (err, deliberateStop) = restart_wd (wAnswer e)
        in if deliberateStop
           then (w2\<lparr>wdBackoff := prevBackoff, wdNextAttempt := prevNextAttempt\<rparr>, [])
           else (let w3 = account (wNow e) err w2 in (w3, notice err w3))))"

definition wd_tick :: "Watchdog \<Rightarrow> WdEnv \<Rightarrow> Watchdog \<times> wd_message list" where
  "wd_tick w e =
    (if \<not> wDesired e then (clearBackoff w, [])
     else if wAlive e then (tick_alive (wNow e) w, [])
     else tick_crashed e w)"

record Stats =
  stSupervised :: bool
  stAlive :: bool
  stRestarts :: int
  stFailed :: int
  stLastRestart :: wd_time \<comment> \<open>RFC3339 text of this instant, absent when zero\<close>
  stLastError :: string
  stBackoffMS :: int

definition Stats_of :: "bool \<Rightarrow> bool \<Rightarrow> Watchdog \<Rightarrow> Stats" where
  "Stats_of desired alive w = \<lparr>stSupervised = desired, stAlive = alive, stRestarts = wdRestarts w,
     stFailed = wdFailed w, stLastRestart = wdLastRestart w, stLastError = wdLastErr w,
     stBackoffMS = go_div (wdBackoff w) 1000000\<rparr>"

lemmas wd_defs = wd_tick_def tick_crashed_def tick_alive_def clearBackoff_def account_def advance_backoff_def
  Let_def

section \<open>Well-formedness\<close>

definition wd_inv :: "Watchdog \<Rightarrow> bool" where
  "wd_inv w \<longleftrightarrow> 0 < wdMinBackoff w \<and> wdMinBackoff w \<le> wdMaxBackoff w \<and> wdMaxBackoff w \<le> 2 * wdStable w
     \<and> (wdBackoff w = 0 \<or> wdMinBackoff w \<le> wdBackoff w \<and> wdBackoff w \<le> wdMaxBackoff w)
     \<and> (wdNextAttempt w \<noteq> None \<longrightarrow> 0 < wdBackoff w)
     \<and> 0 \<le> wdFailed w \<and> wdFailed w \<le> wdRestarts w
     \<and> (wdLastRestart w = None \<longleftrightarrow> wdRestarts w = 0)
     \<and> (wdLastErr w \<noteq> '''' \<longrightarrow> 0 < wdFailed w)"

lemma advance_backoff_bounds:
  assumes "wd_inv w"
  shows "wdMinBackoff w \<le> advance_backoff w" "advance_backoff w \<le> wdMaxBackoff w" "0 < advance_backoff w"
  using assms by (auto simp: wd_inv_def advance_backoff_def Let_def)

lemma wd_tick_inv:
  assumes "wd_inv w"
  shows "wd_inv (fst (wd_tick w e))"
proof -
  note ab = advance_backoff_bounds[OF assms]
  consider (idle) "\<not> wDesired e" | (up) "wDesired e" "wAlive e" | (crash) "wDesired e" "\<not> wAlive e" by blast
  then show ?thesis
  proof cases
    case idle
    then show ?thesis using assms by (simp add: wd_tick_def clearBackoff_def wd_inv_def)
  next
    case up
    then show ?thesis using assms by (simp add: wd_tick_def tick_alive_def wd_inv_def)
  next
    case crash
    then show ?thesis
      using assms ab
      by (cases "wAnswer e")
        (auto simp: wd_tick_def tick_crashed_def account_def wd_inv_def Let_def split: option.splits)
  qed
qed

lemma wd_tick_frame:
  "wdMinBackoff (fst (wd_tick w e)) = wdMinBackoff w" "wdMaxBackoff (fst (wd_tick w e)) = wdMaxBackoff w"
  "wdStable (fst (wd_tick w e)) = wdStable w" "wdName (fst (wd_tick w e)) = wdName w"
  "wdRng (fst (wd_tick w e)) = wdRng w" "wdNotify (fst (wd_tick w e)) = wdNotify w"
  by (cases "wAnswer e"; auto simp: wd_defs split: option.splits)+

interpretation wd: invariant_machine "\<lambda>w e. fst (wd_tick w e)" wd_inv
  by unfold_locales (rule wd_tick_inv)

lemma New_watchdog_inv: "wd_inv (New_watchdog name)"
  by (simp add: New_watchdog_def wd_inv_def sec_def)


section \<open>Pacing of restarts\<close>

text \<open>The tick made a restart attempt, at which time and with which backoff window after it.\<close>

definition attempt :: "Watchdog \<Rightarrow> WdEnv \<Rightarrow> (int \<times> int) list" where
  "attempt w e =
    (let w' = fst (wd_tick w e) in if wdRestarts w' \<noteq> wdRestarts w then [(wNow e, wdBackoff w')] else [])"

fun wd_run :: "Watchdog \<Rightarrow> WdEnv list \<Rightarrow> (int \<times> int) list \<times> Watchdog" where
  "wd_run w [] = ([], w)"
| "wd_run w (e # es) =
     (let r = wd_run (fst (wd_tick w e)) es in (attempt w e @ fst r, snd r))"

text \<open>Consecutive attempts: the second waits at least half the first one's window; its own window is
  twice as long, up to the maximum, unless the process had been back for the stable period.\<close>

definition paced :: "Watchdog \<Rightarrow> int \<times> int \<Rightarrow> int \<times> int \<Rightarrow> bool" where
  "paced w a b \<longleftrightarrow> fst a + snd a div 2 \<le> fst b
     \<and> (snd b = min (wdMaxBackoff w) (2 * snd a)
        \<or> snd b = wdMinBackoff w \<and> fst a + wdStable w \<le> fst b)"

text \<open>The crash branch waits, restarts, or finds a deliberate stop and then changes nothing.\<close>

lemma tick_crashed_cases:
  obtains (unchanged) "tick_crashed e w = (w, [])"
  | (restarted) err where "wdRestarts (fst (tick_crashed e w)) = wdRestarts w + 1"
      "case wdNextAttempt w of None \<Rightarrow> True | Some na \<Rightarrow> na \<le> wNow e"
      "restart_wd (wAnswer e) = (err, False)"
      "fst (tick_crashed e w) = account (wNow e) err (w\<lparr>wdBackoff := advance_backoff w, wdNextAttempt :=
         Some (wNow e + jittered (wRng e) (w\<lparr>wdBackoff := advance_backoff w\<rparr>) (advance_backoff w))\<rparr>)"
proof -
  let ?wait = "case wdNextAttempt w of None \<Rightarrow> False | Some na \<Rightarrow> wNow e < na"
  obtain err del where re: "restart_wd (wAnswer e) = (err, del)" by fastforce
  show thesis
  proof (cases "?wait \<or> del")
    case True
    have "restart_wd (wAnswer e) = (err, True)" if "\<not> ?wait" using True re that by simp
    then show thesis by (intro unchanged) (simp add: tick_crashed_def Let_def)
  next
    case False
    then have due: "case wdNextAttempt w of None \<Rightarrow> True | Some na \<Rightarrow> na \<le> wNow e"
      by (auto split: option.splits)
    have acc: "wdRestarts (account t err' v) = wdRestarts v + 1" for t err' v
      by (simp add: account_def Let_def split: option.splits)
    show thesis
      by (rule restarted[OF _ due, of err]) (use False re in \<open>simp_all add: tick_crashed_def Let_def acc\<close>)
  qed
qed

definition rng_ok :: "WdEnv \<Rightarrow> bool" where
  "rng_ok e \<longleftrightarrow> (\<forall>n>0. 0 \<le> wRng e n \<and> wRng e n < n)"

lemma jittered_bounds:
  assumes "\<forall>n>0. 0 \<le> rng n \<and> rng n < n" "0 < d"
  shows "d div 2 \<le> jittered rng w d" "jittered rng w d \<le> d"
proof -
  have "0 \<le> rng (d div 2 + 1) \<and> rng (d div 2 + 1) < d div 2 + 1"
    by (rule assms(1)[rule_format]) (use assms(2) in linarith)
  then show "d div 2 \<le> jittered rng w d" "jittered rng w d \<le> d"
    using assms(2) by (auto simp: jittered_def go_div_def Let_def)
qed

text \<open>How the state remembers the last attempt \<open>(t, b)\<close>, seen at a clock value \<open>c\<close>.\<close>

definition remembers :: "Watchdog \<Rightarrow> int \<Rightarrow> int \<times> int \<Rightarrow> bool" where
  "remembers w c a \<longleftrightarrow> wdLastRestart w = Some (fst a) \<and> wdMinBackoff w \<le> snd a \<and> snd a \<le> wdMaxBackoff w
     \<and> (wdBackoff w = snd a \<and> (\<exists>na. wdNextAttempt w = Some na \<and> fst a + snd a div 2 \<le> na)
        \<or> wdBackoff w = 0 \<and> wdNextAttempt w = None \<and> fst a + wdStable w \<le> c)"

lemma wd_tick_attempt:
  assumes inv: "wd_inv w" and des: "wDesired e" and rng: "rng_ok e" and at: "attempt w e \<noteq> []"
  shows "\<exists>b. attempt w e = [(wNow e, b)] \<and> b = advance_backoff w \<and> remembers (fst (wd_tick w e)) (wNow e) (wNow e, b)
    \<and> (case wdNextAttempt w of None \<Rightarrow> True | Some na \<Rightarrow> na \<le> wNow e)"
proof -
  let ?b = "advance_backoff w"
  note ab = advance_backoff_bounds[OF inv]
  have crash: "\<not> wAlive e" and tc: "wd_tick w e = tick_crashed e w"
    using at des by (auto simp: attempt_def wd_tick_def tick_alive_def Let_def split: if_splits)
  have ne: "tick_crashed e w \<noteq> (w, [])" using at tc by (auto simp: attempt_def)
  then obtain err where due: "case wdNextAttempt w of None \<Rightarrow> True | Some na \<Rightarrow> na \<le> wNow e"
    and st: "fst (wd_tick w e) = account (wNow e) err (w\<lparr>wdBackoff := ?b,
      wdNextAttempt := Some (wNow e + jittered (wRng e) (w\<lparr>wdBackoff := ?b\<rparr>) ?b)\<rparr>)"
    by (cases rule: tick_crashed_cases[of e w]) (auto simp: tc)
  have "?b div 2 \<le> jittered (wRng e) (w\<lparr>wdBackoff := ?b\<rparr>) ?b"
    using rng ab(3) by (intro jittered_bounds) (auto simp: rng_ok_def)
  then have "remembers (fst (wd_tick w e)) (wNow e) (wNow e, ?b)"
    using st ab by (cases err) (auto simp: remembers_def account_def Let_def)
  moreover have "attempt w e = [(wNow e, ?b)]"
    using at st by (cases err) (auto simp: attempt_def account_def Let_def)
  ultimately show ?thesis using due by blast
qed

lemma wd_tick_quiet:
  assumes des: "wDesired e" and at: "attempt w e = []" and mem: "remembers w c a" and le: "c \<le> wNow e"
  shows "remembers (fst (wd_tick w e)) (wNow e) a"
proof (cases "wAlive e")
  case True
  then show ?thesis using assms by (auto simp: wd_tick_def tick_alive_def remembers_def)
next
  case False
  then have "fst (wd_tick w e) = w"
    using des at by (cases rule: tick_crashed_cases[of e w]) (auto simp: attempt_def wd_tick_def)
  then show ?thesis using mem le by (auto simp: remembers_def)
qed

lemma remembers_paced:
  assumes inv: "wd_inv w" and mem: "remembers w c a" and le: "c \<le> wNow e"
    and due: "case wdNextAttempt w of None \<Rightarrow> True | Some na \<Rightarrow> na \<le> wNow e"
  shows "paced w a (wNow e, advance_backoff w)"
proof (cases "wdBackoff w = 0")
  case True
  then have "fst a + wdStable w \<le> wNow e" using inv mem le by (auto simp: remembers_def wd_inv_def)
  moreover have "snd a \<le> 2 * wdStable w" using inv mem by (auto simp: remembers_def wd_inv_def)
  ultimately show ?thesis using True by (auto simp: paced_def advance_backoff_def)
next
  case False
  then have "wdBackoff w = snd a" "fst a + snd a div 2 \<le> wNow e" "0 < snd a" "snd a \<le> wdMaxBackoff w"
    using mem due inv by (auto simp: remembers_def wd_inv_def)
  then show ?thesis by (auto simp: paced_def advance_backoff_def Let_def)
qed

lemma wd_run_remembers:
  assumes "wd_inv w" "remembers w c a" "sorted (c # map wNow es)" "\<forall>e\<in>set es. wDesired e \<and> rng_ok e"
  shows "successively (paced w) (a # fst (wd_run w es))"
  using assms
proof (induction es arbitrary: w c a)
  case Nil
  then show ?case by simp
next
  case (Cons e es)
  let ?w = "fst (wd_tick w e)"
  have inv: "wd_inv ?w" using Cons.prems(1) by (rule wd_tick_inv)
  have le: "c \<le> wNow e" and srt: "sorted (wNow e # map wNow es)" using Cons.prems(3) by auto
  have des: "wDesired e" "rng_ok e" and rest: "\<forall>e\<in>set es. wDesired e \<and> rng_ok e" using Cons.prems(4) by auto
  have pw: "paced ?w = paced w" by (simp add: paced_def wd_tick_frame fun_eq_iff)
  show ?case
  proof (cases "attempt w e = []")
    case True
    note wd_tick_quiet[OF des(1) True Cons.prems(2) le]
    from Cons.IH[OF inv this srt rest] show ?thesis by (simp add: True pw Let_def)
  next
    case False
    from wd_tick_attempt[OF Cons.prems(1) des False] obtain b where
      b: "attempt w e = [(wNow e, b)]" "b = advance_backoff w" "remembers ?w (wNow e) (wNow e, b)"
        "case wdNextAttempt w of None \<Rightarrow> True | Some na \<Rightarrow> na \<le> wNow e" by blast
    have "paced w a (wNow e, b)" using remembers_paced[OF Cons.prems(1,2) le b(4)] b(2) by simp
    with Cons.IH[OF inv b(3) srt rest] show ?thesis by (simp add: b(1) pw Let_def)
  qed
qed

lemma wd_run_paced:
  assumes "wd_inv w" "sorted (map wNow es)" "\<forall>e\<in>set es. wDesired e \<and> rng_ok e"
  shows "successively (paced w) (fst (wd_run w es))"
  using assms
proof (induction es arbitrary: w)
  case Nil
  then show ?case by simp
next
  case (Cons e es)
  let ?w = "fst (wd_tick w e)"
  have inv: "wd_inv ?w" using Cons.prems(1) by (rule wd_tick_inv)
  have pw: "paced ?w = paced w" by (simp add: paced_def wd_tick_frame fun_eq_iff)
  have des: "wDesired e" "rng_ok e" and rest: "\<forall>e\<in>set es. wDesired e \<and> rng_ok e" using Cons.prems(3) by auto
  show ?case
  proof (cases "attempt w e = []")
    case True
    then show ?thesis using Cons.IH[OF inv _ rest] Cons.prems(2) by (simp add: pw Let_def)
  next
    case False
    from wd_tick_attempt[OF Cons.prems(1) des False] obtain b where
      b: "attempt w e = [(wNow e, b)]" "remembers ?w (wNow e) (wNow e, b)" by blast
    have "successively (paced ?w) ((wNow e, b) # fst (wd_run ?w es))"
      by (rule wd_run_remembers[OF inv b(2)]) (use Cons.prems(2) rest in auto)
    then show ?thesis by (simp add: b(1) pw Let_def)
  qed
qed


section \<open>Properties\<close>

lemma wd_run_foldl: "snd (wd_run w es) = foldl (\<lambda>w e. fst (wd_tick w e)) w es"
  by (induction es arbitrary: w) (auto simp: Let_def)

lemma wd_tick_restarts:
  "wdRestarts (fst (wd_tick w e)) = wdRestarts w + int (length (attempt w e))"
proof -
  consider "wDesired e \<and> \<not> wAlive e" | "\<not> (wDesired e \<and> \<not> wAlive e)" by blast
  then show ?thesis
  proof cases
    case 1
    then show ?thesis
      by (cases rule: tick_crashed_cases[of e w]) (auto simp: attempt_def wd_tick_def Let_def)
  next
    case 2
    then show ?thesis by (auto simp: attempt_def wd_tick_def tick_alive_def clearBackoff_def Let_def)
  qed
qed

lemma wd_run_restarts: "wdRestarts (snd (wd_run w es)) = wdRestarts w + int (length (fst (wd_run w es)))"
  by (induction es arbitrary: w) (auto simp: Let_def wd_tick_restarts)

definition failing_env :: "int \<Rightarrow> WdEnv" where
  "failing_env t = \<lparr>wDesired = True, wAlive = False, wNow = t * sec, wRng = (\<lambda>n. n - 1),
     wAnswer = StartIfDesiredDead False (Some ''spawn failed'')\<rparr>"

text \<open>Crash restarts are paced. Whatever the process does while it is meant to run, and whatever the
  random source draws, two consecutive restart attempts are at least half the first one's backoff window
  apart; the second one's window is twice as long, up to 60 s, or back at 1 s, and then the process had
  had the stable period of 30 s since the first.
\<close>

theorem watchdog_restarts_paced:
  assumes "sorted (map wNow es)" "\<forall>e\<in>set es. wDesired e \<and> rng_ok e"
  shows "successively (\<lambda>(t, b) (t', b'). t + b div 2 \<le> t'
            \<and> (b' = min (60 * sec) (2 * b) \<or> b' = sec \<and> t + 30 * sec \<le> t'))
          (fst (wd_run (New_watchdog name) es))"
proof -
  have "paced (New_watchdog name) = (\<lambda>(t, b) (t', b'). t + b div 2 \<le> t'
            \<and> (b' = min (60 * sec) (2 * b) \<or> b' = sec \<and> t + 30 * sec \<le> t'))"
    by (simp add: fun_eq_iff paced_def New_watchdog_def)
  then show ?thesis using wd_run_paced[OF New_watchdog_inv assms] by metis
qed

theorem watchdog_restarts_paced_witness:
  "successively (\<lambda>(t, b) (t', b'). t + b div 2 \<le> t'
            \<and> (b' = min (60 * sec) (2 * b) \<or> b' = sec \<and> t + 30 * sec \<le> t'))
          (fst (wd_run (New_watchdog ''sing-box'') (map failing_env [3, 6, 9])))
   \<and> fst (wd_run (New_watchdog ''sing-box'') (map failing_env [3, 6, 9]))
       = [(3 * sec, sec), (6 * sec, 2 * sec), (9 * sec, 4 * sec)]"
proof -
  have "sorted (map wNow (map failing_env [3, 6, 9]))" by (simp add: failing_env_def sec_def)
  moreover have "\<forall>e\<in>set (map failing_env [3, 6, 9]). wDesired e \<and> rng_ok e"
    by (simp add: failing_env_def rng_ok_def)
  moreover have "fst (wd_run (New_watchdog ''sing-box'') (map failing_env [3, 6, 9]))
       = [(3 * sec, sec), (6 * sec, 2 * sec), (9 * sec, 4 * sec)]"
    by code_simp
  ultimately show ?thesis using watchdog_restarts_paced by blast
qed

text \<open>Restart accounting is exact in every run: the counter is the number of attempts made, failed
  attempts never exceed it, an error text is shown only after a failed attempt, and the backoff window is
  off or between 1 s and 60 s. A stop that races the crash check is not counted: the tick that meets it
  leaves the watchdog exactly as it was and sends no alert.
\<close>

theorem watchdog_accounting:
  assumes "w = snd (wd_run (New_watchdog name) es)"
  shows "wdRestarts w = int (length (fst (wd_run (New_watchdog name) es)))
    \<and> 0 \<le> wdFailed w \<and> wdFailed w \<le> wdRestarts w \<and> (wdLastErr w \<noteq> '''' \<longrightarrow> 0 < wdFailed w)
    \<and> (wdBackoff w = 0 \<or> sec \<le> wdBackoff w \<and> wdBackoff w \<le> 60 * sec)
    \<and> (wDesired e \<and> \<not> wAlive e \<and> wAnswer e = StartIfDesiredDead False None \<longrightarrow> wd_tick w e = (w, []))"
proof -
  have inv: "wd_inv w" unfolding assms wd_run_foldl by (rule wd.run_inv[OF New_watchdog_inv])
  have "wdMinBackoff (snd (wd_run v es)) = wdMinBackoff v \<and> wdMaxBackoff (snd (wd_run v es)) = wdMaxBackoff v" for v
    by (induction es arbitrary: v) (auto simp: Let_def wd_tick_frame)
  then have cfg: "wdMinBackoff w = sec \<and> wdMaxBackoff w = 60 * sec" by (simp add: assms New_watchdog_def)
  have "wdRestarts w = int (length (fst (wd_run (New_watchdog name) es)))"
    unfolding assms by (simp add: wd_run_restarts New_watchdog_def)
  moreover have "wd_tick w e = (w, [])" if "wDesired e" "\<not> wAlive e" "wAnswer e = StartIfDesiredDead False None"
    using that by (simp add: wd_tick_def tick_crashed_def Let_def)
  ultimately show ?thesis using inv cfg by (simp add: wd_inv_def)
qed

theorem watchdog_accounting_witness:
  "wd_tick (snd (wd_run (New_watchdog ''sing-box'') (map failing_env [3, 6, 9])))
      ((failing_env 20)\<lparr>wAnswer := StartIfDesiredDead False None\<rparr>)
    = (snd (wd_run (New_watchdog ''sing-box'') (map failing_env [3, 6, 9])), [])
   \<and> wdFailed (snd (wd_run (New_watchdog ''sing-box'') (map failing_env [3, 6, 9]))) = 3"
proof -
  have "wdFailed (snd (wd_run (New_watchdog ''sing-box'') (map failing_env [3, 6, 9]))) = 3" by code_simp
  moreover have "wDesired ((failing_env 20)\<lparr>wAnswer := StartIfDesiredDead False None\<rparr>)"
    "\<not> wAlive ((failing_env 20)\<lparr>wAnswer := StartIfDesiredDead False None\<rparr>)"
    "wAnswer ((failing_env 20)\<lparr>wAnswer := StartIfDesiredDead False None\<rparr>) = StartIfDesiredDead False None"
    by (simp_all add: failing_env_def)
  ultimately show ?thesis using watchdog_accounting[OF refl] by blast
qed

end
