(* ===== verification/Traffic_Ring.thy ===== *)
theory Traffic_Ring
  imports WH_Prelude
begin

text \<open>
  The traffic ring, \<open>internal/traffic/ring.go\<close>: a fixed array written in place, with the index of the
  oldest sample and the number of valid ones, and the subscribers' buffered channels. The ring refines
  the bounded log of the prelude: reading it gives the most recent samples in order.
\<close>

record Sample =
  smT :: int
  smUp :: int
  smDown :: int

definition zeroSample :: Sample where "zeroSample = \<lparr>smT = 0, smUp = 0, smDown = 0\<rparr>"

text \<open>A subscriber is a channel of capacity 16, known by a number; its contents oldest first.\<close>

record Hub =
  hBuf :: "Sample list"
  hSize :: nat
  hStart :: nat
  hCount :: nat
  hSubs :: "(nat \<times> Sample list) list"
  hNext :: nat

definition NewHub :: "int \<Rightarrow> Hub" where
  "NewHub sz =
    (let n = nat (if sz \<le> 0 then 300 else sz)
     in \<lparr>hBuf = replicate n zeroSample, hSize = n, hStart = 0, hCount = 0, hSubs = [], hNext = 0\<rparr>)"

definition chanCap :: nat where "chanCap = 16"

text \<open>\<open>select { case ch <- s: default: }\<close> on every subscriber.\<close>

definition broadcast :: "Sample \<Rightarrow> (nat \<times> Sample list) list \<Rightarrow> (nat \<times> Sample list) list" where
  "broadcast s subs = map (\<lambda>(i, q). (i, if length q < chanCap then q @ [s] else q)) subs"

definition push_ring :: "Sample \<Rightarrow> Hub \<Rightarrow> Hub" where
  "push_ring s h =
    (if hCount h < hSize h
     then h\<lparr>hBuf := (hBuf h)[(hStart h + hCount h) mod hSize h := s], hCount := hCount h + 1\<rparr>
     else h\<lparr>hBuf := (hBuf h)[hStart h := s], hStart := (hStart h + 1) mod hSize h\<rparr>)"

definition Push :: "Sample \<Rightarrow> Hub \<Rightarrow> Hub" where
  "Push s h = (let h1 = push_ring s h in h1\<lparr>hSubs := broadcast s (hSubs h1)\<rparr>)"

definition RecentN :: "int \<Rightarrow> Hub \<Rightarrow> Sample list" where
  "RecentN n h =
    (let c = (if n > 0 \<and> int (hCount h) > n then nat n else hCount h);
         begin = hStart h + hCount h - c
     in map (\<lambda>i. hBuf h ! ((begin + i) mod hSize h)) [0..<c])"

definition Recent :: "Hub \<Rightarrow> Sample list" where
  "Recent h = RecentN 0 h"

definition Subscribe :: "Hub \<Rightarrow> nat \<times> Hub" where
  "Subscribe h = (hNext h, h\<lparr>hSubs := hSubs h @ [(hNext h, [])], hNext := hNext h + 1\<rparr>)"

definition Unsubscribe :: "nat \<Rightarrow> Hub \<Rightarrow> Hub" where
  "Unsubscribe ch h = h\<lparr>hSubs := filter (\<lambda>(i, q). i \<noteq> ch) (hSubs h)\<rparr>"

section \<open>The ring refines the bounded log\<close>

definition ring_ok :: "nat \<Rightarrow> Hub \<Rightarrow> bool" where
  "ring_ok n h \<longleftrightarrow> hSize h = n \<and> length (hBuf h) = n \<and> hStart h < n \<and> hCount h \<le> n \<and> 0 < n
     \<and> (hCount h < n \<longrightarrow> hStart h = 0)"

lemma Recent_nth:
  "Recent h = ring_read (hBuf h) (hSize h) (hStart h) (hCount h)"
  by (simp add: Recent_def RecentN_def ring_read_def Let_def)

lemma length_Recent [simp]: "length (Recent h) = hCount h"
  by (simp add: Recent_nth)

lemma RecentN_last_n:
  "RecentN n h = (if n > 0 then last_n (nat n) (Recent h) else Recent h)"
proof (cases "n > 0 \<and> int (hCount h) > n")
  case True
  then obtain k where k: "n = int k" "0 < k" "k < hCount h" by (metis of_nat_less_iff of_nat_0_less_iff zero_less_imp_eq_int)
  have "RecentN n h = map (\<lambda>i. hBuf h ! ((hStart h + (hCount h - k) + i) mod hSize h)) [0..<k]"
    using k by (simp add: RecentN_def Let_def)
  also have "\<dots> = drop (hCount h - k) (Recent h)"
    by (rule nth_equalityI) (use k in \<open>simp_all add: Recent_nth add.assoc\<close>)
  finally show ?thesis using k by (simp add: last_n_def)
next
  case False
  then have "RecentN n h = Recent h" by (auto simp: RecentN_def Recent_def Let_def)
  then show ?thesis using False by (auto simp: last_n_def)
qed

lemma ring_ok_push: "ring_ok n h \<Longrightarrow> ring_ok n (Push s h)"
  by (auto simp: ring_ok_def Push_def push_ring_def Let_def)

lemma Recent_push:
  assumes ok: "ring_ok n h"
  shows "Recent (Push s h) = last_n n (Recent h @ [s])"
proof (cases "hCount h < n")
  case True
  then have "Recent (Push s h) = Recent h @ [s]"
    using ok ring_read_grow[of "hCount h" n "hBuf h" "hStart h" s]
    by (simp add: ring_ok_def Recent_nth Push_def push_ring_def Let_def)
  then show ?thesis using True by simp
next
  case False
  then show ?thesis
    using ok ring_read_full[of "hBuf h" n "hStart h" s]
    by (simp add: ring_ok_def Recent_nth Push_def push_ring_def Let_def)
qed

interpretation ring: bounded_log Push Recent "Suc k" "ring_ok (Suc k)" for k
  by unfold_locales (auto simp: ring_ok_push Recent_push, simp add: ring_ok_def)

lemma NewHub_ok: "ring_ok (nat (if n \<le> 0 then 300 else n)) (NewHub n)" "Recent (NewHub n) = []"
  by (auto simp: NewHub_def ring_ok_def Recent_nth Let_def)

definition pushes :: "Sample list \<Rightarrow> Hub \<Rightarrow> Hub" where
  "pushes xs h = foldl (\<lambda>h s. Push s h) h xs"

lemma pushes_Nil [simp]: "pushes [] h = h" and pushes_Cons [simp]: "pushes (x # xs) h = pushes xs (Push x h)"
  by (simp_all add: pushes_def)

lemma Push_subs: "hSubs (Push s h) = broadcast s (hSubs h)" "hNext (Push s h) = hNext h"
  by (auto simp: Push_def push_ring_def Let_def)

lemma pushes_subs:
  assumes "\<forall>(i, q)\<in>set (hSubs h). length q \<le> chanCap"
  shows "hSubs (pushes xs h) = map (\<lambda>(i, q). (i, take chanCap (q @ xs))) (hSubs h)"
  using assms
proof (induction xs arbitrary: h)
  case Nil
  have "map (\<lambda>(i, q). (i, take chanCap q)) (hSubs h) = hSubs h" by (rule map_idI) (use Nil in auto)
  then show ?case by simp
next
  case (Cons x xs)
  have ok: "\<forall>(i, q)\<in>set (hSubs (Push x h)). length q \<le> chanCap"
    using Cons.prems by (auto simp: Push_subs broadcast_def split: if_splits)
  have "take chanCap ((if length q < chanCap then q @ [x] else q) @ xs) = take chanCap (q @ x # xs)"
    if "(i, q) \<in> set (hSubs h)" for i q
    using Cons.prems that by (auto simp: take_Cons Suc_diff_Suc[symmetric] split: nat.splits)
  then show ?case using Cons.IH[OF ok] by (auto simp: Push_subs broadcast_def)
qed

section \<open>Properties\<close>

text \<open>The in-place ring is the list of the most recent samples: after any sequence of pushes into a new
  hub, a read of the last \<open>k\<close> (all for \<open>k \<le> 0\<close>) returns exactly the newest ones that fit, oldest
  first; the default size is 300.
\<close>

theorem ring_returns_most_recent:
  "RecentN k (pushes xs (NewHub n))
     = (let size = nat (if n \<le> 0 then 300 else n)
        in last_n (if k > 0 then min (nat k) size else size) xs)"
proof -
  let ?n = "nat (if n \<le> 0 then 300 else n)"
  obtain m where m: "?n = Suc m" by (cases ?n) (auto split: if_splits)
  have "Recent (pushes xs (NewHub n)) = last_n (Suc m) (Recent (NewHub n) @ xs)"
    unfolding pushes_def by (rule ring.contents_pushes) (use NewHub_ok(1)[of n] in \<open>simp only: m\<close>)
  then have "Recent (pushes xs (NewHub n)) = last_n ?n xs" by (simp add: NewHub_ok m)
  then show ?thesis by (simp add: RecentN_last_n last_n_last_n Let_def)
qed

text \<open>A subscriber sees every later sample in order until its channel of 16 is full, and only later ones;
  slow subscribers never hold back the ring or one another; after cancelling it gets nothing more.
\<close>

theorem subscriber_stream:
  "hSubs (pushes xs (snd (Subscribe (pushes ys (NewHub n))))) = [(0, take 16 xs)]
   \<and> Recent (pushes xs (snd (Subscribe (pushes ys (NewHub n))))) = Recent (pushes (ys @ xs) (NewHub n))
   \<and> hSubs (pushes zs (Unsubscribe 0 (pushes xs (snd (Subscribe (pushes ys (NewHub n))))))) = []"
proof -
  have base: "hSubs (pushes ys (NewHub n)) = [] \<and> hNext (pushes ys (NewHub n)) = 0"
  proof -
    have "hSubs h = [] \<and> hNext h = 0 \<Longrightarrow> hSubs (pushes ys h) = [] \<and> hNext (pushes ys h) = 0" for h
      by (induction ys arbitrary: h) (auto simp: Push_subs broadcast_def)
    then show ?thesis by (simp add: NewHub_def Let_def)
  qed
  let ?h = "snd (Subscribe (pushes ys (NewHub n)))"
  have subs: "hSubs ?h = [(0, [])]" using base by (simp add: Subscribe_def)
  then have one: "hSubs (pushes xs ?h) = [(0, take 16 xs)]" by (simp add: pushes_subs chanCap_def)
  have frame: "Recent (pushes xs (h\<lparr>hSubs := a, hNext := b\<rparr>)) = Recent (pushes xs h)" for h a b
  proof (induction xs arbitrary: h a)
    case Nil
    then show ?case by (simp add: Recent_nth)
  next
    case (Cons x xs)
    have "Push x (h\<lparr>hSubs := a, hNext := b\<rparr>) = (Push x h)\<lparr>hSubs := broadcast x a, hNext := b\<rparr>"
      by (simp add: Push_def push_ring_def Let_def)
    then show ?case by (simp add: Cons.IH)
  qed
  have "Recent (pushes xs ?h) = Recent (pushes xs (pushes ys (NewHub n)))"
    by (simp add: Subscribe_def frame)
  then have two: "Recent (pushes xs ?h) = Recent (pushes (ys @ xs) (NewHub n))"
    by (simp add: pushes_def)
  have "hSubs (Unsubscribe 0 (pushes xs ?h)) = []" by (simp add: Unsubscribe_def one)
  then have "hSubs (pushes zs (Unsubscribe 0 (pushes xs ?h))) = []" by (simp add: pushes_subs)
  with one two show ?thesis by blast
qed

end
