(* ===== verification/WH_Model.thy ===== *)
theory WH_Model
  imports WH_Prelude "HOL-Library.Word"
begin

text \<open>
  The configuration model, \<open>internal/model/model.go\<close>: endpoints with their transport, TLS and multiplex
  settings, groups, rules, routing lists and device groups, and the DNS plane of \<open>internal/model/dns.go\<close>.
\<close>

type_synonym id = string

datatype Engine = EngineSingBox | EngineAmneziaWG | EngineOpenVPN | EngineXray | EngineMihomo
  | EngineOlcRTC | EngineExternal | EngineNfqws | EngineByeDPI | EngineOther string

text \<open>A decoded JSON value of \<open>Params\<close>. A number is its printed form; the keys of an object are in order.\<close>

datatype param = PNil | PStr string | PNum string | PBool bool | PStrs "string list" | PAny "param list" | PMap "(string \<times> param) list"

record ECH =
  ecEnabled :: bool
  ecConfig :: string
  ecQueryServerName :: string

record TLS =
  tlEnabled :: bool
  tlType :: string
  tlSNI :: string
  tlALPN :: "string list"
  tlInsecure :: bool
  tlFingerprint :: string
  tlPublicKey :: string
  tlShortID :: string
  tlFragment :: bool
  tlRecordFragment :: bool
  tlECH :: "ECH option"
  tlPinCertSHA256 :: "string list"
  tlPinPubKeySHA256 :: "string list"
  tlPinCertMayBeCA :: bool
  tlPinCertBesideChain :: bool
  tlPinCertMayBeCAOf :: "string list"
  tlPinCertBesideChainOf :: "string list"

record Transport =
  trType :: string
  trPath :: string
  trHost :: string
  trServiceName :: string
  trHeaders :: "(string \<times> string) list"

record Brutal =
  brEnabled :: bool
  brUpMbps :: int
  brDownMbps :: int

record Multiplex =
  mxEnabled :: bool
  mxProtocol :: string
  mxMaxConnections :: int
  mxMinStreams :: int
  mxMaxStreams :: int
  mxPadding :: bool
  mxBrutal :: "Brutal option"

record Health_check =
  hcURL :: string
  hcInterval :: int
  hcTolerance :: int

record Endpoint =
  epID :: id
  epName :: string
  epEngine :: Engine
  epProtocol :: string
  epOwner :: string
  epServer :: string
  epPort :: int
  epParams :: "(string \<times> param) list"
  epTransport :: "Transport option"
  epTLS :: "TLS option"
  epMultiplex :: "Multiplex option"
  epHealth :: "Health_check option"
  epEnabled :: bool
  epMTU :: int
  epPersistentKeepalive :: int
  epAWGUserspace :: bool
  epImport :: string

datatype GroupType = GroupURLTest | GroupSelector | GroupFallback | GroupTypeOther string

record Group =
  grID :: id
  grName :: string
  grType :: GroupType
  grMembers :: "id list"
  grTest :: "Health_check option"
  grKillSwitch :: bool
  grInterruptOnSwitch :: bool
  grManaged :: bool

record Rule =
  ruID :: id
  ruDomainSuffix :: "string list"
  ruDomain :: "string list"
  ruGeoSite :: "string list"
  ruGeoIP :: "string list"
  ruIPCIDR :: "string list"
  ruPort :: "int list"
  ruSourceIPCIDR :: "string list"
  ruSourceMAC :: "string list"
  ruSourceIface :: "string list"
  ruSourcePort :: "int list"
  ruDefault :: bool
  ruDisabled :: bool
  ruOutbound :: id

record RoutingList =
  rlID :: id
  rlName :: string
  rlSource :: string
  rlFormat :: string
  rlManual :: "string list"
  rlOutbound :: id
  rlDownloadVia :: id
  rlRefreshHours :: int
  rlEnabled :: bool
  rlCIDRSource :: string
  rlCIDRCache :: "string list"
  rlCIDRRefreshed :: int
  rlDomainSource :: string
  rlDomainCache :: "string list"
  rlDomainRefreshed :: int
  rlScopeMode :: string
  rlScopeGroups :: "id list"
  rlTLSFragment :: string

record DeviceMember =
  dmMAC :: string
  dmIP :: string

record DeviceGroup =
  dgID :: id
  dgName :: string
  dgMembers :: "DeviceMember list"

record DNSServer =
  dsTag :: string
  dsType :: string
  dsServer :: string
  dsServerPort :: int
  dsPath :: string
  dsSNI :: string
  dsDetour :: id
  dsDomainResolver :: string
  dsInet4Range :: string
  dsInet6Range :: string
  dsEndpoint :: string
  dsAcceptDefaultResolvers :: bool
  dsAcceptSearchDomain :: bool
  dsEnabled :: bool

record DNSRule =
  drID :: id
  drRuleSets :: "id list"
  drDomainSuffix :: "string list"
  drDomain :: "string list"
  drGeoSite :: "string list"
  drQueryType :: "string list"
  drServer :: string
  drDisabled :: bool

record DNSSettings =
  dnEnabled :: bool
  dnServers :: "DNSServer list"
  dnRules :: "DNSRule list"
  dnFinal :: string
  dnStrategy :: string
  dnLeakProof :: bool
  dnIntercept :: bool
  dnInterceptRejectEncrypted :: bool
  dnFakeIP :: bool
  dnDisableCache :: bool
  dnIndependentCache :: bool
  dnClientSubnet :: string
  dnReverseMapping :: bool

record Profile =
  prEndpoints :: "Endpoint list"
  prGroups :: "Group list"
  prRules :: "Rule list"
  prRoutingLists :: "RoutingList list"
  prDeviceGroups :: "DeviceGroup list"
  prDNS :: "DNSSettings option"

definition OutboundDirect :: id where "OutboundDirect = ''direct''"
definition OutboundBlock :: id where "OutboundBlock = ''block''"

definition EndpointByID :: "Profile \<Rightarrow> id \<Rightarrow> Endpoint option" where
  "EndpointByID p i = find (\<lambda>e. epID e = i) (prEndpoints p)"

definition GroupByID :: "Profile \<Rightarrow> id \<Rightarrow> Group option" where
  "GroupByID p i = find (\<lambda>g. grID g = i) (prGroups p)"

definition RoutingListByID :: "Profile \<Rightarrow> id \<Rightarrow> RoutingList option" where
  "RoutingListByID p i = find (\<lambda>l. rlID l = i) (prRoutingLists p)"

section \<open>Interface names\<close>

text \<open>
  \<open>util.AWGIface\<close>: \<open>wr_\<close> and the 32-bit FNV-1a hash of the id in eight hexadecimal digits.
\<close>

unbundle bit_operations_syntax

definition fnv32a :: "string \<Rightarrow> 32 word" where
  "fnv32a s = foldl (\<lambda>h c. (h XOR of_char c) * 16777619) 2166136261 s"

definition hexDigits :: string where "hexDigits = ''0123456789abcdef''"

definition hex_digit :: "nat \<Rightarrow> char" where
  "hex_digit n = hexDigits ! n"

definition hex8 :: "32 word \<Rightarrow> string" where
  "hex8 w = map (\<lambda>k. hex_digit (unat (drop_bit (4 * k) w AND 15))) [7, 6, 5, 4, 3, 2, 1, 0]"

definition AWGIface :: "id \<Rightarrow> string" where
  "AWGIface i = ''wr_'' @ hex8 (fnv32a i)"

lemma length_AWGIface [simp]: "length (AWGIface i) = 11"
  by (simp add: AWGIface_def hex8_def)

lemma AWGIface_nonempty [simp]: "AWGIface i \<noteq> ''''"
  by (simp add: AWGIface_def)

lemma hex8_digits: "set (hex8 w) \<subseteq> set hexDigits"
proof -
  have "unat (drop_bit k w AND 15) < length hexDigits" for k
  proof -
    have "drop_bit k w AND 15 \<le> 15" by (rule word_and_le1)
    then have "unat (drop_bit k w AND 15) \<le> unat (15 :: 32 word)" by (simp only: word_le_nat_alt)
    then show ?thesis by (simp add: hexDigits_def)
  qed
  then have "hex_digit (unat (drop_bit k w AND 15)) \<in> set hexDigits" for k
    unfolding hex_digit_def by (rule nth_mem)
  then show ?thesis unfolding hex8_def set_map by blast
qed

section \<open>Lookups\<close>

text \<open>\<open>s, _ := e.Params[key].(string)\<close>: the empty string when absent or of another type.\<close>

definition param_string :: "Endpoint \<Rightarrow> string \<Rightarrow> string" where
  "param_string e key = (case map_of (epParams e) key of Some (PStr s) \<Rightarrow> s | _ \<Rightarrow> '''')"

lemma EndpointByID_Some: "EndpointByID p i = Some e \<Longrightarrow> e \<in> set (prEndpoints p) \<and> epID e = i"
  by (auto simp: EndpointByID_def find_Some_iff)

lemma GroupByID_Some: "GroupByID p i = Some g \<Longrightarrow> g \<in> set (prGroups p) \<and> grID g = i"
  by (auto simp: GroupByID_def find_Some_iff)

end
