(* ===== verification/Health_Stats.thy ===== *)
theory Health_Stats
  imports WH_Model "HOL-Library.Multiset"
begin

text \<open>
  Per-target statistics of the health monitor (\<open>internal/health/monitor.go\<close>, \<open>events.go\<close>): the rolling
  window of probe outcomes, the hysteresis in \<open>record\<close>, the failover event ring and the view of one
  target. The stats map is a partial function from target ids; a nil map entry is absent.
\<close>

section \<open>State\<close>

datatype State = Alive | Down | Unknown

fun state_text :: "State \<Rightarrow> string" where
  "state_text Alive = ''alive''"
| "state_text Down = ''down''"
| "state_text Unknown = ''unknown''"

record probeSample =
  psOk :: bool
  psLatency :: int

record stat =
  sName :: string
  sKind :: string
  sProbes :: int
  sOk :: int
  sFail :: int
  sSumLatency :: int
  sLastLatency :: int
  sState :: State
  sReconnects :: int
  sConsecFail :: nat
  sConsecOK :: nat
  sFirstSeen :: go_time
  sLastChange :: go_time
  sLastProbe :: go_time
  sActiveUp :: int
  sActiveDown :: int
  sRateUp :: int
  sRateDown :: int
  sTotalUp :: int
  sTotalDown :: int
  sLastConnSample :: go_time
  sRecent :: "probeSample list" \<comment> \<open>an array of \<open>healthWindow\<close> slots\<close>
  sRecentN :: nat
  sRecentPos :: nat

definition healthWindow :: nat where "healthWindow = 30"
definition flapThreshold :: nat where "flapThreshold = 2"
definition aliveThreshold :: nat where "aliveThreshold = 2"
definition eventCap :: nat where "eventCap = 256"

definition EventDown :: string where "EventDown = ''down''"
definition EventUp :: string where "EventUp = ''up''"
definition EventSwitch :: string where "EventSwitch = ''switch''"

record Event =
  evAt :: go_time
  evKind :: string
  evID :: id
  evName :: string
  evFrom :: string
  evTo :: string
  evLatencyMS :: int

text \<open>The part of \<open>Monitor\<close> that its lock guards, with the demo flag.\<close>

record Monitor =
  mStats :: "id \<Rightarrow> stat option"
  mLocalFault :: bool
  mDemo :: bool
  mEvents :: "Event list"
  mEvHead :: nat
  mElected :: "id \<Rightarrow> id option"

definition NewMonitor :: "bool \<Rightarrow> Monitor" where
  "NewMonitor demo = \<lparr>mStats = (\<lambda>_. None), mLocalFault = False, mDemo = demo, mEvents = [], mEvHead = 0,
     mElected = (\<lambda>_. None)\<rparr>"

lemma mDemo_NewMonitor [simp]: "mDemo (NewMonitor d) = d"
  by (simp add: NewMonitor_def)

definition zeroProbe :: probeSample where "zeroProbe = \<lparr>psOk = False, psLatency = 0\<rparr>"

text \<open>\<open>&stat{state: Unknown, firstSeen: now, lastChange: now}\<close>\<close>

definition newStat :: "go_time \<Rightarrow> stat" where
  "newStat now = \<lparr>sName = '''', sKind = '''', sProbes = 0, sOk = 0, sFail = 0, sSumLatency = 0,
     sLastLatency = 0, sState = Unknown, sReconnects = 0, sConsecFail = 0, sConsecOK = 0,
     sFirstSeen = now, sLastChange = now, sLastProbe = 0, sActiveUp = 0, sActiveDown = 0, sRateUp = 0,
     sRateDown = 0, sTotalUp = 0, sTotalDown = 0, sLastConnSample = 0,
     sRecent = replicate healthWindow zeroProbe, sRecentN = 0, sRecentPos = 0\<rparr>"

section \<open>The rolling window\<close>

definition pushSample :: "probeSample \<Rightarrow> stat \<Rightarrow> stat" where
  "pushSample p s =
    (let s1 = s\<lparr>sRecent := (sRecent s)[sRecentPos s := p], sRecentPos := (sRecentPos s + 1) mod healthWindow\<rparr>
     in if sRecentN s1 < healthWindow then s1\<lparr>sRecentN := sRecentN s1 + 1\<rparr> else s1)"

text \<open>The walk of \<open>RecentWindows\<close>, oldest to newest.\<close>

definition window_samples :: "stat \<Rightarrow> probeSample list" where
  "window_samples s =
    (let start = (if sRecentN s = healthWindow then sRecentPos s else 0)
     in map (\<lambda>i. sRecent s ! ((start + i) mod healthWindow)) [0..<sRecentN s])"

definition window_ok :: "stat \<Rightarrow> bool" where
  "window_ok s \<longleftrightarrow> length (sRecent s) = healthWindow \<and> sRecentN s \<le> healthWindow
     \<and> sRecentPos s < healthWindow \<and> (sRecentN s < healthWindow \<longrightarrow> sRecentPos s = sRecentN s)"

lemma window_ok_push: "window_ok s \<Longrightarrow> window_ok (pushSample p s)"
  by (auto simp: window_ok_def pushSample_def Let_def healthWindow_def mod_Suc)

lemma window_samples_ring:
  assumes "window_ok s"
  shows "window_samples s = ring_read (sRecent s) healthWindow
    (if sRecentN s = healthWindow then sRecentPos s else 0) (sRecentN s)"
  by (simp add: window_samples_def ring_read_def Let_def)

lemma length_window_samples [simp]: "length (window_samples s) = sRecentN s"
  by (simp add: window_samples_def Let_def)

lemma window_samples_push:
  assumes ok: "window_ok s"
  shows "window_samples (pushSample p s) = last_n healthWindow (window_samples s @ [p])"
proof (cases "sRecentN s < healthWindow")
  case True
  then have pos: "sRecentPos s = sRecentN s" "length (sRecent s) = healthWindow"
    using ok by (auto simp: window_ok_def)
  have "window_samples (pushSample p s) = ring_read ((sRecent s)[sRecentN s := p]) healthWindow 0 (Suc (sRecentN s))"
    using True pos window_samples_ring[OF window_ok_push[OF ok]]
    by (cases "Suc (sRecentN s) = healthWindow") (auto simp: pushSample_def Let_def)
  also have "\<dots> = window_samples s @ [p]"
    using ring_read_grow[OF True pos(2), of 0 p] True window_samples_ring[OF ok] by simp
  finally show ?thesis using True by simp
next
  case False
  then have n: "sRecentN s = healthWindow" "length (sRecent s) = healthWindow" "sRecentPos s < healthWindow"
    using ok by (auto simp: window_ok_def)
  then show ?thesis
    using ring_read_full[OF n(2,3), of p] window_samples_ring[OF ok] window_samples_ring[OF window_ok_push[OF ok]]
    by (simp add: pushSample_def Let_def)
qed

interpretation probe_window: bounded_log pushSample window_samples healthWindow window_ok
  by unfold_locales (auto simp: window_ok_push window_samples_push, auto simp: healthWindow_def window_ok_def)


section \<open>The event ring\<close>

definition pushEvent :: "Event \<Rightarrow> Monitor \<Rightarrow> Monitor" where
  "pushEvent e m =
    (if length (mEvents m) < eventCap then m\<lparr>mEvents := mEvents m @ [e]\<rparr>
     else m\<lparr>mEvents := (mEvents m)[mEvHead m := e], mEvHead := (mEvHead m + 1) mod eventCap\<rparr>)"

definition Events :: "int \<Rightarrow> Monitor \<Rightarrow> Event list" where
  "Events limit m =
    (let n = length (mEvents m)
     in if n = 0 then []
        else (let limit' = (if limit \<le> 0 \<or> limit > int n then n else nat limit)
              in map (\<lambda>i. mEvents m ! ((mEvHead m + n - 1 - i) mod n)) [0..<limit']))"

definition EventCount :: "Monitor \<Rightarrow> nat" where
  "EventCount m = length (mEvents m)"

definition EventLogFull :: "Monitor \<Rightarrow> bool" where
  "EventLogFull m \<longleftrightarrow> length (mEvents m) \<ge> eventCap"

definition OldestEventAt :: "Monitor \<Rightarrow> go_time" where
  "OldestEventAt m =
    (if length (mEvents m) = 0 then 0 else evAt (mEvents m ! (mEvHead m mod length (mEvents m))))"

text \<open>The log as a list, oldest first.\<close>

definition event_log :: "Monitor \<Rightarrow> Event list" where
  "event_log m = ring_read (mEvents m) (length (mEvents m)) (mEvHead m) (length (mEvents m))"

definition events_ok :: "Monitor \<Rightarrow> bool" where
  "events_ok m \<longleftrightarrow> length (mEvents m) \<le> eventCap \<and> mEvHead m < eventCap
     \<and> (length (mEvents m) < eventCap \<longrightarrow> mEvHead m = 0)"

lemma event_log_linear: "mEvHead m = 0 \<Longrightarrow> event_log m = mEvents m"
  by (rule nth_equalityI) (auto simp: event_log_def)

lemma events_ok_push: "events_ok m \<Longrightarrow> events_ok (pushEvent e m)"
  by (auto simp: events_ok_def pushEvent_def eventCap_def)

lemma event_log_push:
  assumes ok: "events_ok m"
  shows "event_log (pushEvent e m) = last_n eventCap (event_log m @ [e])"
proof (cases "length (mEvents m) < eventCap")
  case True
  then have "mEvHead m = 0" using ok by (simp add: events_ok_def)
  then have "event_log (pushEvent e m) = event_log m @ [e]"
    using True by (simp add: pushEvent_def event_log_linear)
  moreover have "length (event_log m) < eventCap" using True by (simp add: event_log_def)
  ultimately show ?thesis by simp
next
  case False
  then have "length (mEvents m) = eventCap" "mEvHead m < eventCap" using ok by (auto simp: events_ok_def)
  then show ?thesis using ring_read_full[of "mEvents m" eventCap "mEvHead m" e]
    by (simp add: pushEvent_def event_log_def)
qed

interpretation event_ring: bounded_log pushEvent event_log eventCap events_ok
  by unfold_locales (auto simp: events_ok_push event_log_push, auto simp: eventCap_def events_ok_def event_log_def)

text \<open>The readers are the list's prefixes, newest first, its length and its oldest entry.\<close>

lemma Events_log: "Events limit m = (let l = event_log m in if limit \<le> 0 then rev l else take (nat limit) (rev l))"
proof -
  let ?n = "length (mEvents m)"
  have bwd: "mEvents m ! ((mEvHead m + ?n - 1 - i) mod ?n) = rev (event_log m) ! i" if "i < ?n" for i
  proof -
    have "mEvHead m + (?n - Suc i) = mEvHead m + ?n - 1 - i" using that by simp
    then show ?thesis using that by (simp add: event_log_def rev_nth)
  qed
  let ?k = "if limit \<le> 0 \<or> limit > int ?n then ?n else nat limit"
  have len: "length (event_log m) = ?n" by (simp add: event_log_def)
  have le: "?k \<le> ?n" by auto
  have "Events limit m = take ?k (rev (event_log m))"
  proof (cases "?n = 0")
    case True
    then show ?thesis using len by (simp add: Events_def)
  next
    case False
    then have "Events limit m = map (\<lambda>i. mEvents m ! ((mEvHead m + ?n - 1 - i) mod ?n)) [0..<?k]"
      by (simp add: Events_def Let_def)
    then show ?thesis using le len bwd by (intro nth_equalityI) simp_all
  qed
  then show ?thesis using len by (auto simp: Let_def)
qed

lemma OldestEventAt_log: "OldestEventAt m = (case event_log m of [] \<Rightarrow> 0 | e # _ \<Rightarrow> evAt e)"
proof (cases "event_log m")
  case Nil
  then show ?thesis by (simp add: OldestEventAt_def event_log_def ring_read_def)
next
  case (Cons e es)
  then have pos: "0 < length (mEvents m)" by (metis event_log_def length_ring_read length_Cons zero_less_Suc)
  then have "event_log m ! 0 = mEvents m ! (mEvHead m mod length (mEvents m))" by (simp add: event_log_def)
  then show ?thesis using Cons pos by (simp add: OldestEventAt_def)
qed

section \<open>Recording a probe\<close>

definition eventKindFor :: "State \<Rightarrow> State \<Rightarrow> string" where
  "eventKindFor from to =
    (if to = Down \<and> from \<noteq> Down then EventDown else if to = Alive \<and> from = Down then EventUp else '''')"

text \<open>The counters of one probe.\<close>

definition count_probe :: "string \<Rightarrow> string \<Rightarrow> State \<Rightarrow> int \<Rightarrow> go_time \<Rightarrow> stat \<Rightarrow> stat" where
  "count_probe name kind state latency now s =
    (let s1 = (if name \<noteq> '''' then s\<lparr>sName := name\<rparr> else s);
         s2 = (if kind \<noteq> '''' then s1\<lparr>sKind := kind\<rparr> else s1);
         s3 = s2\<lparr>sProbes := sProbes s2 + 1, sLastProbe := now\<rparr>
     in (case state of
           Alive \<Rightarrow> pushSample \<lparr>psOk = True, psLatency = latency\<rparr>
             (s3\<lparr>sOk := sOk s3 + 1, sSumLatency := sSumLatency s3 + latency, sLastLatency := latency,
                 sConsecFail := 0, sConsecOK := sConsecOK s3 + 1\<rparr>)
         | Down \<Rightarrow> pushSample \<lparr>psOk = False, psLatency = 0\<rparr>
             (s3\<lparr>sFail := sFail s3 + 1, sConsecFail := sConsecFail s3 + 1, sConsecOK := 0\<rparr>)
         | Unknown \<Rightarrow> s3))"

text \<open>The hysteresis: which state the probe commits.\<close>

definition commit_state :: "bool \<Rightarrow> State \<Rightarrow> stat \<Rightarrow> State" where
  "commit_state demo state s =
    (let downThreshold = (if demo then 1 else flapThreshold); upThreshold = (if demo then 1 else aliveThreshold)
     in if state = Down \<and> sConsecFail s < downThreshold then sState s
        else if state = Alive \<and> sState s = Down \<and> sConsecOK s < upThreshold then sState s
        else if state = Unknown \<and> sState s \<noteq> Unknown then sState s
        else state)"

definition probe_stat :: "Monitor \<Rightarrow> id \<Rightarrow> string \<Rightarrow> string \<Rightarrow> State \<Rightarrow> int \<Rightarrow> go_time \<Rightarrow> stat" where
  "probe_stat m i name kind state latency now =
    count_probe name kind state latency now (case mStats m i of None \<Rightarrow> newStat now | Some s \<Rightarrow> s)"

definition record_probe :: "id \<Rightarrow> string \<Rightarrow> string \<Rightarrow> State \<Rightarrow> int \<Rightarrow> go_time \<Rightarrow> Monitor \<Rightarrow> Monitor" where
  "record_probe i name kind state latency now m =
    (let s = probe_stat m i name kind state latency now;
         commit = commit_state (mDemo m) state s
     in if commit \<noteq> sState s then
          (let s1 = (if commit = Alive \<and> sState s = Down then s\<lparr>sReconnects := sReconnects s + 1\<rparr> else s);
               ek = eventKindFor (sState s) commit;
               m1 = (if ek \<noteq> '''' then
                       pushEvent \<lparr>evAt = now, evKind = ek, evID = i, evName = sName s,
                         evFrom = state_text (sState s), evTo = state_text commit, evLatencyMS = latency\<rparr> m
                     else m);
               s2 = s1\<lparr>sState := commit, sLastChange := now\<rparr>
           in m1\<lparr>mStats := (mStats m1)(i \<mapsto> s2)\<rparr>)
        else m\<lparr>mStats := (mStats m)(i \<mapsto> s)\<rparr>)"


section \<open>Runs of recorded probes\<close>

record probe =
  pbID :: id
  pbName :: string
  pbKind :: string
  pbState :: State
  pbLatency :: int
  pbNow :: go_time

definition record1 :: "Monitor \<Rightarrow> probe \<Rightarrow> Monitor" where
  "record1 m p = record_probe (pbID p) (pbName p) (pbKind p) (pbState p) (pbLatency p) (pbNow p) m"

definition stat_after :: "bool \<Rightarrow> stat option \<Rightarrow> probe \<Rightarrow> stat" where
  "stat_after demo so p =
    (let s = count_probe (pbName p) (pbKind p) (pbState p) (pbLatency p) (pbNow p)
               (case so of None \<Rightarrow> newStat (pbNow p) | Some s \<Rightarrow> s);
         commit = commit_state demo (pbState p) s
     in if commit \<noteq> sState s then
          (if commit = Alive \<and> sState s = Down then s\<lparr>sReconnects := sReconnects s + 1\<rparr> else s)
            \<lparr>sState := commit, sLastChange := pbNow p\<rparr>
        else s)"

definition state_of :: "stat option \<Rightarrow> State" where
  "state_of so = (case so of None \<Rightarrow> Unknown | Some s \<Rightarrow> sState s)"

definition event_after :: "bool \<Rightarrow> stat option \<Rightarrow> probe \<Rightarrow> Event list" where
  "event_after demo so p =
    (let s = stat_after demo so p; ek = eventKindFor (state_of so) (sState s)
     in if ek \<noteq> '''' then [\<lparr>evAt = pbNow p, evKind = ek, evID = pbID p, evName = sName s,
          evFrom = state_text (state_of so), evTo = state_text (sState s), evLatencyMS = pbLatency p\<rparr>] else [])"

definition push_all :: "Event list \<Rightarrow> Monitor \<Rightarrow> Monitor" where
  "push_all es m = foldl (\<lambda>m e. pushEvent e m) m es"

lemma pushSample_frame [simp]:
  "sName (pushSample p s) = sName s" "sState (pushSample p s) = sState s" "sReconnects (pushSample p s) = sReconnects s"
  "sConsecFail (pushSample p s) = sConsecFail s" "sConsecOK (pushSample p s) = sConsecOK s"
  "sOk (pushSample p s) = sOk s" "sFail (pushSample p s) = sFail s" "sLastLatency (pushSample p s) = sLastLatency s"
  "sKind (pushSample p s) = sKind s" "sLastChange (pushSample p s) = sLastChange s"
  by (simp_all add: pushSample_def Let_def)

lemma count_probe_frame [simp]:
  "sState (count_probe name kind st lat now s) = sState s"
  "sReconnects (count_probe name kind st lat now s) = sReconnects s"
  by (cases st; simp add: count_probe_def Let_def)+

lemma pushEvent_frame [simp]:
  "mStats (pushEvent e m) = mStats m" "mDemo (pushEvent e m) = mDemo m" "mLocalFault (pushEvent e m) = mLocalFault m"
  "mElected (pushEvent e m) = mElected m"
  by (simp_all add: pushEvent_def)

lemma push_all_frame [simp]:
  "mStats (push_all es m) = mStats m" "mDemo (push_all es m) = mDemo m" "mLocalFault (push_all es m) = mLocalFault m"
  "mElected (push_all es m) = mElected m"
  unfolding push_all_def by (induction es arbitrary: m) simp_all

lemma record1_eq:
  "record1 m p = (push_all (event_after (mDemo m) (mStats m (pbID p)) p) m)
     \<lparr>mStats := (mStats m)(pbID p \<mapsto> stat_after (mDemo m) (mStats m (pbID p)) p)\<rparr>"
proof -
  have st: "state_of so = sState (case so of None \<Rightarrow> newStat now | Some s \<Rightarrow> s)" for so now
    by (cases so) (auto simp: state_of_def newStat_def)
  have same: "eventKindFor a a = ''''" for a by (cases a) (auto simp: eventKindFor_def)
  show ?thesis
    by (auto simp: record1_def record_probe_def probe_stat_def stat_after_def event_after_def push_all_def
        Let_def st[of _ "pbNow p"] same)
qed

definition records :: "Monitor \<Rightarrow> probe list \<Rightarrow> Monitor" where
  "records m ps = foldl record1 m ps"

lemma records_snoc [simp]: "records m (ps @ [p]) = record1 (records m ps) p" and records_Nil [simp]: "records m [] = m"
  by (simp_all add: records_def)

lemma record1_frame [simp]: "mDemo (record1 m p) = mDemo m" "mElected (record1 m p) = mElected m"
  by (simp_all add: record1_eq)

lemma records_demo [simp]: "mDemo (records m ps) = mDemo m"
  by (induction ps rule: rev_induct) simp_all

section \<open>What the hysteresis commits\<close>

text \<open>The definite outcomes of one target, newest first.\<close>

definition definite :: "id \<Rightarrow> probe list \<Rightarrow> State list" where
  "definite i ps = rev (filter (\<lambda>st. st \<noteq> Unknown) (map pbState (filter (\<lambda>p. pbID p = i) ps)))"

lemma definite_snoc [simp]:
  "definite i (ps @ [p]) = (if pbID p = i \<and> pbState p \<noteq> Unknown then pbState p # definite i ps else definite i ps)"
  by (simp add: definite_def)

lemma definite_Nil [simp]: "definite i [] = []"
  by (simp add: definite_def)

text \<open>The most recent pair of equal neighbouring outcomes decides; before there is one, a single answer
  brings a target up.\<close>

fun last_pair :: "State list \<Rightarrow> State option" where
  "last_pair (x # y # ds) = (if x = y then Some x else last_pair (y # ds))"
| "last_pair _ = None"

definition settled :: "State list \<Rightarrow> State" where
  "settled ds = (case last_pair ds of Some x \<Rightarrow> x | None \<Rightarrow> (if Alive \<in> set ds then Alive else Unknown))"

definition run_of :: "State \<Rightarrow> State list \<Rightarrow> nat" where
  "run_of x ds = length (takeWhile (\<lambda>y. y = x) ds)"

lemma run_of_simps [simp]: "run_of x [] = 0" "run_of x (y # ds) = (if y = x then Suc (run_of x ds) else 0)"
  by (simp_all add: run_of_def)

text \<open>The statistics of a target with outcome history \<open>ds\<close>.\<close>

definition stat_hist :: "State list \<Rightarrow> stat \<Rightarrow> bool" where
  "stat_hist ds s \<longleftrightarrow> sState s = settled ds \<and> sConsecFail s = run_of Down ds \<and> sConsecOK s = run_of Alive ds
     \<and> window_ok s \<and> map psOk (window_samples s) = map (\<lambda>st. st = Alive) (last_n healthWindow (rev ds))
     \<and> sOk s = int (length (filter (\<lambda>st. st = Alive) ds)) \<and> sFail s = int (length (filter (\<lambda>st. st = Down) ds))"

lemma settled_Down: "Unknown \<notin> set ds \<Longrightarrow> settled (Down # ds) = (if run_of Down ds = 0 then settled ds else Down)"
  by (cases ds) (auto simp: settled_def)

lemma settled_Alive:
  assumes "Unknown \<notin> set ds"
  shows "settled (Alive # ds) = (if settled ds = Down \<and> run_of Alive ds = 0 then Down else Alive)"
proof -
  have none: "settled ds = Down \<Longrightarrow> last_pair ds = Some Down" by (auto simp: settled_def split: option.splits if_splits)
  have pair: "last_pair ds = Some x \<Longrightarrow> x \<in> set ds" for x by (induction ds rule: last_pair.induct) (auto split: if_splits)
  show ?thesis
  proof (cases ds)
    case Nil
    then show ?thesis by (simp add: settled_def)
  next
    case (Cons y ys)
    then have "y = Alive \<or> y = Down" using assms by (cases y) auto
    moreover have "settled ds = Alive" if "last_pair ds \<noteq> Some Down" "Alive \<in> set ds"
      using that pair assms by (auto simp: settled_def split: option.splits) (metis State.exhaust)
    ultimately show ?thesis
      using Cons none pair assms by (auto simp: settled_def split: option.splits) (metis State.exhaust)+
  qed
qed


lemma newStat_hist: "stat_hist [] (newStat now)"
  by (simp add: stat_hist_def newStat_def settled_def window_ok_def window_samples_def healthWindow_def)

text \<open>The window reads only its own three fields.\<close>

definition same_window :: "stat \<Rightarrow> stat \<Rightarrow> bool" where
  "same_window s s' \<longleftrightarrow> sRecent s' = sRecent s \<and> sRecentN s' = sRecentN s \<and> sRecentPos s' = sRecentPos s"

lemma same_windowD:
  assumes "same_window s s'"
  shows "window_ok s' = window_ok s" "window_samples s' = window_samples s"
    "window_samples (pushSample p s') = window_samples (pushSample p s)" "window_ok (pushSample p s') = window_ok (pushSample p s)"
  using assms by (simp_all add: same_window_def window_ok_def window_samples_def pushSample_def Let_def)

lemma count_probe_window:
  "same_window (case st of Alive \<Rightarrow> pushSample \<lparr>psOk = True, psLatency = lat\<rparr> s
     | Down \<Rightarrow> pushSample \<lparr>psOk = False, psLatency = 0\<rparr> s | Unknown \<Rightarrow> s) (count_probe name kind st lat now s)"
  by (cases st) (simp_all add: same_window_def count_probe_def pushSample_def Let_def)

lemma count_probe_hist:
  assumes hist: "stat_hist ds s" and s'_def: "s' = count_probe name kind st lat now s"
    and ds'_def: "ds' = (if st = Unknown then ds else st # ds)"
  shows "sConsecFail s' = run_of Down ds'" "sConsecOK s' = run_of Alive ds'" "window_ok s'"
    "map psOk (window_samples s') = map (\<lambda>st. st = Alive) (last_n healthWindow (rev ds'))"
    "sOk s' = int (length (filter (\<lambda>st. st = Alive) ds'))" "sFail s' = int (length (filter (\<lambda>st. st = Down) ds'))"
proof -
  have h: "sConsecFail s = run_of Down ds" "sConsecOK s = run_of Alive ds" "window_ok s"
    "map psOk (window_samples s) = map (\<lambda>st. st = Alive) (last_n healthWindow (rev ds))"
    "sOk s = int (length (filter (\<lambda>st. st = Alive) ds))" "sFail s = int (length (filter (\<lambda>st. st = Down) ds))"
    using hist by (auto simp: stat_hist_def)
  have push: "map psOk (window_samples (pushSample q s)) = map (\<lambda>st. st = Alive) (last_n healthWindow (rev ds @ [x]))"
    if "psOk q = (x = Alive)" for q x
  proof -
    have "map psOk (window_samples (pushSample q s)) = last_n healthWindow (map psOk (window_samples s) @ [psOk q])"
      by (simp add: window_samples_push[OF h(3)] flip: last_n_map)
    also have "\<dots> = last_n healthWindow (map (\<lambda>st. st = Alive) (rev ds) @ [x = Alive])"
      by (simp only: h(4) that last_n_map[symmetric] last_n_absorb)
    finally show ?thesis by (simp flip: last_n_map)
  qed
  show "sConsecFail s' = run_of Down ds'" "sConsecOK s' = run_of Alive ds'"
    "sOk s' = int (length (filter (\<lambda>st. st = Alive) ds'))" "sFail s' = int (length (filter (\<lambda>st. st = Down) ds'))"
    using h by (cases st; simp add: s'_def ds'_def count_probe_def Let_def)+
  note w = same_windowD(1,2)[OF count_probe_window[where st = st and lat = lat and s = s and name = name and kind = kind and now = now], folded s'_def]
  show "window_ok s'" using h(3) window_ok_push[OF h(3)] by (cases st) (simp_all add: w)
  show "map psOk (window_samples s') = map (\<lambda>st. st = Alive) (last_n healthWindow (rev ds'))"
    using h(4) push by (cases st) (simp_all add: w ds'_def)
qed

lemma stat_after_hist:
  assumes hist: "stat_hist ds (case so of None \<Rightarrow> newStat (pbNow p) | Some s \<Rightarrow> s)" and "Unknown \<notin> set ds"
  shows "stat_hist (if pbState p = Unknown then ds else pbState p # ds) (stat_after False so p)"
proof -
  let ?s = "case so of None \<Rightarrow> newStat (pbNow p) | Some s \<Rightarrow> s"
  let ?c = "count_probe (pbName p) (pbKind p) (pbState p) (pbLatency p) (pbNow p) ?s"
  let ?ds = "if pbState p = Unknown then ds else pbState p # ds"
  note c = count_probe_hist[OF hist refl refl, where name = "pbName p" and kind = "pbKind p" and st = "pbState p"
    and lat = "pbLatency p" and now = "pbNow p"]
  have st: "sState ?c = settled ds" using hist by (simp add: stat_hist_def)
  have "commit_state False (pbState p) ?c = settled ?ds"
    using c(1,2) st settled_Down[OF assms(2)] settled_Alive[OF assms(2)]
    by (cases "pbState p") (auto simp: commit_state_def Let_def flapThreshold_def aliveThreshold_def)
  moreover have "same_window ?c (stat_after False so p)" "sConsecFail (stat_after False so p) = sConsecFail ?c"
    "sConsecOK (stat_after False so p) = sConsecOK ?c" "sOk (stat_after False so p) = sOk ?c"
    "sFail (stat_after False so p) = sFail ?c"
    "sState (stat_after False so p) = commit_state False (pbState p) ?c"
    by (simp_all add: stat_after_def Let_def same_window_def)
  ultimately show ?thesis
    using c same_windowD[of ?c "stat_after False so p"] by (simp add: stat_hist_def)
qed

lemma definite_no_Unknown: "Unknown \<notin> set (definite i ps)"
  by (auto simp: definite_def)

lemma records_hist:
  "(case mStats (records (NewMonitor False) ps) i of None \<Rightarrow> \<forall>p\<in>set ps. pbID p \<noteq> i | Some s \<Rightarrow> stat_hist (definite i ps) s)"
proof (induction ps rule: rev_induct)
  case Nil
  then show ?case by (simp add: NewMonitor_def)
next
  case (snoc p ps)
  let ?m = "records (NewMonitor False) ps"
  have demo: "\<not> mDemo ?m" by simp
  show ?case
  proof (cases "pbID p = i")
    case False
    then show ?thesis using snoc by (auto simp: record1_eq split: option.splits)
  next
    case True
    have base: "stat_hist (definite i ps) (case mStats ?m i of None \<Rightarrow> newStat (pbNow p) | Some s \<Rightarrow> s)"
    proof (cases "mStats ?m i")
      case None
      then have "definite i ps = []" using snoc by (auto simp: definite_def filter_empty_conv)
      then show ?thesis using None newStat_hist by simp
    qed (use snoc in auto)
    then show ?thesis
      using stat_after_hist[OF base definite_no_Unknown] True demo
      by (cases "pbState p = Unknown") (auto simp: record1_eq)
  qed
qed


section \<open>The history of committed transitions\<close>

text \<open>Every event a run of probes emits, oldest first, before the ring forgets any.\<close>

fun emitted :: "Monitor \<Rightarrow> probe list \<Rightarrow> Event list" where
  "emitted m [] = []"
| "emitted m (p # ps) = event_after (mDemo m) (mStats m (pbID p)) p @ emitted (record1 m p) ps"

lemma emitted_snoc:
  "emitted m (ps @ [p]) = emitted m ps @ (let m' = records m ps in event_after (mDemo m') (mStats m' (pbID p)) p)"
  by (induction ps arbitrary: m) (auto simp: Let_def records_def)

lemma NewMonitor_events_ok: "events_ok (NewMonitor d)" "event_log (NewMonitor d) = []"
  by (simp_all add: NewMonitor_def events_ok_def event_log_def eventCap_def)

lemma event_log_stats [simp]: "event_log (m\<lparr>mStats := x\<rparr>) = event_log m" "events_ok (m\<lparr>mStats := x\<rparr>) = events_ok m"
  by (simp_all add: event_log_def events_ok_def)

lemma records_events:
  "events_ok (records (NewMonitor d) ps)
   \<and> event_log (records (NewMonitor d) ps) = last_n eventCap (emitted (NewMonitor d) ps)"
proof (induction ps rule: rev_induct)
  case Nil
  then show ?case by (simp add: NewMonitor_events_ok)
next
  case (snoc p ps)
  let ?m = "records (NewMonitor d) ps"
  let ?es = "event_after (mDemo ?m) (mStats ?m (pbID p)) p"
  have "event_log (push_all ?es ?m) = last_n eventCap (event_log ?m @ ?es)"
    unfolding push_all_def by (rule event_ring.contents_pushes) (use snoc in blast)
  moreover have "events_ok (push_all ?es ?m)"
    unfolding push_all_def by (rule event_ring.pushes_ok) (use snoc in blast)
  ultimately show ?case
    using snoc by (simp add: record1_eq emitted_snoc Let_def last_n_absorb)
qed

definition kinds :: "id \<Rightarrow> Event list \<Rightarrow> string list" where
  "kinds i es = map evKind (filter (\<lambda>e. evID e = i) es)"

text \<open>Outages and recoveries of one target take turns, an outage first.\<close>

fun turns :: "string \<Rightarrow> string list \<Rightarrow> bool" where
  "turns k [] = True"
| "turns k (x # xs) = (x = k \<and> turns (if k = EventDown then EventUp else EventDown) xs)"

lemma turns_snoc:
  "turns EventDown xs \<Longrightarrow> turns EventDown (xs @ [x]) \<longleftrightarrow> x = (if even (length xs) then EventDown else EventUp)"
proof -
  have "(k = EventDown \<or> k = EventUp) \<Longrightarrow> turns k xs \<Longrightarrow> turns k (xs @ [x]) \<longleftrightarrow>
      x = (if even (length xs) then k else (if k = EventDown then EventUp else EventDown))" for k
    by (induction xs arbitrary: k) (auto simp: EventDown_def EventUp_def)
  then show "turns EventDown xs \<Longrightarrow> turns EventDown (xs @ [x]) \<longleftrightarrow> x = (if even (length xs) then EventDown else EventUp)"
    by simp
qed

definition down_state :: "stat option \<Rightarrow> bool" where
  "down_state so \<longleftrightarrow> state_of so = Down"

definition ups :: "stat option \<Rightarrow> int" where
  "ups so = (case so of None \<Rightarrow> 0 | Some s \<Rightarrow> sReconnects s)"

lemma stat_after_transition:
  "kinds (pbID p) (event_after d so p) =
     (if state_of so \<noteq> Down \<and> sState (stat_after d so p) = Down then [EventDown]
      else if state_of so = Down \<and> sState (stat_after d so p) = Alive then [EventUp] else [])"
  "sReconnects (stat_after d so p) = ups so + (if state_of so = Down \<and> sState (stat_after d so p) = Alive then 1 else 0)"
  "state_of so = Down \<Longrightarrow> sState (stat_after d so p) \<in> {Down, Alive}"
proof -
  show "kinds (pbID p) (event_after d so p) =
     (if state_of so \<noteq> Down \<and> sState (stat_after d so p) = Down then [EventDown]
      else if state_of so = Down \<and> sState (stat_after d so p) = Alive then [EventUp] else [])"
    by (auto simp: kinds_def event_after_def eventKindFor_def EventDown_def EventUp_def Let_def)
  have st: "sState (case so of None \<Rightarrow> newStat (pbNow p) | Some s \<Rightarrow> s) = state_of so"
    "sReconnects (case so of None \<Rightarrow> newStat (pbNow p) | Some s \<Rightarrow> s) = ups so"
    by (cases so; simp add: state_of_def ups_def newStat_def)+
  show "sReconnects (stat_after d so p) = ups so + (if state_of so = Down \<and> sState (stat_after d so p) = Alive then 1 else 0)"
    by (auto simp: stat_after_def Let_def st)
  show "sState (stat_after d so p) \<in> {Down, Alive}" if "state_of so = Down"
    using that by (cases "pbState p") (auto simp: stat_after_def Let_def st commit_state_def)
qed

lemma kinds_append [simp]: "kinds i (xs @ ys) = kinds i xs @ kinds i ys"
  by (simp add: kinds_def)

lemma event_after_id: "e \<in> set (event_after d so p) \<Longrightarrow> evID e = pbID p"
  by (auto simp: event_after_def Let_def split: if_splits)

lemma records_history:
  fixes i :: id and d :: bool
  defines "so \<equiv> \<lambda>ps. mStats (records (NewMonitor d) ps) i"
  defines "ks \<equiv> \<lambda>ps. kinds i (emitted (NewMonitor d) ps)"
  shows "turns EventDown (ks ps) \<and> (down_state (so ps) \<longleftrightarrow> odd (length (ks ps)))
    \<and> ups (so ps) = int (length (filter (\<lambda>k. k = EventUp) (ks ps)))"
proof (induction ps rule: rev_induct)
  case Nil
  then show ?case by (simp add: so_def ks_def kinds_def down_state_def state_of_def ups_def NewMonitor_def)
next
  case (snoc p ps)
  have demo: "mDemo (records (NewMonitor d) ps) = d" by simp
  have neq: "EventDown \<noteq> EventUp" by (simp add: EventDown_def EventUp_def)
  show ?case
  proof (cases "pbID p = i")
    case False
    then have "kinds i (event_after d (mStats (records (NewMonitor d) ps) (pbID p)) p) = []"
      by (auto simp: kinds_def filter_empty_conv dest: event_after_id)
    then show ?thesis using snoc False
      by (simp add: so_def ks_def emitted_snoc Let_def demo record1_eq)
  next
    case True
    let ?s = "stat_after d (so ps) p"
    have ks: "ks (ps @ [p]) = ks ps @ kinds i (event_after d (so ps) p)"
      using True by (simp add: ks_def so_def emitted_snoc Let_def demo)
    have so: "so (ps @ [p]) = Some ?s" using True by (simp add: so_def record1_eq demo)
    note tr = stat_after_transition[where p = p and d = d and so = "so ps", unfolded True]
    show ?thesis
      using snoc tr turns_snoc[of "ks ps"] neq
      by (cases "state_of (so ps) = Down"; cases "sState ?s")
        (auto simp: ks so down_state_def state_of_def[of "Some _"] ups_def[of "Some _"])
  qed
qed


section \<open>Views\<close>

record View =
  vID :: id
  vName :: string
  vKind :: string
  vState :: string
  vHandshake :: string
  vLatencyMs :: int
  vAvgLatencyMs :: int
  vSuccessRate :: int
  vProbes :: int
  vReconnects :: int
  vUptimeS :: int
  vRateUpBps :: int
  vRateDownBps :: int
  vBytesUp :: int
  vBytesDown :: int
  vCause :: string
  vCauseFix :: string
  vCauseID :: string

definition blankView :: "id \<Rightarrow> View" where
  "blankView i = \<lparr>vID = i, vName = '''', vKind = '''', vState = '''', vHandshake = '''', vLatencyMs = 0,
     vAvgLatencyMs = 0, vSuccessRate = 0, vProbes = 0, vReconnects = 0, vUptimeS = 0, vRateUpBps = 0,
     vRateDownBps = 0, vBytesUp = 0, vBytesDown = 0, vCause = '''', vCauseFix = '''', vCauseID = ''''\<rparr>"

fun handshake :: "State \<Rightarrow> string" where
  "handshake Alive = ''ok''"
| "handshake Down = ''failed''"
| "handshake Unknown = ''unknown''"

text \<open>The loop over the window's slots: number of answers and their latency sum.\<close>

definition window_sums :: "stat \<Rightarrow> int \<times> int" where
  "window_sums s =
    (let oks = filter psOk (take (sRecentN s) (sRecent s))
     in (int (length oks), sum_list (map psLatency oks)))"

definition view_rates :: "stat \<Rightarrow> int \<times> int" where
  "view_rates s =
    (if sRecentN s > 0 then
       (let (okN, latSum) = window_sums s
        in (go_div (okN * 100) (int (sRecentN s)), if okN > 0 then go_div latSum okN else 0))
     else if sOk s + sFail s > 0 then
       (go_div (sOk s * 100) (sOk s + sFail s), if sOk s > 0 then go_div (sSumLatency s) (sOk s) else 0)
     else (0, 0))"

definition toView :: "id \<Rightarrow> stat option \<Rightarrow> go_time \<Rightarrow> View" where
  "toView i so now =
    (case so of
       None \<Rightarrow> (blankView i)\<lparr>vState := state_text Unknown, vHandshake := ''unknown''\<rparr>
     | Some s \<Rightarrow>
         (blankView i)\<lparr>vName := sName s, vKind := sKind s, vState := state_text (sState s),
           vLatencyMs := sLastLatency s, vProbes := sProbes s, vReconnects := sReconnects s,
           vRateUpBps := sRateUp s, vRateDownBps := sRateDown s, vBytesUp := sTotalUp s, vBytesDown := sTotalDown s,
           vHandshake := handshake (sState s), vSuccessRate := fst (view_rates s),
           vAvgLatencyMs := snd (view_rates s),
           vUptimeS := (if sState s = Alive then go_div (now - sLastChange s) 1000 else 0)\<rparr>)"

record RecentWindow =
  rwName :: string
  rwSamples :: "bool list"
  rwIntervalS :: int
  rwFull :: bool

text \<open>\<open>RecentWindows\<close> iterates a map: its result is a map from target ids to windows.\<close>

definition RecentWindows :: "int \<Rightarrow> Monitor \<Rightarrow> id \<Rightarrow> RecentWindow option" where
  "RecentWindows interval m i =
    (case mStats m i of
       None \<Rightarrow> None
     | Some s \<Rightarrow>
         if sRecentN s = 0 then None
         else Some \<lparr>rwName = sName s, rwSamples = map psOk (window_samples s),
                rwIntervalS = (let n = go_div interval 1000000000 in if n < 1 then 1 else n),
                rwFull = (sRecentN s = healthWindow)\<rparr>)"

text \<open>The slots in array order and the window in time order hold the same samples.\<close>

lemma window_rotates:
  assumes "window_ok s"
  shows "mset (take (sRecentN s) (sRecent s)) = mset (window_samples s)"
proof (cases "sRecentN s = healthWindow")
  case True
  then have n: "length (sRecent s) = healthWindow" "sRecentPos s < healthWindow" using assms by (auto simp: window_ok_def)
  have "window_samples s = rotate (sRecentPos s) (sRecent s)"
    by (rule nth_equalityI) (use n True window_samples_ring[OF assms] in \<open>auto simp: nth_rotate\<close>)
  then show ?thesis using n True by (simp add: rotate_drop_take flip: union_code)
    (metis add.commute append_take_drop_id mset_append)
next
  case False
  then have "sRecentN s < healthWindow" "length (sRecent s) = healthWindow" using assms by (auto simp: window_ok_def)
  then have "window_samples s = take (sRecentN s) (sRecent s)"
    by (intro nth_equalityI) (use False window_samples_ring[OF assms] in auto)
  then show ?thesis by simp
qed

lemma window_sums_ok:
  assumes "window_ok s"
  shows "fst (window_sums s) = int (length (filter id (map psOk (window_samples s))))"
proof -
  have "size (filter_mset psOk (mset (take (sRecentN s) (sRecent s)))) = size (filter_mset psOk (mset (window_samples s)))"
    by (simp only: window_rotates[OF assms])
  then show ?thesis by (simp add: window_sums_def Let_def filter_map comp_def flip: mset_filter)
qed


section \<open>Properties\<close>

text \<open>C5. Fast out, slow in, exactly: whatever probes of whatever targets were recorded, in any order, the
  committed state of a target is the value of its most recent two equal consecutive definite outcomes;
  before any such pair it is up as soon as it answered once. A single lost or lucky probe and any number
  of \<open>Unknown\<close> outcomes change nothing: a committed state is held through them.
\<close>

theorem health_hysteresis:
  "state_of (mStats (records (NewMonitor False) ps) i)
     = (case last_pair (definite i ps) of
          Some x \<Rightarrow> x
        | None \<Rightarrow> (if Alive \<in> set (definite i ps) then Alive else Unknown))"
proof (cases "mStats (records (NewMonitor False) ps) i")
  case None
  then have "definite i ps = []"
    using records_hist[of ps i] by (auto simp: definite_def filter_empty_conv)
  then show ?thesis using None by (simp add: state_of_def)
next
  case (Some s)
  then show ?thesis using records_hist[of ps i] by (simp add: state_of_def stat_hist_def settled_def)
qed

lemma health_window_run:
  fixes ps :: "probe list" and i :: id
  defines "m \<equiv> records (NewMonitor False) ps"
    and "outs \<equiv> map (\<lambda>st. st = Alive) (last_n 30 (rev (definite i ps)))"
  shows "case RecentWindows iv m i of
      None \<Rightarrow> definite i ps = []
    | Some w \<Rightarrow> rwSamples w = outs \<and> (rwFull w \<longleftrightarrow> 30 \<le> length (definite i ps))
        \<and> vSuccessRate (toView i (mStats m i) now) = int (100 * length (filter id outs) div length outs)
        \<and> vSuccessRate (toView i (mStats m i) now) \<in> {0..100}"
proof (cases "mStats m i")
  case None
  then show ?thesis
    using records_hist[of ps i] by (auto simp: RecentWindows_def m_def definite_def filter_empty_conv)
next
  case (Some s)
  then have hist: "stat_hist (definite i ps) s" using records_hist[of ps i] by (simp add: m_def)
  then have ok: "window_ok s" and outs: "map psOk (window_samples s) = outs"
    by (auto simp: stat_hist_def outs_def healthWindow_def)
  have n: "sRecentN s = length outs" using outs by (metis length_map length_window_samples)
  have len: "length outs = min 30 (length (definite i ps))" by (simp add: outs_def)
  have sums: "fst (window_sums s) = int (length (filter id outs))" using window_sums_ok[OF ok] outs by simp
  have le: "length (filter id outs) \<le> length outs" by simp
  have rate: "vSuccessRate (toView i (mStats m i) now) = int (100 * length (filter id outs) div length outs)"
    if "0 < length outs"
  proof -
    have "vSuccessRate (toView i (mStats m i) now) = go_div (int (length (filter id outs)) * 100) (int (length outs))"
      using Some n that sums by (auto simp: toView_def view_rates_def split: prod.splits)
    also have "\<dots> = int (100 * length (filter id outs) div length outs)"
      using that by (simp add: go_div_pos zdiv_int mult.commute)
    finally show ?thesis .
  qed
  have bnd: "100 * length (filter id outs) div length outs \<le> 100" if "0 < length outs"
    using le that by (metis div_le_mono div_mult_self_is_m mult_le_mono2)
  show ?thesis
  proof (cases "outs = []")
    case True
    then have "definite i ps = []" using len by (auto simp: min_def split: if_splits)
    then show ?thesis using Some True n by (simp add: RecentWindows_def)
  next
    case False
    then have pos: "0 < length outs" by simp
    then show ?thesis using Some outs n rate[OF pos] bnd[OF pos] len
      by (simp add: RecentWindows_def healthWindow_def del: of_nat_mult) linarith
  qed
qed

text \<open>The probe window shown for a target is the sequence of its last 30 definite outcomes, oldest first,
  absent exactly when there is none; the success rate of its view is their share of answers in percent,
  so it is between 0 and 100 and forgets older outcomes.
\<close>

theorem health_window:
  "let m = records (NewMonitor False) ps;
       outs = map (\<lambda>st. st = Alive) (last_n 30 (rev (definite i ps)))
   in case RecentWindows iv m i of
        None \<Rightarrow> definite i ps = []
      | Some w \<Rightarrow> rwSamples w = outs \<and> (rwFull w \<longleftrightarrow> 30 \<le> length (definite i ps))
          \<and> vSuccessRate (toView i (mStats m i) now) = int (100 * length (filter id outs) div length outs)
          \<and> vSuccessRate (toView i (mStats m i) now) \<in> {0..100}"
  unfolding Let_def by (rule health_window_run)

text \<open>The failover log holds the 256 most recent committed transitions of the run, newest first when
  read. In the whole history each target's outages and recoveries take turns, starting with an outage;
  the target is down exactly when the last one was an outage, and its reconnect counter is the number
  of its recoveries. Start-up readings are not recoveries.
\<close>

theorem failover_log_history:
  "let m = records (NewMonitor demo) ps; hist = emitted (NewMonitor demo) ps
   in Events 0 m = rev (last_n 256 hist) \<and> turns EventDown (kinds i hist)
      \<and> (state_of (mStats m i) = Down \<longleftrightarrow> odd (length (kinds i hist)))
      \<and> ups (mStats m i) = int (length (filter (\<lambda>k. k = EventUp) (kinds i hist)))"
  using records_history[where ps = ps and i = i and d = demo] records_events[where ps = ps and d = demo]
  by (simp add: Events_log Let_def eventCap_def down_state_def)

end
