(* ===== verification/Health_Groups.thy ===== *)
theory Health_Groups
  imports Health_Stats
begin

text \<open>
  One tick of the health monitor from probe results to committed state (\<open>internal/health/monitor.go\<close>):
  the local-fault gate, recording of endpoints, and the derivation of group health to a fixpoint, with
  the proof that the bounded passes compute reachability of a live (or dead) endpoint through nested,
  even cyclic, groups.
\<close>

section \<open>Targets\<close>

record target =
  tgID :: id
  tgName :: string
  tgKind :: string
  tgTestURL :: string
  tgIface :: string

definition allEndpointsDown :: "(target \<times> State) list \<Rightarrow> bool" where
  "allEndpointsDown rs =
    (let eps = filter (\<lambda>(tg, st). tgKind tg = ''endpoint'') rs
     in (\<not> list_ex (\<lambda>(tg, st). st = Alive) eps) \<and> length (filter (\<lambda>(tg, st). st = Down) eps) \<ge> 2)"

section \<open>Deriving group health\<close>

record derivedHealth =
  dhState :: State
  dhLatency :: int

type_synonym byID = "id \<Rightarrow> derivedHealth option"

definition dh :: "State \<Rightarrow> derivedHealth" where
  "dh st = \<lparr>dhState = st, dhLatency = 0\<rparr>"

lemma dhState_dh [simp]: "dhState (dh st) = st"
  by (simp add: dh_def)

definition seed :: "Group list \<Rightarrow> (id \<Rightarrow> stat option) \<Rightarrow> byID" where
  "seed groups stats i =
    (if i \<in> set (map grID groups) then Some (dh Unknown)
     else if i = OutboundDirect then Some (dh Alive)
     else (case stats i of
             None \<Rightarrow> None
           | Some s \<Rightarrow> if sKind s \<noteq> ''group'' then Some \<lparr>dhState = sState s, dhLatency = sLastLatency s\<rparr> else None))"

definition derive_member :: "byID \<Rightarrow> derivedHealth \<times> bool \<Rightarrow> id \<Rightarrow> derivedHealth \<times> bool" where
  "derive_member hb acc mem =
    (case acc of (next, anyDown) \<Rightarrow>
      (case hb mem of
         None \<Rightarrow> (next, anyDown)
       | Some mh \<Rightarrow>
          (case dhState mh of
             Alive \<Rightarrow> (if dhState next \<noteq> Alive then mh else next, anyDown)
           | Down \<Rightarrow> (next, True)
           | Unknown \<Rightarrow> (next, anyDown))))"

definition derive_group :: "byID \<Rightarrow> id list \<Rightarrow> derivedHealth" where
  "derive_group hb members =
    (case foldl (derive_member hb) (dh Unknown, False) members of
       (next, anyDown) \<Rightarrow> if dhState next \<noteq> Alive \<and> anyDown then dh Down else next)"

definition pass_group :: "byID \<times> bool \<Rightarrow> Group \<Rightarrow> byID \<times> bool" where
  "pass_group bc g =
    (case bc of (hb, changed) \<Rightarrow>
       (let next = derive_group hb (grMembers g)
        in if hb (grID g) \<noteq> Some next then (hb(grID g \<mapsto> next), True) else (hb, changed)))"

definition pass :: "Group list \<Rightarrow> byID \<Rightarrow> byID \<times> bool" where
  "pass groups hb = foldl pass_group (hb, False) groups"

fun passes :: "nat \<Rightarrow> Group list \<Rightarrow> byID \<Rightarrow> byID" where
  "passes 0 groups hb = hb"
| "passes (Suc n) groups hb =
     (case pass groups hb of (hb', changed) \<Rightarrow> if changed then passes n groups hb' else hb')"

definition derived :: "Group list \<Rightarrow> (id \<Rightarrow> stat option) \<Rightarrow> byID" where
  "derived groups stats = passes (length groups) groups (seed groups stats)"

definition recordDerivedGroups :: "Group list \<Rightarrow> go_time \<Rightarrow> Monitor \<Rightarrow> Monitor" where
  "recordDerivedGroups groups now m =
    (if groups = [] then m
     else (let hb = derived groups (mStats m)
           in foldl (\<lambda>m g. case hb (grID g) of
                None \<Rightarrow> m
              | Some h \<Rightarrow> record_probe (grID g) (grName g) ''group'' (dhState h) (dhLatency h) now m) m groups))"

section \<open>Applying a tick's results\<close>

definition record_endpoint :: "bool \<Rightarrow> go_time \<Rightarrow> Monitor \<Rightarrow> target \<times> State \<times> int \<Rightarrow> Monitor" where
  "record_endpoint localFault now m r =
    (case r of (tg, st, lat) \<Rightarrow>
       if tgKind tg \<noteq> ''endpoint'' then m
       else if localFault \<and> st = Down then m
       else record_probe (tgID tg) (tgName tg) (tgKind tg) st lat now m)"

definition applyResultsWithGroups :: "(target \<times> State \<times> int) list \<Rightarrow> Group list \<Rightarrow> go_time \<Rightarrow> Monitor \<Rightarrow> Monitor" where
  "applyResultsWithGroups rs groups now m =
    (let localFault = allEndpointsDown (map (\<lambda>(tg, st, lat). (tg, st)) rs);
         m1 = m\<lparr>mLocalFault := localFault\<rparr>;
         m2 = foldl (record_endpoint localFault now) m1 rs
     in recordDerivedGroups groups now m2)"

definition applyResults :: "(target \<times> State \<times> int) list \<Rightarrow> go_time \<Rightarrow> Monitor \<Rightarrow> Monitor" where
  "applyResults rs now m = applyResultsWithGroups rs [] now m"

definition pruneStats :: "target list \<Rightarrow> Monitor \<Rightarrow> Monitor" where
  "pruneStats tgs m = m\<lparr>mStats := (\<lambda>i. if i \<in> set (map tgID tgs) then mStats m i else None)\<rparr>"

section \<open>Propagation through groups\<close>

text \<open>One group's update, as far as a set of ids with some evidence is concerned.\<close>

definition gstep :: "id set \<Rightarrow> Group \<Rightarrow> id set" where
  "gstep S g = (if \<exists>m\<in>set (grMembers g). m \<in> S then insert (grID g) S else S - {grID g})"

definition gpass :: "Group list \<Rightarrow> id set \<Rightarrow> id set" where
  "gpass groups S = foldl gstep S groups"

text \<open>What evidence should reach: from leaves, through membership.\<close>

inductive carries :: "Group list \<Rightarrow> id set \<Rightarrow> id \<Rightarrow> bool" for groups L where
  leaf: "i \<in> L \<Longrightarrow> carries groups L i"
| group: "g \<in> set groups \<Longrightarrow> m \<in> set (grMembers g) \<Longrightarrow> carries groups L m \<Longrightarrow> carries groups L (grID g)"

definition supported :: "Group list \<Rightarrow> id set \<Rightarrow> bool" where
  "supported groups S \<longleftrightarrow> (\<forall>g\<in>set groups. grID g \<in> S \<longrightarrow> (\<exists>m\<in>set (grMembers g). m \<in> S))"

lemma gstep_grows:
  assumes "distinct (map grID groups)" "g \<in> set groups" "supported groups S"
  shows "S \<subseteq> gstep S g" "supported groups (gstep S g)"
proof -
  show sub: "S \<subseteq> gstep S g" using assms by (auto simp: gstep_def supported_def)
  have "\<exists>m\<in>set (grMembers h). m \<in> gstep S g" if h: "h \<in> set groups" "grID h \<in> gstep S g" for h
  proof (cases "grID h \<in> S")
    case True
    then show ?thesis using assms(3) h sub by (auto simp: supported_def)
  next
    case False
    then have "grID h = grID g" and "\<exists>m\<in>set (grMembers g). m \<in> S"
      using h(2) by (auto simp: gstep_def split: if_splits)
    moreover have "h = g" using assms(1,2) h(1) \<open>grID h = grID g\<close> by (simp add: distinct_map inj_on_def)
    ultimately show ?thesis using sub by auto
  qed
  then show "supported groups (gstep S g)" by (simp add: supported_def)
qed

lemma gpass_grows:
  assumes d: "distinct (map grID groups)" and "supported groups S"
  shows "S \<subseteq> gpass groups S" "supported groups (gpass groups S)"
    "\<And>g m. g \<in> set groups \<Longrightarrow> m \<in> set (grMembers g) \<Longrightarrow> m \<in> S \<Longrightarrow> grID g \<in> gpass groups S"
proof -
  have gen: "S \<subseteq> foldl gstep S gs \<and> supported groups (foldl gstep S gs)
      \<and> (\<forall>g\<in>set gs. (\<exists>m\<in>set (grMembers g). m \<in> S) \<longrightarrow> grID g \<in> foldl gstep S gs)"
    if "set gs \<subseteq> set groups" "supported groups S" for gs S
    using that
  proof (induction gs arbitrary: S)
    case Nil
    then show ?case by simp
  next
    case (Cons g gs)
    have st: "S \<subseteq> gstep S g" "supported groups (gstep S g)" using gstep_grows[OF d] Cons.prems by auto
    have ih: "gstep S g \<subseteq> foldl gstep (gstep S g) gs \<and> supported groups (foldl gstep (gstep S g) gs)
      \<and> (\<forall>h\<in>set gs. (\<exists>m\<in>set (grMembers h). m \<in> gstep S g) \<longrightarrow> grID h \<in> foldl gstep (gstep S g) gs)"
      using Cons.IH[OF _ st(2)] Cons.prems by simp
    have "grID g \<in> gstep S g" if "\<exists>m\<in>set (grMembers g). m \<in> S" using that by (simp add: gstep_def)
    then show ?case using ih st(1) by (auto; blast)
  qed
  show "S \<subseteq> gpass groups S" "supported groups (gpass groups S)"
    "\<And>g m. g \<in> set groups \<Longrightarrow> m \<in> set (grMembers g) \<Longrightarrow> m \<in> S \<Longrightarrow> grID g \<in> gpass groups S"
    using gen[OF subset_refl assms(2)] by (auto simp: gpass_def)
qed

lemma gpass_outside: "i \<notin> set (map grID groups) \<Longrightarrow> i \<in> gpass groups S \<longleftrightarrow> i \<in> S"
  unfolding gpass_def by (induction groups arbitrary: S) (auto simp: gstep_def)

lemma gpass_sound: "S \<subseteq> {i. carries groups L i} \<Longrightarrow> gpass groups S \<subseteq> {i. carries groups L i}"
proof -
  have "S \<subseteq> {i. carries groups L i} \<Longrightarrow> set gs \<subseteq> set groups \<Longrightarrow> foldl gstep S gs \<subseteq> {i. carries groups L i}" for gs
  proof (induction gs arbitrary: S)
    case (Cons g gs)
    have "gstep S g \<subseteq> {i. carries groups L i}"
      using Cons.prems by (auto simp: gstep_def intro: carries.group)
    then show ?case using Cons by simp
  qed simp
  then show "S \<subseteq> {i. carries groups L i} \<Longrightarrow> gpass groups S \<subseteq> {i. carries groups L i}" by (simp add: gpass_def)
qed

lemma gpass_iter:
  assumes "distinct (map grID groups)" "supported groups S"
  shows "supported groups ((gpass groups ^^ k) S)" "(gpass groups ^^ k) S \<subseteq> (gpass groups ^^ Suc k) S"
proof -
  show "supported groups ((gpass groups ^^ k) S)" by (induction k) (use assms gpass_grows(2) in auto)
  then show "(gpass groups ^^ k) S \<subseteq> (gpass groups ^^ Suc k) S" using gpass_grows(1)[OF assms(1)] by simp
qed

text \<open>As many passes as there are groups reach the fixpoint: every pass before it adds a group.\<close>

lemma gpass_fixpoint:
  assumes d: "distinct (map grID groups)" and sup: "supported groups S" and none: "S \<inter> set (map grID groups) = {}"
  shows "gpass groups ((gpass groups ^^ length groups) S) = (gpass groups ^^ length groups) S"
proof -
  let ?G = "set (map grID groups)" and ?P = "\<lambda>k. (gpass groups ^^ k) S"
  have fin: "finite ?G" and cardG: "card ?G = length groups" using d by (simp_all add: distinct_card flip: set_map)
  have grow: "?P (Suc k) = ?P k \<or> k < card (?P (Suc k) \<inter> ?G)" for k
  proof (induction k)
    case 0
    show ?case
    proof (cases "?P 1 = ?P 0")
      case False
      then obtain i where "i \<in> ?P 1" "i \<notin> S" using gpass_iter(2)[OF d sup, of 0] by auto
      then have "i \<in> ?P 1 \<inter> ?G" using gpass_outside[of i groups S] by auto
      then show ?thesis using fin by (auto simp: card_gt_0_iff)
    qed simp
  next
    case (Suc k)
    show ?case
    proof (cases "?P (Suc (Suc k)) = ?P (Suc k)")
      case False
      have "?P (Suc k) \<noteq> ?P k"
      proof
        assume "?P (Suc k) = ?P k"
        then have "gpass groups (?P (Suc k)) = gpass groups (?P k)" by (rule arg_cong)
        then show False using False by simp
      qed
      then have lt: "k < card (?P (Suc k) \<inter> ?G)" using Suc.IH by blast
      have sub: "?P (Suc k) \<subseteq> ?P (Suc (Suc k))" by (rule gpass_iter(2)[OF d sup])
      then obtain i where i: "i \<in> ?P (Suc (Suc k))" "i \<notin> ?P (Suc k)" using False by blast
      then have "i \<in> ?G" using gpass_outside[of i groups "?P (Suc k)"] by auto
      then have "?P (Suc k) \<inter> ?G \<subset> ?P (Suc (Suc k)) \<inter> ?G" using i sub by blast
      then have "card (?P (Suc k) \<inter> ?G) < card (?P (Suc (Suc k)) \<inter> ?G)" using fin by (intro psubset_card_mono) auto
      then show ?thesis using lt by simp
    qed simp
  qed
  have "card (?P (Suc (length groups)) \<inter> ?G) \<le> length groups" using card_mono[OF fin, of "_ \<inter> ?G"] cardG by auto
  then have "?P (Suc (length groups)) = ?P (length groups)" using grow[of "length groups"] by linarith
  then show ?thesis by simp
qed

lemma gpass_carries:
  assumes d: "distinct (map grID groups)" and none: "L \<inter> set (map grID groups) = {}"
  shows "(gpass groups ^^ length groups) L = {i. carries groups L i}"
proof
  let ?P = "\<lambda>k. (gpass groups ^^ k) L"
  have sup: "supported groups L" using none by (auto simp: supported_def)
  show "?P (length groups) \<subseteq> {i. carries groups L i}"
  proof -
    have "?P k \<subseteq> {i. carries groups L i}" for k
      by (induction k) (auto intro: carries.leaf dest: subsetD[OF gpass_sound])
    then show ?thesis .
  qed
  have base: "L \<subseteq> ?P k" for k
  proof (induction k)
    case (Suc k)
    then show ?case using gpass_iter(2)[OF d sup, of k] by (rule subset_trans)
  qed simp
  have fx: "gpass groups (?P (length groups)) = ?P (length groups)" by (rule gpass_fixpoint[OF d sup none])
  have "carries groups L i \<Longrightarrow> i \<in> ?P (length groups)" for i
  proof (induction rule: carries.induct)
    case (leaf i)
    then show ?case using base by blast
  next
    case (group g m)
    then show ?case
      using gpass_grows(3)[OF d gpass_iter(1)[OF d sup], of g m "length groups"] fx by simp
  qed
  then show "{i. carries groups L i} \<subseteq> ?P (length groups)" by blast
qed


section \<open>The passes compute it\<close>

definition qset :: "(State \<Rightarrow> bool) \<Rightarrow> byID \<Rightarrow> id set" where
  "qset Q hb = {i. \<exists>h. hb i = Some h \<and> Q (dhState h)}"

lemma derive_members:
  "foldl (derive_member hb) (next0, down0) ms = (next', down') \<Longrightarrow> dhState next0 \<noteq> Down \<Longrightarrow>
     dhState next' \<noteq> Down \<and> (dhState next' = Alive \<longleftrightarrow> dhState next0 = Alive \<or> (\<exists>m\<in>set ms. m \<in> qset (\<lambda>st. st = Alive) hb))
     \<and> (down' \<longleftrightarrow> down0 \<or> (\<exists>m\<in>set ms. m \<in> qset (\<lambda>st. st = Down) hb))"
proof (induction ms arbitrary: next0 down0)
  case Nil
  then show ?case by simp
next
  case (Cons m ms)
  obtain n1 d1 where st: "derive_member hb (next0, down0) m = (n1, d1)" by fastforce
  have "dhState n1 \<noteq> Down \<and> (dhState n1 = Alive \<longleftrightarrow> dhState next0 = Alive \<or> m \<in> qset (\<lambda>st. st = Alive) hb)
      \<and> (d1 \<longleftrightarrow> down0 \<or> m \<in> qset (\<lambda>st. st = Down) hb)"
    using st Cons.prems(2) by (auto simp: derive_member_def qset_def split: option.splits State.splits if_splits)
  then show ?case using Cons.IH[of n1 d1] Cons.prems st by auto
qed

lemma derive_group_alive: "dhState (derive_group hb ms) = Alive \<longleftrightarrow> (\<exists>m\<in>set ms. m \<in> qset (\<lambda>st. st = Alive) hb)"
  and derive_group_known: "dhState (derive_group hb ms) \<noteq> Unknown \<longleftrightarrow> (\<exists>m\<in>set ms. m \<in> qset (\<lambda>st. st \<noteq> Unknown) hb)"
proof -
  obtain n d where r: "foldl (derive_member hb) (dh Unknown, False) ms = (n, d)" by fastforce
  note f = derive_members[OF r]
  have kn: "(\<exists>m\<in>set ms. m \<in> qset (\<lambda>st. st \<noteq> Unknown) hb) \<longleftrightarrow>
      (\<exists>m\<in>set ms. m \<in> qset (\<lambda>st. st = Alive) hb) \<or> (\<exists>m\<in>set ms. m \<in> qset (\<lambda>st. st = Down) hb)"
  proof -
    have "st \<noteq> Unknown \<longleftrightarrow> st = Alive \<or> st = Down" for st by (cases st) auto
    then have "qset (\<lambda>st. st \<noteq> Unknown) hb = qset (\<lambda>st. st = Alive) hb \<union> qset (\<lambda>st. st = Down) hb"
      by (auto simp: qset_def)
    then show ?thesis by blast
  qed
  show "dhState (derive_group hb ms) = Alive \<longleftrightarrow> (\<exists>m\<in>set ms. m \<in> qset (\<lambda>st. st = Alive) hb)"
    using f by (simp add: derive_group_def r)
  show "dhState (derive_group hb ms) \<noteq> Unknown \<longleftrightarrow> (\<exists>m\<in>set ms. m \<in> qset (\<lambda>st. st \<noteq> Unknown) hb)"
    unfolding kn using f by (cases "dhState n") (auto simp: derive_group_def r)
qed

definition propagates :: "(State \<Rightarrow> bool) \<Rightarrow> bool" where
  "propagates Q \<longleftrightarrow> (\<forall>hb ms. Q (dhState (derive_group hb ms)) \<longleftrightarrow> (\<exists>m\<in>set ms. m \<in> qset Q hb))"

lemma propagates_Alive: "propagates (\<lambda>st. st = Alive)" and propagates_known: "propagates (\<lambda>st. st \<noteq> Unknown)"
  by (simp_all add: propagates_def derive_group_alive derive_group_known)

lemma pass_group_qset:
  assumes "propagates Q"
  shows "qset Q (fst (pass_group (hb, c) g)) = gstep (qset Q hb) g"
proof -
  have "Q (dhState (derive_group hb (grMembers g))) \<longleftrightarrow> (\<exists>m\<in>set (grMembers g). m \<in> qset Q hb)"
    using assms by (simp add: propagates_def)
  then show ?thesis by (auto simp: pass_group_def gstep_def qset_def Let_def)
qed

lemma pass_qset:
  assumes "propagates Q"
  shows "qset Q (fst (pass groups hb)) = gpass groups (qset Q hb)"
proof -
  have "qset Q (fst (foldl pass_group bc groups)) = foldl gstep (qset Q (fst bc)) groups" for bc
    by (induction groups arbitrary: bc) (use pass_group_qset[OF assms] in auto)
  then show ?thesis by (simp add: pass_def gpass_def)
qed

lemma pass_unchanged:
  assumes "\<not> snd (pass groups hb)"
  shows "fst (pass groups hb) = hb"
proof -
  have step: "(snd bc \<longrightarrow> snd (pass_group bc g)) \<and> (\<not> snd (pass_group bc g) \<longrightarrow> pass_group bc g = bc)" for bc g
    by (cases bc) (auto simp: pass_group_def Let_def)
  have "\<not> snd (foldl pass_group bc groups) \<Longrightarrow> foldl pass_group bc groups = bc" for bc
  proof (induction groups arbitrary: bc)
    case (Cons g gs)
    then have eq: "foldl pass_group (pass_group bc g) gs = pass_group bc g" by simp
    then have "\<not> snd (pass_group bc g)" using Cons.prems by simp
    then show ?case using eq step by auto
  qed simp
  then show ?thesis using assms by (metis pass_def fst_conv)
qed

lemma passes_qset:
  assumes "propagates Q"
  shows "qset Q (passes n groups hb) = (gpass groups ^^ n) (qset Q hb)"
proof (induction n arbitrary: hb)
  case 0
  then show ?case by simp
next
  case (Suc n)
  obtain hb' c where p: "pass groups hb = (hb', c)" by fastforce
  have one: "qset Q hb' = gpass groups (qset Q hb)" using pass_qset[OF assms, of groups hb] p by simp
  show ?case
  proof (cases c)
    case True
    then show ?thesis using Suc.IH p one by (simp add: funpow_swap1)
  next
    case False
    then have "hb' = hb" using pass_unchanged[of groups hb] p by simp
    then have "gpass groups (qset Q hb) = qset Q hb" using one by simp
    then have it: "(gpass groups ^^ k) (qset Q hb) = qset Q hb" for k by (induction k) simp_all
    then show ?thesis using False p \<open>hb' = hb\<close> it[of "Suc n"] by (simp del: funpow.simps)
  qed
qed

text \<open>Leaves: the builtin direct exit and the non-group statistics, by what they say.\<close>

definition leaves :: "(State \<Rightarrow> bool) \<Rightarrow> Group list \<Rightarrow> (id \<Rightarrow> stat option) \<Rightarrow> id set" where
  "leaves Q groups stats = qset Q (seed groups stats)"

lemma seed_groups: "\<not> Q Unknown \<Longrightarrow> leaves Q groups stats \<inter> set (map grID groups) = {}"
  by (auto simp: leaves_def qset_def seed_def dh_def split: if_splits) (metis imageI)+

lemma derived_qset:
  assumes "distinct (map grID groups)" "propagates Q" "\<not> Q Unknown"
  shows "qset Q (derived groups stats) = {i. carries groups (leaves Q groups stats) i}"
  using gpass_carries[OF assms(1) seed_groups[where Q = Q, OF assms(3)]] passes_qset[OF assms(2)]
  by (simp add: derived_def leaves_def)

lemma pass_group_dom: "fst bc i \<noteq> None \<Longrightarrow> fst (pass_group bc g) i \<noteq> None"
  by (cases bc) (auto simp: pass_group_def Let_def)

lemma derived_dom: "i \<in> set (map grID groups) \<Longrightarrow> derived groups stats i \<noteq> None"
proof -
  have fold: "fst bc i \<noteq> None \<Longrightarrow> fst (foldl pass_group bc gs) i \<noteq> None" for bc gs
  proof (induction gs arbitrary: bc)
    case (Cons g gs)
    show ?case using Cons.IH[OF pass_group_dom[OF Cons.prems, of g]] by simp
  qed simp
  have one: "hb i \<noteq> None \<Longrightarrow> fst (pass gs hb) i \<noteq> None" for hb gs unfolding pass_def by (rule fold) simp
  have "hb i \<noteq> None \<Longrightarrow> passes n gs hb i \<noteq> None" for hb gs n
  proof (induction n arbitrary: hb)
    case (Suc n)
    obtain hb' c where p: "pass gs hb = (hb', c)" by fastforce
    then have "hb' i \<noteq> None" using one[where hb = hb and gs = gs, OF Suc.prems] by simp
    then show ?case using p Suc.IH by simp
  qed simp
  moreover have "seed groups stats i \<noteq> None" if "i \<in> set (map grID groups)" using that by (simp add: seed_def)
  ultimately show "i \<in> set (map grID groups) \<Longrightarrow> derived groups stats i \<noteq> None" unfolding derived_def by blast
qed

section \<open>What a tick records\<close>

lemma derived_state:
  assumes d: "distinct (map grID groups)" and g: "g \<in> set groups"
  shows "\<exists>h. derived groups stats (grID g) = Some h \<and> dhState h =
    (if carries groups (leaves (\<lambda>st. st = Alive) groups stats) (grID g) then Alive
     else if carries groups (leaves (\<lambda>st. st \<noteq> Unknown) groups stats) (grID g) then Down else Unknown)"
proof -
  obtain h where h: "derived groups stats (grID g) = Some h"
    using derived_dom[of "grID g" groups stats] g by auto
  have "dhState h = Alive \<longleftrightarrow> carries groups (leaves (\<lambda>st. st = Alive) groups stats) (grID g)"
    using derived_qset[OF d propagates_Alive, of stats, unfolded set_eq_iff, rule_format, of "grID g"] h
    by (simp add: qset_def)
  moreover have "dhState h \<noteq> Unknown \<longleftrightarrow> carries groups (leaves (\<lambda>st. st \<noteq> Unknown) groups stats) (grID g)"
    using derived_qset[OF d propagates_known, of stats, unfolded set_eq_iff, rule_format, of "grID g"] h
    by (simp add: qset_def)
  ultimately show ?thesis using h by (cases "dhState h") auto
qed

text \<open>The probes a tick records: the groups after the endpoints.\<close>

definition group_probe :: "byID \<Rightarrow> go_time \<Rightarrow> Group \<Rightarrow> probe" where
  "group_probe hb now g = (let h = the (hb (grID g)) in \<lparr>pbID = grID g, pbName = grName g, pbKind = ''group'',
     pbState = dhState h, pbLatency = dhLatency h, pbNow = now\<rparr>)"

lemma recordDerivedGroups_records:
  "recordDerivedGroups groups now m = records m (map (group_probe (derived groups (mStats m)) now) groups)"
proof -
  let ?hb = "derived groups (mStats m)"
  have "foldl (\<lambda>m g. case ?hb (grID g) of None \<Rightarrow> m
      | Some h \<Rightarrow> record_probe (grID g) (grName g) ''group'' (dhState h) (dhLatency h) now m) v gs
      = records v (map (group_probe ?hb now) gs)" if "set gs \<subseteq> set groups" for v gs
    using that
  proof (induction gs arbitrary: v)
    case (Cons g gs)
    obtain h where "?hb (grID g) = Some h" using derived_dom[of "grID g" groups "mStats m"] Cons.prems by auto
    then show ?case using Cons by (simp add: records_def record1_def group_probe_def Let_def)
  qed (simp add: records_def)
  then show ?thesis by (auto simp: recordDerivedGroups_def Let_def)
qed

definition endpoint_probes :: "bool \<Rightarrow> go_time \<Rightarrow> (target \<times> State \<times> int) list \<Rightarrow> probe list" where
  "endpoint_probes fault now rs = map (\<lambda>(tg, st, lat). \<lparr>pbID = tgID tg, pbName = tgName tg, pbKind = tgKind tg,
      pbState = st, pbLatency = lat, pbNow = now\<rparr>)
    (filter (\<lambda>(tg, st, lat). tgKind tg = ''endpoint'' \<and> \<not> (fault \<and> st = Down)) rs)"

lemma foldl_record_endpoint: "foldl (record_endpoint fault now) m rs = records m (endpoint_probes fault now rs)"
proof (induction rs arbitrary: m)
  case (Cons x rs)
  obtain tg st lat where x: "x = (tg, st, lat)" by (cases x)
  show ?case
    using Cons.IH x
    by (cases "tgKind tg = ''endpoint'' \<and> \<not> (fault \<and> st = Down)")
      (auto simp: record_endpoint_def endpoint_probes_def records_def record1_def)
qed (simp add: endpoint_probes_def)

lemma records_other: "(\<forall>p\<in>set ps. pbID p \<noteq> i) \<Longrightarrow> mStats (records m ps) i = mStats m i"
  by (induction ps rule: rev_induct) (auto simp: record1_eq)

lemma records_unknown:
  assumes "\<forall>p\<in>set ps. pbID p = i \<longrightarrow> pbState p = Unknown" "\<not> mDemo m"
  shows "state_of (mStats (records m ps) i) = state_of (mStats m i)"
  using assms
proof (induction ps rule: rev_induct)
  case (snoc p ps)
  have st: "sState (case so of None \<Rightarrow> newStat now | Some s \<Rightarrow> s) = state_of so" for so now
    by (cases so) (auto simp: state_of_def newStat_def)
  show ?case
  proof (cases "pbID p = i")
    case True
    then have "state_of (mStats (record1 (records m ps) p) i) = state_of (mStats (records m ps) i)"
      using snoc.prems by (auto simp: record1_eq state_of_def[of "Some _"] stat_after_def Let_def commit_state_def st)
    then show ?thesis using snoc by simp
  qed (use snoc in \<open>simp add: record1_eq\<close>)
qed simp

lemma record1_localFault [simp]: "mLocalFault (record1 m p) = mLocalFault m"
  by (simp add: record1_eq)

lemma records_localFault [simp]: "mLocalFault (records m ps) = mLocalFault m"
  by (induction ps rule: rev_induct) simp_all


lemma applyResultsWithGroups_demo: "mDemo (applyResultsWithGroups rs groups now m) = mDemo m"
  by (simp add: applyResultsWithGroups_def foldl_record_endpoint recordDerivedGroups_records Let_def)

section \<open>Properties\<close>

definition exGroup :: "id \<Rightarrow> id list \<Rightarrow> Group" where
  "exGroup i ms = \<lparr>grID = i, grName = i, grType = GroupFallback, grMembers = ms, grTest = None, grKillSwitch = False, grInterruptOnSwitch = False, grManaged = False\<rparr>"

lemma exGroup_id: "grID (exGroup i ms) = i"
  by (simp add: exGroup_def)

definition exGroups :: "Group list" where
  "exGroups = [exGroup ''A'' [''B'', ''y''], exGroup ''B'' [''A'', ''C''], exGroup ''C'' [''x''], exGroup ''D'' [''y'', ''D'']]"

definition exStats :: "id \<Rightarrow> stat option" where
  "exStats = [''x'' \<mapsto> (newStat 0)\<lparr>sKind := ''endpoint'', sState := Alive\<rparr>,
              ''y'' \<mapsto> (newStat 0)\<lparr>sKind := ''endpoint'', sState := Down\<rparr>]"

text \<open>C10. Group health is reachability. Although the monitor makes only as many in-place passes as there are
  groups, in profile order and with an early exit, the derived state of every group is: up if some
  endpoint whose committed state is up (or the direct exit) is reachable through membership, else down if
  some endpoint that is down is reachable, else unknown. Groups may be nested in any order and even
  contain each other.
\<close>

theorem derived_group_health:
  assumes "distinct (map grID groups)" "g \<in> set groups"
  shows "\<exists>h. derived groups stats (grID g) = Some h \<and> dhState h =
    (if carries groups (leaves (\<lambda>st. st = Alive) groups stats) (grID g) then Alive
     else if carries groups (leaves (\<lambda>st. st \<noteq> Unknown) groups stats) (grID g) then Down else Unknown)"
  using assms by (rule derived_state)

theorem derived_group_health_witness:
  "(\<exists>h. derived exGroups exStats ''A'' = Some h \<and> dhState h =
    (if carries exGroups (leaves (\<lambda>st. st = Alive) exGroups exStats) ''A'' then Alive
     else if carries exGroups (leaves (\<lambda>st. st \<noteq> Unknown) exGroups exStats) ''A'' then Down else Unknown))
   \<and> map (\<lambda>g. map_option dhState (derived exGroups exStats (grID g))) exGroups
      = [Some Alive, Some Alive, Some Alive, Some Down]"
proof -
  have "distinct (map grID exGroups)" "exGroup ''A'' [''B'', ''y''] \<in> set exGroups"
    by (simp_all add: exGroups_def exGroup_def)
  from derived_group_health[OF this, of exStats]
  have "\<exists>h. derived exGroups exStats ''A'' = Some h \<and> dhState h =
    (if carries exGroups (leaves (\<lambda>st. st = Alive) exGroups exStats) ''A'' then Alive
     else if carries exGroups (leaves (\<lambda>st. st \<noteq> Unknown) exGroups exStats) ''A'' then Down else Unknown)"
    by (simp only: exGroup_id)
  moreover have "map (\<lambda>g. map_option dhState (derived exGroups exStats (grID g))) exGroups
      = [Some Alive, Some Alive, Some Alive, Some Down]" by code_simp
  ultimately show ?thesis by blast
qed

text \<open>The local-fault gate. When every endpoint with a definite result is down, two or more of them, the
  tick raises the local-fault flag and changes no endpoint's committed state: an uplink outage does not
  mark all exits dead. The flag is raised on no other tick.
\<close>

theorem local_fault_holds_endpoints:
  assumes "\<not> mDemo m"
  shows "mLocalFault (applyResultsWithGroups rs groups now m) = allEndpointsDown (map (\<lambda>(tg, st, lat). (tg, st)) rs)
    \<and> (allEndpointsDown (map (\<lambda>(tg, st, lat). (tg, st)) rs) \<and> i \<notin> set (map grID groups)
        \<longrightarrow> state_of (mStats (applyResultsWithGroups rs groups now m) i) = state_of (mStats m i))"
proof -
  let ?f = "allEndpointsDown (map (\<lambda>(tg, st, lat). (tg, st)) rs)"
  let ?m1 = "m\<lparr>mLocalFault := ?f\<rparr>"
  let ?m2 = "records ?m1 (endpoint_probes ?f now rs)"
  have eq: "applyResultsWithGroups rs groups now m
      = records ?m2 (map (group_probe (derived groups (mStats ?m2)) now) groups)"
    by (simp add: applyResultsWithGroups_def Let_def foldl_record_endpoint recordDerivedGroups_records)
  have ends: "state_of (mStats ?m2 i) = state_of (mStats m i)" if f: ?f
  proof -
    have "pbState p = Unknown" if p: "p \<in> set (endpoint_probes ?f now rs)" for p
    proof -
      obtain tg st lat where r: "(tg, st, lat) \<in> set rs" "tgKind tg = ''endpoint''" "st \<noteq> Down" "pbState p = st"
        using p f by (auto simp: endpoint_probes_def)
      have "(tg, st) \<in> set (map (\<lambda>(tg, st, lat). (tg, st)) rs)" using r(1) by force
      then have "st \<noteq> Alive" using f r(2) unfolding allEndpointsDown_def by (auto simp: list_ex_iff Let_def)
      then show ?thesis using r(3,4) by (cases st) auto
    qed
    then show ?thesis using records_unknown[of "endpoint_probes ?f now rs" i ?m1] assms by simp
  qed
  have grps: "mStats (records ?m2 (map (group_probe (derived groups (mStats ?m2)) now) groups)) i = mStats ?m2 i"
    if "i \<notin> set (map grID groups)"
    by (rule records_other) (use that in \<open>auto simp: group_probe_def Let_def\<close>)
  show ?thesis
    unfolding eq
  proof (intro conjI impI)
    show "mLocalFault (records ?m2 (map (group_probe (derived groups (mStats ?m2)) now) groups)) = ?f" by simp
    assume c: "?f \<and> i \<notin> set (map grID groups)"
    show "state_of (mStats (records ?m2 (map (group_probe (derived groups (mStats ?m2)) now) groups)) i) = state_of (mStats m i)"
      by (simp only: grps[OF conjunct2[OF c]] ends[OF conjunct1[OF c]])
  qed
qed

definition exTarget :: "id \<Rightarrow> target" where
  "exTarget i = \<lparr>tgID = i, tgName = i, tgKind = ''endpoint'', tgTestURL = '''', tgIface = ''''\<rparr>"

theorem local_fault_holds_endpoints_witness:
  "let m = records (NewMonitor False) [\<lparr>pbID = ''x'', pbName = ''x'', pbKind = ''endpoint'', pbState = Alive, pbLatency = 20, pbNow = 0\<rparr>];
       rs = [(exTarget ''x'', Down, 0), (exTarget ''y'', Down, 0)];
       m2 = applyResultsWithGroups rs [] 10000 (applyResultsWithGroups rs [] 5000 m)
   in mLocalFault m2 \<and> state_of (mStats m2 ''x'') = Alive"
proof -
  let ?m = "records (NewMonitor False) [\<lparr>pbID = ''x'', pbName = ''x'', pbKind = ''endpoint'', pbState = Alive, pbLatency = 20, pbNow = 0\<rparr>]"
  let ?rs = "[(exTarget ''x'', Down, 0), (exTarget ''y'', Down, 0)]"
  let ?m1 = "applyResultsWithGroups ?rs [] 5000 ?m"
  have f: "allEndpointsDown (map (\<lambda>(tg, st, lat). (tg, st)) ?rs)" by code_simp
  have d: "\<not> mDemo ?m" "\<not> mDemo ?m1"
    by (simp_all add: applyResultsWithGroups_demo)
  have "state_of (mStats ?m ''x'') = Alive" by code_simp
  then have "state_of (mStats ?m1 ''x'') = Alive"
    using local_fault_holds_endpoints[OF d(1), of ?rs "[]" 5000 "''x''"] f by (metis empty_iff list.map(1) list.set(1))
  then show ?thesis
    using local_fault_holds_endpoints[OF d(2), of ?rs "[]" 10000 "''x''"] f
    unfolding Let_def by (metis empty_iff list.map(1) list.set(1))
qed

end
