(* ===== verification/Health_Monitor.thy ===== *)
theory Health_Monitor
  imports Health_Groups Failover_Controller
begin

text \<open>
  The rest of the health monitor (\<open>internal/health/monitor.go\<close>, \<open>events.go\<close>, \<open>plugincause.go\<close>): probe
  targets, the health answer to the failover loop, traffic accounting, the election log, failure causes,
  and the snapshot served to the panel. The proxy core's answers, interface counters, log lines and the
  knowledge base are arguments.
\<close>

section \<open>Targets\<close>

definition EndpointIface :: "Endpoint \<Rightarrow> (id \<Rightarrow> string option) \<Rightarrow> bool \<Rightarrow> string" where
  "EndpointIface e native known =
    (if known then mget native (epID e) ''''
     else (let iface = param_string e ''interface''
           in if iface = '''' \<and> epEngine e = EngineAmneziaWG then AWGIface (epID e) else iface))"

definition targetsFrom :: "Profile \<Rightarrow> (id \<Rightarrow> string option) \<times> bool \<Rightarrow> target list" where
  "targetsFrom p nk =
    (case nk of (native, known) \<Rightarrow>
      map (\<lambda>e. \<lparr>tgID = epID e, tgName = epName e, tgKind = ''endpoint'',
             tgTestURL = (case epHealth e of None \<Rightarrow> '''' | Some h \<Rightarrow> hcURL h),
             tgIface = EndpointIface e native known\<rparr>) (filter epEnabled (prEndpoints p))
      @ map (\<lambda>g. \<lparr>tgID = grID g, tgName = grName g, tgKind = ''group'',
             tgTestURL = (case grTest g of None \<Rightarrow> '''' | Some h \<Rightarrow> hcURL h), tgIface = ''''\<rparr>) (prGroups p))"

section \<open>Probing a target\<close>

text \<open>
  \<open>ping\<close> is the interface probe (alive, milliseconds, whether it ran) for an interface and a health-check
  target; \<open>delay\<close> is the core's delay test, absent without a core client.
\<close>

datatype delay_result = DelayOk int | DelayProxyDown | DelayOther

definition defaultTestURL :: string where
  "defaultTestURL = ''http://cp.cloudflare.com/generate_204''"

definition probe_target ::
  "(string \<Rightarrow> string \<Rightarrow> bool \<times> int \<times> bool) \<Rightarrow> (id \<Rightarrow> string \<Rightarrow> delay_result) option \<Rightarrow> target \<Rightarrow> State \<times> int" where
  "probe_target ping delay tg =
    (if tgIface tg \<noteq> '''' then
       (case ping (tgIface tg) (tgTestURL tg) of (alive, ms, ran_ok) \<Rightarrow>
          if \<not> ran_ok then (Unknown, 0) else if alive then (Alive, ms) else (Down, 0))
     else (case delay of
             None \<Rightarrow> (Unknown, 0)
           | Some d \<Rightarrow>
              (case d (tgID tg) (if tgTestURL tg = '''' then defaultTestURL else tgTestURL tg) of
                 DelayOk ms \<Rightarrow> (Alive, ms) | DelayProxyDown \<Rightarrow> (Down, 0) | DelayOther \<Rightarrow> (Unknown, 0))))"

section \<open>Health for the failover loop\<close>

definition MemberHealth_of :: "id list \<Rightarrow> Monitor \<Rightarrow> MemberHealth list" where
  "MemberHealth_of ids m =
    map (\<lambda>i. if i = ''direct'' then \<lparr>mhID = i, mhAlive = True, mhLatencyMs = 0\<rparr>
             else (case mStats m i of
                     Some s \<Rightarrow> \<lparr>mhID = i, mhAlive = (sState s = Alive), mhLatencyMs = sLastLatency s\<rparr>
                   | None \<Rightarrow> \<lparr>mhID = i, mhAlive = False, mhLatencyMs = 0\<rparr>)) ids"

section \<open>Traffic\<close>

text \<open>\<open>int64(float64(du) / dt)\<close> with \<open>dt = (now - last) / 1000.0\<close>, the floating-point quotient taken
  exactly.\<close>

definition rate :: "int \<Rightarrow> int \<Rightarrow> int" where
  "rate delta ms = (delta * 1000) div ms"

definition addCumulativeTraffic :: "int \<Rightarrow> int \<Rightarrow> go_time \<Rightarrow> stat \<Rightarrow> stat" where
  "addCumulativeTraffic up down now s =
    (let s1 = (if sLastConnSample s > 0 \<and> now > sLastConnSample s then
                 (let ms = now - sLastConnSample s; du = up - sActiveUp s; dd = down - sActiveDown s;
                      s2 = (if du > 0 then s\<lparr>sRateUp := rate du ms, sTotalUp := sTotalUp s + du\<rparr>
                            else s\<lparr>sRateUp := 0\<rparr>)
                  in (if dd > 0 then s2\<lparr>sRateDown := rate dd ms, sTotalDown := sTotalDown s2 + dd\<rparr>
                      else s2\<lparr>sRateDown := 0\<rparr>))
               else s)
     in s1\<lparr>sActiveUp := up, sActiveDown := down, sLastConnSample := now\<rparr>)"

text \<open>A connection: the tags of its chain, uploaded and downloaded bytes.\<close>

type_synonym conn = "id list \<times> int \<times> int"
type_synonym agg = "id \<Rightarrow> (int \<times> int) option"

definition add_tag :: "int \<Rightarrow> int \<Rightarrow> agg \<Rightarrow> id \<Rightarrow> agg" where
  "add_tag up down a tag = (case mget a tag (0, 0) of (u, d) \<Rightarrow> a(tag \<mapsto> (u + up, d + down)))"

definition add_conn :: "agg \<Rightarrow> conn \<Rightarrow> agg" where
  "add_conn a c = (case c of (tags, up, down) \<Rightarrow> foldl (add_tag up down) a tags)"

definition iface_target :: "target \<Rightarrow> bool" where
  "iface_target tg \<longleftrightarrow> tgKind tg = ''endpoint'' \<and> tgIface tg \<noteq> ''''"

definition add_iface :: "(string \<Rightarrow> (int \<times> int) option) \<Rightarrow> agg \<Rightarrow> target \<Rightarrow> agg" where
  "add_iface ifaceBytes a tg =
    (if iface_target tg then
       (case ifaceBytes (tgIface tg) of None \<Rightarrow> a | Some (rx, tx) \<Rightarrow> a(tgID tg \<mapsto> (tx, rx)))
     else a)"

definition aggregate :: "conn list option \<Rightarrow> (string \<Rightarrow> (int \<times> int) option) \<Rightarrow> target list \<Rightarrow> agg" where
  "aggregate conns ifaceBytes tgs =
    foldl (add_iface ifaceBytes)
      (case conns of None \<Rightarrow> Map.empty | Some cs \<Rightarrow> foldl add_conn Map.empty cs) tgs"

definition sample_stat :: "agg \<Rightarrow> bool \<Rightarrow> bool \<Rightarrow> go_time \<Rightarrow> id \<Rightarrow> stat \<Rightarrow> stat" where
  "sample_stat a clashOK kern now i s =
    (case a i of
       Some (up, down) \<Rightarrow> addCumulativeTraffic up down now s
     | None \<Rightarrow>
        (let s1 = s\<lparr>sRateUp := 0, sRateDown := 0\<rparr>
         in if \<not> clashOK \<and> \<not> kern then s1
            else s1\<lparr>sActiveUp := 0, sActiveDown := 0, sLastConnSample := now\<rparr>))"

text \<open>\<open>conns\<close> is \<open>None\<close> when there is no core client or its poll failed.\<close>

definition sampleTraffic ::
  "conn list option \<Rightarrow> (string \<Rightarrow> (int \<times> int) option) \<Rightarrow> target list \<Rightarrow> go_time \<Rightarrow> Monitor \<Rightarrow> Monitor" where
  "sampleTraffic conns ifaceBytes tgs now m =
    (let a = aggregate conns ifaceBytes tgs;
         kernelIface = (\<lambda>i. list_ex (\<lambda>tg. iface_target tg \<and> tgID tg = i) tgs)
     in m\<lparr>mStats := (\<lambda>i. map_option (sample_stat a (conns \<noteq> None) (kernelIface i) now i) (mStats m i))\<rparr>)"

section \<open>Elections\<close>

definition nameForLocked :: "Monitor \<Rightarrow> id \<Rightarrow> string" where
  "nameForLocked m i = (case mStats m i of Some s \<Rightarrow> if sName s \<noteq> '''' then sName s else i | None \<Rightarrow> i)"

definition elect_group :: "(id \<Rightarrow> id option) \<Rightarrow> go_time \<Rightarrow> Monitor \<Rightarrow> Group \<Rightarrow> Monitor" where
  "elect_group proxies now m g =
    (case proxies (grID g) of
       None \<Rightarrow> m
     | Some cur \<Rightarrow>
        if cur = '''' then m
        else
          (let prev = mElected m (grID g); m1 = m\<lparr>mElected := (mElected m)(grID g \<mapsto> cur)\<rparr>
           in (case prev of
                 None \<Rightarrow> m1
               | Some p \<Rightarrow>
                  if p = cur then m1
                  else pushEvent \<lparr>evAt = now, evKind = EventSwitch, evID = grID g, evName = grName g,
                         evFrom = nameForLocked m1 p, evTo = nameForLocked m1 cur, evLatencyMS = 0\<rparr> m1)))"

text \<open>\<open>proxies\<close> maps a group tag to the member the core reports; \<open>None\<close> when the core cannot be read.\<close>

definition sampleElection :: "(id \<Rightarrow> id option) option \<Rightarrow> Group list \<Rightarrow> go_time \<Rightarrow> Monitor \<Rightarrow> Monitor" where
  "sampleElection reading groups now m =
    (case reading of
       None \<Rightarrow> m
     | Some proxies \<Rightarrow>
        (let seen = (\<lambda>i. list_ex (\<lambda>g. grID g = i \<and> proxies (grID g) \<noteq> None \<and> proxies (grID g) \<noteq> Some '''') groups);
             m1 = foldl (elect_group proxies now) m groups
         in m1\<lparr>mElected := (\<lambda>i. if seen i then mElected m1 i else None)\<rparr>))"

definition RecordSwitch :: "id \<Rightarrow> string \<Rightarrow> string \<Rightarrow> string \<Rightarrow> go_time \<Rightarrow> Monitor \<Rightarrow> Monitor" where
  "RecordSwitch groupID name from to now m =
    (if groupID = '''' \<or> to = '''' then m
     else pushEvent \<lparr>evAt = now, evKind = ''switch'', evID = groupID, evName = name, evFrom = from, evTo = to,
            evLatencyMS = 0\<rparr> m)"

section \<open>The tick\<close>

text \<open>What one tick reads: probe results per target, whether its context expired, the core's connections
  and elections, interface counters, and the clock at the start and at the election sample.\<close>

record TickReads =
  trProbe :: "target \<Rightarrow> State \<times> int"
  trExpired :: bool
  trConns :: "conn list option"
  trIfaceBytes :: "string \<Rightarrow> (int \<times> int) option"
  trElection :: "(id \<Rightarrow> id option) option"
  trNow :: go_time
  trElectNow :: go_time

definition health_tick :: "Profile \<Rightarrow> (id \<Rightarrow> string option) \<times> bool \<Rightarrow> TickReads \<Rightarrow> Monitor \<Rightarrow> Monitor" where
  "health_tick p nk r m =
    (let tgs = targetsFrom p nk;
         rs = map (\<lambda>tg. case (if tgKind tg = ''group'' then (Unknown, 0) else trProbe r tg) of (st, lat) \<Rightarrow> (tg, st, lat)) tgs
     in if trExpired r then m
        else pruneStats tgs (sampleElection (trElection r) (prGroups p) (trElectNow r)
               (sampleTraffic (trConns r) (trIfaceBytes r) tgs (trNow r)
                 (applyResultsWithGroups rs (prGroups p) (trNow r) m))))"


section \<open>Causes\<close>

record PluginState =
  plRunning :: bool
  plNeedsBinary :: bool
  plReason :: string

record cause =
  caID :: string
  caTitle :: string
  caFix :: string

definition causeEngineMissing :: string where "causeEngineMissing = ''engine-missing''"
definition causeNoResponse :: string where "causeNoResponse = ''no-response''"
definition causePluginMissing :: string where "causePluginMissing = ''plugin-missing''"
definition causePluginNotRunning :: string where "causePluginNotRunning = ''plugin-not-running''"
definition causePluginNoAnswer :: string where "causePluginNoAnswer = ''plugin-no-answer''"

definition localProxyCause :: "Engine option \<Rightarrow> PluginState \<Rightarrow> bool \<Rightarrow> bool \<Rightarrow> bool \<Rightarrow> cause option" where
  "localProxyCause engine st known coreKnown coreAvailable =
    (if engine \<noteq> Some EngineByeDPI then None
     else if coreKnown \<and> \<not> coreAvailable then
       Some \<lparr>caID = causeEngineMissing, caTitle = ''The engine this exit needs is not installed'',
         caFix = ''Install sing-box on the Components page: it is what sends a routing list to ByeDPI.''\<rparr>
     else if \<not> known then
       Some \<lparr>caID = causePluginNotRunning, caTitle = ''ByeDPI has not been started'', caFix = ''Apply to start it.''\<rparr>
     else if plNeedsBinary st then
       Some \<lparr>caID = causePluginMissing, caTitle = ''ByeDPI is not installed'',
         caFix = ''Install the ByeDPI component on the Components page.''\<rparr>
     else if \<not> plRunning st then
       Some \<lparr>caID = causePluginNotRunning,
         caTitle = ''ByeDPI is not running'' @ (if plReason st \<noteq> '''' then '': '' @ plReason st else ''''),
         caFix = ''Check the connection's strategy, then Apply again; the reason above is what stopped it.''\<rparr>
     else
       Some \<lparr>caID = causePluginNoAnswer, caTitle = ''ByeDPI runs, but nothing answered through it'',
         caFix = ''This strategy may not get past the DPI on this network: try another preset on the connection.''\<rparr>)"

definition coreMissingCause :: "Engine option \<Rightarrow> bool \<Rightarrow> bool \<Rightarrow> cause option" where
  "coreMissingCause engine coreKnown coreAvailable =
    (if \<not> coreKnown \<or> coreAvailable \<or> engine \<noteq> Some EngineSingBox then None
     else Some \<lparr>caID = causeEngineMissing, caTitle = ''The engine this exit needs is not installed'',
       caFix = ''Install sing-box on the Components page. This protocol runs inside it, so no change of server, port or transport can bring the exit up until it is there.''\<rparr>)"

text \<open>\<open>kbMatch\<close> stands for the knowledge base's matches of one log line, best first.\<close>

fun newest_match :: "(string \<Rightarrow> cause list) \<Rightarrow> string list \<Rightarrow> cause option" where
  "newest_match kbMatch [] = None"
| "newest_match kbMatch (line # older) =
     (case kbMatch line of c # _ \<Rightarrow> Some c | [] \<Rightarrow> newest_match kbMatch older)"

definition deriveCause :: "(string \<Rightarrow> cause list) \<Rightarrow> string list option \<Rightarrow> cause" where
  "deriveCause kbMatch logs =
    (case (case logs of None \<Rightarrow> None | Some ls \<Rightarrow> newest_match kbMatch (rev ls)) of
       Some c \<Rightarrow> c
     | None \<Rightarrow> \<lparr>caID = causeNoResponse, caTitle = ''No response (timed out or blocked)'',
         caFix = ''Run Diagnostics (ping/traceroute) to the server. If the path is filtered (DPI/TSPU), try a camouflaged transport (Reality/WS-CDN) or AmneziaWG.''\<rparr>)"

definition causeTTLms :: int where "causeTTLms = 30000"

record CauseCache =
  ccCause :: cause
  ccExpires :: go_time

definition causeFor :: "(string \<Rightarrow> cause list) \<Rightarrow> string list option \<Rightarrow> go_time \<Rightarrow> CauseCache \<Rightarrow> cause \<times> CauseCache" where
  "causeFor kbMatch logs now cc =
    (if now < ccExpires cc then (ccCause cc, cc)
     else (let c = deriveCause kbMatch logs in (c, \<lparr>ccCause = c, ccExpires = now + causeTTLms\<rparr>)))"

section \<open>The snapshot\<close>

definition snap_views :: "target list \<Rightarrow> Monitor \<Rightarrow> go_time \<Rightarrow> View list" where
  "snap_views tgs m now =
    map (\<lambda>tg. let v = toView (tgID tg) (mStats m (tgID tg)) now;
                  v1 = (if vName v = '''' then v\<lparr>vName := tgName tg\<rparr> else v)
              in if vKind v1 = '''' then v1\<lparr>vKind := tgKind tg\<rparr> else v1) tgs"

text \<open>The display states of the targets; a missing key reads as the empty string.\<close>

type_synonym stateByID = "id \<Rightarrow> string"

definition states_of :: "View list \<Rightarrow> stateByID" where
  "states_of views = foldl (\<lambda>st v. st(vID v := vState v)) (\<lambda>_. '''') views"

definition snap_state :: "stateByID \<Rightarrow> Group \<Rightarrow> State" where
  "snap_state st g =
    (if list_ex (\<lambda>mem. mem = ''direct'' \<or> st mem = state_text Alive) (grMembers g) then Alive
     else if list_ex (\<lambda>mem. st mem = state_text Down) (grMembers g) then Down
     else Unknown)"

definition set_state :: "id \<Rightarrow> State \<Rightarrow> View \<Rightarrow> View" where
  "set_state i st v =
    (if vID v \<noteq> i then v
     else (let v1 = v\<lparr>vState := state_text st\<rparr>
           in case st of Alive \<Rightarrow> v1\<lparr>vHandshake := ''ok''\<rparr> | Down \<Rightarrow> v1\<lparr>vHandshake := ''failed''\<rparr> | Unknown \<Rightarrow> v1))"

definition snap_group :: "(View list \<times> stateByID) \<times> bool \<Rightarrow> Group \<Rightarrow> (View list \<times> stateByID) \<times> bool" where
  "snap_group acc g =
    (case acc of ((views, st), changed) \<Rightarrow>
       (let new = snap_state st g; ch = (st (grID g) \<noteq> state_text new)
        in ((map (set_state (grID g) new) views, if ch then st(grID g := state_text new) else st), changed \<or> ch)))"

fun snap_passes :: "nat \<Rightarrow> Group list \<Rightarrow> View list \<times> stateByID \<Rightarrow> View list \<times> stateByID" where
  "snap_passes 0 groups vs = vs"
| "snap_passes (Suc n) groups vs =
     (case foldl snap_group (vs, False) groups of (vs', changed) \<Rightarrow>
        if changed then snap_passes n groups vs' else vs')"

text \<open>\<open>idx\<close>: the last view with an id.\<close>

fun last_index :: "nat \<Rightarrow> id \<Rightarrow> View list \<Rightarrow> nat option" where
  "last_index n i [] = None"
| "last_index n i (v # vs) =
     (case last_index (Suc n) i vs of Some k \<Rightarrow> Some k | None \<Rightarrow> if vID v = i then Some n else None)"

definition idx :: "View list \<Rightarrow> id \<Rightarrow> nat option" where
  "idx views i = last_index 0 i views"

definition measured :: "View \<Rightarrow> bool" where
  "measured v \<longleftrightarrow> vUptimeS v \<noteq> 0 \<or> vSuccessRate v \<noteq> 0 \<or> vLatencyMs v \<noteq> 0 \<or> vAvgLatencyMs v \<noteq> 0"

definition lend_metrics :: "View list \<Rightarrow> Group \<Rightarrow> View list" where
  "lend_metrics views g =
    (case idx views (grID g) of
       None \<Rightarrow> views
     | Some gi \<Rightarrow>
        if vState (views ! gi) \<noteq> state_text Alive \<or> measured (views ! gi) then views
        else (case find (\<lambda>mv. vState mv = state_text Alive \<and> measured mv)
                     (map (\<lambda>mi. views ! mi) (List.map_filter (idx views) (grMembers g))) of
                None \<Rightarrow> views
              | Some mv \<Rightarrow> views[gi := (views ! gi)\<lparr>vUptimeS := vUptimeS mv, vSuccessRate := vSuccessRate mv,
                             vLatencyMs := vLatencyMs mv, vAvgLatencyMs := vAvgLatencyMs mv\<rparr>]))"

definition has_traffic :: "View \<Rightarrow> bool" where
  "has_traffic v \<longleftrightarrow> vBytesUp v \<noteq> 0 \<or> vBytesDown v \<noteq> 0 \<or> vRateUpBps v \<noteq> 0 \<or> vRateDownBps v \<noteq> 0"

definition sum_traffic :: "View list \<times> bool \<Rightarrow> Group \<Rightarrow> View list \<times> bool" where
  "sum_traffic acc g =
    (case acc of (views, changed) \<Rightarrow>
      (case idx views (grID g) of
         None \<Rightarrow> (views, changed)
       | Some gi \<Rightarrow>
          if has_traffic (views ! gi) then (views, changed)
          else
            (let ms = map (\<lambda>mi. views ! mi) (List.map_filter (idx views) (grMembers g));
                 bu = sum_list (map vBytesUp ms); bd = sum_list (map vBytesDown ms);
                 ru = sum_list (map vRateUpBps ms); rd = sum_list (map vRateDownBps ms)
             in if bu \<noteq> 0 \<or> bd \<noteq> 0 \<or> ru \<noteq> 0 \<or> rd \<noteq> 0
                then (views[gi := (views ! gi)\<lparr>vBytesUp := bu, vBytesDown := bd, vRateUpBps := ru, vRateDownBps := rd\<rparr>], True)
                else (views, changed))))"

fun traffic_passes :: "nat \<Rightarrow> Group list \<Rightarrow> View list \<Rightarrow> View list" where
  "traffic_passes 0 groups views = views"
| "traffic_passes (Suc n) groups views =
     (case foldl sum_traffic (views, False) groups of (views', changed) \<Rightarrow>
        if changed then traffic_passes n groups views' else views')"

text \<open>What the snapshot reads besides the monitor: engine and plugin states, core availability
  (\<open>None\<close> when not known), log lines and the knowledge base.\<close>

record CauseReads =
  crPlugin :: "id \<Rightarrow> PluginState option"
  crCore :: "bool option"
  crLogs :: "string list option"
  crKb :: "string \<Rightarrow> cause list"

definition noPlugin :: PluginState where
  "noPlugin = \<lparr>plRunning = False, plNeedsBinary = False, plReason = ''''\<rparr>"

definition engine_of :: "Profile \<Rightarrow> id \<Rightarrow> Engine option" where
  "engine_of p i = map_of (rev (map (\<lambda>e. (epID e, epEngine e)) (prEndpoints p))) i"

definition put_cause :: "cause \<Rightarrow> View \<Rightarrow> View" where
  "put_cause c v = v\<lparr>vCauseID := caID c, vCause := caTitle c, vCauseFix := caFix c\<rparr>"

definition own_cause :: "CauseReads \<Rightarrow> Engine option \<Rightarrow> id \<Rightarrow> cause option" where
  "own_cause r engine i =
    (let known = crPlugin r i \<noteq> None; st = (case crPlugin r i of None \<Rightarrow> noPlugin | Some s \<Rightarrow> s);
         coreKnown = crCore r \<noteq> None; coreAvail = (crCore r = Some True)
     in case localProxyCause engine st known coreKnown coreAvail of
          Some c \<Rightarrow> Some c
        | None \<Rightarrow> coreMissingCause engine coreKnown coreAvail)"

text \<open>The global cause is derived at most once per snapshot, at the first view that needs it.\<close>

fun give_causes :: "CauseReads \<Rightarrow> (id \<Rightarrow> Engine option) \<Rightarrow> go_time \<Rightarrow> CauseCache \<Rightarrow> cause option \<Rightarrow> View list \<Rightarrow> View list \<times> CauseCache" where
  "give_causes r eng now cc computed [] = ([], cc)"
| "give_causes r eng now cc computed (v # vs) =
     (if vState v \<noteq> ''down'' then
        (case give_causes r eng now cc computed vs of (vs', cc') \<Rightarrow> (v # vs', cc'))
      else (case own_cause r (eng (vID v)) (vID v) of
              Some c \<Rightarrow> (case give_causes r eng now cc computed vs of (vs', cc') \<Rightarrow> (put_cause c v # vs', cc'))
            | None \<Rightarrow>
               (case (case computed of Some c \<Rightarrow> (c, cc) | None \<Rightarrow> causeFor (crKb r) (crLogs r) now cc) of
                  (c, cc1) \<Rightarrow>
                    (case give_causes r eng now cc1 (Some c) vs of (vs', cc') \<Rightarrow> (put_cause c v # vs', cc')))))"

definition Snapshot :: "Profile \<Rightarrow> (id \<Rightarrow> string option) \<times> bool \<Rightarrow> CauseReads \<Rightarrow> go_time \<Rightarrow> Monitor \<Rightarrow> CauseCache \<Rightarrow> View list \<times> CauseCache" where
  "Snapshot p nk r now m cc =
    (let views = snap_views (targetsFrom p nk) m now;
         views1 = fst (snap_passes (length (prGroups p)) (prGroups p) (views, states_of views));
         views2 = foldl lend_metrics views1 (prGroups p);
         views3 = traffic_passes (length (prGroups p)) (prGroups p) views2
     in give_causes r (engine_of p) now cc None views3)"

definition viewWithCause :: "Profile \<Rightarrow> CauseReads \<Rightarrow> go_time \<Rightarrow> id \<Rightarrow> Monitor \<Rightarrow> CauseCache \<Rightarrow> View \<times> CauseCache" where
  "viewWithCause p r now i m cc =
    (let v = toView i (mStats m i) now
     in if vState v \<noteq> ''down'' then (v, cc)
        else (case own_cause r (map_option epEngine (EndpointByID p i)) i of
                Some c \<Rightarrow> (put_cause c v, cc)
              | None \<Rightarrow> (case causeFor (crKb r) (crLogs r) now cc of (c, cc') \<Rightarrow> (put_cause c v, cc'))))"

text \<open>A manual test of one target; an unknown id touches nothing. \<open>probe\<close> is the probe's result.\<close>

definition ProbeOne :: "Profile \<Rightarrow> (id \<Rightarrow> string option) \<times> bool \<Rightarrow> CauseReads \<Rightarrow> (target \<Rightarrow> State \<times> int) \<Rightarrow> go_time
    \<Rightarrow> id \<Rightarrow> Monitor \<times> CauseCache \<Rightarrow> View \<times> Monitor \<times> CauseCache" where
  "ProbeOne p nk r probe now i mc =
    (case mc of (m, cc) \<Rightarrow>
      (case find (\<lambda>tg. tgID tg = i) (targetsFrom p nk) of
         None \<Rightarrow> (toView i None now, m, cc)
       | Some tg \<Rightarrow>
          (let m1 = (if tgKind tg = ''group'' then recordDerivedGroups (prGroups p) now m
                     else (case probe tg of (st, lat) \<Rightarrow> record_probe i (tgName tg) (tgKind tg) st lat now m))
           in case viewWithCause p r now i m1 cc of (v, cc') \<Rightarrow> (v, m1, cc'))))"


section \<open>Traffic accounting\<close>

lemma add_iface_other: "\<not> (iface_target tg \<and> tgID tg = i) \<Longrightarrow> add_iface fb a tg i = a i"
  by (auto simp: add_iface_def split: option.splits)

lemma aggregate_other:
  assumes "\<not> list_ex (\<lambda>tg. iface_target tg \<and> tgID tg = i) tgs"
  shows "foldl (add_iface fb) a tgs i = a i"
  using assms by (induction tgs arbitrary: a) (auto simp: add_iface_other)

text \<open>Bytes that the core's connections attribute to a tag.\<close>

definition tag_sum :: "(conn \<Rightarrow> int) \<Rightarrow> conn list \<Rightarrow> id \<Rightarrow> int" where
  "tag_sum f cs i = sum_list (map (\<lambda>c. f c * int (count_list (fst c) i)) cs)"

lemma add_tags:
  "foldl (add_tag up down) a tags i =
    (if i \<in> set tags then Some (fst (mget a i (0, 0)) + up * int (count_list tags i),
                               snd (mget a i (0, 0)) + down * int (count_list tags i)) else a i)"
proof (induction tags arbitrary: a)
  case (Cons t ts)
  obtain u d where t: "mget a t (0, 0) = (u, d)" by fastforce
  define b where "b = add_tag up down a t"
  have st: "b = a(t \<mapsto> (u + up, d + down))" using t by (simp add: b_def add_tag_def)
  have b: "b x = (if x = t then Some (u + up, d + down) else a x)"
    "mget b x (0, 0) = (if x = t then (u + up, d + down) else mget a x (0, 0))" for x by (auto simp: st)
  have nc: "i \<notin> set ts \<Longrightarrow> count_list ts i = 0" by (simp add: count_list_0_iff)
  show ?case
    using Cons[of b] t nc by (cases "i = t") (auto simp: b[of i] b[of t] b_def[symmetric] algebra_simps)
qed simp

lemma aggregate_core:
  assumes "\<not> list_ex (\<lambda>tg. iface_target tg \<and> tgID tg = i) tgs"
  shows "aggregate (Some cs) fb tgs i =
    (if \<exists>c\<in>set cs. i \<in> set (fst c) then Some (tag_sum (fst \<circ> snd) cs i, tag_sum (snd \<circ> snd) cs i) else None)"
proof -
  have gen: "foldl add_conn a cs i =
      (if \<exists>c\<in>set cs. i \<in> set (fst c)
       then Some (fst (mget a i (0, 0)) + tag_sum (fst \<circ> snd) cs i, snd (mget a i (0, 0)) + tag_sum (snd \<circ> snd) cs i)
       else a i)" for a
  proof (induction cs arbitrary: a)
    case (Cons c cs)
    obtain tags u d where c: "c = (tags, u, d)" by (cases c)
    have nc: "i \<notin> set tags \<Longrightarrow> count_list tags i = 0" by (simp add: count_list_0_iff)
    have z: "\<not> (\<exists>c\<in>set cs. i \<in> set (fst c)) \<Longrightarrow> tag_sum f cs i = 0" for f
      by (induction cs) (auto simp: tag_sum_def count_list_0_iff)
    define b where "b = add_conn a c"
    have b: "b i = (if i \<in> set tags then Some (fst (mget a i (0, 0)) + u * int (count_list tags i),
        snd (mget a i (0, 0)) + d * int (count_list tags i)) else a i)"
      by (simp add: b_def c add_conn_def add_tags)
    then have g: "mget b i (0, 0) = (fst (mget a i (0, 0)) + u * int (count_list tags i),
        snd (mget a i (0, 0)) + d * int (count_list tags i))"
      using nc by (auto simp: mget_def)
    have ts: "tag_sum f (c # cs) i = f c * int (count_list tags i) + tag_sum f cs i" for f
      by (simp add: tag_sum_def c)
    show ?case
      using Cons[of b] nc z
      by (cases "i \<in> set tags"; cases "\<exists>c\<in>set cs. i \<in> set (fst c)")
        (simp_all add: b_def[symmetric] b g ts, simp_all add: c algebra_simps)
  qed simp
  show ?thesis using aggregate_other[OF assms] gen[of Map.empty] by (simp add: aggregate_def)
qed

lemma addCumulativeTraffic_totals:
  assumes "0 < sLastConnSample s" "sLastConnSample s < now"
  shows "sTotalUp (addCumulativeTraffic up down now s) = sTotalUp s + max 0 (up - sActiveUp s)"
    "sTotalDown (addCumulativeTraffic up down now s) = sTotalDown s + max 0 (down - sActiveDown s)"
  using assms by (auto simp: addCumulativeTraffic_def Let_def)

lemma failed_polls:
  assumes "mStats m i = Some s" "\<forall>(fb, tgs, t)\<in>set polls. \<not> list_ex (\<lambda>tg. iface_target tg \<and> tgID tg = i) tgs"
  shows "\<exists>s'. mStats (foldl (\<lambda>m (fb, tgs, t). sampleTraffic None fb tgs t m) m polls) i = Some s'
    \<and> sTotalUp s' = sTotalUp s \<and> sTotalDown s' = sTotalDown s \<and> sActiveUp s' = sActiveUp s
    \<and> sActiveDown s' = sActiveDown s \<and> sLastConnSample s' = sLastConnSample s"
  using assms
proof (induction polls arbitrary: m s)
  case (Cons x polls)
  obtain fb tgs t where x: "x = (fb, tgs, t)" by (cases x)
  have nk: "\<not> list_ex (\<lambda>tg. iface_target tg \<and> tgID tg = i) tgs" using Cons.prems(2) x by auto
  have "aggregate None fb tgs i = None" using aggregate_other[OF nk] by (simp add: aggregate_def)
  then have "mStats (sampleTraffic None fb tgs t m) i = Some (s\<lparr>sRateUp := 0, sRateDown := 0\<rparr>)"
    using Cons.prems(1) nk by (simp add: sampleTraffic_def sample_stat_def Let_def)
  from Cons.IH[OF this] Cons.prems(2) show ?case by (simp add: x)
qed simp

definition exStat :: stat where
  "exStat = (newStat 0)\<lparr>sKind := ''endpoint'', sState := Alive, sActiveUp := 100, sActiveDown := 50,
     sTotalUp := 1000, sTotalDown := 500, sLastConnSample := 10000\<rparr>"

text \<open>Failed polls never inflate traffic totals. For a target carried by the core, however many polls of
  the core fail in between, the next poll that sees it adds exactly the increase of its cumulative bytes
  since the last successful sample (nothing when they did not increase), the bytes being the sum over
  the connections that carry its tag.
\<close>

theorem traffic_survives_failed_polls:
  assumes "mStats m i = Some s" "0 < sLastConnSample s" "sLastConnSample s < now"
    and "\<forall>(fb, tgs, t)\<in>set polls. \<not> list_ex (\<lambda>tg. iface_target tg \<and> tgID tg = i) tgs"
    and "\<not> list_ex (\<lambda>tg. iface_target tg \<and> tgID tg = i) tgs" "c \<in> set cs" "i \<in> set (fst c)"
  shows "\<exists>s'. mStats (sampleTraffic (Some cs) fb tgs now
        (foldl (\<lambda>m (fb, tgs, t). sampleTraffic None fb tgs t m) m polls)) i = Some s'
    \<and> sTotalUp s' = sTotalUp s + max 0 (tag_sum (fst \<circ> snd) cs i - sActiveUp s)
    \<and> sTotalDown s' = sTotalDown s + max 0 (tag_sum (snd \<circ> snd) cs i - sActiveDown s)"
proof -
  obtain s1 where s1: "mStats (foldl (\<lambda>m (fb, tgs, t). sampleTraffic None fb tgs t m) m polls) i = Some s1"
    "sTotalUp s1 = sTotalUp s" "sTotalDown s1 = sTotalDown s" "sActiveUp s1 = sActiveUp s"
    "sActiveDown s1 = sActiveDown s" "sLastConnSample s1 = sLastConnSample s"
    using failed_polls[OF assms(1,4)] by blast
  have "aggregate (Some cs) fb tgs i = Some (tag_sum (fst \<circ> snd) cs i, tag_sum (snd \<circ> snd) cs i)"
    using aggregate_core[OF assms(5)] assms(6,7) by auto
  then show ?thesis
    using s1 assms(2,3) addCumulativeTraffic_totals[of s1 now]
    by (simp add: sampleTraffic_def sample_stat_def Let_def)
qed

theorem traffic_survives_failed_polls_witness:
  "\<exists>s'. mStats (sampleTraffic (Some [([''g'', ''x''], 300, 70), ([''x''], 20, 1)]) (\<lambda>_. None) [] 40000
        (foldl (\<lambda>m (fb, tgs, t). sampleTraffic None fb tgs t m) ((NewMonitor False)\<lparr>mStats := [''x'' \<mapsto> exStat]\<rparr>)
          [(\<lambda>_. None, [], 20000), (\<lambda>_. None, [], 30000)])) ''x'' = Some s'
    \<and> sTotalUp s' = 1220 \<and> sTotalDown s' = 521"
proof -
  let ?m = "(NewMonitor False)\<lparr>mStats := [''x'' \<mapsto> exStat]\<rparr>"
  have "mStats ?m ''x'' = Some exStat" "0 < sLastConnSample exStat" "sLastConnSample exStat < 40000"
    by (simp_all add: exStat_def)
  from traffic_survives_failed_polls[OF this, of "[(\<lambda>_. None, [], 20000), (\<lambda>_. None, [], 30000)]" "[]"
      "([''x''], 20, 1)" "[([''g'', ''x''], 300, 70), ([''x''], 20, 1)]" "\<lambda>_. None"]
  show ?thesis by (simp add: tag_sum_def exStat_def)
qed


section \<open>Elections\<close>

text \<open>The switch a reading shows for one group, given the election known before it.\<close>

definition switch_event :: "(id \<Rightarrow> id option) \<Rightarrow> go_time \<Rightarrow> Monitor \<Rightarrow> Group \<Rightarrow> Event list" where
  "switch_event proxies now m g =
    (case (mElected m (grID g), proxies (grID g)) of
       (Some p, Some cur) \<Rightarrow>
         (if cur \<noteq> '''' \<and> p \<noteq> cur then [\<lparr>evAt = now, evKind = EventSwitch, evID = grID g, evName = grName g,
            evFrom = nameForLocked m p, evTo = nameForLocked m cur, evLatencyMS = 0\<rparr>] else [])
     | _ \<Rightarrow> [])"

definition visible :: "(id \<Rightarrow> id option) \<Rightarrow> id \<Rightarrow> bool" where
  "visible proxies i \<longleftrightarrow> proxies i \<noteq> None \<and> proxies i \<noteq> Some ''''"

lemma elect_group_eq:
  "elect_group proxies now m g = (push_all (switch_event proxies now m g) m)
     \<lparr>mElected := (if visible proxies (grID g) then (mElected m)(grID g := proxies (grID g)) else mElected m)\<rparr>"
  by (auto simp: elect_group_def switch_event_def visible_def push_all_def pushEvent_def nameForLocked_def Let_def
      split: option.splits)

lemma elected_frame [simp]: "event_log (m\<lparr>mElected := x\<rparr>) = event_log m" "events_ok (m\<lparr>mElected := x\<rparr>) = events_ok m"
  by (simp_all add: event_log_def events_ok_def)

lemma elect_groups:
  assumes "events_ok m" "distinct (map grID groups)"
  shows "event_log (foldl (elect_group proxies now) m groups)
      = last_n eventCap (event_log m @ concat (map (switch_event proxies now m) groups))
    \<and> events_ok (foldl (elect_group proxies now) m groups)
    \<and> mElected (foldl (elect_group proxies now) m groups)
      = (\<lambda>i. if i \<in> set (map grID groups) \<and> visible proxies i then proxies i else mElected m i)"
  using assms
proof (induction groups arbitrary: m)
  case Nil
  then show ?case using event_ring.contents_le by simp
next
  case (Cons g gs)
  let ?m = "elect_group proxies now m g"
  have ok: "events_ok ?m" using Cons.prems(1) unfolding elect_group_eq push_all_def
    by (simp add: event_ring.pushes_ok)
  have log: "event_log ?m = last_n eventCap (event_log m @ switch_event proxies now m g)"
    using event_ring.contents_pushes[OF Cons.prems(1)] by (simp add: elect_group_eq push_all_def)
  have el: "mElected ?m = (if visible proxies (grID g) then (mElected m)(grID g := proxies (grID g)) else mElected m)"
    and st: "mStats ?m = mStats m" by (simp_all add: elect_group_eq)
  have same: "switch_event proxies now ?m h = switch_event proxies now m h" if "h \<in> set gs" for h
  proof -
    have "grID h \<noteq> grID g" using Cons.prems(2) that by (auto simp: image_iff)
    moreover have "nameForLocked ?m x = nameForLocked m x" for x using st by (simp add: nameForLocked_def)
    ultimately show ?thesis using el by (simp add: switch_event_def split: option.split)
  qed
  then have ev: "map (switch_event proxies now ?m) gs = map (switch_event proxies now m) gs" by simp
  have d: "distinct (map grID gs)" using Cons.prems(2) by simp
  have "event_log (foldl (elect_group proxies now) ?m gs)
      = last_n eventCap (event_log m @ concat (map (switch_event proxies now m) (g # gs)))"
    using Cons.IH[OF ok d] by (simp add: log ev last_n_absorb)
  moreover have "mElected (foldl (elect_group proxies now) ?m gs)
      = (\<lambda>i. if i \<in> set (map grID (g # gs)) \<and> visible proxies i then proxies i else mElected m i)"
    using Cons.IH[OF ok d] by (auto simp: el fun_eq_iff)
  ultimately show ?case using Cons.IH[OF ok d] by simp
qed

definition exElected :: Monitor where
  "exElected = sampleElection (Some [''g'' \<mapsto> ''a'']) [exGroup ''g'' [''a'', ''b'']] 1 (NewMonitor False)"

text \<open>The election log records switches that happened and nothing else: one reading of the core logs, for
  each group in order, one switch exactly when the group had a known election and the core now reports a
  different member; it then remembers the members it saw and forgets every group it did not see. An
  unreadable core changes nothing, and a first reading only sets the baseline.
\<close>

theorem election_logs_switches:
  assumes "events_ok m" "distinct (map grID groups)"
  shows "event_log (sampleElection (Some proxies) groups now m)
      = last_n 256 (event_log m @ concat (map (switch_event proxies now m) groups))
    \<and> mElected (sampleElection (Some proxies) groups now m)
      = (\<lambda>i. if i \<in> set (map grID groups) \<and> visible proxies i then proxies i else None)
    \<and> sampleElection None groups now m = m"
  using elect_groups[OF assms, of proxies now]
  by (auto simp: sampleElection_def Let_def eventCap_def list_ex_iff visible_def fun_eq_iff)

theorem election_logs_switches_witness:
  "event_log (sampleElection (Some [''g'' \<mapsto> ''b'']) [exGroup ''g'' [''a'', ''b'']] 2 exElected)
     = last_n 256 (event_log exElected @ concat (map (switch_event [''g'' \<mapsto> ''b''] 2 exElected) [exGroup ''g'' [''a'', ''b'']]))
   \<and> event_log exElected = []
   \<and> map evTo (switch_event [''g'' \<mapsto> ''b''] 2 exElected (exGroup ''g'' [''a'', ''b''])) = [''b'']"
proof -
  have "events_ok exElected" "distinct (map grID [exGroup ''g'' [''a'', ''b'']])" by code_simp+
  moreover have "event_log exElected = []
    \<and> map evTo (switch_event [''g'' \<mapsto> ''b''] 2 exElected (exGroup ''g'' [''a'', ''b''])) = [''b'']" by code_simp
  ultimately show ?thesis using election_logs_switches by blast
qed

section \<open>The snapshot\<close>

lemma set_state_id [simp]: "vID (set_state i st v) = vID v"
  by (cases st) (simp_all add: set_state_def Let_def)

lemma snap_passes_ids: "map vID (fst (snap_passes n groups vs)) = map vID (fst vs)"
proof (induction n arbitrary: vs)
  case (Suc n)
  have fold: "map vID (fst (fst (foldl snap_group acc groups))) = map vID (fst (fst acc))" for acc
    by (induction groups arbitrary: acc) (auto simp: snap_group_def Let_def split: prod.splits)
  show ?case using fold[of "(vs, False)"] Suc by (auto split: prod.splits)
qed simp

lemma update_ids: "vID v = vID (views ! k) \<Longrightarrow> map vID (views[k := v]) = map vID views"
  by (cases "k < length views") (simp_all add: map_update list_update_beyond, metis list_update_id nth_map)

lemma lend_metrics_ids: "map vID (lend_metrics views g) = map vID views"
  by (auto simp: lend_metrics_def update_ids split: option.splits)

lemma sum_traffic_ids: "map vID (fst (sum_traffic acc g)) = map vID (fst acc)"
  by (auto simp: sum_traffic_def Let_def update_ids split: option.splits prod.splits)

lemma traffic_passes_ids: "map vID (traffic_passes n groups views) = map vID views"
proof (induction n arbitrary: views)
  case (Suc n)
  have fold: "map vID (fst (foldl sum_traffic acc groups)) = map vID (fst acc)" for acc
    by (induction groups arbitrary: acc) (auto simp: sum_traffic_ids)
  show ?case using fold[of "(views, False)"] Suc by (auto split: prod.splits)
qed simp


lemma give_causes_views:
  assumes "\<forall>v\<in>set vs. vCauseID v = ''''" "\<And>line c. c \<in> set (crKb r line) \<Longrightarrow> caID c \<noteq> ''''"
    "ccExpires cc \<le> now \<or> caID (ccCause cc) \<noteq> ''''" "computed \<noteq> None \<Longrightarrow> caID (the computed) \<noteq> ''''"
  shows "map vID (fst (give_causes r eng now cc computed vs)) = map vID vs
    \<and> (\<forall>v\<in>set (fst (give_causes r eng now cc computed vs)). vState v = ''down'' \<longleftrightarrow> vCauseID v \<noteq> '''')"
  using assms(1,3,4)
proof (induction vs arbitrary: cc computed)
  case Nil
  then show ?case by simp
next
  case (Cons v vs)
  have nm: "newest_match (crKb r) ls = Some c \<Longrightarrow> caID c \<noteq> ''''" for ls c
    using assms(2) by (induction ls) (auto split: list.splits, metis list.set_intros(1))
  have der: "caID (deriveCause (crKb r) (crLogs r)) \<noteq> ''''"
    using nm by (auto simp: deriveCause_def causeNoResponse_def split: option.splits)
  have own: "own_cause r e i = Some c \<Longrightarrow> caID c \<noteq> ''''" for e i c
    by (auto simp: own_cause_def localProxyCause_def coreMissingCause_def causeEngineMissing_def causePluginMissing_def
        causePluginNotRunning_def causePluginNoAnswer_def Let_def split: option.splits if_splits)
  have hd: "vCauseID v = ''''" and tl: "\<forall>v\<in>set vs. vCauseID v = ''''" using Cons.prems(1) by auto
  have put: "vID (put_cause c v) = vID v" "vState (put_cause c v) = vState v" "vCauseID (put_cause c v) = caID c" for c
    by (simp_all add: put_cause_def)
  note ih = Cons.IH[OF tl]
  show ?case
  proof (cases "vState v = ''down''")
    case False
    then show ?thesis using ih[OF Cons.prems(2,3)] hd by (auto split: prod.splits)
  next
    case down: True
    show ?thesis
    proof (cases "own_cause r (eng (vID v)) (vID v)")
      case (Some c)
      then show ?thesis using ih[OF Cons.prems(2,3)] own[OF Some] down by (auto simp: put split: prod.splits)
    next
      case None
      obtain c cc1 where c: "(case computed of Some c \<Rightarrow> (c, cc) | None \<Rightarrow> causeFor (crKb r) (crLogs r) now cc) = (c, cc1)"
        by fastforce
      have "caID c \<noteq> ''''" and "ccExpires cc1 \<le> now \<or> caID (ccCause cc1) \<noteq> ''''"
        using c Cons.prems(2,3) der by (auto simp: causeFor_def Let_def split: option.splits if_splits)
      then show ?thesis using ih[of cc1 "Some c"] None c down by (auto simp: put split: prod.splits)
    qed
  qed
qed

text \<open>No step before the causes writes one.\<close>

definition no_cause :: "View list \<Rightarrow> bool" where
  "no_cause views \<longleftrightarrow> (\<forall>v\<in>set views. vCauseID v = '''')"

lemma no_cause_update: "no_cause views \<Longrightarrow> vCauseID v = '''' \<Longrightarrow> no_cause (views[k := v])"
  using set_update_subset_insert[of views k v] by (auto simp: no_cause_def)

lemma last_index_lt: "last_index n i views = Some k \<Longrightarrow> n \<le> k \<and> k < n + length views"
  by (induction views arbitrary: n) (fastforce split: option.splits if_splits)+

lemma no_cause_nth: "no_cause views \<Longrightarrow> idx views i = Some k \<Longrightarrow> vCauseID (views ! k) = ''''"
  using last_index_lt[of 0 i views k] by (auto simp: no_cause_def idx_def)

lemma no_cause_lend: "no_cause views \<Longrightarrow> no_cause (lend_metrics views g)"
  by (auto simp: lend_metrics_def no_cause_nth intro!: no_cause_update split: option.splits)

lemma no_cause_sum: "no_cause (fst acc) \<Longrightarrow> no_cause (fst (sum_traffic acc g))"
  by (auto simp: sum_traffic_def Let_def no_cause_nth intro!: no_cause_update split: option.splits prod.splits)

lemma no_cause_traffic: "no_cause views \<Longrightarrow> no_cause (traffic_passes n groups views)"
proof (induction n arbitrary: views)
  case (Suc n)
  have fold: "no_cause (fst acc) \<Longrightarrow> no_cause (fst (foldl sum_traffic acc groups))" for acc
    by (induction groups arbitrary: acc) (auto simp: no_cause_sum)
  show ?case using fold[of "(views, False)"] Suc by (auto split: prod.splits)
qed simp

lemma no_cause_snap: "no_cause (fst vs) \<Longrightarrow> no_cause (fst (snap_passes n groups vs))"
proof (induction n arbitrary: vs)
  case (Suc n)
  have one: "no_cause (fst (fst acc)) \<Longrightarrow> no_cause (fst (fst (snap_group acc g)))" for acc g
    by (auto simp: snap_group_def Let_def no_cause_def set_state_def split: prod.splits State.splits)
  have fold: "no_cause (fst (fst acc)) \<Longrightarrow> no_cause (fst (fst (foldl snap_group acc groups)))" for acc
    by (induction groups arbitrary: acc) (auto simp: one)
  show ?case using fold[of "(vs, False)"] Suc by (auto split: prod.splits)
qed simp

lemma snap_views_ids: "map vID (snap_views tgs m now) = map tgID tgs" "no_cause (snap_views tgs m now)"
  by (auto simp: snap_views_def Let_def toView_def blankView_def no_cause_def split: option.splits)

definition exProfile :: Profile where
  "exProfile = \<lparr>prEndpoints = [\<lparr>epID = ''x'', epName = ''X'', epEngine = EngineSingBox, epProtocol = ''vless'', epOwner = '''', epServer = ''1.2.3.4'',
       epPort = 443, epParams = [], epTransport = None, epTLS = None, epMultiplex = None, epHealth = None, epEnabled = True, epMTU = 0, epPersistentKeepalive = 0, epAWGUserspace = False, epImport = ''''\<rparr>],
     prGroups = [exGroup ''g'' [''x'']], prRules = [], prRoutingLists = [], prDeviceGroups = [], prDNS = None\<rparr>"

definition exReads :: CauseReads where
  "exReads = \<lparr>crPlugin = (\<lambda>_. None), crCore = Some True, crLogs = None, crKb = (\<lambda>_. [])\<rparr>"

definition exCache :: CauseCache where
  "exCache = \<lparr>ccCause = \<lparr>caID = '''', caTitle = '''', caFix = ''''\<rparr>, ccExpires = 0\<rparr>"

text \<open>One tick of a direct probe of endpoint \<open>x\<close>.\<close>

definition exTick :: "State \<Rightarrow> go_time \<Rightarrow> Monitor \<Rightarrow> Monitor" where
  "exTick st now = health_tick exProfile (\<lambda>_. None, False) \<lparr>trProbe = (\<lambda>_. (st, 20)), trExpired = False,
     trConns = None, trIfaceBytes = (\<lambda>_. None), trElection = None, trNow = now, trElectNow = now\<rparr>"

definition exDown :: Monitor where
  "exDown = exTick Down 30 (exTick Down 20 (exTick Alive 10 (NewMonitor False)))"

text \<open>The panel's snapshot lists every target exactly once, in target order, and explains exactly the
  targets it shows as down: a view carries a cause if and only if its state is down. This holds after the
  group states were re-derived, provided the knowledge base names its entries and the cached cause, while
  it is valid, is a named one.
\<close>

theorem snapshot_explains_down:
  assumes "\<And>line c. c \<in> set (crKb r line) \<Longrightarrow> caID c \<noteq> ''''"
    and "ccExpires cc \<le> now \<or> caID (ccCause cc) \<noteq> ''''"
  shows "map vID (fst (Snapshot p nk r now m cc)) = map tgID (targetsFrom p nk)
    \<and> (\<forall>v\<in>set (fst (Snapshot p nk r now m cc)). vState v = ''down'' \<longleftrightarrow> vCauseID v \<noteq> '''')"
proof -
  let ?v0 = "snap_views (targetsFrom p nk) m now"
  let ?v1 = "fst (snap_passes (length (prGroups p)) (prGroups p) (?v0, states_of ?v0))"
  let ?v2 = "foldl lend_metrics ?v1 (prGroups p)"
  let ?v3 = "traffic_passes (length (prGroups p)) (prGroups p) ?v2"
  have "no_cause vs \<Longrightarrow> no_cause (foldl lend_metrics vs gs)" for vs gs
    by (induction gs arbitrary: vs) (auto simp: no_cause_lend)
  moreover have "no_cause ?v1" by (rule no_cause_snap) (simp add: snap_views_ids)
  ultimately have nc: "no_cause ?v3" by (intro no_cause_traffic)
  have "map vID (foldl lend_metrics vs gs) = map vID vs" for vs gs
    by (induction gs arbitrary: vs) (simp_all add: lend_metrics_ids)
  then have ids: "map vID ?v3 = map tgID (targetsFrom p nk)"
    by (simp add: traffic_passes_ids snap_passes_ids snap_views_ids)
  show ?thesis
    using give_causes_views[where vs = ?v3 and r = r and cc = cc and now = now and computed = None and eng = "engine_of p"]
      assms nc ids by (simp add: Snapshot_def Let_def no_cause_def)
qed

theorem snapshot_explains_down_witness:
  "map vID (fst (Snapshot exProfile (\<lambda>_. None, False) exReads 40 exDown exCache)) = [''x'', ''g'']
   \<and> map vCauseID (fst (Snapshot exProfile (\<lambda>_. None, False) exReads 40 exDown exCache)) = [''no-response'', ''no-response'']"
proof -
  have "map vID (fst (Snapshot exProfile (\<lambda>_. None, False) exReads 40 exDown exCache))
      = map tgID (targetsFrom exProfile (\<lambda>_. None, False))"
    using snapshot_explains_down[of exReads exCache 40 exProfile "(\<lambda>_. None, False)" exDown]
    by (simp add: exReads_def exCache_def)
  moreover have "map tgID (targetsFrom exProfile (\<lambda>_. None, False)) = [''x'', ''g'']"
    and "map vCauseID (fst (Snapshot exProfile (\<lambda>_. None, False) exReads 40 exDown exCache)) = [''no-response'', ''no-response'']"
    by code_simp+
  ultimately show ?thesis by simp
qed

text \<open>The snapshot and the recorded history can disagree on a group. After an endpoint's recovery is
  committed, the snapshot shows its group up at once, while the group's own recorded state, which feeds
  the event log and the failover loop, is still down: it goes through the recovery hysteresis a second time.
\<close>

theorem snapshot_contradicts_record:
  "let m = exTick Alive 60 (exTick Alive 50 (exTick Down 40 exDown))
   in map vState (fst (Snapshot exProfile (\<lambda>_. None, False) exReads 61 m exCache)) = [''alive'', ''alive'']
     \<and> state_of (mStats m ''g'') = Down \<and> MemberHealth_of [''g''] m = [\<lparr>mhID = ''g'', mhAlive = False, mhLatencyMs = 20\<rparr>]
     \<and> map (\<lambda>e. (evID e, evKind e)) (Events 0 m) = [(''x'', ''up''), (''g'', ''down''), (''x'', ''down'')]"
  by code_simp

end
