(* ===== verification/Net_Addr.thy ===== *)
theory Net_Addr
  imports WH_Model "HOL-Library.Char_ord" "HOL-Library.List_Lexorder" "HOL-Library.Product_Lexorder"
begin

text \<open>
  What the routing compiler uses of Go's standard library on strings and addresses: \<open>strings.TrimSpace\<close>,
  \<open>Contains\<close>, \<open>CutPrefix\<close>, \<open>net/netip\<close> parsing and printing of addresses and prefixes, and
  \<open>net.ParseMAC\<close>. A Go string is the list of its bytes.
\<close>

section \<open>Strings\<close>

text \<open>The UTF-8 encodings of the runes that \<open>unicode.IsSpace\<close> accepts.\<close>

definition uspaces :: "string list" where
  "uspaces =
    [[CHR 0x09], [CHR 0x0A], [CHR 0x0B], [CHR 0x0C], [CHR 0x0D], [CHR 0x20], [CHR 0xC2, CHR 0x85],
     [CHR 0xC2, CHR 0xA0], [CHR 0xE1, CHR 0x9A, CHR 0x80], [CHR 0xE2, CHR 0x80, CHR 0x80],
     [CHR 0xE2, CHR 0x80, CHR 0x81], [CHR 0xE2, CHR 0x80, CHR 0x82], [CHR 0xE2, CHR 0x80, CHR 0x83],
     [CHR 0xE2, CHR 0x80, CHR 0x84], [CHR 0xE2, CHR 0x80, CHR 0x85], [CHR 0xE2, CHR 0x80, CHR 0x86],
     [CHR 0xE2, CHR 0x80, CHR 0x87], [CHR 0xE2, CHR 0x80, CHR 0x88], [CHR 0xE2, CHR 0x80, CHR 0x89],
     [CHR 0xE2, CHR 0x80, CHR 0x8A], [CHR 0xE2, CHR 0x80, CHR 0xA8], [CHR 0xE2, CHR 0x80, CHR 0xA9],
     [CHR 0xE2, CHR 0x80, CHR 0xAF], [CHR 0xE2, CHR 0x81, CHR 0x9F], [CHR 0xE3, CHR 0x80, CHR 0x80]]"

function trim_left :: "string \<Rightarrow> string" where
  "trim_left s = (case find (\<lambda>w. w \<noteq> [] \<and> prefix w s) uspaces of Some w \<Rightarrow> trim_left (drop (length w) s) | None \<Rightarrow> s)"
  by pat_completeness auto
termination
  by (relation "measure length") (auto simp: find_Some_iff prefix_def)

function trim_right :: "string \<Rightarrow> string" where
  "trim_right s = (case find (\<lambda>w. w \<noteq> [] \<and> suffix w s) uspaces of
      Some w \<Rightarrow> trim_right (take (length s - length w) s) | None \<Rightarrow> s)"
  by pat_completeness auto
termination
  by (relation "measure length") (auto simp: find_Some_iff suffix_def)

declare trim_left.simps [simp del] trim_right.simps [simp del]

definition TrimSpace :: "string \<Rightarrow> string" where
  "TrimSpace s = trim_right (trim_left s)"

definition contains_char :: "char \<Rightarrow> string \<Rightarrow> bool" where
  "contains_char c s \<longleftrightarrow> c \<in> set s"

definition CutPrefix :: "string \<Rightarrow> string \<Rightarrow> string option" where
  "CutPrefix s pre = (if prefix pre s then Some (drop (length pre) s) else None)"

definition TrimPrefix :: "string \<Rightarrow> string \<Rightarrow> string" where
  "TrimPrefix s pre = (if prefix pre s then drop (length pre) s else s)"

definition ascii :: "string \<Rightarrow> bool" where
  "ascii s \<longleftrightarrow> (\<forall>c\<in>set s. of_char c < (128 :: nat))"

definition lower_char :: "char \<Rightarrow> char" where
  "lower_char c = (let n = of_char c :: nat in if 65 \<le> n \<and> n \<le> 90 then char_of (n + 32) else c)"

text \<open>\<open>strings.ToLower\<close>: byte by byte on ASCII; otherwise the Unicode tables, \<open>uni\<close>.\<close>

definition ToLower :: "(string \<Rightarrow> string) \<Rightarrow> string \<Rightarrow> string" where
  "ToLower uni s = (if ascii s then map lower_char s else uni s)"

fun dec :: "nat \<Rightarrow> string" where
  "dec n = (if n < 10 then [hex_digit n] else dec (n div 10) @ [hex_digit (n mod 10)])"

declare dec.simps [simp del]

section \<open>Addresses\<close>

definition digit_val :: "char \<Rightarrow> nat option" where
  "digit_val c = (let n = of_char c in if 48 \<le> n \<and> n \<le> 57 then Some (n - 48) else None)"

definition hex_val :: "char \<Rightarrow> nat option" where
  "hex_val c = (let n = of_char c in
     if 48 \<le> n \<and> n \<le> 57 then Some (n - 48)
     else if 97 \<le> n \<and> n \<le> 102 then Some (n - 87)
     else if 65 \<le> n \<and> n \<le> 70 then Some (n - 55) else None)"

text \<open>\<open>parseIPv4Fields\<close>: \<open>atStart\<close> holds at the first byte and after a dot; \<open>fs\<close> are the finished
  fields, last first.\<close>

fun parse4 :: "bool \<Rightarrow> nat \<Rightarrow> nat \<Rightarrow> nat list \<Rightarrow> string \<Rightarrow> nat list option" where
  "parse4 atStart val digLen fs [] = (if length fs < 3 then None else Some (rev (val # fs)))"
| "parse4 atStart val digLen fs (c # cs) =
     (case digit_val c of
        Some d \<Rightarrow>
          if digLen = 1 \<and> val = 0 then None
          else if val * 10 + d > 255 then None
          else parse4 False (val * 10 + d) (digLen + 1) fs cs
      | None \<Rightarrow>
          if c = CHR ''.'' then
            (if atStart \<or> cs = [] then None
             else if length fs = 3 then None
             else parse4 True 0 0 (val # fs) cs)
          else None)"

fun hex_run :: "nat \<Rightarrow> int \<Rightarrow> string \<Rightarrow> (nat \<times> int \<times> string) option" where
  "hex_run off acc [] = Some (off, acc, [])"
| "hex_run off acc (c # cs) =
     (case hex_val c of
        None \<Rightarrow> Some (off, acc, c # cs)
      | Some v \<Rightarrow>
          if off > 3 then None else if acc * 16 + int v > 65535 then None else hex_run (off + 1) (acc * 16 + int v) cs)"

text \<open>The group loop of \<open>parseIPv6\<close>; the counter is the number of 16-bit groups still free.\<close>

fun loop6 :: "nat \<Rightarrow> int list \<Rightarrow> nat option \<Rightarrow> string \<Rightarrow> (int list \<times> nat option \<times> string) option" where
  "loop6 0 gs ell s = Some (gs, ell, s)"
| "loop6 (Suc k) gs ell s =
     (case hex_run 0 0 s of
        None \<Rightarrow> None
      | Some (off, acc, rest) \<Rightarrow>
          if off = 0 then None
          else if rest \<noteq> [] \<and> hd rest = CHR ''.'' then
            (if ell = None \<and> length gs \<noteq> 6 then None
             else if length gs + 2 > 8 then None
             else (case parse4 True 0 0 [] s of
                     Some [a, b, c, d] \<Rightarrow> Some (gs @ [int a * 256 + int b, int c * 256 + int d], ell, [])
                   | _ \<Rightarrow> None))
          else
            (let gs' = gs @ [acc]
             in if rest = [] then Some (gs', ell, [])
                else if hd rest \<noteq> CHR '':'' then None
                else if length rest = 1 then None
                else (let s1 = tl rest
                      in if hd s1 = CHR '':'' then
                           (if ell \<noteq> None then None
                            else if tl s1 = [] then Some (gs', Some (length gs'), [])
                            else loop6 k gs' (Some (length gs')) (tl s1))
                         else loop6 k gs' ell s1)))"

definition fill_ellipsis :: "int list \<Rightarrow> nat option \<Rightarrow> int list option" where
  "fill_ellipsis gs ell =
    (if length gs < 8 then
       (case ell of None \<Rightarrow> None | Some e \<Rightarrow> Some (take e gs @ replicate (8 - length gs) 0 @ drop e gs))
     else if ell \<noteq> None then None else Some gs)"

datatype Addr = V4 "32 word" | V6 "128 word" string \<comment> \<open>with its zone\<close>

definition word_of_groups :: "int list \<Rightarrow> 128 word" where
  "word_of_groups gs = foldl (\<lambda>a g. push_bit 16 a OR of_int g) 0 gs"

definition parseIPv6 :: "string \<Rightarrow> Addr option" where
  "parseIPv6 inp =
    (let s = takeWhile (\<lambda>c. c \<noteq> CHR ''%'') inp; rest = dropWhile (\<lambda>c. c \<noteq> CHR ''%'') inp; zone = drop 1 rest
     in if rest \<noteq> [] \<and> zone = [] then None
        else if prefix ''::'' s \<and> drop 2 s = [] then Some (V6 0 zone)
        else (case (if prefix ''::'' s then loop6 8 [] (Some 0) (drop 2 s) else loop6 8 [] None s) of
                None \<Rightarrow> None
              | Some (gs, ell, left) \<Rightarrow>
                  if left \<noteq> [] then None
                  else map_option (\<lambda>gs. V6 (word_of_groups gs) zone) (fill_ellipsis gs ell)))"

definition parseIPv4 :: "string \<Rightarrow> Addr option" where
  "parseIPv4 s = (case parse4 True 0 0 [] s of
      Some fs \<Rightarrow> Some (V4 (foldl (\<lambda>a b. push_bit 8 a OR of_nat b) 0 fs)) | None \<Rightarrow> None)"

definition ParseAddr :: "string \<Rightarrow> Addr option" where
  "ParseAddr s =
    (case find (\<lambda>c. c \<in> {CHR ''.'', CHR '':'', CHR ''%''}) s of
       Some c \<Rightarrow> if c = CHR ''.'' then parseIPv4 s else if c = CHR '':'' then parseIPv6 s else None
     | None \<Rightarrow> None)"

section \<open>Prefixes\<close>

text \<open>A prefix of either family: address and number of bits. Zones never enter a prefix.\<close>

datatype Prefix = P4 "32 word \<times> nat" | P6 "128 word \<times> nat"

definition masked :: "'a::len word \<times> nat \<Rightarrow> 'a word \<times> nat" where
  "masked p = (let k = LENGTH('a) - snd p in (push_bit k (drop_bit k (fst p)), snd p))"

definition atoi :: "string \<Rightarrow> nat option" where
  "atoi s =
    (if s = [] then None
     else foldl (\<lambda>acc c. case (acc, digit_val c) of (Some n, Some d) \<Rightarrow> Some (n * 10 + d) | _ \<Rightarrow> None) (Some 0) s)"

definition ParsePrefix :: "string \<Rightarrow> Prefix option" where
  "ParsePrefix s =
    (let r = rev s; bitsStr = rev (takeWhile (\<lambda>c. c \<noteq> CHR ''/'') r);
         host = rev (drop 1 (dropWhile (\<lambda>c. c \<noteq> CHR ''/'') r))
     in if \<not> contains_char (CHR ''/'') s then None
        else (case ParseAddr host of
                None \<Rightarrow> None
              | Some a \<Rightarrow>
                 if (case a of V6 w z \<Rightarrow> z \<noteq> [] | V4 w \<Rightarrow> False) then None
                 else if length bitsStr > 1 \<and> \<not> (CHR ''1'' \<le> hd bitsStr \<and> hd bitsStr \<le> CHR ''9'') then None
                 else (case atoi bitsStr of
                         None \<Rightarrow> None
                       | Some b \<Rightarrow>
                          (case a of
                             V4 w \<Rightarrow> if b \<le> 32 then Some (P4 (w, b)) else None
                           | V6 w z \<Rightarrow> if b \<le> 128 then Some (P6 (w, b)) else None))))"

text \<open>\<open>Prefix.Contains\<close> within one family.\<close>

definition contains :: "'a::len word \<times> nat \<Rightarrow> 'a word \<Rightarrow> bool" where
  "contains p x \<longleftrightarrow> (let k = LENGTH('a) - snd p in drop_bit k (fst p) = drop_bit k x)"

definition Is4In6 :: "128 word \<Rightarrow> bool" where
  "Is4In6 w \<longleftrightarrow> drop_bit 32 w = 0xffff"

definition string4 :: "32 word \<times> nat \<Rightarrow> string" where
  "string4 p = (case p of (w, b) \<Rightarrow>
     dec (unat (drop_bit 24 w AND 255)) @ ''.'' @ dec (unat (drop_bit 16 w AND 255)) @ ''.''
     @ dec (unat (drop_bit 8 w AND 255)) @ ''.'' @ dec (unat (w AND 255)) @ ''/'' @ dec b)"

text \<open>A 16-bit group in hexadecimal, without leading zeros.\<close>

definition hex_nat :: "int \<Rightarrow> string" where
  "hex_nat n =
    (let ds = map (\<lambda>k. hex_digit (nat (drop_bit (4 * k) n AND 15))) [3, 2, 1, 0]
     in case dropWhile (\<lambda>c. c = CHR ''0'') ds of [] \<Rightarrow> ''0'' | c # cs \<Rightarrow> c # cs)"

definition groups6 :: "128 word \<Rightarrow> int list" where
  "groups6 w = map (\<lambda>k. uint (drop_bit (16 * k) w AND 0xffff)) [7, 6, 5, 4, 3, 2, 1, 0]"

definition zero_run :: "int list \<Rightarrow> nat \<Rightarrow> nat" where
  "zero_run gs i = length (takeWhile (\<lambda>g. g = 0) (drop i gs))"

text \<open>The first longest run of at least two zero groups.\<close>

definition best_run :: "int list \<Rightarrow> (nat \<times> nat) option" where
  "best_run gs = foldl (\<lambda>best i. let l = zero_run gs i
     in if l \<ge> 2 \<and> (case best of None \<Rightarrow> True | Some (z, n) \<Rightarrow> l > n) then Some (i, l) else best) None [0..<8]"

fun join_colon :: "string list \<Rightarrow> string" where
  "join_colon [] = []"
| "join_colon [x] = x"
| "join_colon (x # xs) = x @ '':'' @ join_colon xs"

definition string6 :: "128 word \<times> nat \<Rightarrow> string" where
  "string6 p = (case p of (w, b) \<Rightarrow>
     (let gs = groups6 w; hs = map hex_nat gs
      in (case best_run gs of
            None \<Rightarrow> join_colon hs
          | Some (z, n) \<Rightarrow> join_colon (take z hs) @ ''::'' @ join_colon (drop (z + n) hs)) @ ''/'' @ dec b))"

section \<open>Hardware addresses\<close>

definition xtoi2 :: "string \<Rightarrow> char option \<Rightarrow> nat option" where
  "xtoi2 s e =
    (if length s > 2 \<and> Some (s ! 2) \<noteq> e then None
     else (case s of a # b # _ \<Rightarrow>
             (case (hex_val a, hex_val b) of (Some x, Some y) \<Rightarrow> Some (x * 16 + y) | _ \<Rightarrow> None)
           | _ \<Rightarrow> None))"

definition all_some :: "'a option list \<Rightarrow> 'a list option" where
  "all_some xs = (if list_all (\<lambda>x. x \<noteq> None) xs then Some (map the xs) else None)"

definition ParseMAC :: "string \<Rightarrow> nat list option" where
  "ParseMAC s =
    (if length s < 14 then None
     else if s ! 2 = CHR '':'' \<or> s ! 2 = CHR ''-'' then
       (let n = (length s + 1) div 3
        in if (length s + 1) mod 3 \<noteq> 0 \<or> n \<notin> {6, 8, 20} then None
           else all_some (map (\<lambda>i. xtoi2 (drop (3 * i) s) (Some (s ! 2))) [0..<n]))
     else if s ! 4 = CHR ''.'' then
       (let n = 2 * (length s + 1) div 5
        in if (length s + 1) mod 5 \<noteq> 0 \<or> n \<notin> {6, 8, 20} then None
           else all_some (concat (map (\<lambda>i. [xtoi2 (take 2 (drop (5 * i) s)) None, xtoi2 (drop (5 * i + 2) s) (Some (s ! 4))])
                  [0..<n div 2])))
     else None)"

definition mac_string :: "nat list \<Rightarrow> string" where
  "mac_string hw = join_colon (map (\<lambda>b. [hex_digit (b div 16), hex_digit (b mod 16)]) hw)"

section \<open>More of netip\<close>

text \<open>\<open>Addr.Less\<close>: by family, then value, then zone.\<close>

fun addr_less :: "Addr \<Rightarrow> Addr \<Rightarrow> bool" where
  "addr_less (V4 a) (V4 b) = (a < b)"
| "addr_less (V4 a) (V6 b z) = True"
| "addr_less (V6 a z) (V4 b) = False"
| "addr_less (V6 a z) (V6 b z') = (a < b \<or> a = b \<and> z < z')"

fun Is6 :: "Addr \<Rightarrow> bool" where
  "Is6 (V4 a) = False"
| "Is6 (V6 a z) = True"

fun Unmap :: "Addr \<Rightarrow> Addr" where
  "Unmap (V4 a) = V4 a"
| "Unmap (V6 a z) = (if Is4In6 a then V4 (ucast a) else V6 a z)"

fun IsLoopback :: "Addr \<Rightarrow> bool" where
  "IsLoopback (V4 a) = (drop_bit 24 a = 127)"
| "IsLoopback (V6 a z) = (a = 1)"

fun prefix_addr :: "Prefix \<Rightarrow> Addr" where
  "prefix_addr (P4 p) = V4 (fst p)"
| "prefix_addr (P6 p) = V6 (fst p) ''''"

fun prefix_contains :: "Prefix \<Rightarrow> Addr \<Rightarrow> bool" where
  "prefix_contains (P4 p) (V4 a) = contains p a"
| "prefix_contains (P6 p) (V6 a z) = (z = '''' \<and> contains p a)"
| "prefix_contains p a = False"

text \<open>The full-length prefix of an address; its zone is dropped.\<close>

fun host_prefix :: "Addr \<Rightarrow> Prefix" where
  "host_prefix (V4 a) = P4 (a, 32)"
| "host_prefix (V6 a z) = P6 (a, 128)"

fun masked_prefix :: "Prefix \<Rightarrow> Prefix" where
  "masked_prefix (P4 p) = P4 (masked p)"
| "masked_prefix (P6 p) = P6 (masked p)"

text \<open>\<open>sort.Search\<close>: the binary search for the least index at which a monotone test holds.\<close>

function sort_Search :: "(nat \<Rightarrow> bool) \<Rightarrow> nat \<Rightarrow> nat \<Rightarrow> nat" where
  "sort_Search f i j = (if i < j then (let h = (i + j) div 2 in if \<not> f h then sort_Search f (h + 1) j else sort_Search f i h) else i)"
  by pat_completeness auto
termination
  by (relation "measure (\<lambda>(f, i, j). j - i)") auto

declare sort_Search.simps [simp del]

lemma sort_Search_least:
  assumes "i \<le> j" "\<And>a b. a \<le> b \<Longrightarrow> b < j \<Longrightarrow> f a \<Longrightarrow> f b"
  shows "i \<le> sort_Search f i j \<and> sort_Search f i j \<le> j \<and> (\<forall>k<j. i \<le> k \<longrightarrow> (f k \<longleftrightarrow> sort_Search f i j \<le> k))"
  using assms
proof (induction "j - i" arbitrary: i j rule: less_induct)
  case less
  show ?case
  proof (cases "i < j")
    case False
    then have "sort_Search f i j = i" by (subst sort_Search.simps) simp
    then show ?thesis using False less.prems(1) by simp
  next
    case True
    define h where "h = (i + j) div 2"
    have h: "i \<le> h" "h < j" using True by (auto simp: h_def)
    show ?thesis
    proof (cases "f h")
      case fh: True
      have s: "sort_Search f i j = sort_Search f i h" using True fh by (subst sort_Search.simps) (simp add: h_def Let_def)
      have q: "i \<le> sort_Search f i h \<and> sort_Search f i h \<le> h \<and> (\<forall>k<h. i \<le> k \<longrightarrow> (f k \<longleftrightarrow> sort_Search f i h \<le> k))"
        by (rule less.hyps) (use h less.prems(2) in auto)
      have up: "f k" if "h \<le> k" "k < j" for k using less.prems(2)[OF that fh] .
      have "f k \<longleftrightarrow> sort_Search f i h \<le> k" if "k < j" "i \<le> k" for k
        using q up that by (cases "k < h") auto
      then show ?thesis unfolding s using h q by auto
    next
      case nf: False
      have s: "sort_Search f i j = sort_Search f (h + 1) j" using True nf by (subst sort_Search.simps) (simp add: h_def Let_def)
      have "h + 1 \<le> sort_Search f (h + 1) j \<and> sort_Search f (h + 1) j \<le> j \<and> (\<forall>k<j. h + 1 \<le> k \<longrightarrow> (f k \<longleftrightarrow> sort_Search f (h + 1) j \<le> k))"
        by (rule less.hyps) (use h less.prems(2) in auto)
      moreover have "\<not> f k" if "k \<le> h" for k using less.prems(2)[OF that h(2)] nf by blast
      ultimately show ?thesis unfolding s using h by (auto simp: not_less_eq_eq)
    qed
  qed
qed

end
