(* ===== verification/PBR_Prefix.thy ===== *)
theory PBR_Prefix
  imports Net_Addr
begin

text \<open>
  Destination sets of the routing compiler (\<open>internal/pbr/pbr.go\<close>): classification of list entries
  into IPv4 prefixes, IPv6 prefixes and names, and the one-pass collapse of overlapping prefixes, proved
  to leave a disjoint set with the same addresses, as an nftables interval set requires.
\<close>

section \<open>Collapsing prefixes\<close>

fun sweep :: "('a::len word \<times> nat) option \<Rightarrow> ('a word \<times> nat) list \<Rightarrow> ('a word \<times> nat) list" where
  "sweep lst [] = []"
| "sweep lst (p # ps) =
     (if (case lst of None \<Rightarrow> False | Some l \<Rightarrow> snd l \<le> snd p \<and> contains l (fst p)) then sweep lst ps
      else p # sweep (Some p) ps)"

definition collapsePrefixes :: "('a::len word \<times> nat) list \<Rightarrow> ('a word \<times> nat) list" where
  "collapsePrefixes ps = sweep None (sort ps)"

section \<open>Classification\<close>

text \<open>One trimmed entry: the masked prefix it names, with a v4-mapped IPv6 prefix folded to IPv4.\<close>

definition fold4in6 :: "128 word \<times> nat \<Rightarrow> Prefix" where
  "fold4in6 p =
    (if Is4In6 (fst p) then P4 (masked (ucast (fst p), snd p - 96)) else P6 p)"

definition entry_prefix :: "string \<Rightarrow> Prefix option" where
  "entry_prefix s =
    (if contains_char (CHR ''/'') s then
       (case ParsePrefix s of
          None \<Rightarrow> None
        | Some (P4 p) \<Rightarrow> Some (P4 (masked p))
        | Some (P6 p) \<Rightarrow> Some (fold4in6 (masked p)))
     else
       (case ParseAddr s of
          None \<Rightarrow> None
        | Some (V4 w) \<Rightarrow> Some (P4 (w, 32))
        | Some (V6 w z) \<Rightarrow> Some (fold4in6 (w, 128))))"

text \<open>The loop of \<open>classifyCIDRs\<close>: IPv4 prefixes, IPv6 prefixes and the rest, in input order. A prefix's
  text identifies it, so the seen-sets are on prefixes.\<close>

fun classify_loop :: "string list \<Rightarrow> (32 word \<times> nat) list \<times> (128 word \<times> nat) list \<times> string list
    \<Rightarrow> (32 word \<times> nat) list \<times> (128 word \<times> nat) list \<times> string list" where
  "classify_loop [] acc = acc"
| "classify_loop (s # ss) (p4, p6, bad) =
     (let t = TrimSpace s
      in if t = '''' then classify_loop ss (p4, p6, bad)
         else (case entry_prefix t of
                 None \<Rightarrow> classify_loop ss (p4, p6, bad @ [t])
               | Some (P4 p) \<Rightarrow> classify_loop ss (if p \<in> set p4 then p4 else p4 @ [p], p6, bad)
               | Some (P6 p) \<Rightarrow> classify_loop ss (p4, if p \<in> set p6 then p6 else p6 @ [p], bad)))"

definition classify :: "string list \<Rightarrow> (32 word \<times> nat) list \<times> (128 word \<times> nat) list \<times> string list" where
  "classify ins = (case classify_loop ins ([], [], []) of (p4, p6, bad) \<Rightarrow> (collapsePrefixes p4, collapsePrefixes p6, bad))"

definition classifyCIDRs :: "string list \<Rightarrow> string list \<times> string list \<times> string list" where
  "classifyCIDRs ins = (case classify ins of (p4, p6, bad) \<Rightarrow> (map string4 p4, map string6 p6, bad))"

section \<open>Names and hardware addresses\<close>

definition normalize_domain :: "(string \<Rightarrow> string) \<Rightarrow> string \<Rightarrow> string option" where
  "normalize_domain uni s =
    (let s1 = ToLower uni (TrimSpace s); s2 = TrimPrefix s1 ''*.''; s3 = TrimPrefix s2 ''.''
     in if s3 = '''' \<or> (\<exists>c\<in>set s3. c \<in> {CHR '' '', char_of (9 :: nat), CHR ''#'', CHR ''!'', CHR ''/''})
           \<or> \<not> contains_char (CHR ''.'') s3 then None else Some s3)"

definition normalizeDomains :: "(string \<Rightarrow> string) \<Rightarrow> string list \<Rightarrow> string list" where
  "normalizeDomains uni ins = sort (remdups (List.map_filter (normalize_domain uni) ins))"

definition canonicalMACs :: "string list \<Rightarrow> string list" where
  "canonicalMACs macs =
    map (\<lambda>m. let t = TrimSpace m in case ParseMAC t of Some hw \<Rightarrow> mac_string hw | None \<Rightarrow> t) macs"

text \<open>Every rune outside the identifier alphabet becomes one underscore: continuation bytes of UTF-8 add
  none.\<close>

definition ident_char :: "char \<Rightarrow> bool" where
  "ident_char c \<longleftrightarrow> (let n = of_char c :: nat in 97 \<le> n \<and> n \<le> 122 \<or> 65 \<le> n \<and> n \<le> 90 \<or> 48 \<le> n \<and> n \<le> 57 \<or> n = 95)"

definition rune_start :: "char \<Rightarrow> bool" where
  "rune_start c \<longleftrightarrow> (let n = of_char c :: nat in n < 128 \<or> 192 \<le> n)"

definition nftName :: "id \<Rightarrow> string" where
  "nftName i = map (\<lambda>c. if ident_char c then c else CHR ''_'') (filter rune_start i)"

section \<open>Prefixes as aligned intervals\<close>

definition psize :: "'a::len word \<times> nat \<Rightarrow> nat" where
  "psize p = 2 ^ (LENGTH('a) - snd p)"

definition prefix_ok :: "'a::len word \<times> nat \<Rightarrow> bool" where
  "prefix_ok p \<longleftrightarrow> snd p \<le> LENGTH('a) \<and> psize p dvd unat (fst p)"

definition addrs :: "'a::len word \<times> nat \<Rightarrow> 'a word set" where
  "addrs p = {x. contains p x}"

lemma psize_pos [simp]: "0 < psize p"
  by (simp add: psize_def)

lemma contains_div: "contains (p :: 'a::len word \<times> nat) x \<longleftrightarrow> unat (fst p) div psize p = unat x div psize p"
proof -
  let ?k = "LENGTH('a) - snd p"
  have "unat (drop_bit ?k w) = unat w div 2 ^ ?k" for w :: "'a word"
    by (simp only: unat_drop_bit_eq) (simp only: drop_bit_eq_div)
  then show ?thesis by (simp only: contains_def psize_def Let_def word_unat_eq_iff)
qed

lemma contains_interval:
  assumes "prefix_ok p"
  shows "contains p x \<longleftrightarrow> unat (fst p) \<le> unat x \<and> unat x < unat (fst p) + psize p"
proof -
  obtain k where k: "unat (fst p) = psize p * k" using assms by (auto simp: prefix_ok_def)
  have "contains p x \<longleftrightarrow> unat x div psize p = k" by (auto simp: contains_div k)
  also have "\<dots> \<longleftrightarrow> psize p * k \<le> unat x \<and> unat x < psize p * k + psize p"
    by (metis add.commute div_nat_eqI dividend_less_times_div mult.commute mult_Suc_right psize_pos times_div_less_eq_dividend)
  finally show ?thesis by (simp add: k)
qed

lemma unat_masked: "unat (push_bit k (drop_bit k w)) = (unat w div 2 ^ k) * 2 ^ k" for w :: "'a::len word"
proof -
  have "unat (push_bit k (drop_bit k w)) = take_bit LENGTH('a) ((unat w div 2 ^ k) * 2 ^ k)"
    by (simp only: unsigned_push_bit_eq unat_drop_bit_eq) (simp only: push_bit_eq_mult drop_bit_eq_div)
  moreover have "(unat w div 2 ^ k) * 2 ^ k < 2 ^ LENGTH('a)"
    by (rule le_less_trans[OF div_times_less_eq_dividend unsigned_less])
  ultimately show ?thesis by (simp add: take_bit_nat_eq_self)
qed

lemma masked_ok: "snd p \<le> LENGTH('a) \<Longrightarrow> prefix_ok (masked (p :: 'a::len word \<times> nat))"
  using unat_masked[of "LENGTH('a) - snd p" "fst p"] by (simp add: prefix_ok_def masked_def psize_def Let_def)

lemma masked_id:
  assumes "prefix_ok (p :: 'a::len word \<times> nat)"
  shows "masked p = p"
proof -
  have "unat (fst (masked p)) = unat (fst p)"
    using assms unat_masked[of "LENGTH('a) - snd p" "fst p"]
    by (simp add: prefix_ok_def psize_def masked_def Let_def dvd_div_mult_self)
  then have "fst (masked p) = fst p" by (simp only: word_unat_eq_iff)
  then show ?thesis by (simp add: masked_def Let_def prod_eq_iff)
qed

text \<open>Two aligned intervals: a later start inside a smaller interval would be misaligned.\<close>

lemma aligned_start:
  assumes ok: "prefix_ok l" "prefix_ok p" and le: "l \<le> p" and sz: "snd p < snd l"
  shows "\<not> contains l (fst p)"
proof
  assume "contains l (fst p)"
  then have in_l: "unat (fst l) \<le> unat (fst p)" "unat (fst p) < unat (fst l) + psize l"
    using contains_interval[OF ok(1)] by auto
  have "psize l dvd psize p" using sz ok by (auto simp: psize_def prefix_ok_def intro!: le_imp_power_dvd)
  then have "psize l dvd unat (fst p)" "psize l dvd unat (fst l)" using ok by (auto simp: prefix_ok_def intro: dvd_trans)
  then obtain a b where "unat (fst p) = psize l * a" "unat (fst l) = psize l * b" by blast
  then have "unat (fst p) = unat (fst l)" using in_l psize_pos[of l]
    by (metis add.commute leD le_antisym mult_le_cancel1 mult_Suc_right not_less_eq_eq)
  then have "fst p = fst l" by (simp only: word_unat_eq_iff)
  then show False using le sz by (cases l; cases p) (auto simp: less_eq_prod_def)
qed

lemma addrs_sub:
  assumes ok: "prefix_ok l" "prefix_ok p" and "snd l \<le> snd p" "contains l (fst p)"
  shows "addrs p \<subseteq> addrs l"
proof
  fix x
  assume "x \<in> addrs p"
  then have x: "unat (fst p) div psize p = unat x div psize p" by (simp add: addrs_def contains_div)
  have "psize p dvd psize l" using assms(3) by (auto simp: psize_def intro!: le_imp_power_dvd)
  then obtain m where m: "psize l = psize p * m" by blast
  have "unat (fst l) div psize l = unat (fst p) div psize l" using assms(4) by (simp add: contains_div)
  also have "\<dots> = unat x div psize l" using x by (simp add: m div_mult2_eq)
  finally show "x \<in> addrs l" by (simp add: addrs_def contains_div)
qed

lemma not_contained_after:
  assumes ok: "prefix_ok l" "prefix_ok p" and le: "l \<le> p" and no: "\<not> (snd l \<le> snd p \<and> contains l (fst p))"
  shows "unat (fst l) + psize l \<le> unat (fst p)"
proof -
  have "\<not> contains l (fst p)" using no aligned_start[OF ok le] by linarith
  moreover have "unat (fst l) \<le> unat (fst p)" using le by (auto simp: less_eq_prod_def word_le_nat_alt word_less_nat_alt)
  ultimately show ?thesis using contains_interval[OF ok(1)] by simp
qed


section \<open>The sweep\<close>

definition starts_after :: "('a::len word \<times> nat) option \<Rightarrow> 'a word \<times> nat \<Rightarrow> bool" where
  "starts_after lst p \<longleftrightarrow> (case lst of None \<Rightarrow> True | Some l \<Rightarrow> unat (fst l) + psize l \<le> unat (fst p))"

lemma sweep_spec:
  assumes "sorted ps" "\<forall>p\<in>set ps. prefix_ok p" "case lst of None \<Rightarrow> True | Some l \<Rightarrow> prefix_ok l \<and> (\<forall>p\<in>set ps. l \<le> p)"
  shows "set (sweep lst ps) \<subseteq> set ps \<and> sorted (sweep lst ps)
    \<and> (\<forall>p\<in>set (sweep lst ps). starts_after lst p)
    \<and> sorted_wrt (\<lambda>p q. unat (fst p) + psize p \<le> unat (fst q)) (sweep lst ps)
    \<and> (\<Union>p\<in>set ps. addrs p) \<subseteq> (\<Union>p\<in>set (sweep lst ps). addrs p) \<union> (case lst of None \<Rightarrow> {} | Some l \<Rightarrow> addrs l)"
  using assms
proof (induction ps arbitrary: lst)
  case Nil
  then show ?case by simp
next
  case (Cons p ps)
  have ok: "prefix_ok p" "sorted ps" "\<forall>p\<in>set ps. prefix_ok p" and ge: "\<forall>q\<in>set ps. p \<le> q" using Cons.prems by auto
  show ?case
  proof (cases "case lst of None \<Rightarrow> False | Some l \<Rightarrow> snd l \<le> snd p \<and> contains l (fst p)")
    case True
    then obtain l where l: "lst = Some l" "snd l \<le> snd p" "contains l (fst p)" by (auto split: option.splits)
    have "prefix_ok l" using Cons.prems(3) l by simp
    then have sub: "addrs p \<subseteq> addrs l" using addrs_sub ok(1) l by blast
    have "case lst of None \<Rightarrow> True | Some l \<Rightarrow> prefix_ok l \<and> (\<forall>p\<in>set ps. l \<le> p)" using Cons.prems(3) l by simp
    from Cons.IH[OF ok(2,3) this] show ?thesis using True l sub by auto
  next
    case False
    have aft: "starts_after lst p"
    proof (cases lst)
      case (Some l)
      have "unat (fst l) + psize l \<le> unat (fst p)"
        by (rule not_contained_after) (use Cons.prems(3) False ok(1) Some in auto)
      then show ?thesis using Some by (simp add: starts_after_def)
    qed (simp add: starts_after_def)
    have "case Some p of None \<Rightarrow> True | Some l \<Rightarrow> prefix_ok l \<and> (\<forall>q\<in>set ps. l \<le> q)" using ok ge by simp
    from Cons.IH[OF ok(2,3) this] have ih: "set (sweep (Some p) ps) \<subseteq> set ps" "sorted (sweep (Some p) ps)"
      "\<forall>q\<in>set (sweep (Some p) ps). unat (fst p) + psize p \<le> unat (fst q)"
      "sorted_wrt (\<lambda>p q. unat (fst p) + psize p \<le> unat (fst q)) (sweep (Some p) ps)"
      "(\<Union>q\<in>set ps. addrs q) \<subseteq> (\<Union>q\<in>set (sweep (Some p) ps). addrs q) \<union> addrs p"
      by (auto simp: starts_after_def)
    have "\<forall>q\<in>set (sweep (Some p) ps). starts_after lst q"
      using aft ih(3) by (fastforce simp: starts_after_def split: option.splits)
    then show ?thesis using False ih aft ge by auto
  qed
qed

lemma collapse_spec:
  assumes "\<forall>p\<in>set ps. prefix_ok p"
  shows "set (collapsePrefixes ps) \<subseteq> set ps" "sorted (collapsePrefixes ps)"
    "sorted_wrt (\<lambda>p q. addrs p \<inter> addrs q = {}) (collapsePrefixes ps)"
    "(\<Union>p\<in>set (collapsePrefixes ps). addrs p) = (\<Union>p\<in>set ps. addrs p)"
proof -
  have sp: "sorted (sort ps)" "\<forall>p\<in>set (sort ps). prefix_ok p" using assms by auto
  from sweep_spec[OF sp, of None] have
    s: "set (sweep None (sort ps)) \<subseteq> set ps" "sorted (sweep None (sort ps))"
      "sorted_wrt (\<lambda>p q. unat (fst p) + psize p \<le> unat (fst q)) (sweep None (sort ps))"
      "(\<Union>p\<in>set ps. addrs p) \<subseteq> (\<Union>p\<in>set (sweep None (sort ps)). addrs p)"
    by (auto simp: starts_after_def)
  show "set (collapsePrefixes ps) \<subseteq> set ps" "sorted (collapsePrefixes ps)" using s by (auto simp: collapsePrefixes_def)
  show "(\<Union>p\<in>set (collapsePrefixes ps). addrs p) = (\<Union>p\<in>set ps. addrs p)"
    using s(1,4) unfolding collapsePrefixes_def by blast
  show "sorted_wrt (\<lambda>p q. addrs p \<inter> addrs q = {}) (collapsePrefixes ps)"
    unfolding collapsePrefixes_def
  proof (rule sorted_wrt_mono_rel[OF _ s(3)])
    fix p q
    assume "p \<in> set (sweep None (sort ps))" "q \<in> set (sweep None (sort ps))" and le: "unat (fst p) + psize p \<le> unat (fst q)"
    then have "prefix_ok p" "prefix_ok q" using s(1) assms by auto
    then show "addrs p \<inter> addrs q = {}" using le by (auto simp: addrs_def contains_interval)
  qed
qed


section \<open>What classification keeps\<close>

lemma fold4in6_ok:
  assumes "prefix_ok p"
  shows "case fold4in6 p of P4 q \<Rightarrow> prefix_ok q | P6 q \<Rightarrow> prefix_ok q"
proof -
  have "prefix_ok (masked (ucast (fst p) :: 32 word, snd p - 96))"
    by (rule masked_ok) (use assms in \<open>auto simp: prefix_ok_def\<close>)
  then show ?thesis using assms by (simp add: fold4in6_def)
qed

lemma parsed_bits: "ParsePrefix s = Some (P4 p) \<Longrightarrow> snd p \<le> 32" "ParsePrefix s = Some (P6 q) \<Longrightarrow> snd q \<le> 128"
  by (auto simp: ParsePrefix_def Let_def split: if_splits option.splits Addr.splits)

lemma host_ok: "prefix_ok (w :: 32 word, 32)" "prefix_ok (v :: 128 word, 128)"
  by (simp_all add: prefix_ok_def psize_def)

lemma entry_prefix_ok: "entry_prefix s = Some r \<Longrightarrow> (case r of P4 q \<Rightarrow> prefix_ok q | P6 q \<Rightarrow> prefix_ok q)"
proof -
  assume e: "entry_prefix s = Some r"
  show ?thesis
  proof (cases "contains_char (CHR ''/'') s")
    case True
    then obtain pf where pf: "ParsePrefix s = Some pf" using e by (auto simp: entry_prefix_def split: option.splits)
    show ?thesis
    proof (cases pf)
      case (P4 p)
      then show ?thesis using e True pf parsed_bits(1)[of s p] masked_ok[of p] by (auto simp: entry_prefix_def)
    next
      case (P6 p)
      then have "prefix_ok (masked p)" using pf parsed_bits(2)[of s p] masked_ok[of p] by simp
      then show ?thesis using e True pf P6 fold4in6_ok[of "masked p"] by (auto simp: entry_prefix_def)
    qed
  next
    case False
    then obtain a where a: "ParseAddr s = Some a" using e by (auto simp: entry_prefix_def split: option.splits)
    then show ?thesis
      using e False host_ok fold4in6_ok[OF host_ok(2)] by (cases a) (auto simp: entry_prefix_def)
  qed
qed

definition entries :: "string list \<Rightarrow> string list" where
  "entries ins = filter (\<lambda>t. t \<noteq> '''') (map TrimSpace ins)"

definition v4s :: "string list \<Rightarrow> (32 word \<times> nat) set" where
  "v4s ins = {p. \<exists>t\<in>set (entries ins). entry_prefix t = Some (P4 p)}"

definition v6s :: "string list \<Rightarrow> (128 word \<times> nat) set" where
  "v6s ins = {p. \<exists>t\<in>set (entries ins). entry_prefix t = Some (P6 p)}"

lemma entries_Cons: "entries (s # ss) = (if TrimSpace s = '''' then entries ss else TrimSpace s # entries ss)"
  by (simp add: entries_def)

lemma classify_loop_spec:
  "classify_loop ins (p4, p6, bad) = (q4, q6, bad') \<Longrightarrow>
     set q4 = set p4 \<union> v4s ins \<and> set q6 = set p6 \<union> v6s ins
     \<and> bad' = bad @ filter (\<lambda>t. entry_prefix t = None) (entries ins)
     \<and> (distinct p4 \<longrightarrow> distinct q4) \<and> (distinct p6 \<longrightarrow> distinct q6)"
proof (induction ins arbitrary: p4 p6 bad)
  case Nil
  then show ?case by (simp add: v4s_def v6s_def entries_def)
next
  case (Cons s ss)
  let ?t = "TrimSpace s"
  show ?case
  proof (cases "?t = ''''")
    case True
    then show ?thesis using Cons by (simp add: entries_Cons v4s_def v6s_def Let_def)
  next
    case False
    show ?thesis
    proof (cases "entry_prefix ?t")
      case None
      then have "classify_loop ss (p4, p6, bad @ [?t]) = (q4, q6, bad')" using Cons.prems False by (simp add: Let_def)
      from Cons.IH[OF this] show ?thesis using False None by (simp add: entries_Cons v4s_def v6s_def)
    next
      case (Some r)
      show ?thesis
      proof (cases r)
        case (P4 p)
        then have "classify_loop ss (if p \<in> set p4 then p4 else p4 @ [p], p6, bad) = (q4, q6, bad')"
          using Cons.prems False Some by (simp add: Let_def)
        from Cons.IH[OF this] show ?thesis
          using False Some P4 by (auto simp: entries_Cons v4s_def v6s_def split: if_splits)
      next
        case (P6 p)
        then have "classify_loop ss (p4, if p \<in> set p6 then p6 else p6 @ [p], bad) = (q4, q6, bad')"
          using Cons.prems False Some by (simp add: Let_def)
        from Cons.IH[OF this] show ?thesis
          using False Some P6 by (auto simp: entries_Cons v4s_def v6s_def split: if_splits)
      qed
    qed
  qed
qed

lemma classify_spec:
  assumes "classify ins = (q4, q6, bad)"
  shows "set q4 \<subseteq> v4s ins" "set q6 \<subseteq> v6s ins" "bad = filter (\<lambda>t. entry_prefix t = None) (entries ins)"
    "sorted_wrt (\<lambda>p q. addrs p \<inter> addrs q = {}) q4" "sorted_wrt (\<lambda>p q. addrs p \<inter> addrs q = {}) q6"
    "(\<Union>p\<in>set q4. addrs p) = (\<Union>p\<in>v4s ins. addrs p)" "(\<Union>p\<in>set q6. addrs p) = (\<Union>p\<in>v6s ins. addrs p)"
    "sorted q4" "sorted q6"
proof -
  obtain p4 p6 where l: "classify_loop ins ([], [], []) = (p4, p6, bad)" "q4 = collapsePrefixes p4" "q6 = collapsePrefixes p6"
    using assms by (auto simp: classify_def split: prod.splits)
  have s: "set p4 = v4s ins" "set p6 = v6s ins" "bad = filter (\<lambda>t. entry_prefix t = None) (entries ins)"
    using classify_loop_spec[OF l(1)] by auto
  have ok: "\<forall>p\<in>set p4. prefix_ok p" "\<forall>p\<in>set p6. prefix_ok p"
    using entry_prefix_ok by (fastforce simp: s v4s_def v6s_def)+
  show "bad = filter (\<lambda>t. entry_prefix t = None) (entries ins)" by (rule s)
  show "set q4 \<subseteq> v4s ins" "sorted q4" "sorted_wrt (\<lambda>p q. addrs p \<inter> addrs q = {}) q4"
    "(\<Union>p\<in>set q4. addrs p) = (\<Union>p\<in>v4s ins. addrs p)"
    using collapse_spec[OF ok(1)] by (simp_all add: l s)
  show "set q6 \<subseteq> v6s ins" "sorted q6" "sorted_wrt (\<lambda>p q. addrs p \<inter> addrs q = {}) q6"
    "(\<Union>p\<in>set q6. addrs p) = (\<Union>p\<in>v6s ins. addrs p)"
    using collapse_spec[OF ok(2)] by (simp_all add: l s)
qed

section \<open>Properties\<close>

text \<open>C7. The sets handed to the kernel are disjoint and lose nothing. For any list of entries, the IPv4 and
  IPv6 results are sorted, their prefixes are pairwise disjoint, and together they cover exactly the
  addresses of the entries of that family; every other non-blank entry is returned as not an address.
\<close>

theorem classified_prefixes_disjoint_cover:
  "case classify ins of (q4, q6, bad) \<Rightarrow>
     classifyCIDRs ins = (map string4 q4, map string6 q6, bad)
     \<and> sorted q4 \<and> sorted_wrt (\<lambda>p q. addrs p \<inter> addrs q = {}) q4 \<and> (\<Union>p\<in>set q4. addrs p) = (\<Union>p\<in>v4s ins. addrs p)
     \<and> sorted q6 \<and> sorted_wrt (\<lambda>p q. addrs p \<inter> addrs q = {}) q6 \<and> (\<Union>p\<in>set q6. addrs p) = (\<Union>p\<in>v6s ins. addrs p)
     \<and> bad = filter (\<lambda>t. entry_prefix t = None) (entries ins)"
proof -
  obtain q4 q6 bad where c: "classify ins = (q4, q6, bad)" by (cases "classify ins")
  show ?thesis using classify_spec[OF c] by (simp add: c classifyCIDRs_def)
qed

end
