(* ===== verification/PBR_Compile.thy ===== *)
theory PBR_Compile
  imports PBR_Prefix
begin

text \<open>
  The kernel routing compiler, \<open>internal/pbr/pbr.go\<close>: from a profile and options to a plan of egresses
  (marks and tables), zones (destination and source sets), bypass addresses, masqueraded interfaces and
  an optional flowtable, with the warnings it collects. Warning texts are constructors with their
  arguments.
\<close>

section \<open>Data\<close>

datatype EgressKind = EgressNone | EgressWAN | EgressInterface | EgressBlackhole | EgressNDMPolicy

record Egress =
  egTag :: id
  egKind :: EgressKind
  egIface :: string
  egMark :: "32 word"
  egTable :: int
  egFailClosed :: bool

record Zone =
  zName :: string
  zEgressTag :: id
  zMark :: "32 word"
  zV4 :: "string list"
  zV6 :: "string list"
  zDomains :: "string list"
  zSrcV4 :: "string list"
  zSrcV6 :: "string list"
  zSrcMAC :: "string list"
  zSrcIface :: "string list"
  zSrcPort :: "int list"
  zSrcScoped :: bool
  zSrcNegate :: bool
  zNDMPolicy :: string
  zNDMMark :: "32 word"

datatype wmsg = WUnknownPolicy string | WProxyEndpoint id | WGroupNoKernel id | WUnknownOutbound id
  | WNonIP string | WRenamed string | WRulePolicy | WRuleDomain | WRuleGeoIP | WRemoteSet string
  | WScopeEmpty | WOffloadNoDevices | WOffloadBadDevice string | WOffloadNoValid | WOffloadMode string

record Warning =
  wScope :: string
  wMsg :: wmsg

record Flowtable =
  ftDevices :: "string list"
  ftHW :: bool

record Plan =
  plTable :: string
  plMask :: "32 word"
  plEgresses :: "Egress list"
  plZones :: "Zone list"
  plBypassV4 :: "string list"
  plBypassV6 :: "string list"
  plFlowtable :: "Flowtable option"
  plMasqIfaces :: "string list"

text \<open>\<open>oLower\<close> is Go's Unicode lower-casing of strings that are not ASCII.\<close>

record Options =
  oTable :: string
  oMarkMask :: "32 word"
  oMarkStep :: "32 word"
  oTableBase :: int
  oWANTable :: int
  oRulePref :: int
  oOffload :: string
  oOffloadDevices :: "string list"
  oCollectDomainZones :: bool
  oNDMPolicies :: "(string \<times> 32 word) list"
  oLower :: "string \<Rightarrow> string"

definition withDefaults :: "Options \<Rightarrow> Options" where
  "withDefaults o1 =
    o1\<lparr>oTable := (if oTable o1 = '''' then ''wayhop_pbr'' else oTable o1),
      oMarkMask := (if oMarkMask o1 = 0 then 0x00ff0000 else oMarkMask o1),
      oMarkStep := (if oMarkStep o1 = 0 then 0x00010000 else oMarkStep o1),
      oTableBase := (if oTableBase o1 = 0 then 151 else oTableBase o1),
      oWANTable := (if oWANTable o1 = 0 then 254 else oWANTable o1),
      oRulePref := (if oRulePref o1 = 0 then 150 else oRulePref o1)\<rparr>"

section \<open>Endpoints\<close>

definition kernelIface :: "Endpoint \<Rightarrow> string" where
  "kernelIface e =
    (case epEngine e of
       EngineExternal \<Rightarrow> param_string e ''interface''
     | EngineAmneziaWG \<Rightarrow> AWGIface (epID e)
     | _ \<Rightarrow> '''')"

definition isExternalEndpoint :: "Profile \<Rightarrow> id \<Rightarrow> bool" where
  "isExternalEndpoint p tag \<longleftrightarrow> (case EndpointByID p tag of None \<Rightarrow> False | Some e \<Rightarrow> epEngine e = EngineExternal)"

definition string_items :: "param \<Rightarrow> string list" where
  "string_items v = (case v of
     PStrs ss \<Rightarrow> ss
   | PAny xs \<Rightarrow> List.map_filter (\<lambda>x. case x of PStr s \<Rightarrow> Some s | _ \<Rightarrow> None) xs
   | _ \<Rightarrow> [])"

text \<open>\<open>(known, hasV6)\<close>\<close>

definition localAddrDeclaresV6 :: "Endpoint \<Rightarrow> bool \<times> bool" where
  "localAddrDeclaresV6 e =
    (case map_of (epParams e) ''local_address'' of
       None \<Rightarrow> (False, False)
     | Some raw \<Rightarrow>
        (let addrs = string_items raw
         in if addrs = [] then (False, False)
            else (True, list_ex (contains_char (CHR '':'')) addrs)))"

definition egressV4OnlyPosture :: "Profile \<Rightarrow> id \<Rightarrow> bool" where
  "egressV4OnlyPosture p tag =
    (if isExternalEndpoint p tag then True
     else (case EndpointByID p tag of
             None \<Rightarrow> False
           | Some e \<Rightarrow>
              if epEngine e \<noteq> EngineAmneziaWG then False
              else (case localAddrDeclaresV6 e of (known, hasV6) \<Rightarrow> known \<and> \<not> hasV6)))"

definition NDMPolicyPrefix :: string where "NDMPolicyPrefix = ''ndm-policy:''"

definition NDMPolicyName :: "id \<Rightarrow> string option" where
  "NDMPolicyName outbound = CutPrefix outbound NDMPolicyPrefix"

section \<open>Resolving an outbound\<close>

text \<open>
  The recursive walk over a group's members with its shared visited set: the first kernel interface, or
  the empty string, and the groups visited so far.
\<close>

function walk_members :: "Profile \<Rightarrow> id list \<Rightarrow> id list \<Rightarrow> string \<times> id list" where
  "walk_members p [] seen = ('''', seen)"
| "walk_members p (m # ms) seen =
     (case EndpointByID p m of
        Some me \<Rightarrow> if kernelIface me \<noteq> '''' then (kernelIface me, seen) else walk_members p ms seen
      | None \<Rightarrow>
         (case GroupByID p m of
            None \<Rightarrow> walk_members p ms seen
          | Some g \<Rightarrow>
             if m \<in> set seen then walk_members p ms seen
             else (case walk_members p (grMembers g) (m # seen) of
                     (ifc, seen') \<Rightarrow> if ifc \<noteq> '''' then (ifc, seen') else walk_members p ms seen')))"
  by pat_completeness auto

lemma walk_dom_seen:
  "walk_members_dom (p, ms, seen) \<Longrightarrow> set seen \<subseteq> set (snd (walk_members p ms seen))"
proof (induction p ms seen rule: walk_members.pinduct)
  case (1 p seen)
  then show ?case by (simp add: walk_members.psimps)
next
  case (2 p m ms seen)
  show ?case
  proof (cases "EndpointByID p m")
    case (Some me)
    then show ?thesis using 2 by (auto simp: walk_members.psimps)
  next
    case None
    show ?thesis
    proof (cases "GroupByID p m")
      case gn: None
      then show ?thesis using 2 None by (auto simp: walk_members.psimps)
    next
      case (Some g)
      show ?thesis
      proof (cases "m \<in> set seen")
        case True
        then show ?thesis using 2 None Some by (auto simp: walk_members.psimps)
      next
        case False
        obtain ifc seen' where w: "walk_members p (grMembers g) (m # seen) = (ifc, seen')" by fastforce
        have "set (m # seen) \<subseteq> set seen'" using 2(2-6) None Some False w by (metis snd_conv)
        moreover have "ifc = '''' \<Longrightarrow> set seen' \<subseteq> set (snd (walk_members p ms seen'))"
          using 2(2-6) None Some False w by metis
        ultimately show ?thesis using 2(1) None Some False w by (auto simp: walk_members.psimps)
      qed
    qed
  qed
qed

definition unseen :: "Profile \<Rightarrow> id list \<Rightarrow> nat" where
  "unseen p seen = card (set (map grID (prGroups p)) - set seen)"

lemma unseen_mono: "set seen \<subseteq> set seen' \<Longrightarrow> unseen p seen' \<le> unseen p seen"
  unfolding unseen_def by (rule card_mono) auto

lemma unseen_less: "GroupByID p m = Some g \<Longrightarrow> m \<notin> set seen \<Longrightarrow> unseen p (m # seen) < unseen p seen"
  unfolding unseen_def by (rule psubset_card_mono) (auto dest: GroupByID_Some)

lemma unseen_after:
  assumes "walk_members_dom (p, ms, m # seen)" "(ifc, seen') = walk_members p ms (m # seen)"
  shows "unseen p seen' \<le> unseen p seen"
proof -
  have "set (m # seen) \<subseteq> set seen'" using walk_dom_seen[OF assms(1)] assms(2) by (metis snd_conv)
  then show ?thesis by (intro unseen_mono) auto
qed

termination walk_members
  by (relation "measures [\<lambda>(p, ms, seen). unseen p seen, \<lambda>(p, ms, seen). length ms]")
    (auto simp: unseen_less dest: unseen_after)

definition walk :: "Profile \<Rightarrow> Group \<Rightarrow> string" where
  "walk p g = fst (walk_members p (grMembers g) [grID g])"

definition resolveEgress :: "Options \<Rightarrow> Profile \<Rightarrow> id \<Rightarrow> (EgressKind \<times> string) option \<times> wmsg list" where
  "resolveEgress opt p tag =
    (if tag = OutboundDirect \<or> tag = '''' then (Some (EgressWAN, ''''), [])
     else if tag = OutboundBlock then (Some (EgressBlackhole, ''''), [])
     else (case NDMPolicyName tag of
             Some name \<Rightarrow>
               if map_of (oNDMPolicies opt) name \<noteq> None then (Some (EgressNDMPolicy, ''''), [])
               else (None, [WUnknownPolicy name])
           | None \<Rightarrow>
              (case EndpointByID p tag of
                 Some e \<Rightarrow>
                   if kernelIface e \<noteq> '''' then (Some (EgressInterface, kernelIface e), [])
                   else (None, [WProxyEndpoint tag])
               | None \<Rightarrow>
                  (case GroupByID p tag of
                     Some g \<Rightarrow>
                       if walk p g \<noteq> '''' then (Some (EgressInterface, walk p g), [])
                       else (None, [WGroupNoKernel tag])
                   | None \<Rightarrow> (None, [WUnknownOutbound tag])))))"

section \<open>Adding a zone\<close>

record srcSpec =
  ssCidrs :: "string list"
  ssMac :: "string list"
  ssIface :: "string list"
  ssPort :: "int list"

record CState =
  csZones :: "Zone list"
  csWarns :: "Warning list"
  csUsed :: "id list" \<comment> \<open>usedEgress\<close>
  csNames :: "string list" \<comment> \<open>usedNames\<close>

definition warn :: "string \<Rightarrow> wmsg list \<Rightarrow> CState \<Rightarrow> CState" where
  "warn scope msgs st = st\<lparr>csWarns := csWarns st @ map (\<lambda>m. \<lparr>wScope = scope, wMsg = m\<rparr>) msgs\<rparr>"

definition suffixed :: "string \<Rightarrow> nat \<Rightarrow> string" where
  "suffixed base i = base @ ''_'' @ dec i"

lemma digit_val_hex: "d < 10 \<Longrightarrow> digit_val (hex_digit d) = Some d"
  by (auto simp: less_Suc_eq numeral_eq_Suc hex_digit_def hexDigits_def digit_val_def Let_def)

lemma dec_nonempty: "dec n \<noteq> []"
  by (subst dec.simps) simp

lemma atoi_dec: "atoi (dec n) = Some n"
proof -
  let ?f = "\<lambda>acc c. case (acc, digit_val c) of (Some n, Some d) \<Rightarrow> Some (n * 10 + d) | _ \<Rightarrow> None"
  have "foldl ?f (Some 0) (dec n) = Some n"
  proof (induction n rule: dec.induct)
    case (1 n)
    show ?case
    proof (cases "n < 10")
      case True
      then show ?thesis by (subst dec.simps) (simp add: digit_val_hex)
    next
      case False
      then show ?thesis using 1 by (subst dec.simps) (simp add: digit_val_hex)
    qed
  qed
  then show ?thesis by (simp add: atoi_def dec_nonempty)
qed

lemma suffixed_inj: "suffixed base i = suffixed base j \<longleftrightarrow> i = j"
  by (metis atoi_dec option.inject same_append_eq suffixed_def)

function next_free :: "string list \<Rightarrow> string \<Rightarrow> nat \<Rightarrow> string" where
  "next_free used base i = (if suffixed base i \<in> set used then next_free used base (Suc i) else suffixed base i)"
  by pat_completeness auto
termination
proof (relation "measure (\<lambda>(used, base, i). card {j. i \<le> j \<and> suffixed base j \<in> set used})")
  fix used base i
  assume u: "suffixed base i \<in> set used"
  have fin: "finite {j. i \<le> j \<and> suffixed base j \<in> set used}"
  proof (rule finite_subset)
    show "{j. i \<le> j \<and> suffixed base j \<in> set used} \<subseteq> suffixed base -` set used" by auto
    show "finite (suffixed base -` set used)" by (rule finite_vimageI) (auto simp: inj_def suffixed_inj)
  qed
  have "{j. Suc i \<le> j \<and> suffixed base j \<in> set used} \<subset> {j. i \<le> j \<and> suffixed base j \<in> set used}"
  proof (rule psubsetI)
    have "i \<in> {j. i \<le> j \<and> suffixed base j \<in> set used}" using u by simp
    then show "{j. Suc i \<le> j \<and> suffixed base j \<in> set used} \<noteq> {j. i \<le> j \<and> suffixed base j \<in> set used}"
      by (metis (mono_tags, lifting) mem_Collect_eq not_less_eq_eq order_refl)
  qed auto
  then show "((used, base, Suc i), used, base, i) \<in> measure (\<lambda>(used, base, i). card {j. i \<le> j \<and> suffixed base j \<in> set used})"
    using psubset_card_mono[OF fin] by simp
qed simp

declare next_free.simps [simp del]

lemma next_free_fresh: "next_free used base i \<notin> set used"
  by (induction used base i rule: next_free.induct) (subst next_free.simps, simp)

definition zone_src :: "srcSpec option \<Rightarrow> string list \<times> string list \<times> bool" where
  "zone_src src =
    (case src of
       None \<Rightarrow> ([], [], False)
     | Some s \<Rightarrow>
        (case classifyCIDRs (ssCidrs s) of (sv4, sv6, _) \<Rightarrow>
           (sv4, sv6, sv4 \<noteq> [] \<or> sv6 \<noteq> [] \<or> ssMac s \<noteq> [] \<or> ssIface s \<noteq> [] \<or> ssPort s \<noteq> [])))"

definition new_zone :: "string \<Rightarrow> id \<Rightarrow> string list \<Rightarrow> string list \<Rightarrow> string list \<Rightarrow> srcSpec option \<Rightarrow> bool \<Rightarrow> Zone" where
  "new_zone name tag v4 v6 domains src negate =
    (let z = \<lparr>zName = name, zEgressTag = tag, zMark = 0, zV4 = v4, zV6 = v6, zDomains = domains,
           zSrcV4 = [], zSrcV6 = [], zSrcMAC = [], zSrcIface = [], zSrcPort = [], zSrcScoped = False,
           zSrcNegate = False, zNDMPolicy = (case NDMPolicyName tag of Some n \<Rightarrow> n | None \<Rightarrow> ''''), zNDMMark = 0\<rparr>
     in case src of
          None \<Rightarrow> z
        | Some s \<Rightarrow>
           (case zone_src src of (sv4, sv6, srcScoped) \<Rightarrow>
              if srcScoped
              then z\<lparr>zSrcV4 := sv4, zSrcV6 := sv6, zSrcMAC := canonicalMACs (ssMac s), zSrcIface := ssIface s,
                     zSrcPort := ssPort s, zSrcScoped := True, zSrcNegate := negate\<rparr>
              else z))"

text \<open>The tail of \<open>addZone\<close>, past its early returns: pick a free name, record the egress, append the zone.\<close>

definition push_zone :: "string \<Rightarrow> id \<Rightarrow> string list \<Rightarrow> string list \<Rightarrow> string list \<Rightarrow> srcSpec option \<Rightarrow> bool \<Rightarrow> string \<Rightarrow> CState \<Rightarrow> CState" where
  "push_zone name tag v4 v6 domains src negate scope st =
    (let taken = name \<in> set (csNames st);
         name' = (if taken then next_free (csNames st) name 2 else name);
         st1 = (if taken then warn scope [WRenamed name'] st else st)
     in st1\<lparr>csNames := name' # csNames st1,
            csUsed := (case NDMPolicyName tag of Some n \<Rightarrow> csUsed st1 | None \<Rightarrow> tag # csUsed st1),
            csZones := csZones st1 @ [new_zone name' tag v4 v6 domains src negate]\<rparr>)"

definition addZone :: "Options \<Rightarrow> string \<Rightarrow> id \<Rightarrow> string list \<Rightarrow> srcSpec option \<Rightarrow> bool \<Rightarrow> string \<Rightarrow> CState \<Rightarrow> CState" where
  "addZone opt name tag cidrs src negate scope st =
    (case classifyCIDRs cidrs of (v4, v6, bad) \<Rightarrow>
      (let srcScoped = snd (snd (zone_src src));
           domains = (if oCollectDomainZones opt then normalizeDomains (oLower opt) bad else []);
           st1 = (if oCollectDomainZones opt then st else warn scope (map WNonIP bad) st)
       in if cidrs \<noteq> [] \<and> v4 = [] \<and> v6 = [] \<and> domains = [] then st1
          else if v4 = [] \<and> v6 = [] \<and> domains = [] \<and> \<not> srcScoped then st1
          else push_zone name tag v4 v6 domains src negate scope st1))"

section \<open>Rules and routing lists\<close>

definition hasNonBlank :: "string list \<Rightarrow> bool" where
  "hasNonBlank ss \<longleftrightarrow> list_ex (\<lambda>s. TrimSpace s \<noteq> '''') ss"

definition HasSourceMatcher :: "Rule \<Rightarrow> bool" where
  "HasSourceMatcher r \<longleftrightarrow> hasNonBlank (ruSourceIPCIDR r) \<or> hasNonBlank (ruSourceMAC r)
     \<or> hasNonBlank (ruSourceIface r) \<or> ruSourcePort r \<noteq> []"

definition v4_part :: "string list \<Rightarrow> string list" where
  "v4_part cidrs = fst (classifyCIDRs cidrs)"

definition rule_zone :: "Options \<Rightarrow> Profile \<Rightarrow> Rule \<Rightarrow> EgressKind \<Rightarrow> CState \<Rightarrow> CState" where
  "rule_zone opt p r k st =
    (let strip = (k = EgressInterface \<and> egressV4OnlyPosture p (ruOutbound r));
         cidrs = (if strip then v4_part (ruIPCIDR r) else ruIPCIDR r);
         srcs = (if strip then v4_part (ruSourceIPCIDR r) else ruSourceIPCIDR r)
     in if ruIPCIDR r \<noteq> [] \<and> cidrs = [] then st
        else
          (let src = (if HasSourceMatcher r
                      then Some \<lparr>ssCidrs = srcs, ssMac = ruSourceMAC r, ssIface = ruSourceIface r, ssPort = ruSourcePort r\<rparr>
                      else None)
           in if cidrs \<noteq> [] \<or> src \<noteq> None
              then addZone opt (''rule_'' @ nftName (ruID r)) (ruOutbound r) cidrs src False (ruID r) st
              else st))"

definition compile_rule :: "Options \<Rightarrow> Profile \<Rightarrow> CState \<Rightarrow> Rule \<Rightarrow> CState" where
  "compile_rule opt p st r =
    (if ruDisabled r then st
     else if ruDefault r then st
     else if NDMPolicyName (ruOutbound r) \<noteq> None then warn (ruID r) [WRulePolicy] st
     else
       (let named = ruDomain r \<noteq> [] \<or> ruDomainSuffix r \<noteq> [] \<or> ruGeoSite r \<noteq> [];
            st1 = (if named then warn (ruID r) [WRuleDomain] st else st);
            st2 = (if ruGeoIP r \<noteq> [] then warn (ruID r) [WRuleGeoIP] st1 else st1)
        in if ruIPCIDR r = [] \<and> (named \<or> ruGeoIP r \<noteq> []) then st2
           else if ruIPCIDR r = [] \<and> \<not> HasSourceMatcher r then st2
           else (case resolveEgress opt p (ruOutbound r) of
                   (res, ws) \<Rightarrow>
                     (let st3 = warn (ruID r) ws st2
                      in case res of None \<Rightarrow> st3 | Some (k, ifc) \<Rightarrow> rule_zone opt p r k st3))))"

definition devGroupByID :: "Profile \<Rightarrow> id \<Rightarrow> DeviceGroup option" where
  "devGroupByID p = map_of (rev (map (\<lambda>g. (dgID g, g)) (prDeviceGroups p)))"

definition scopeMembers :: "Profile \<Rightarrow> RoutingList \<Rightarrow> string list \<times> string list" where
  "scopeMembers p rl =
    (let ms = concat (map (\<lambda>gid. case devGroupByID p gid of None \<Rightarrow> [] | Some g \<Rightarrow> dgMembers g) (rlScopeGroups rl))
     in (filter (\<lambda>s. s \<noteq> '''') (map (\<lambda>m. TrimSpace (dmMAC m)) ms), filter (\<lambda>s. s \<noteq> '''') (map (\<lambda>m. TrimSpace (dmIP m)) ms)))"

datatype scopeKind = ScopeAll | ScopeOnly | ScopeExcept

definition list_zones :: "Options \<Rightarrow> Profile \<Rightarrow> RoutingList \<Rightarrow> string list \<Rightarrow> scopeKind \<Rightarrow> string list \<Rightarrow> string list \<Rightarrow> CState \<Rightarrow> CState" where
  "list_zones opt p rl cidrList kind scopeMAC scopeIP st =
    (let base = ''list_'' @ nftName (rlID rl); none = \<lparr>ssCidrs = [], ssMac = [], ssIface = [], ssPort = []\<rparr>
     in case kind of
          ScopeOnly \<Rightarrow>
            (let st1 = (if scopeMAC \<noteq> [] then addZone opt (base @ ''_dm'') (rlOutbound rl) cidrList (Some (none\<lparr>ssMac := scopeMAC\<rparr>)) False (rlID rl) st else st)
             in if scopeIP \<noteq> [] then addZone opt (base @ ''_di'') (rlOutbound rl) cidrList (Some (none\<lparr>ssCidrs := scopeIP\<rparr>)) False (rlID rl) st1 else st1)
        | ScopeExcept \<Rightarrow> addZone opt base (rlOutbound rl) cidrList (Some (none\<lparr>ssMac := scopeMAC, ssCidrs := scopeIP\<rparr>)) True (rlID rl) st
        | ScopeAll \<Rightarrow> addZone opt base (rlOutbound rl) cidrList None False (rlID rl) st)"

definition list_routes :: "Options \<Rightarrow> Profile \<Rightarrow> RoutingList \<Rightarrow> string list \<Rightarrow> scopeKind \<Rightarrow> string list \<Rightarrow> string list \<Rightarrow> CState \<Rightarrow> CState" where
  "list_routes opt p rl cidrs kind scopeMAC scopeIP st =
    (case resolveEgress opt p (rlOutbound rl) of
       (res, ws) \<Rightarrow>
         (let st1 = warn (rlID rl) ws st
          in case res of
               None \<Rightarrow> st1
             | Some (k, ifc) \<Rightarrow>
                (let cidrList = (if k = EgressInterface \<and> egressV4OnlyPosture p (rlOutbound rl)
                                 then (case classifyCIDRs cidrs of (v4only, _, names) \<Rightarrow>
                                         if oCollectDomainZones opt then v4only @ names else v4only)
                                 else cidrs)
                 in if cidrList = [] then st1 else list_zones opt p rl cidrList kind scopeMAC scopeIP st1)))"

definition compile_list :: "Options \<Rightarrow> Profile \<Rightarrow> CState \<Rightarrow> RoutingList \<Rightarrow> CState" where
  "compile_list opt p st rl =
    (if \<not> rlEnabled rl then st
     else
       (let st1 = (if rlSource rl \<noteq> '''' then warn (rlID rl) [WRemoteSet (rlSource rl)] st else st);
            cidrs = rlManual rl @ rlCIDRCache rl @ rlDomainCache rl;
            (macs, ips) = scopeMembers p rl
        in if cidrs = [] then st1
           else if rlScopeMode rl = ''only'' then
             (if macs = [] \<and> ips = [] then warn (rlID rl) [WScopeEmpty] st1
              else list_routes opt p rl cidrs ScopeOnly macs ips st1)
           else if rlScopeMode rl = ''except'' \<and> (macs \<noteq> [] \<or> ips \<noteq> []) then
             list_routes opt p rl cidrs ScopeExcept macs ips st1
           else list_routes opt p rl cidrs ScopeAll [] [] st1))"


section \<open>Marks, tables and order\<close>

definition bypass_addrs :: "Profile \<Rightarrow> string list" where
  "bypass_addrs p = concat (map (\<lambda>e.
     (if epServer e \<noteq> '''' then [epServer e] else [])
     @ (if param_string e ''endpoint_ip'' \<noteq> '''' then [param_string e ''endpoint_ip''] else []))
     (filter (\<lambda>e. epEnabled e \<and> kernelIface e \<noteq> '''') (prEndpoints p)))"

fun dedup :: "string list \<Rightarrow> string list \<Rightarrow> string list" where
  "dedup seen [] = []"
| "dedup seen (x # xs) = (if x \<in> set seen then dedup seen xs else x # dedup (x # seen) xs)"

definition masq_ifaces :: "Profile \<Rightarrow> string list" where
  "masq_ifaces p = dedup [] (filter (\<lambda>i. i \<noteq> '''') (map kernelIface (filter epEnabled (prEndpoints p))))"

definition other_tags :: "id list \<Rightarrow> id list" where
  "other_tags used = sort (remdups (filter (\<lambda>t. t \<noteq> OutboundDirect) used))"

definition wan_egress :: "Options \<Rightarrow> Egress" where
  "wan_egress opt = \<lparr>egTag = OutboundDirect, egKind = EgressWAN, egIface = '''', egMark = oMarkStep opt,
     egTable = oWANTable opt, egFailClosed = False\<rparr>"

definition tag_egress :: "Options \<Rightarrow> Profile \<Rightarrow> nat \<times> id \<Rightarrow> Egress" where
  "tag_egress opt p it =
    (case it of (i, tag) \<Rightarrow>
      (case (case fst (resolveEgress opt p tag) of None \<Rightarrow> (EgressNone, '''') | Some ki \<Rightarrow> ki) of
         (k, ifc) \<Rightarrow>
           \<lparr>egTag = tag, egKind = k, egIface = ifc, egMark = of_nat (i + 2) * oMarkStep opt,
             egTable = oTableBase opt + int i,
             egFailClosed = (k = EgressInterface \<and> (case GroupByID p tag of None \<Rightarrow> False | Some g \<Rightarrow> grKillSwitch g))\<rparr>))"

definition egresses :: "Options \<Rightarrow> Profile \<Rightarrow> id list \<Rightarrow> Egress list" where
  "egresses opt p used = wan_egress opt # map (tag_egress opt p) (enumerate 0 (other_tags used))"

definition mark_of :: "Egress list \<Rightarrow> id \<Rightarrow> 32 word" where
  "mark_of egs tag = (case map_of (rev (map (\<lambda>e. (egTag e, egMark e)) egs)) tag of None \<Rightarrow> 0 | Some m \<Rightarrow> m)"

definition kind_of :: "Egress list \<Rightarrow> id \<Rightarrow> EgressKind" where
  "kind_of egs tag = (case map_of (rev (map (\<lambda>e. (egTag e, egKind e)) egs)) tag of None \<Rightarrow> EgressNone | Some k \<Rightarrow> k)"

definition policies_of :: "Zone list \<Rightarrow> string list" where
  "policies_of zones = sort (remdups (filter (\<lambda>n. n \<noteq> '''') (map zNDMPolicy zones)))"

definition slot_of :: "Options \<Rightarrow> nat \<Rightarrow> Zone list \<Rightarrow> string \<Rightarrow> 32 word" where
  "slot_of opt nEgress zones name =
    (case map_of (map (\<lambda>(i, n). (n, of_nat (nEgress + 1 + i) * oMarkStep opt)) (enumerate 0 (policies_of zones))) name of
       None \<Rightarrow> 0 | Some m \<Rightarrow> m)"

definition mark_zone :: "Options \<Rightarrow> Egress list \<Rightarrow> Zone list \<Rightarrow> Zone \<Rightarrow> Zone" where
  "mark_zone opt egs zones z =
    (if zNDMPolicy z \<noteq> ''''
     then z\<lparr>zMark := slot_of opt (length egs) zones (zNDMPolicy z),
            zNDMMark := (case map_of (oNDMPolicies opt) (zNDMPolicy z) of None \<Rightarrow> 0 | Some m \<Rightarrow> m)\<rparr>
     else z\<lparr>zMark := mark_of egs (zEgressTag z)\<rparr>)"

definition orderZonesForEmit :: "(id \<Rightarrow> EgressKind) \<Rightarrow> Zone list \<Rightarrow> Zone list" where
  "orderZonesForEmit kind zones = sort_key (\<lambda>z. (kind (zEgressTag z) = EgressBlackhole, zName z)) zones"

definition alnum :: "char \<Rightarrow> bool" where
  "alnum c \<longleftrightarrow> ident_char c \<and> c \<noteq> CHR ''_''"

definition validOffloadDev :: "string \<Rightarrow> bool" where
  "validOffloadDev s \<longleftrightarrow> s \<noteq> [] \<and> alnum (hd s) \<and> length s \<le> 15
     \<and> list_all (\<lambda>c. alnum c \<or> c \<in> {CHR ''.'', CHR ''_'', CHR ''-''}) (tl s)"

definition compile_offload :: "Options \<Rightarrow> Flowtable option \<times> wmsg list" where
  "compile_offload opt =
    (if oOffload opt \<in> {''sw'', ''hw''} then
       (if oOffloadDevices opt = [] then (None, [WOffloadNoDevices])
        else
          (let devs = filter validOffloadDev (oOffloadDevices opt);
               ws = map WOffloadBadDevice (filter (\<lambda>d. \<not> validOffloadDev d) (oOffloadDevices opt))
           in if devs = [] then (None, ws @ [WOffloadNoValid])
              else (Some \<lparr>ftDevices = sort devs, ftHW = (oOffload opt = ''hw'')\<rparr>, ws)))
     else if oOffload opt \<in> {'''', ''off''} then (None, [])
     else (None, [WOffloadMode (oOffload opt)]))"

definition compile_zones :: "Options \<Rightarrow> Profile \<Rightarrow> CState" where
  "compile_zones opt p =
    foldl (compile_list opt p)
      (foldl (compile_rule opt p) \<lparr>csZones = [], csWarns = [], csUsed = [], csNames = []\<rparr> (prRules p))
      (prRoutingLists p)"

definition compile_plan :: "Options \<Rightarrow> Profile \<Rightarrow> Plan \<times> Warning list" where
  "compile_plan opt p =
    (let st = compile_zones opt p;
         egs = egresses opt p (csUsed st);
         rews = concat (map (\<lambda>tag. map (\<lambda>m. \<lparr>wScope = tag, wMsg = m\<rparr>) (snd (resolveEgress opt p tag))) (other_tags (csUsed st)));
         zones = map (mark_zone opt egs (csZones st)) (csZones st);
         (byp4, byp6, _) = classifyCIDRs (bypass_addrs p);
         (ft, fws) = compile_offload opt
     in (\<lparr>plTable = oTable opt, plMask = oMarkMask opt, plEgresses = egs,
          plZones = orderZonesForEmit (kind_of egs) zones, plBypassV4 = byp4, plBypassV6 = byp6,
          plFlowtable = ft, plMasqIfaces = masq_ifaces p\<rparr>,
         csWarns st @ rews @ map (\<lambda>m. \<lparr>wScope = ''offload'', wMsg = m\<rparr>) fws))"

definition Compile :: "Profile option \<Rightarrow> Options \<Rightarrow> string + Plan \<times> Warning list" where
  "Compile po opt0 =
    (let opt = withDefaults opt0
     in case po of None \<Rightarrow> Inl ''nil profile'' | Some p \<Rightarrow> Inr (compile_plan opt p))"

record NDMPolicySlot =
  nsName :: string
  nsSlot :: "32 word"
  nsMark :: "32 word"

fun policy_slots :: "string list \<Rightarrow> Zone list \<Rightarrow> NDMPolicySlot list" where
  "policy_slots seen [] = []"
| "policy_slots seen (z # zs) =
     (if zNDMPolicy z = '''' \<or> zNDMPolicy z \<in> set seen then policy_slots seen zs
      else \<lparr>nsName = zNDMPolicy z, nsSlot = zMark z, nsMark = zNDMMark z\<rparr> # policy_slots (zNDMPolicy z # seen) zs)"

definition NDMPolicySlots :: "Plan \<Rightarrow> NDMPolicySlot list" where
  "NDMPolicySlots pl = sort_key nsSlot (policy_slots [] (plZones pl))"

end
