(* ===== verification/PBR_Plan.thy ===== *)
theory PBR_Plan
  imports PBR_Compile
begin

text \<open>
  Properties of the compiled routing plan: which interface an outbound resolves to, what can become a
  zone, names, marks, order, and the cases in which the compiler widens a rule.
\<close>

section \<open>Resolution through groups\<close>

inductive member_reach :: "Profile \<Rightarrow> id \<Rightarrow> Endpoint \<Rightarrow> bool" for p where
  endpoint: "EndpointByID p m = Some e \<Longrightarrow> member_reach p m e"
| group: "EndpointByID p m = None \<Longrightarrow> GroupByID p m = Some g \<Longrightarrow> m' \<in> set (grMembers g)
    \<Longrightarrow> member_reach p m' e \<Longrightarrow> member_reach p m e"

text \<open>A member that the walk has dealt with: no kernel endpoint, or a group it has entered.\<close>

definition dealt :: "Profile \<Rightarrow> id list \<Rightarrow> id \<Rightarrow> bool" where
  "dealt p seen m \<longleftrightarrow> (case EndpointByID p m of
      Some e \<Rightarrow> kernelIface e = '''' | None \<Rightarrow> GroupByID p m = None \<or> m \<in> set seen)"

lemma dealt_mono: "dealt p seen m \<Longrightarrow> set seen \<subseteq> set seen' \<Longrightarrow> dealt p seen' m"
  by (auto simp: dealt_def split: option.splits)

definition explored :: "Profile \<Rightarrow> id list \<Rightarrow> id list \<Rightarrow> bool" where
  "explored p seen seen' \<longleftrightarrow> set seen \<subseteq> set seen' \<and> (\<forall>i\<in>set seen' - set seen. \<forall>g. GroupByID p i = Some g
      \<longrightarrow> (\<forall>m\<in>set (grMembers g). dealt p seen' m))"

lemma explored_trans: "explored p a b \<Longrightarrow> explored p b c \<Longrightarrow> explored p a c"
  unfolding explored_def by (blast intro: dealt_mono)

lemma walk_found:
  "walk_members p ms seen = (ifc, seen') \<Longrightarrow> ifc \<noteq> '''' \<Longrightarrow>
     \<exists>m\<in>set ms. \<exists>e. member_reach p m e \<and> kernelIface e = ifc"
proof (induction p ms seen arbitrary: ifc seen' rule: walk_members.induct)
  case (1 p seen)
  then show ?case by simp
next
  case (2 p m ms seen)
  show ?case
  proof (cases "EndpointByID p m")
    case (Some me)
    show ?thesis
    proof (cases "kernelIface me = ''''")
      case True
      then have "walk_members p ms seen = (ifc, seen')" using 2(6) Some by simp
      then show ?thesis using 2(5)[OF Some] True 2(7) by auto
    next
      case False
      then have "ifc = kernelIface me" using 2(6) Some by simp
      then show ?thesis using Some member_reach.endpoint[OF Some] by auto
    qed
  next
    case None
    show ?thesis
    proof (cases "GroupByID p m")
      case gn: None
      then have "walk_members p ms seen = (ifc, seen')" using 2(6) None by simp
      then show ?thesis using 2(1)[OF None gn] 2(7) by auto
    next
      case (Some g)
      show ?thesis
      proof (cases "m \<in> set seen")
        case True
        then have "walk_members p ms seen = (ifc, seen')" using 2(6) None Some by simp
        then show ?thesis using 2(2)[OF None Some True] 2(7) by auto
      next
        case False
        obtain ifc1 seen1 where w: "walk_members p (grMembers g) (m # seen) = (ifc1, seen1)" by fastforce
        show ?thesis
        proof (cases "ifc1 = ''''")
          case True
          then have "walk_members p ms seen1 = (ifc, seen')" using 2(6) None Some False w by simp
          then show ?thesis using 2(4)[OF None Some False w[symmetric]] True 2(7) by auto
        next
          case ne: False
          then have "ifc = ifc1" using 2(6) None Some False w by simp
          then show ?thesis
            using 2(3)[OF None Some False w] ne member_reach.group[OF None Some] by auto
        qed
      qed
    qed
  qed
qed

lemma walk_exhausts:
  "walk_members p ms seen = ('''', seen') \<Longrightarrow> explored p seen seen' \<and> (\<forall>m\<in>set ms. dealt p seen' m)"
proof (induction p ms seen arbitrary: seen' rule: walk_members.induct)
  case (1 p seen)
  then show ?case by (simp add: explored_def)
next
  case (2 p m ms seen)
  have cont: "explored p seen seen' \<and> (\<forall>m\<in>set (m # ms). dealt p seen' m)"
    if "explored p seen seen1 \<and> dealt p seen1 m" and "explored p seen1 seen' \<and> (\<forall>m\<in>set ms. dealt p seen' m)" for seen1
  proof -
    have "set seen1 \<subseteq> set seen'" using that by (simp add: explored_def)
    then show ?thesis using that dealt_mono explored_trans by auto
  qed
  have refl: "explored p seen seen" by (simp add: explored_def)
  show ?case
  proof (cases "EndpointByID p m")
    case (Some me)
    then have k: "kernelIface me = ''''" and w: "walk_members p ms seen = ('''', seen')"
      using 2(6) by (auto split: if_splits)
    show ?thesis using cont[of seen] refl 2(5)[OF Some] k w Some by (auto simp: dealt_def)
  next
    case None
    show ?thesis
    proof (cases "GroupByID p m")
      case gn: None
      then have w: "walk_members p ms seen = ('''', seen')" using 2(6) None by simp
      show ?thesis using cont[of seen] refl 2(1)[OF None gn w] None gn by (auto simp: dealt_def)
    next
      case (Some g)
      show ?thesis
      proof (cases "m \<in> set seen")
        case True
        then have w: "walk_members p ms seen = ('''', seen')" using 2(6) None Some by simp
        show ?thesis using cont[of seen] refl 2(2)[OF None Some True w] None True by (auto simp: dealt_def)
      next
        case False
        obtain ifc1 seen1 where w: "walk_members p (grMembers g) (m # seen) = (ifc1, seen1)" by fastforce
        have e: "ifc1 = ''''" and w2: "walk_members p ms seen1 = ('''', seen')"
          using 2(6) None Some False w by (auto split: if_splits)
        have in1: "explored p (m # seen) seen1" "\<forall>m\<in>set (grMembers g). dealt p seen1 m"
          using 2(3)[OF None Some False] w e by auto
        have sub: "set (m # seen) \<subseteq> set seen1" using in1(1) by (simp add: explored_def)
        have "dealt p seen1 m'" if "i \<in> set seen1 - set seen" "GroupByID p i = Some h" "m' \<in> set (grMembers h)" for i h m'
          using that in1 Some by (cases "i = m") (auto simp: explored_def)
        then have "explored p seen seen1" using sub by (auto simp: explored_def)
        moreover have "dealt p seen1 m" using None sub by (simp add: dealt_def)
        ultimately show ?thesis
          using cont[of seen1] 2(4)[OF None Some False w[symmetric] _ w2] e by simp
      qed
    qed
  qed
qed

lemma member_reach_group: "GroupByID p i = Some g \<Longrightarrow> EndpointByID p i = None \<Longrightarrow> member_reach p i e \<Longrightarrow>
    \<exists>m\<in>set (grMembers g). member_reach p m e"
  by (erule member_reach.cases) auto

lemma walk_complete:
  assumes none: "walk p g = ''''" and g: "GroupByID p (grID g) = Some g"
    and m: "m \<in> set (grMembers g)" and r: "member_reach p m e"
  shows "kernelIface e = ''''"
proof -
  obtain seen' where w: "walk_members p (grMembers g) [grID g] = ('''', seen')"
    using none by (metis walk_def prod.exhaust_sel)
  have ex: "explored p [grID g] seen'" "\<forall>m\<in>set (grMembers g). dealt p seen' m" using walk_exhausts[OF w] by auto
  have all: "\<forall>m\<in>set (grMembers h). dealt p seen' m" if "i \<in> set seen'" "GroupByID p i = Some h" for i h
    using ex g that by (cases "i = grID g") (auto simp: explored_def)
  have "dealt p seen' m \<Longrightarrow> kernelIface e = ''''" using r
  proof (induction rule: member_reach.induct)
    case (endpoint m e)
    then show ?case by (simp add: dealt_def)
  next
    case (group m h m' e)
    then have "m \<in> set seen'" by (simp add: dealt_def)
    then show ?case using all group by blast
  qed
  then show ?thesis using ex(2) m by blast
qed

lemma member_reach_endpoint: "EndpointByID p i = Some e \<Longrightarrow> member_reach p i e' \<longleftrightarrow> e' = e"
  by (auto elim: member_reach.cases intro: member_reach.endpoint)

lemma member_reach_unknown: "EndpointByID p i = None \<Longrightarrow> GroupByID p i = None \<Longrightarrow> \<not> member_reach p i e"
  by (auto elim: member_reach.cases)

lemma GroupByID_self: "GroupByID p i = Some g \<Longrightarrow> GroupByID p (grID g) = Some g"
  using GroupByID_Some by metis

lemma walk_group:
  assumes n: "EndpointByID p tag = None" and g: "GroupByID p tag = Some g"
  shows "walk p g \<noteq> '''' \<longleftrightarrow> (\<exists>e. member_reach p tag e \<and> kernelIface e \<noteq> '''')"
    and "walk p g \<noteq> '''' \<Longrightarrow> \<exists>e. member_reach p tag e \<and> kernelIface e = walk p g"
proof -
  obtain seen' where w: "walk_members p (grMembers g) [grID g] = (walk p g, seen')"
    by (metis walk_def prod.exhaust_sel)
  show f: "\<exists>e. member_reach p tag e \<and> kernelIface e = walk p g" if "walk p g \<noteq> ''''"
    using walk_found[OF w that] member_reach.group[OF n g] by blast
  have "kernelIface e = ''''" if "walk p g = ''''" "member_reach p tag e" for e
    using walk_complete[OF that(1) GroupByID_self[OF g]] member_reach_group[OF g n that(2)] by blast
  then show "walk p g \<noteq> '''' \<longleftrightarrow> (\<exists>e. member_reach p tag e \<and> kernelIface e \<noteq> '''')" using f by metis
qed

lemma resolve_ordinary:
  assumes "tag \<notin> {OutboundDirect, '''', OutboundBlock}" "NDMPolicyName tag = None"
  shows "fst (resolveEgress opt p tag) =
    (case EndpointByID p tag of
       Some e \<Rightarrow> if kernelIface e \<noteq> '''' then Some (EgressInterface, kernelIface e) else None
     | None \<Rightarrow> (case GroupByID p tag of
                 Some g \<Rightarrow> if walk p g \<noteq> '''' then Some (EgressInterface, walk p g) else None
               | None \<Rightarrow> None))"
  using assms by (simp add: resolveEgress_def split: option.splits)

text \<open>C8. Resolution of an outbound is sound and complete. Take an outbound tag that is neither a built-in
  (direct, block, empty) nor an access policy. If it resolves, it resolves to the interface of a kernel
  endpoint that the tag names or reaches through its members, through nested groups; and it fails to
  resolve only when no endpoint reachable that way has a kernel interface. This holds for any group
  graph, cycles and shared members included.
\<close>

theorem outbound_resolution:
  assumes "tag \<notin> {OutboundDirect, '''', OutboundBlock}" "NDMPolicyName tag = None"
  shows "case fst (resolveEgress opt p tag) of
      Some (k, ifc) \<Rightarrow> k = EgressInterface \<and> ifc \<noteq> '''' \<and> (\<exists>e. member_reach p tag e \<and> kernelIface e = ifc)
    | None \<Rightarrow> (\<forall>e. member_reach p tag e \<longrightarrow> kernelIface e = '''')"
proof (cases "EndpointByID p tag")
  case (Some e)
  then show ?thesis using resolve_ordinary[OF assms] by (auto simp: member_reach_endpoint)
next
  case None
  show ?thesis
  proof (cases "GroupByID p tag")
    case gn: None
    then show ?thesis using None resolve_ordinary[OF assms] by (auto simp: member_reach_unknown)
  next
    case (Some g)
    then show ?thesis
      using resolve_ordinary[OF assms] None walk_group[OF None Some] by (auto split: if_splits)
  qed
qed

text \<open>A profile with two groups that contain each other and a tunnel behind the second one.\<close>

definition ex_ep :: "id \<Rightarrow> Engine \<Rightarrow> (string \<times> param) list \<Rightarrow> Endpoint" where
  "ex_ep i en ps = \<lparr>epID = i, epName = '''', epEngine = en, epProtocol = '''', epOwner = '''', epServer = '''', epPort = 0, epParams = ps, epTransport = None, epTLS = None, epMultiplex = None, epHealth = None, epEnabled = True,
     epMTU = 0, epPersistentKeepalive = 0, epAWGUserspace = False, epImport = ''''\<rparr>"

definition ex_gr :: "id \<Rightarrow> id list \<Rightarrow> Group" where
  "ex_gr i ms = \<lparr>grID = i, grName = '''', grType = GroupFallback, grMembers = ms, grTest = None, grKillSwitch = False, grInterruptOnSwitch = False, grManaged = False\<rparr>"

definition ex_rule :: "id \<Rightarrow> string list \<Rightarrow> string list \<Rightarrow> id \<Rightarrow> Rule" where
  "ex_rule i dst src out = \<lparr>ruID = i, ruDomainSuffix = [], ruDomain = [], ruGeoSite = [], ruGeoIP = [], ruIPCIDR = dst, ruPort = [],
     ruSourceIPCIDR = src, ruSourceMAC = [], ruSourceIface = [], ruSourcePort = [], ruDefault = False, ruDisabled = False, ruOutbound = out\<rparr>"

definition ex_profile :: Profile where
  "ex_profile = \<lparr>prEndpoints = [ex_ep ''proxy'' EngineSingBox [], ex_ep ''ext'' EngineExternal [(''interface'', PStr ''awg0'')]],
     prGroups = [ex_gr ''g1'' [''proxy'', ''g2''], ex_gr ''g2'' [''g1'', ''ext'']],
     prRules = [ex_rule ''r'' [''8.8.8.0/24''] [] ''g1'', ex_rule ''b'' [''8.8.0.0/16''] [] ''block'', ex_rule ''c'' [] [''192.168.1.5''] ''ext''],
     prRoutingLists = [], prDeviceGroups = [], prDNS = None\<rparr>"

definition ex_opt :: Options where
  "ex_opt = withDefaults \<lparr>oTable = '''', oMarkMask = 0, oMarkStep = 0, oTableBase = 0, oWANTable = 0, oRulePref = 0,
     oOffload = '''', oOffloadDevices = [], oCollectDomainZones = False, oNDMPolicies = [], oLower = id\<rparr>"

theorem outbound_resolution_witness:
  "fst (resolveEgress ex_opt ex_profile ''g1'') = Some (EgressInterface, ''awg0'')
   \<and> (\<exists>e. member_reach ex_profile ''g1'' e \<and> kernelIface e = ''awg0'')"
proof -
  have r: "fst (resolveEgress ex_opt ex_profile ''g1'') = Some (EgressInterface, ''awg0'')" by code_simp
  have a: "''g1'' \<notin> {OutboundDirect, '''', OutboundBlock}" "NDMPolicyName ''g1'' = None" by code_simp+
  show ?thesis using outbound_resolution[OF a, where opt = ex_opt and p = ex_profile] r by simp
qed

section \<open>Where zones come from\<close>

text \<open>The calls of \<open>addZone\<close>: from an active rule or from an enabled routing list, with a resolved outbound.\<close>

definition active_rule :: "Rule \<Rightarrow> bool" where
  "active_rule r \<longleftrightarrow> \<not> ruDisabled r \<and> \<not> ruDefault r"

definition names_no_destination :: "Rule \<Rightarrow> bool" where
  "names_no_destination r \<longleftrightarrow> ruIPCIDR r = [] \<and> ruDomain r = [] \<and> ruDomainSuffix r = [] \<and> ruGeoSite r = [] \<and> ruGeoIP r = []"

inductive site :: "Options \<Rightarrow> Profile \<Rightarrow> id \<Rightarrow> string list \<Rightarrow> srcSpec option \<Rightarrow> bool" for opt p where
  rule: "r \<in> set (prRules p) \<Longrightarrow> active_rule r \<Longrightarrow> NDMPolicyName (ruOutbound r) = None
    \<Longrightarrow> fst (resolveEgress opt p (ruOutbound r)) = Some (k, ifc)
    \<Longrightarrow> (cidrs = [] \<Longrightarrow> names_no_destination r \<and> HasSourceMatcher r) \<Longrightarrow> site opt p (ruOutbound r) cidrs src"
| list: "l \<in> set (prRoutingLists p) \<Longrightarrow> rlEnabled l \<Longrightarrow> fst (resolveEgress opt p (rlOutbound l)) = Some (k, ifc)
    \<Longrightarrow> cidrs \<noteq> [] \<Longrightarrow> site opt p (rlOutbound l) cidrs src"

inductive built :: "Options \<Rightarrow> Profile \<Rightarrow> CState \<Rightarrow> bool" for opt p where
  init: "built opt p \<lparr>csZones = [], csWarns = [], csUsed = [], csNames = []\<rparr>"
| warn: "built opt p st \<Longrightarrow> built opt p (warn scope ms st)"
| zone: "built opt p st \<Longrightarrow> site opt p tag cidrs src \<Longrightarrow> built opt p (addZone opt name tag cidrs src negate scope st)"

lemma built_rule:
  assumes "built opt p st" "r \<in> set (prRules p)"
  shows "built opt p (compile_rule opt p st r)"
proof -
  have z: "built opt p (rule_zone opt p r k st')"
    if "built opt p st'" "active_rule r" "NDMPolicyName (ruOutbound r) = None"
      "fst (resolveEgress opt p (ruOutbound r)) = Some (k, ifc)" "ruIPCIDR r = [] \<Longrightarrow> names_no_destination r \<and> HasSourceMatcher r" for st' k ifc
    using that assms(2) by (auto simp: rule_zone_def Let_def intro!: built.zone site.rule)
  show ?thesis
    using assms(1)
    by (auto simp: compile_rule_def Let_def active_rule_def names_no_destination_def
        intro!: built.warn z split: prod.splits option.splits)
qed

lemma built_list:
  assumes "built opt p st" "l \<in> set (prRoutingLists p)"
  shows "built opt p (compile_list opt p st l)"
proof -
  have z: "built opt p (list_zones opt p l cidrs kind macs ips st')"
    if "built opt p st'" "rlEnabled l" "fst (resolveEgress opt p (rlOutbound l)) = Some (k, ifc)" "cidrs \<noteq> []"
    for st' k ifc kind macs ips cidrs
    using that assms(2) by (auto simp: list_zones_def Let_def intro!: built.zone site.list split: scopeKind.splits)
  have rt: "built opt p (list_routes opt p l cidrs kind macs ips st')" if "built opt p st'" "rlEnabled l" for st' kind macs ips cidrs
    using that by (auto simp: list_routes_def Let_def intro!: built.warn z split: prod.splits option.splits)
  show ?thesis
    using assms(1) by (auto simp: compile_list_def Let_def intro!: built.warn rt split: prod.splits)
qed

lemma built_foldl:
  "(\<And>st x. built opt p st \<Longrightarrow> x \<in> set xs \<Longrightarrow> built opt p (f st x)) \<Longrightarrow> built opt p st \<Longrightarrow> built opt p (foldl f st xs)"
  by (induction xs arbitrary: st) auto

lemma built_zones: "built opt p (compile_zones opt p)"
  unfolding compile_zones_def by (intro built_foldl built_rule built_list built.init)

lemma warn_nil [simp]: "warn scope [] st = st"
  by (simp add: warn_def)

lemma warn_warn [simp]: "warn scope b (warn scope a st) = warn scope (a @ b) st"
  by (simp add: warn_def)

lemma warn_sel [simp]: "csZones (warn scope ms st) = csZones st" "csUsed (warn scope ms st) = csUsed st"
  "csNames (warn scope ms st) = csNames st"
  by (simp_all add: warn_def)

definition no_destination :: "Zone \<Rightarrow> bool" where
  "no_destination z \<longleftrightarrow> zV4 z = [] \<and> zV6 z = [] \<and> zDomains z = []"

definition policy_name :: "id \<Rightarrow> string" where
  "policy_name tag = (case NDMPolicyName tag of Some n \<Rightarrow> n | None \<Rightarrow> '''')"

text \<open>One call of \<open>addZone\<close> either only warns or appends one zone under a fresh name.\<close>

inductive appended :: "string \<Rightarrow> id \<Rightarrow> string list \<Rightarrow> CState \<Rightarrow> CState \<Rightarrow> bool" for scope tag cidrs st where
  only_warns: "appended scope tag cidrs st (warn scope ms st)"
| appends: "zName z \<notin> set (csNames st) \<Longrightarrow> zEgressTag z = tag \<Longrightarrow> zNDMPolicy z = policy_name tag
    \<Longrightarrow> (no_destination z \<Longrightarrow> cidrs = [] \<and> zSrcScoped z)
    \<Longrightarrow> used = (if NDMPolicyName tag = None then tag # csUsed st else csUsed st)
    \<Longrightarrow> appended scope tag cidrs st ((warn scope ms st)\<lparr>csNames := zName z # csNames st, csUsed := used, csZones := csZones st @ [z]\<rparr>)"

lemma new_zone_sel [simp]:
  "zName (new_zone name tag v4 v6 ds src neg) = name" "zEgressTag (new_zone name tag v4 v6 ds src neg) = tag"
  "zNDMPolicy (new_zone name tag v4 v6 ds src neg) = policy_name tag"
  "zSrcScoped (new_zone name tag v4 v6 ds src neg) = snd (snd (zone_src src))"
  "no_destination (new_zone name tag v4 v6 ds src neg) \<longleftrightarrow> v4 = [] \<and> v6 = [] \<and> ds = []"
  by (auto simp: new_zone_def policy_name_def no_destination_def zone_src_def Let_def split: option.splits prod.splits)

lemma push_zone_appended:
  assumes "v4 = [] \<and> v6 = [] \<and> ds = [] \<Longrightarrow> cidrs = [] \<and> snd (snd (zone_src src))"
  shows "appended scope tag cidrs st (push_zone name tag v4 v6 ds src neg scope (warn scope ms st))"
proof -
  define name' where "name' = (if name \<in> set (csNames st) then next_free (csNames st) name 2 else name)"
  define ms' where "ms' = ms @ (if name \<in> set (csNames st) then [WRenamed name'] else [])"
  define z where "z = new_zone name' tag v4 v6 ds src neg"
  have eq: "push_zone name tag v4 v6 ds src neg scope (warn scope ms st) =
      (warn scope ms' st)\<lparr>csNames := zName z # csNames st,
        csUsed := (if NDMPolicyName tag = None then tag # csUsed st else csUsed st), csZones := csZones st @ [z]\<rparr>"
    by (cases "NDMPolicyName tag") (simp_all add: push_zone_def Let_def z_def name'_def ms'_def)
  have "zName z \<notin> set (csNames st)" by (simp add: z_def name'_def next_free_fresh)
  then show ?thesis unfolding eq by (rule appends) (use assms in \<open>auto simp: z_def\<close>)
qed

lemma addZone_appended: "appended scope tag cidrs st (addZone opt name tag cidrs src negate scope st)"
proof -
  have w: "(if oCollectDomainZones opt then st else warn scope ms st) =
      warn scope (if oCollectDomainZones opt then [] else ms) st" for ms by simp
  show ?thesis
    by (auto simp only: addZone_def Let_def w split: prod.splits if_splits intro!: push_zone_appended only_warns)
qed

text \<open>The invariant of the zone list under construction.\<close>

definition zone_origin :: "Options \<Rightarrow> Profile \<Rightarrow> Zone \<Rightarrow> bool" where
  "zone_origin opt p z \<longleftrightarrow> zNDMPolicy z = policy_name (zEgressTag z)
     \<and> (\<exists>k ifc. fst (resolveEgress opt p (zEgressTag z)) = Some (k, ifc))
     \<and> (no_destination z \<longrightarrow> zSrcScoped z \<and>
          (\<exists>r\<in>set (prRules p). active_rule r \<and> names_no_destination r \<and> HasSourceMatcher r \<and> zEgressTag z = ruOutbound r))"

definition zones_inv :: "Options \<Rightarrow> Profile \<Rightarrow> CState \<Rightarrow> bool" where
  "zones_inv opt p st \<longleftrightarrow> csNames st = rev (map zName (csZones st)) \<and> distinct (csNames st)
     \<and> set (csUsed st) = {tag. NDMPolicyName tag = None \<and> tag \<in> zEgressTag ` set (csZones st)}
     \<and> (\<forall>z\<in>set (csZones st). zone_origin opt p z)"

lemma site_origin:
  assumes "site opt p tag cidrs src" "zEgressTag z = tag" "zNDMPolicy z = policy_name tag" "no_destination z \<Longrightarrow> cidrs = [] \<and> zSrcScoped z"
  shows "zone_origin opt p z"
  using assms by (cases rule: site.cases) (auto simp: zone_origin_def)

lemma zones_inv_append:
  assumes "zones_inv opt p st" "zName z \<notin> set (csNames st)" "zone_origin opt p z"
    "used = (if NDMPolicyName (zEgressTag z) = None then zEgressTag z # csUsed st else csUsed st)"
  shows "zones_inv opt p (st\<lparr>csNames := zName z # csNames st, csUsed := used, csZones := csZones st @ [z]\<rparr>)"
  using assms by (auto simp: zones_inv_def)

lemma zones_inv_warn [simp]: "zones_inv opt p (warn scope ms st) = zones_inv opt p st"
  by (simp add: zones_inv_def)

lemma built_inv: "built opt p st \<Longrightarrow> zones_inv opt p st"
proof (induction rule: built.induct)
  case init
  then show ?case by (simp add: zones_inv_def)
next
  case (warn st scope ms)
  then show ?case by simp
next
  case (zone st tag cidrs src name negate scope)
  from addZone_appended[of scope tag cidrs st opt name src negate] show ?case
  proof (cases rule: appended.cases)
    case (only_warns ms)
    then show ?thesis using zone by simp
  next
    case (appends z used ms)
    have "zone_origin opt p z" using site_origin[OF zone(2)] appends by blast
    moreover have "zones_inv opt p (warn scope ms st)" using zone.IH by simp
    ultimately have "zones_inv opt p ((warn scope ms st)\<lparr>csNames := zName z # csNames (warn scope ms st),
        csUsed := used, csZones := csZones (warn scope ms st) @ [z]\<rparr>)"
      by (intro zones_inv_append) (use appends in simp_all)
    then show ?thesis by (simp only: appends(1) warn_sel)
  qed
qed

lemmas compiled_inv = built_inv[OF built_zones]

lemma distinct_map_sort_key: "distinct (map f (sort_key k xs)) \<longleftrightarrow> distinct (map f xs)"
  by (simp add: distinct_map)

lemma mark_zone_sel [simp]:
  "zName (mark_zone opt egs zs z) = zName z" "zEgressTag (mark_zone opt egs zs z) = zEgressTag z"
  "zNDMPolicy (mark_zone opt egs zs z) = zNDMPolicy z" "zSrcScoped (mark_zone opt egs zs z) = zSrcScoped z"
  "no_destination (mark_zone opt egs zs z) = no_destination z"
  by (simp_all add: mark_zone_def no_destination_def)

lemma mark_zone_origin [simp]: "zone_origin opt p (mark_zone opt' egs zs z) = zone_origin opt p z"
  by (simp add: zone_origin_def)

definition plan_of :: "Options \<Rightarrow> Profile \<Rightarrow> Plan" where
  "plan_of opt p = fst (compile_plan opt p)"

lemma Compile_ok: "Compile (Some p) opt0 = Inr (pl, ws) \<longleftrightarrow> compile_plan (withDefaults opt0) p = (pl, ws)"
  by (simp add: Compile_def Let_def)

lemma plan_egresses: "plEgresses (plan_of opt p) = egresses opt p (csUsed (compile_zones opt p))"
  by (simp add: plan_of_def compile_plan_def Let_def split: prod.splits)

lemma plan_zones:
  "plZones (plan_of opt p) =
    orderZonesForEmit (kind_of (plEgresses (plan_of opt p)))
      (map (mark_zone opt (plEgresses (plan_of opt p)) (csZones (compile_zones opt p))) (csZones (compile_zones opt p)))"
  by (simp add: plan_egresses) (simp add: plan_of_def compile_plan_def Let_def split: prod.splits)

lemma plan_zone_set:
  "set (plZones (plan_of opt p)) =
     mark_zone opt (plEgresses (plan_of opt p)) (csZones (compile_zones opt p)) ` set (csZones (compile_zones opt p))"
  by (subst plan_zones) (simp add: orderZonesForEmit_def)

text \<open>C33. Kernel set names never collide. Whatever the ids of the rules and lists, and although different ids
  can be squashed to the same identifier, the zones of the compiled plan carry pairwise distinct names.
\<close>

theorem zone_names_distinct: "distinct (map zName (plZones (plan_of opt p)))"
proof -
  have "distinct (map zName (csZones (compile_zones opt p)))"
    using compiled_inv[of opt p] by (metis distinct_rev zones_inv_def)
  then show ?thesis by (subst plan_zones) (simp add: orderZonesForEmit_def distinct_map_sort_key o_def)
qed

text \<open>C21. No rule captures more than it names. Every zone of the compiled plan that has no destination set
  at all is restricted to sources, and stems from an active rule with that outbound that itself names no
  destination of any kind (no addresses, domains, geosite or geoip sets) and has a source matcher. Every
  zone has an outbound that resolves.
\<close>

theorem zones_stay_bounded:
  "\<forall>z\<in>set (plZones (plan_of opt p)).
     (\<exists>k ifc. fst (resolveEgress opt p (zEgressTag z)) = Some (k, ifc))
     \<and> (no_destination z \<longrightarrow> zSrcScoped z \<and>
         (\<exists>r\<in>set (prRules p). active_rule r \<and> names_no_destination r \<and> HasSourceMatcher r \<and> zEgressTag z = ruOutbound r))"
proof
  fix z
  assume "z \<in> set (plZones (plan_of opt p))"
  then have "zone_origin opt p z" using compiled_inv[of opt p] by (auto simp: plan_zone_set zones_inv_def)
  then show "(\<exists>k ifc. fst (resolveEgress opt p (zEgressTag z)) = Some (k, ifc))
     \<and> (no_destination z \<longrightarrow> zSrcScoped z \<and>
         (\<exists>r\<in>set (prRules p). active_rule r \<and> names_no_destination r \<and> HasSourceMatcher r \<and> zEgressTag z = ruOutbound r))"
    by (simp add: zone_origin_def)
qed

text \<open>The plan of the example profile.\<close>

definition ex_zone :: "string \<Rightarrow> id \<Rightarrow> 32 word \<Rightarrow> string list \<Rightarrow> string list \<Rightarrow> Zone" where
  "ex_zone name tag mark v4 src = \<lparr>zName = name, zEgressTag = tag, zMark = mark, zV4 = v4, zV6 = [], zDomains = [],
     zSrcV4 = src, zSrcV6 = [], zSrcMAC = [], zSrcIface = [], zSrcPort = [], zSrcScoped = (src \<noteq> []), zSrcNegate = False,
     zNDMPolicy = '''', zNDMMark = 0\<rparr>"

definition ex_egress :: "id \<Rightarrow> EgressKind \<Rightarrow> string \<Rightarrow> 32 word \<Rightarrow> int \<Rightarrow> Egress" where
  "ex_egress tag k ifc mark tab = \<lparr>egTag = tag, egKind = k, egIface = ifc, egMark = mark, egTable = tab, egFailClosed = False\<rparr>"

definition ex_plan :: Plan where
  "ex_plan = \<lparr>plTable = ''wayhop_pbr'', plMask = 0xff0000,
     plEgresses = [ex_egress ''direct'' EgressWAN '''' 0x10000 254, ex_egress ''block'' EgressBlackhole '''' 0x20000 151,
       ex_egress ''ext'' EgressInterface ''awg0'' 0x30000 152, ex_egress ''g1'' EgressInterface ''awg0'' 0x40000 153],
     plZones = [ex_zone ''rule_c'' ''ext'' 0x30000 [] [''192.168.1.5/32''], ex_zone ''rule_r'' ''g1'' 0x40000 [''8.8.8.0/24''] [],
       ex_zone ''rule_b'' ''block'' 0x20000 [''8.8.0.0/16''] []],
     plBypassV4 = [], plBypassV6 = [], plFlowtable = None, plMasqIfaces = [''awg0'']\<rparr>"

lemma ex_plan: "plan_of ex_opt ex_profile = ex_plan"
  by code_simp

theorem zones_stay_bounded_witness:
  "\<exists>z\<in>set (plZones (plan_of ex_opt ex_profile)). no_destination z \<and> zSrcScoped z \<and> zSrcV4 z = [''192.168.1.5/32'']"
proof -
  have z: "\<exists>z\<in>set (plZones (plan_of ex_opt ex_profile)). no_destination z \<and> zSrcV4 z = [''192.168.1.5/32'']"
    by (simp add: ex_plan ex_plan_def ex_zone_def no_destination_def)
  then show ?thesis using zones_stay_bounded[of ex_opt ex_profile] by blast
qed

section \<open>Order of emission\<close>

lemma sort_key_order:
  "sorted_wrt (\<lambda>x y. k x \<le> k y) (sort_key k xs)"
  using sorted_sort_key[of k xs] by (simp add: sorted_wrt_map)

lemma last_hit_blackhole:
  assumes "sorted_wrt (\<lambda>x y. f x \<longrightarrow> f y) xs" "z \<in> set xs" "f z" "h z"
  shows "f (last (filter h xs))"
  using assms
proof (induction xs)
  case Nil
  then show ?case by simp
next
  case (Cons a xs)
  show ?case
  proof (cases "filter h xs = []")
    case True
    then show ?thesis using Cons.prems by (auto simp: filter_empty_conv)
  next
    case False
    have l: "last (filter h xs) \<in> set xs" using last_in_set[OF False] by simp
    have "last (filter h (a # xs)) = last (filter h xs)" using False by simp
    moreover have "f (last (filter h xs))" using Cons l by auto
    ultimately show ?thesis by simp
  qed
qed

text \<open>C32. A block wins over everything that overlaps it. The planes emit one mark per zone and the last one
  that matches a packet decides. For any packet, given by the set of zones it hits, if one of them is a
  block zone then the last one it hits is a block zone; and within each class the zones are in name order.
\<close>

theorem block_wins:
  assumes "z \<in> set (plZones (plan_of opt p))" "kind_of (plEgresses (plan_of opt p)) (zEgressTag z) = EgressBlackhole" "hits z"
  shows "kind_of (plEgresses (plan_of opt p)) (zEgressTag (last (filter hits (plZones (plan_of opt p))))) = EgressBlackhole
     \<and> sorted_wrt (\<lambda>x y. (kind_of (plEgresses (plan_of opt p)) (zEgressTag x) = EgressBlackhole)
           = (kind_of (plEgresses (plan_of opt p)) (zEgressTag y) = EgressBlackhole) \<longrightarrow> zName x \<le> zName y)
         (plZones (plan_of opt p))"
proof -
  let ?b = "\<lambda>z. kind_of (plEgresses (plan_of opt p)) (zEgressTag z) = EgressBlackhole"
  have s: "sorted_wrt (\<lambda>x y. (?b x, zName x) \<le> (?b y, zName y)) (plZones (plan_of opt p))"
    by (subst plan_zones[unfolded orderZonesForEmit_def]) (rule sort_key_order)
  have "sorted_wrt (\<lambda>x y. ?b x \<longrightarrow> ?b y) (plZones (plan_of opt p))"
    by (rule sorted_wrt_mono_rel[OF _ s]) auto
  moreover have "sorted_wrt (\<lambda>x y. ?b x = ?b y \<longrightarrow> zName x \<le> zName y) (plZones (plan_of opt p))"
    by (rule sorted_wrt_mono_rel[OF _ s]) auto
  ultimately show ?thesis using last_hit_blackhole[of ?b _ z hits] assms by auto
qed

theorem block_wins_witness:
  "zName (last (filter (\<lambda>z. zV4 z \<noteq> []) (plZones (plan_of ex_opt ex_profile)))) = ''rule_b''
   \<and> kind_of (plEgresses (plan_of ex_opt ex_profile)) (zEgressTag (last (filter (\<lambda>z. zV4 z \<noteq> []) (plZones (plan_of ex_opt ex_profile))))) = EgressBlackhole"
proof -
  let ?p = "plan_of ex_opt ex_profile"
  let ?z = "ex_zone ''rule_b'' ''block'' 0x20000 [''8.8.0.0/16''] []"
  have z: "?z \<in> set (plZones ?p)" by (simp add: ex_plan ex_plan_def)
  have k: "kind_of (plEgresses ?p) (zEgressTag ?z) = EgressBlackhole"
    by (simp add: ex_plan ex_plan_def ex_zone_def ex_egress_def kind_of_def)
  have n: "zName (last (filter (\<lambda>z. zV4 z \<noteq> []) (plZones ?p))) = ''rule_b''"
    by (simp add: ex_plan ex_plan_def ex_zone_def)
  show ?thesis using block_wins[OF z k, of "\<lambda>z. zV4 z \<noteq> []"] n by (simp add: ex_zone_def)
qed

section \<open>Marks\<close>

text \<open>The outbounds in the order in which marks are handed out: direct, the other used outbounds, the policies.\<close>

definition policy_tag :: "string \<Rightarrow> id" where
  "policy_tag n = NDMPolicyPrefix @ n"

definition slot_tags :: "id list \<Rightarrow> Zone list \<Rightarrow> id list" where
  "slot_tags used zones = OutboundDirect # other_tags used @ map policy_tag (policies_of zones)"

lemma NDMPolicyName_iff: "NDMPolicyName tag = Some n \<longleftrightarrow> tag = policy_tag n"
  by (auto simp: NDMPolicyName_def CutPrefix_def policy_tag_def prefix_def)

lemma NDMPolicyName_tag [simp]: "NDMPolicyName (policy_tag n) = Some n"
  by (simp add: NDMPolicyName_iff)

lemma policy_not_special: "policy_tag n \<noteq> OutboundDirect" "policy_tag n \<noteq> ''''" "policy_tag n \<noteq> OutboundBlock"
  by (simp_all add: policy_tag_def NDMPolicyPrefix_def OutboundDirect_def OutboundBlock_def)

lemma policy_resolves:
  "fst (resolveEgress opt p (policy_tag n)) = Some ki \<Longrightarrow> map_of (oNDMPolicies opt) n \<noteq> None"
  by (simp add: resolveEgress_def policy_not_special split: if_splits)

lemma map_of_zip_nth_fun: "distinct xs \<Longrightarrow> i < length xs \<Longrightarrow> map_of (map (\<lambda>(j, x). (x, f j)) (enumerate 0 xs)) (xs ! i) = Some (f i)"
  by (rule map_of_is_SomeI) (auto simp: distinct_map inj_on_def in_set_enumerate_eq o_def case_prod_unfold image_iff
      nth_eq_iff_index_eq intro!: bexI[of _ "(i, xs ! i)"] distinct_enumerate)

lemma map_of_rev_eq: "distinct (map fst xs) \<Longrightarrow> map_of (rev xs) = map_of xs"
  by (rule map_of_inject_set[THEN iffD2]) (simp_all add: rev_map[symmetric])

lemma egress_tags: "map egTag (egresses opt p used) = OutboundDirect # other_tags used"
  by (simp add: egresses_def wan_egress_def tag_egress_def o_def case_prod_unfold)

lemma egress_length: "length (egresses opt p used) = Suc (length (other_tags used))"
  by (simp add: egresses_def)

lemma egress_mark_nth:
  "i < length (egresses opt p used) \<Longrightarrow> egMark (egresses opt p used ! i) = of_nat (i + 1) * oMarkStep opt"
  by (cases i) (auto simp: egresses_def wan_egress_def tag_egress_def nth_enumerate_eq case_prod_unfold split: option.splits)

lemma egress_tag_nth:
  "i < length (egresses opt p used) \<Longrightarrow> egTag (egresses opt p used ! i) = (OutboundDirect # other_tags used) ! i"
  by (metis egress_tags nth_map)

lemma other_tags_props: "distinct (OutboundDirect # other_tags used)" "set (other_tags used) = set used - {OutboundDirect}"
  by (auto simp: other_tags_def)

lemma mark_of_nth:
  assumes "i < length (egresses opt p used)"
  shows "mark_of (egresses opt p used) ((OutboundDirect # other_tags used) ! i) = of_nat (i + 1) * oMarkStep opt"
proof -
  let ?m = "map (\<lambda>e. (egTag e, egMark e)) (egresses opt p used)"
  have d: "distinct (map fst ?m)" using other_tags_props(1) by (simp add: o_def egress_tags del: distinct.simps)
  have "?m ! i \<in> set ?m" using assms by (intro nth_mem) simp
  then have "map_of (rev ?m) ((OutboundDirect # other_tags used) ! i) = Some (of_nat (i + 1) * oMarkStep opt)"
    using assms d by (simp only: map_of_rev_eq[OF d]) (simp add: map_of_is_SomeI egress_tag_nth egress_mark_nth)
  then show ?thesis by (simp add: mark_of_def)
qed

lemma slot_of_nth:
  "i < length (policies_of zones) \<Longrightarrow> slot_of opt n zones (policies_of zones ! i) = of_nat (n + 1 + i) * oMarkStep opt"
  using map_of_zip_nth_fun[of "policies_of zones" i "\<lambda>i. of_nat (n + 1 + i) * oMarkStep opt"]
  by (simp add: slot_of_def policies_of_def)

lemma slot_tags_distinct:
  assumes "\<forall>t\<in>set used. NDMPolicyName t = None"
  shows "distinct (slot_tags used zones)"
proof -
  have "inj policy_tag" by (simp add: inj_def policy_tag_def)
  then have "distinct (map policy_tag (policies_of zones))" by (simp add: distinct_map policies_of_def inj_on_def)
  moreover have "set (other_tags used) \<inter> set (map policy_tag (policies_of zones)) = {}"
    using assms by (fastforce simp: other_tags_props)
  ultimately show ?thesis using other_tags_props(1)[of used] policy_not_special(1)
    by (auto simp: slot_tags_def dest: sym)
qed

text \<open>Every zone's mark is the step times the position of its outbound in that order.\<close>

lemma zone_mark_index:
  assumes inv: "zones_inv opt p st" and no: "map_of (oNDMPolicies opt) '''' = None" and z: "z \<in> set (csZones st)"
    and tags: "tags = slot_tags (csUsed st) (csZones st)"
  shows "\<exists>i<length tags. tags ! i = zEgressTag z
      \<and> zMark (mark_zone opt (egresses opt p (csUsed st)) (csZones st) z) = of_nat (i + 1) * oMarkStep opt"
proof -
  let ?egs = "egresses opt p (csUsed st)"
  have pol: "zNDMPolicy z = policy_name (zEgressTag z)" and res: "\<exists>ki. fst (resolveEgress opt p (zEgressTag z)) = Some ki"
    using inv z by (auto simp: zones_inv_def zone_origin_def)
  show ?thesis
  proof (cases "NDMPolicyName (zEgressTag z)")
    case None
    then have "zEgressTag z \<in> set (OutboundDirect # other_tags (csUsed st))"
      using inv z by (auto simp: zones_inv_def other_tags_props)
    then obtain i where i: "i < length ?egs" "(OutboundDirect # other_tags (csUsed st)) ! i = zEgressTag z"
      by (metis in_set_conv_nth egress_length length_Cons)
    have "mark_of ?egs (zEgressTag z) = of_nat (i + 1) * oMarkStep opt" using mark_of_nth[OF i(1)] i(2) by metis
    moreover have "tags ! i = zEgressTag z" "i < length tags"
      using i by (auto simp: tags slot_tags_def egress_length nth_append nth_Cons split: nat.splits)
    moreover have "zNDMPolicy z = ''''" using pol None by (simp add: policy_name_def)
    ultimately show ?thesis by (auto simp: mark_zone_def)
  next
    case (Some n)
    then have t: "zEgressTag z = policy_tag n" and n: "zNDMPolicy z = n" using pol by (auto simp: NDMPolicyName_iff policy_name_def)
    then have ne: "n \<noteq> ''''" using policy_resolves res no by metis
    then have "n \<in> set (policies_of (csZones st))" using z n by (auto simp: policies_of_def)
    then obtain j where j: "j < length (policies_of (csZones st))" "policies_of (csZones st) ! j = n" by (metis in_set_conv_nth)
    have "slot_of opt (length ?egs) (csZones st) n = of_nat (length ?egs + j + 1) * oMarkStep opt"
      using slot_of_nth[OF j(1), of opt "length ?egs"] j(2) by (simp add: ac_simps)
    moreover have "tags ! (length ?egs + j) = zEgressTag z" "length ?egs + j < length tags"
      using j t by (auto simp: tags slot_tags_def egress_length nth_append)
    ultimately show ?thesis using n ne by (intro exI[of _ "length ?egs + j"]) (simp add: mark_zone_def)
  qed
qed

lemma slot_tags_set:
  assumes "zones_inv opt p st" "map_of (oNDMPolicies opt) '''' = None"
  shows "set (slot_tags (csUsed st) (csZones st)) = insert OutboundDirect (zEgressTag ` set (csZones st))"
proof -
  have pol: "zNDMPolicy z = policy_name (zEgressTag z)" "\<exists>ki. fst (resolveEgress opt p (zEgressTag z)) = Some ki"
    if "z \<in> set (csZones st)" for z
    using assms(1) that by (auto simp: zones_inv_def zone_origin_def)
  have "zEgressTag z \<in> set (slot_tags (csUsed st) (csZones st))" if "z \<in> set (csZones st)" for z
    using zone_mark_index[OF assms that refl] by (metis nth_mem)
  moreover have "policy_tag n \<in> zEgressTag ` set (csZones st)" if np: "n \<in> set (policies_of (csZones st))" for n
  proof -
    obtain z where z: "z \<in> set (csZones st)" "zNDMPolicy z = n" "n \<noteq> ''''" using np by (auto simp: policies_of_def)
    then have "NDMPolicyName (zEgressTag z) = Some n" using pol(1)[OF z(1)] by (auto simp: policy_name_def split: option.splits)
    then show ?thesis using z(1) by (metis NDMPolicyName_iff imageI)
  qed
  moreover have "set (other_tags (csUsed st)) \<subseteq> zEgressTag ` set (csZones st)"
    using assms(1) by (auto simp: other_tags_props zones_inv_def)
  ultimately show ?thesis by (auto simp: slot_tags_def)
qed

lemma small_mult_word:
  assumes "i < 256"
  shows "unat (of_nat i * 0x10000 :: 32 word) = i * 0x10000" "(of_nat i * 0x10000 :: 32 word) AND 0xff0000 = of_nat i * 0x10000"
proof -
  have "i * 65536 < 2 ^ 32" using assms by simp
  then show "unat (of_nat i * 0x10000 :: 32 word) = i * 0x10000"
    using unat_of_nat[where 'a = 32, of "i * 65536"] by (simp add: take_bit_nat_eq_self)
  have "\<forall>i<256. (of_nat i * 0x10000 :: 32 word) AND 0xff0000 = of_nat i * 0x10000"
    by code_simp
  then show "(of_nat i * 0x10000 :: 32 word) AND 0xff0000 = of_nat i * 0x10000" using assms by blast
qed

lemma small_mult_inj:
  assumes "a < 256" "b < 256"
  shows "(of_nat a * 0x10000 :: 32 word) = of_nat b * 0x10000 \<longleftrightarrow> a = b"
  by (metis assms small_mult_word(1) mult_cancel2 zero_neq_numeral)

text \<open>C20. Marks identify outbounds. With the default step and mask and no access policy with an empty name,
  as long as the zones use at most 254 outbounds besides direct, two zones of the compiled plan carry the
  same mark exactly when they have the same outbound; every mark is non-zero and lies inside the mask;
  and a zone carries the mark of the egress entry of its outbound. Past that number the marks would leave
  the eight bits of the mask; the compiler does not check it.
\<close>

theorem marks_identify_outbounds:
  assumes step: "oMarkStep opt = 0x10000" "oMarkMask opt = 0xff0000" and no: "map_of (oNDMPolicies opt) '''' = None"
    and few: "card (insert OutboundDirect (zEgressTag ` set (plZones (plan_of opt p)))) \<le> 255"
    and z: "z1 \<in> set (plZones (plan_of opt p))" "z2 \<in> set (plZones (plan_of opt p))"
  shows "(zMark z1 = zMark z2 \<longleftrightarrow> zEgressTag z1 = zEgressTag z2)
     \<and> zMark z1 \<noteq> 0 \<and> zMark z1 AND plMask (plan_of opt p) = zMark z1
     \<and> (\<forall>e\<in>set (plEgresses (plan_of opt p)). egTag e = zEgressTag z1 \<longleftrightarrow> egMark e = zMark z1)"
proof -
  define st where "st = compile_zones opt p"
  define tags where "tags = slot_tags (csUsed st) (csZones st)"
  have inv: "zones_inv opt p st" using compiled_inv by (simp add: st_def)
  have egs: "plEgresses (plan_of opt p) = egresses opt p (csUsed st)" by (simp add: plan_egresses st_def)
  have zs: "set (plZones (plan_of opt p)) = mark_zone opt (egresses opt p (csUsed st)) (csZones st) ` set (csZones st)"
    by (simp add: plan_zone_set egs st_def[symmetric])
  have dist: "distinct tags" unfolding tags_def by (rule slot_tags_distinct) (use inv in \<open>auto simp: zones_inv_def\<close>)
  have "set tags = insert OutboundDirect (zEgressTag ` set (plZones (plan_of opt p)))"
    by (simp add: tags_def slot_tags_set[OF inv no] zs image_image)
  then have len: "length tags \<le> 255" using few distinct_card[OF dist] by simp
  have at: "\<exists>i<length tags. tags ! i = zEgressTag z \<and> zMark z = of_nat (i + 1) * 0x10000" if "z \<in> set (plZones (plan_of opt p))" for z
    using that zone_mark_index[OF inv no _ tags_def] step by (auto simp: zs)
  obtain i j where i: "i < length tags" "tags ! i = zEgressTag z1" "zMark z1 = of_nat (i + 1) * 0x10000"
    and j: "j < length tags" "tags ! j = zEgressTag z2" "zMark z2 = of_nat (j + 1) * 0x10000"
    using at[OF z(1)] at[OF z(2)] by blast
  have inj: "(of_nat (a + 1) * 0x10000 :: 32 word) = of_nat (b + 1) * 0x10000 \<longleftrightarrow> a = b" if "a < length tags" "b < length tags" for a b
    using small_mult_inj[of "a + 1" "b + 1"] that len by linarith
  have "zMark z1 = zMark z2 \<longleftrightarrow> zEgressTag z1 = zEgressTag z2"
    using inj[OF i(1) j(1)] i j nth_eq_iff_index_eq[OF dist i(1) j(1)] by metis
  moreover have "zMark z1 \<noteq> 0" using small_mult_inj[of "i + 1" 0] i len by simp
  moreover have "zMark z1 AND plMask (plan_of opt p) = zMark z1"
    using small_mult_word(2)[of "i + 1"] i len step by (simp add: plan_of_def compile_plan_def Let_def split: prod.splits)
  moreover have "egTag e = zEgressTag z1 \<longleftrightarrow> egMark e = zMark z1" if "e \<in> set (plEgresses (plan_of opt p))" for e
  proof -
    obtain k where k: "k < length (egresses opt p (csUsed st))" "e = egresses opt p (csUsed st) ! k"
      using \<open>e \<in> _\<close> egs by (metis in_set_conv_nth)
    have kt: "k < length tags" "tags ! k = egTag e"
      using k by (auto simp: tags_def slot_tags_def egress_length egress_tag_nth nth_append nth_Cons split: nat.splits)
    show ?thesis using egress_mark_nth[OF k(1)] k(2) inj[OF kt(1) i(1)] i kt nth_eq_iff_index_eq[OF dist kt(1) i(1)] step by metis
  qed
  ultimately show ?thesis by blast
qed

theorem marks_identify_outbounds_witness:
  "zMark (plZones (plan_of ex_opt ex_profile) ! 0) \<noteq> zMark (plZones (plan_of ex_opt ex_profile) ! 1)
   \<and> zMark (plZones (plan_of ex_opt ex_profile) ! 0) AND 0xff0000 \<noteq> 0"
proof -
  let ?pl = "plan_of ex_opt ex_profile"
  have o1: "oMarkStep ex_opt = 0x10000" "oMarkMask ex_opt = 0xff0000" "map_of (oNDMPolicies ex_opt) '''' = None"
    by (simp_all add: ex_opt_def withDefaults_def)
  have few: "card (insert OutboundDirect (zEgressTag ` set (plZones ?pl))) \<le> 255"
    by (simp add: ex_plan ex_plan_def ex_zone_def OutboundDirect_def)
  have z: "plZones ?pl ! 0 \<in> set (plZones ?pl)" "plZones ?pl ! 1 \<in> set (plZones ?pl)" by (simp_all add: ex_plan ex_plan_def)
  have t: "zEgressTag (plZones ?pl ! 0) \<noteq> zEgressTag (plZones ?pl ! 1)" "plMask ?pl = 0xff0000"
    by (simp_all add: ex_plan ex_plan_def ex_zone_def)
  show ?thesis using marks_identify_outbounds[OF o1 few z] t by (simp only: t)
qed

section \<open>Inactive entries\<close>

definition same_targets :: "Profile \<Rightarrow> Profile \<Rightarrow> bool" where
  "same_targets p q \<longleftrightarrow> prEndpoints q = prEndpoints p \<and> prGroups q = prGroups p \<and> prDeviceGroups q = prDeviceGroups p"

lemma same_lookup: "same_targets p q \<Longrightarrow> EndpointByID q = EndpointByID p" "same_targets p q \<Longrightarrow> GroupByID q = GroupByID p"
  by (auto simp: same_targets_def EndpointByID_def GroupByID_def fun_eq_iff)

lemma same_walk:
  assumes "same_targets p q"
  shows "walk_members q ms seen = walk_members p ms seen"
  using assms by (induction p ms seen rule: walk_members.induct)
    (auto simp: same_lookup split: option.splits prod.splits if_splits)

lemma same_resolve: "same_targets p q \<Longrightarrow> resolveEgress opt q = resolveEgress opt p"
  by (auto simp: fun_eq_iff resolveEgress_def walk_def same_lookup same_walk split: option.splits)

lemma same_posture: "same_targets p q \<Longrightarrow> egressV4OnlyPosture q = egressV4OnlyPosture p"
  by (simp add: fun_eq_iff egressV4OnlyPosture_def isExternalEndpoint_def same_lookup)

lemma same_compile_rule:
  assumes "same_targets p q"
  shows "compile_rule opt q = compile_rule opt p"
proof (intro ext)
  show "compile_rule opt q st r = compile_rule opt p st r" for st r
    unfolding compile_rule_def rule_zone_def same_resolve[OF assms] same_posture[OF assms] ..
qed

lemma same_compile_list:
  assumes "same_targets p q"
  shows "compile_list opt q = compile_list opt p"
proof (intro ext)
  have d: "devGroupByID q = devGroupByID p" using assms by (simp add: devGroupByID_def same_targets_def)
  show "compile_list opt q st l = compile_list opt p st l" for st l
    unfolding compile_list_def list_routes_def list_zones_def scopeMembers_def d same_resolve[OF assms] same_posture[OF assms] ..
qed

lemma same_tag_egress:
  assumes "same_targets p q"
  shows "egresses opt q = egresses opt p"
proof (intro ext)
  show "egresses opt q used = egresses opt p used" for used
    unfolding egresses_def tag_egress_def same_resolve[OF assms] same_lookup[OF assms] ..
qed

lemma foldl_skip: "(\<And>st x. \<not> P x \<Longrightarrow> f st x = st) \<Longrightarrow> foldl f st (filter P xs) = foldl f st xs"
  by (induction xs arbitrary: st) auto

text \<open>Switched-off configuration is inert. Removing every disabled rule, every default rule and every
  disabled routing list from the profile changes neither the compiled plan nor its warnings.
\<close>

theorem inactive_entries_inert:
  "compile_plan opt (p\<lparr>prRules := filter active_rule (prRules p), prRoutingLists := filter rlEnabled (prRoutingLists p)\<rparr>)
     = compile_plan opt p"
proof -
  let ?q = "p\<lparr>prRules := filter active_rule (prRules p), prRoutingLists := filter rlEnabled (prRoutingLists p)\<rparr>"
  have q: "same_targets p ?q" by (simp add: same_targets_def)
  have r: "foldl (compile_rule opt p) st (filter active_rule rs) = foldl (compile_rule opt p) st rs" for st rs
    by (rule foldl_skip) (auto simp: active_rule_def compile_rule_def)
  have l: "foldl (compile_list opt p) st (filter rlEnabled ls) = foldl (compile_list opt p) st ls" for st ls
    by (rule foldl_skip) (simp add: compile_list_def)
  have z: "compile_zones opt ?q = compile_zones opt p"
    by (simp add: compile_zones_def same_compile_rule[OF q] same_compile_list[OF q] r l)
  have b: "bypass_addrs ?q = bypass_addrs p" "masq_ifaces ?q = masq_ifaces p"
    by (simp_all add: bypass_addrs_def masq_ifaces_def)
  show ?thesis by (simp add: compile_plan_def z b same_resolve[OF q] same_tag_egress[OF q])
qed

section \<open>A source restriction that disappears\<close>

definition ex_v6source :: Profile where
  "ex_v6source = \<lparr>prEndpoints = [ex_ep ''ext'' EngineExternal [(''interface'', PStr ''awg0'')]], prGroups = [],
     prRules = [ex_rule ''r'' [''8.8.8.0/24''] [''2001:db8::5''] ''ext''], prRoutingLists = [], prDeviceGroups = [], prDNS = None\<rparr>"

text \<open>A source restriction can be lost. A rule that sends one IPv4 network to an adopted tunnel for one
  IPv6 client only compiles, without any warning, to a zone with that network and no source restriction:
  the IPv4-only posture strips the client's address, and the zone then captures every client.
\<close>

theorem source_scope_lost:
  "compile_plan ex_opt ex_v6source =
    (\<lparr>plTable = ''wayhop_pbr'', plMask = 0xff0000,
      plEgresses = [ex_egress ''direct'' EgressWAN '''' 0x10000 254, ex_egress ''ext'' EgressInterface ''awg0'' 0x20000 151],
      plZones = [ex_zone ''rule_r'' ''ext'' 0x20000 [''8.8.8.0/24''] []],
      plBypassV4 = [], plBypassV6 = [], plFlowtable = None, plMasqIfaces = [''awg0'']\<rparr>, [])
   \<and> HasSourceMatcher (hd (prRules ex_v6source)) \<and> \<not> zSrcScoped (ex_zone ''rule_r'' ''ext'' 0x20000 [''8.8.8.0/24''] [])"
  by code_simp

end
