(* ===== verification/Ctflush_Netlink.thy ===== *)
theory Ctflush_Netlink
  imports PBR_Plan
begin

text \<open>
  The conntrack netlink wire format, \<open>internal/ctflush/nlmsg.go\<close>, and the request loops of
  \<open>sock_linux.go\<close>. A buffer is a list of bytes; \<open>be\<close> tells whether the host is big-endian
  (\<open>binary.NativeEndian\<close>). The loops take the answers of the socket as a list and give \<open>None\<close> while they
  would still wait.
\<close>

section \<open>Integers in buffers\<close>

type_synonym bytes = "8 word list"

definition put16 :: "bool \<Rightarrow> 16 word \<Rightarrow> bytes" where
  "put16 be w = (let h = ucast (drop_bit 8 w); l = ucast w in if be then [h, l] else [l, h])"

definition get16 :: "bool \<Rightarrow> bytes \<Rightarrow> 16 word" where
  "get16 be bs = (let a = ucast (bs ! 0); b = ucast (bs ! 1)
     in if be then push_bit 8 a OR b else push_bit 8 b OR a)"

definition be32 :: "bytes \<Rightarrow> 32 word" where
  "be32 bs = foldl (\<lambda>acc b. push_bit 8 acc OR ucast b) 0 (take 4 bs)"

definition get32 :: "bool \<Rightarrow> bytes \<Rightarrow> 32 word" where
  "get32 be bs = be32 (if be then take 4 bs else rev (take 4 bs))"

definition put32 :: "bool \<Rightarrow> 32 word \<Rightarrow> bytes" where
  "put32 be w = (let ds = map (\<lambda>k. ucast (drop_bit (8 * k) w)) [3, 2, 1, 0 :: nat] in if be then ds else rev ds)"

section \<open>Constants\<close>

abbreviation nlmsgHdrLen :: nat where "nlmsgHdrLen \<equiv> 16"
abbreviation nfgenHdrLen :: nat where "nfgenHdrLen \<equiv> 4"
abbreviation nlaHdrLen :: nat where "nlaHdrLen \<equiv> 4"

definition nlmsgError :: "16 word" where "nlmsgError = 2"
definition nlmsgDone :: "16 word" where "nlmsgDone = 3"
definition nlmFRequest :: "16 word" where "nlmFRequest = 0x1"
definition nlmFAck :: "16 word" where "nlmFAck = 0x4"
definition nlmFDump :: "16 word" where "nlmFDump = 0x300"
definition nlaTypeMask :: "16 word" where "nlaTypeMask = 0x3fff"
definition nfnlSubsysCT :: "16 word" where "nfnlSubsysCT = 1"
definition ctMsgNew :: "16 word" where "ctMsgNew = 0"
definition ctMsgGet :: "16 word" where "ctMsgGet = 1"
definition ctMsgDelete :: "16 word" where "ctMsgDelete = 2"
definition ctaTupleOrig :: "16 word" where "ctaTupleOrig = 1"
definition ctaMark :: "16 word" where "ctaMark = 8"
definition ctaID :: "16 word" where "ctaID = 12"
definition ctaZone :: "16 word" where "ctaZone = 18"
definition ctaTupleIP :: "16 word" where "ctaTupleIP = 1"
definition ctaIPv4Src :: "16 word" where "ctaIPv4Src = 1"
definition ctaIPv4Dst :: "16 word" where "ctaIPv4Dst = 2"
definition ctaIPv6Src :: "16 word" where "ctaIPv6Src = 3"
definition ctaIPv6Dst :: "16 word" where "ctaIPv6Dst = 4"

lemmas nl_consts = nlmsgError_def nlmsgDone_def nlmFRequest_def nlmFAck_def nlmFDump_def nlaTypeMask_def
  nfnlSubsysCT_def ctMsgNew_def ctMsgGet_def ctMsgDelete_def ctaTupleOrig_def ctaMark_def ctaID_def ctaZone_def
  ctaTupleIP_def ctaIPv4Src_def ctaIPv4Dst_def ctaIPv6Src_def ctaIPv6Dst_def

definition nlAlign :: "nat \<Rightarrow> nat" where
  "nlAlign n = (n + 3) - (n + 3) mod 4"

section \<open>Requests\<close>

text \<open>An entry; nil attribute slices are empty lists and an invalid address is \<open>None\<close>.\<close>

record Entry =
  enFamily :: "8 word"
  enSrc :: "Addr option"
  enDst :: "Addr option"
  enMark :: "32 word"
  enTuple :: bytes
  enZone :: bytes
  enId :: bytes

definition pad_attr :: "bytes \<Rightarrow> bytes" where
  "pad_attr a = a @ replicate (nlAlign (length a) - length a) 0"

definition encodeRequest :: "bool \<Rightarrow> 16 word \<Rightarrow> 16 word \<Rightarrow> 32 word \<Rightarrow> 8 word \<Rightarrow> bytes list \<Rightarrow> bytes" where
  "encodeRequest be msgType flags seq family attrs =
    (let n = nlmsgHdrLen + nfgenHdrLen + sum_list (map (\<lambda>a. nlAlign (length a)) attrs)
     in put32 be (of_nat n) @ put16 be (push_bit 8 nfnlSubsysCT OR msgType) @ put16 be flags @ put32 be seq
        @ [0, 0, 0, 0] @ [family, 0, 0, 0] @ concat (map pad_attr attrs))"

definition dumpRequest :: "bool \<Rightarrow> 32 word \<Rightarrow> 8 word \<Rightarrow> bytes" where
  "dumpRequest be seq family = encodeRequest be ctMsgGet (nlmFRequest OR nlmFDump) seq family []"

definition tuple_ok :: "bool \<Rightarrow> bytes \<Rightarrow> bool" where
  "tuple_ok be t \<longleftrightarrow> nlaHdrLen < length t \<and> unat (get16 be (take 2 t)) = length t
     \<and> get16 be (take 2 (drop 2 t)) AND nlaTypeMask = ctaTupleOrig"

definition deleteRequest :: "bool \<Rightarrow> 32 word \<Rightarrow> Entry \<Rightarrow> bytes option" where
  "deleteRequest be seq e =
    (if \<not> tuple_ok be (enTuple e) then None
     else Some (encodeRequest be ctMsgDelete (nlmFRequest OR nlmFAck) seq (enFamily e)
       ([enTuple e] @ (if enId e \<noteq> [] then [enId e] else []) @ (if enZone e \<noteq> [] then [enZone e] else []))))"

section \<open>Parsing\<close>

record nlAttr =
  naTyp :: "16 word"
  naPayload :: bytes
  naRaw :: bytes

function parseAttrs :: "bool \<Rightarrow> bytes \<Rightarrow> nlAttr list option" where
  "parseAttrs be b =
    (if length b < nlaHdrLen then Some []
     else
       (let l = unat (get16 be (take 2 b))
        in if l < nlaHdrLen \<or> length b < l then None
           else (case parseAttrs be (drop (nlAlign l) b) of
                   None \<Rightarrow> None
                 | Some out \<Rightarrow> Some (\<lparr>naTyp = get16 be (take 2 (drop 2 b)) AND nlaTypeMask, naPayload = drop nlaHdrLen (take l b),
                     naRaw = take l b\<rparr> # out))))"
  by pat_completeness auto

lemma nlAlign_ge: "n \<le> nlAlign n"
  unfolding nlAlign_def by presburger

termination parseAttrs
proof (relation "measure (\<lambda>(be, b). length b)")
  fix be :: bool and b :: bytes and l
  assume "\<not> length b < nlaHdrLen" "l = unat (get16 be (take 2 b))" "\<not> (l < nlaHdrLen \<or> length b < l)"
  then show "((be, drop (nlAlign l) b), (be, b)) \<in> measure (\<lambda>(be, b). length b)"
    using nlAlign_ge[of l] by auto
qed simp

declare parseAttrs.simps [simp del]

definition addr4 :: "bytes \<Rightarrow> Addr" where
  "addr4 bs = V4 (be32 bs)"

definition addr16 :: "bytes \<Rightarrow> Addr" where
  "addr16 bs = V6 (foldl (\<lambda>acc b. push_bit 8 acc OR ucast b) 0 bs) ''''"

definition entry_ip :: "Entry \<Rightarrow> nlAttr \<Rightarrow> Entry" where
  "entry_ip e ip =
    (if naTyp ip = ctaIPv4Src \<and> length (naPayload ip) = 4 then e\<lparr>enSrc := Some (addr4 (naPayload ip))\<rparr>
     else if naTyp ip = ctaIPv6Src \<and> length (naPayload ip) = 16 then e\<lparr>enSrc := Some (addr16 (naPayload ip))\<rparr>
     else if naTyp ip = ctaIPv4Dst \<and> length (naPayload ip) = 4 then e\<lparr>enDst := Some (addr4 (naPayload ip))\<rparr>
     else if naTyp ip = ctaIPv6Dst \<and> length (naPayload ip) = 16 then e\<lparr>enDst := Some (addr16 (naPayload ip))\<rparr>
     else e)"

fun entry_tuple :: "bool \<Rightarrow> nlAttr list \<Rightarrow> Entry \<Rightarrow> Entry option" where
  "entry_tuple be [] e = Some e"
| "entry_tuple be (t # ts) e =
     (if naTyp t \<noteq> ctaTupleIP then entry_tuple be ts e
      else (case parseAttrs be (naPayload t) of
              None \<Rightarrow> None
            | Some ips \<Rightarrow> entry_tuple be ts (foldl entry_ip e ips)))"

fun entry_attrs :: "bool \<Rightarrow> nlAttr list \<Rightarrow> Entry \<Rightarrow> Entry option" where
  "entry_attrs be [] e = Some e"
| "entry_attrs be (a # as) e =
     (if naTyp a = ctaTupleOrig then
        (case parseAttrs be (naPayload a) of
           None \<Rightarrow> None
         | Some inner \<Rightarrow>
            (case entry_tuple be inner (e\<lparr>enTuple := naRaw a\<rparr>) of None \<Rightarrow> None | Some e' \<Rightarrow> entry_attrs be as e'))
      else if naTyp a = ctaMark then
        entry_attrs be as (if length (naPayload a) = 4 then e\<lparr>enMark := be32 (naPayload a)\<rparr> else e)
      else if naTyp a = ctaZone then entry_attrs be as (e\<lparr>enZone := naRaw a\<rparr>)
      else if naTyp a = ctaID then
        entry_attrs be as (if length (naPayload a) = 4 then e\<lparr>enId := naRaw a\<rparr> else e)
      else entry_attrs be as e)"

definition empty_entry :: "8 word \<Rightarrow> Entry" where
  "empty_entry family = \<lparr>enFamily = family, enSrc = None, enDst = None, enMark = 0, enTuple = [], enZone = [], enId = []\<rparr>"

definition parseEntry :: "bool \<Rightarrow> 8 word \<Rightarrow> bytes \<Rightarrow> Entry option" where
  "parseEntry be family payload =
    (if length payload < nfgenHdrLen then None
     else (case parseAttrs be (drop nfgenHdrLen payload) of
             None \<Rightarrow> None
           | Some attrs \<Rightarrow>
              (case entry_attrs be attrs (empty_entry family) of
                 None \<Rightarrow> None
               | Some e \<Rightarrow> if enTuple e = [] then None else Some e)))"

section \<open>Answers\<close>

text \<open>How one receive buffer ends: nothing final yet, the end of the request, the kernel's errno (0 for an
  acknowledgement), or a malformed message.\<close>

datatype reply = ReMore | ReDone | ReErrno int | ReShort | ReLength nat

function readMessages :: "bool \<Rightarrow> bytes \<Rightarrow> 8 word \<Rightarrow> 32 word \<Rightarrow> Entry list \<times> reply" where
  "readMessages be buf family seq =
    (if length buf < nlmsgHdrLen then ([], ReMore)
     else
       (let l = unat (get32 be (take 4 buf))
        in if l < nlmsgHdrLen \<or> length buf < l then ([], ReLength l)
           else
             (let typ = get16 be (take 2 (drop 4 buf));
                  payload = drop nlmsgHdrLen (take l buf);
                  mine = (get32 be (take 4 (drop 8 buf)) = seq)
              in if mine \<and> typ = nlmsgDone then ([], ReDone)
                 else if mine \<and> typ = nlmsgError then
                   ([], if length payload < 4 then ReShort else ReErrno (sint (get32 be (take 4 payload))))
                 else
                   (let here = (if mine \<and> typ = push_bit 8 nfnlSubsysCT OR ctMsgNew
                                then (case parseEntry be family payload of None \<Rightarrow> [] | Some e \<Rightarrow> [e]) else []);
                        (es, r) = readMessages be (drop (nlAlign l) buf) family seq
                    in (here @ es, r)))))"
  by pat_completeness auto

termination readMessages
proof (relation "measure (\<lambda>(be, buf, family, seq). length buf)", goal_cases)
  case (2 be buf family seq l)
  then show ?case using nlAlign_ge[of l] by auto
qed simp

declare readMessages.simps [simp del]

text \<open>What a receive gives: an error text or a buffer.\<close>

type_synonym recv = "string + bytes"

datatype dump_err = DumpSend | DumpRead string | DumpParse reply | NoModule int | DumpRefused int

text \<open>The receive loop of \<open>Dump\<close>: the entries handed to the visitor, and its result once it returns.\<close>

fun dump_loop :: "bool \<Rightarrow> int \<Rightarrow> 8 word \<Rightarrow> 32 word \<Rightarrow> recv list \<Rightarrow> Entry list \<times> dump_err option option" where
  "dump_loop be eopnotsupp family seq [] = ([], None)"
| "dump_loop be eopnotsupp family seq (Inl err # rs) = ([], Some (Some (DumpRead err)))"
| "dump_loop be eopnotsupp family seq (Inr buf # rs) =
     (case readMessages be buf family seq of
        (es, ReDone) \<Rightarrow> (es, Some None)
      | (es, ReErrno n) \<Rightarrow>
          if n = 0 then (es, Some None)
          else if - n = 22 \<or> - n = eopnotsupp then (es, Some (Some (NoModule (- n))))
          else (es, Some (Some (DumpRefused (- n))))
      | (es, ReMore) \<Rightarrow> (case dump_loop be eopnotsupp family seq rs of (es', r) \<Rightarrow> (es @ es', r))
      | (es, bad) \<Rightarrow> (es, Some (Some (DumpParse bad))))"

datatype del_answer = DelOK | DelGone | DelRefused | DelSend | DelRead string | DelParse reply | DelErrno int

fun delete_loop :: "bool \<Rightarrow> Entry \<Rightarrow> 32 word \<Rightarrow> recv list \<Rightarrow> del_answer option" where
  "delete_loop be e seq [] = None"
| "delete_loop be e seq (Inl err # rs) = Some (DelRead err)"
| "delete_loop be e seq (Inr buf # rs) =
     (case snd (readMessages be buf (enFamily e) seq) of
        ReMore \<Rightarrow> delete_loop be e seq rs
      | ReDone \<Rightarrow> Some DelOK
      | ReErrno n \<Rightarrow> if n = - 2 then Some DelGone else if n \<noteq> 0 then Some (DelErrno (- n)) else Some DelOK
      | bad \<Rightarrow> Some (DelParse bad))"

text \<open>The socket with its sequence counter: a call sends one request and reads until it is answered.
  \<open>sent\<close> tells whether the send succeeded.\<close>

definition nl_Dump :: "bool \<Rightarrow> int \<Rightarrow> bool \<Rightarrow> 8 word \<Rightarrow> recv list \<Rightarrow> 32 word \<Rightarrow>
    32 word \<times> bytes \<times> Entry list \<times> dump_err option option" where
  "nl_Dump be eopnotsupp sent family rs seq =
    (let seq' = seq + 1; msg = dumpRequest be seq' family
     in (seq', msg, if sent then dump_loop be eopnotsupp family seq' rs else ([], Some (Some DumpSend))))"

definition nl_Delete :: "bool \<Rightarrow> bool \<Rightarrow> Entry \<Rightarrow> recv list \<Rightarrow> 32 word \<Rightarrow> 32 word \<times> bytes option \<times> del_answer option" where
  "nl_Delete be sent e rs seq =
    (let seq' = seq + 1
     in (seq', deleteRequest be seq' e,
         case deleteRequest be seq' e of
           None \<Rightarrow> Some DelRefused
         | Some msg \<Rightarrow> if sent then delete_loop be e seq' rs else Some DelSend))"

section \<open>Integers round trip\<close>

lemma unat_of_nat32: "n < 2 ^ 32 \<Longrightarrow> unat (of_nat n :: 32 word) = n"
  by (simp add: unat_of_nat take_bit_nat_eq_self)

lemma length_put [simp]: "length (put16 be w) = 2" "length (put32 be v) = 4"
  by (simp_all add: put16_def put32_def Let_def)

lemma ucast_bits: "push_bit 8 (ucast (ucast (drop_bit 8 w) :: 8 word)) OR ucast (ucast w :: 8 word) = (w :: 16 word)"
  by (rule bit_word_eqI) (auto simp: bit_simps)

lemma get16_put16: "get16 be (put16 be w @ bs) = w" "get16 be (take 2 (put16 be w @ bs)) = w"
  by (simp_all add: get16_def put16_def Let_def ucast_bits)

lemma get32_put32: "get32 be (put32 be w) = w"
proof -
  have "push_bit 8 (push_bit 8 (push_bit 8 (ucast (ucast (drop_bit 24 w) :: 8 word)) OR ucast (ucast (drop_bit 16 w) :: 8 word))
      OR ucast (ucast (drop_bit 8 w) :: 8 word)) OR ucast (ucast w :: 8 word) = w"
  proof (rule bit_word_eqI, goal_cases)
    case (1 n)
    consider "n < 8" | "8 \<le> n" "n < 16" | "16 \<le> n" "n < 24" | "24 \<le> n" by linarith
    then show ?case using 1 by cases (auto simp: bit_simps)
  qed
  then show ?thesis by (simp add: get32_def put32_def be32_def Let_def)
qed

section \<open>Attributes round trip\<close>

definition attr_of :: "bool \<Rightarrow> bytes \<Rightarrow> nlAttr" where
  "attr_of be raw = \<lparr>naTyp = get16 be (take 2 (drop 2 raw)) AND nlaTypeMask, naPayload = drop nlaHdrLen raw, naRaw = raw\<rparr>"

text \<open>Raw bytes of one attribute: a header whose length field is their number.\<close>

definition raw_ok :: "bool \<Rightarrow> bytes \<Rightarrow> bool" where
  "raw_ok be raw \<longleftrightarrow> nlaHdrLen \<le> length raw \<and> unat (get16 be (take 2 raw)) = length raw"

lemma length_pad [simp]: "length (pad_attr a) = nlAlign (length a)"
  using nlAlign_ge[of "length a"] by (simp add: pad_attr_def)

lemma take_pad: "k \<le> length a \<Longrightarrow> take k (pad_attr a @ rest) = take k a"
  by (simp add: pad_attr_def)

lemma parse_pad:
  assumes "raw_ok be a"
  shows "parseAttrs be (pad_attr a @ rest) = map_option ((#) (attr_of be a)) (parseAttrs be rest)"
proof -
  have len: "nlaHdrLen \<le> length a" "unat (get16 be (take 2 a)) = length a" using assms by (simp_all add: raw_ok_def)
  define b where "b = pad_attr a @ rest"
  have t: "take 2 b = take 2 a" "take (length a) b = a" "drop (nlAlign (length a)) b = rest"
    using len take_pad[of 2 a rest] take_pad[of "length a" a rest] by (simp_all add: b_def)
  have d: "take 2 (drop 2 b) = take 2 (drop 2 a)"
    using len arg_cong[OF take_pad[of 4 a rest], of "drop 2"] by (simp add: take_drop b_def del: take_append drop_append)
  have l: "length a \<le> length b" using nlAlign_ge[of "length a"] by (simp add: b_def)
  show ?thesis unfolding b_def[symmetric]
    using len l by (subst parseAttrs.simps) (simp add: t d Let_def attr_of_def split: option.splits)
qed

lemma parse_concat: "\<forall>a\<in>set as. raw_ok be a \<Longrightarrow> parseAttrs be (concat (map pad_attr as)) = Some (map (attr_of be) as)"
proof (induction as)
  case Nil
  then show ?case by (subst parseAttrs.simps) simp
next
  case (Cons a as)
  then show ?case by (simp add: parse_pad)
qed

lemma parse_raw:
  "parseAttrs be b = Some out \<Longrightarrow> a \<in> set out \<Longrightarrow> raw_ok be (naRaw a) \<and> a = attr_of be (naRaw a)"
proof (induction be b arbitrary: out rule: parseAttrs.induct)
  case (1 be b)
  show ?case
  proof (cases "length b < nlaHdrLen")
    case True
    then show ?thesis using "1.prems" by (simp add: parseAttrs.simps[of be b])
  next
    case False
    define l where "l = unat (get16 be (take 2 b))"
    have ok: "\<not> (l < nlaHdrLen \<or> length b < l)"
      using "1.prems" False by (auto simp: parseAttrs.simps[of be b] Let_def l_def split: if_splits)
    then obtain rest where rest: "parseAttrs be (drop (nlAlign l) b) = Some rest"
      and out: "out = \<lparr>naTyp = get16 be (take 2 (drop 2 b)) AND nlaTypeMask, naPayload = drop nlaHdrLen (take l b), naRaw = take l b\<rparr> # rest"
      using "1.prems" False by (auto simp: parseAttrs.simps[of be b] Let_def l_def split: option.splits)
    have "nlaHdrLen \<le> l" using ok by simp
    then have m: "take 2 (take l b) = take 2 b" "take 2 (drop 2 (take l b)) = take 2 (drop 2 b)"
      by (simp_all add: take_drop min_absorb1)
    have "raw_ok be (take l b)" using ok m by (simp add: raw_ok_def l_def[symmetric])
    moreover have "hd out = attr_of be (take l b)" by (simp add: out attr_of_def m)
    ultimately show ?thesis using "1.prems"(2) "1.IH"[OF False l_def ok rest] by (auto simp: out attr_of_def m)
  qed
qed

text \<open>What parsing establishes about an entry's raw attributes.\<close>

definition attr_is :: "bool \<Rightarrow> 16 word \<Rightarrow> bytes \<Rightarrow> bool" where
  "attr_is be typ raw \<longleftrightarrow> raw_ok be raw \<and> naTyp (attr_of be raw) = typ"

definition entry_ok :: "bool \<Rightarrow> Entry \<Rightarrow> bool" where
  "entry_ok be e \<longleftrightarrow> (enTuple e = [] \<or> attr_is be ctaTupleOrig (enTuple e))
     \<and> (enZone e = [] \<or> attr_is be ctaZone (enZone e)) \<and> (enId e = [] \<or> attr_is be ctaID (enId e) \<and> length (enId e) = 8)
     \<and> (enDst e \<noteq> None \<longrightarrow> enTuple e \<noteq> [])"

lemma entry_ip_raw [simp]:
  "enTuple (foldl entry_ip e ips) = enTuple e" "enZone (foldl entry_ip e ips) = enZone e" "enId (foldl entry_ip e ips) = enId e"
  "enFamily (foldl entry_ip e ips) = enFamily e"
  by (induction ips arbitrary: e) (auto simp: entry_ip_def)

lemma entry_tuple_raw:
  "entry_tuple be ts e = Some e' \<Longrightarrow> enTuple e' = enTuple e \<and> enZone e' = enZone e \<and> enId e' = enId e \<and> enFamily e' = enFamily e"
  by (induction be ts e rule: entry_tuple.induct) (auto split: if_splits option.splits)

lemma entry_attrs_ok:
  assumes "\<forall>a\<in>set as. raw_ok be (naRaw a) \<and> a = attr_of be (naRaw a)" "entry_ok be e" "entry_attrs be as e = Some e'"
  shows "entry_ok be e' \<and> enFamily e' = enFamily e"
  using assms
proof (induction be as e rule: entry_attrs.induct)
  case (1 be e)
  then show ?case by simp
next
  case (2 be a as e)
  have a: "raw_ok be (naRaw a)" "attr_of be (naRaw a) = a" using 2(6) by auto
  then have ty: "attr_is be (naTyp a) (naRaw a)" by (simp add: attr_is_def)
  have ne: "naRaw a \<noteq> []" using a(1) by (auto simp: raw_ok_def)
  have pay: "naPayload a = drop nlaHdrLen (naRaw a)" using a(2) by (metis attr_of_def nlAttr.select_convs(2))
  show ?case
  proof (cases "naTyp a = ctaTupleOrig")
    case True
    then obtain inner e1 where p: "parseAttrs be (naPayload a) = Some inner"
      "entry_tuple be inner (e\<lparr>enTuple := naRaw a\<rparr>) = Some e1" "entry_attrs be as e1 = Some e'"
      using 2(8) by (auto split: option.splits)
    have "entry_ok be e1" "enFamily e1 = enFamily e"
      using entry_tuple_raw[OF p(2)] 2(7) ty ne True by (auto simp: entry_ok_def)
    then show ?thesis using 2(1)[OF True p(1,2)] 2(6) p(3) by simp
  next
    case False
    have "length (naRaw a) = 8" if "length (naPayload a) = 4" using that a(1) pay by (simp add: raw_ok_def)
    then show ?thesis using False ty ne 2(2-8) by (auto simp: entry_ok_def split: if_splits)
  qed
qed

lemma parseEntry_ok:
  assumes "parseEntry be family payload = Some e"
  shows "entry_ok be e" "enTuple e \<noteq> []" "enFamily e = family"
proof -
  obtain attrs where a: "parseAttrs be (drop nfgenHdrLen payload) = Some attrs" "entry_attrs be attrs (empty_entry family) = Some e"
    and ne: "enTuple e \<noteq> []"
    using assms by (auto simp: parseEntry_def split: if_splits option.splits)
  have "entry_ok be (empty_entry family)" by (simp add: entry_ok_def empty_entry_def)
  then show "entry_ok be e" "enFamily e = family"
    using entry_attrs_ok[OF _ _ a(2)] parse_raw[OF a(1)] by (auto simp: empty_entry_def)
  show "enTuple e \<noteq> []" by (rule ne)
qed

section \<open>Delete requests\<close>

definition delete_attrs :: "Entry \<Rightarrow> bytes list" where
  "delete_attrs e = enTuple e # (if enId e \<noteq> [] then [enId e] else []) @ (if enZone e \<noteq> [] then [enZone e] else [])"

lemma raw_len: "raw_ok be a \<Longrightarrow> length a < 65536"
  using unsigned_less[of "get16 be (take 2 a)", where 'a = nat] by (simp add: raw_ok_def)

lemma nlAlign_le: "nlAlign n \<le> n + 3"
  by (simp add: nlAlign_def)

lemma raw_align: "raw_ok be a \<Longrightarrow> nlAlign (length a) \<le> 65540"
  using raw_len[of be a] nlAlign_le[of "length a"] by linarith

lemma encode_length: "length (encodeRequest be t f seq fam as) = 20 + sum_list (map (\<lambda>a. nlAlign (length a)) as)"
  by (simp add: encodeRequest_def Let_def length_concat o_def)

lemma encode_parts:
  "take 4 (encodeRequest be t f seq fam as) = put32 be (of_nat (length (encodeRequest be t f seq fam as)))"
  "take 2 (drop 4 (encodeRequest be t f seq fam as)) = put16 be (push_bit 8 nfnlSubsysCT OR t)"
  "take 4 (drop 8 (encodeRequest be t f seq fam as)) = put32 be seq"
  "drop 20 (encodeRequest be t f seq fam as) = concat (map pad_attr as)"
  by (simp_all only: encode_length) (simp_all add: encodeRequest_def Let_def)

text \<open>C34. A delete names exactly the entry that was dumped. For every entry read from a dump message, the
  delete request is refused only if the entry's original tuple is empty. Otherwise the request is one
  well-framed message with the right length, type and sequence number, whose attributes, read back, are
  the dumped tuple with a non-empty payload first and then the dumped id and zone when there are any: it
  is never the request without a tuple, which flushes the whole table.
\<close>

theorem delete_request_names_entry:
  assumes "parseEntry be family payload = Some e"
  shows "case deleteRequest be seq e of
      None \<Rightarrow> naPayload (attr_of be (enTuple e)) = []
    | Some msg \<Rightarrow> unat (get32 be (take 4 msg)) = length msg \<and> get16 be (take 2 (drop 4 msg)) = 0x102
        \<and> get32 be (take 4 (drop 8 msg)) = seq
        \<and> parseAttrs be (drop (nlmsgHdrLen + nfgenHdrLen) msg) = Some (map (attr_of be) (delete_attrs e))
        \<and> naTyp (attr_of be (enTuple e)) = ctaTupleOrig \<and> naPayload (attr_of be (enTuple e)) \<noteq> []"
proof -
  have ok: "entry_ok be e" "enTuple e \<noteq> []" using parseEntry_ok[OF assms] by auto
  then have t: "raw_ok be (enTuple e)" "naTyp (attr_of be (enTuple e)) = ctaTupleOrig" by (auto simp: entry_ok_def attr_is_def)
  have all: "\<forall>a\<in>set (delete_attrs e). raw_ok be a" using ok t by (auto simp: delete_attrs_def entry_ok_def attr_is_def)
  have tok: "tuple_ok be (enTuple e) \<longleftrightarrow> naPayload (attr_of be (enTuple e)) \<noteq> []"
    using t by (auto simp: tuple_ok_def raw_ok_def attr_of_def)
  show ?thesis
  proof (cases "tuple_ok be (enTuple e)")
    case False
    then show ?thesis using tok by (simp add: deleteRequest_def)
  next
    case True
    define msg where "msg = encodeRequest be ctMsgDelete (nlmFRequest OR nlmFAck) seq (enFamily e) (delete_attrs e)"
    have d: "deleteRequest be seq e = Some msg" using True by (simp add: deleteRequest_def msg_def delete_attrs_def)
    have "sum_list (map (\<lambda>a. nlAlign (length a)) (delete_attrs e)) \<le> sum_list (map (\<lambda>a. 65540) (delete_attrs e))"
      by (rule sum_list_mono) (use all raw_align in blast)
    moreover have "length (delete_attrs e) \<le> 3" by (simp add: delete_attrs_def)
    ultimately have "length msg < 2 ^ 32" by (simp add: msg_def encode_length sum_list_triv)
    then have "unat (of_nat (length msg) :: 32 word) = length msg" by (rule unat_of_nat32)
    then have "unat (get32 be (take 4 msg)) = length msg" by (simp add: msg_def encode_parts(1) get32_put32)
    moreover have "get16 be (take 2 (drop 4 msg)) = 0x102"
      using get16_put16(1)[of be _ "[]"] by (simp add: msg_def encode_parts nl_consts)
    moreover have "get32 be (take 4 (drop 8 msg)) = seq" by (simp add: msg_def encode_parts get32_put32)
    moreover have "parseAttrs be (drop (nlmsgHdrLen + nfgenHdrLen) msg) = Some (map (attr_of be) (delete_attrs e))"
      using parse_concat[OF all] by (simp add: msg_def encode_parts(4))
    ultimately show ?thesis using d True tok t(2) by simp
  qed
qed

text \<open>A dumped IPv4 flow from 192.168.1.5 to 8.8.8.8 with mark 0x20000 on a little-endian host.\<close>

definition ex_payload :: bytes where
  "ex_payload = [2, 0, 0, 0]
     @ [24, 0, 1, 0x80] @ [20, 0, 1, 0x80] @ [8, 0, 1, 0, 192, 168, 1, 5] @ [8, 0, 2, 0, 8, 8, 8, 8]
     @ [8, 0, 8, 0, 0, 2, 0, 0] @ [8, 0, 12, 0, 1, 2, 3, 4]"

definition ex_entry :: Entry where
  "ex_entry = \<lparr>enFamily = 2, enSrc = Some (V4 0xC0A80105), enDst = Some (V4 0x08080808), enMark = 0x20000,
     enTuple = [24, 0, 1, 0x80] @ [20, 0, 1, 0x80] @ [8, 0, 1, 0, 192, 168, 1, 5] @ [8, 0, 2, 0, 8, 8, 8, 8],
     enZone = [], enId = [8, 0, 12, 0, 1, 2, 3, 4]\<rparr>"

lemma ex_parse: "parseEntry False 2 ex_payload = Some ex_entry"
  by code_simp

theorem delete_request_names_entry_witness:
  "\<exists>msg. deleteRequest False 7 ex_entry = Some msg \<and> length msg = 52
     \<and> parseAttrs False (drop 20 msg) = Some [attr_of False (enTuple ex_entry), attr_of False (enId ex_entry)]"
proof -
  have "map_option length (deleteRequest False 7 ex_entry) = Some 52" by code_simp
  then show ?thesis using delete_request_names_entry[OF ex_parse, of 7] by (auto simp: delete_attrs_def ex_entry_def)
qed

section \<open>Dumps\<close>

text \<open>A message as the kernel sends it.\<close>

record nlMsg =
  nmTyp :: "16 word"
  nmFlags :: "16 word"
  nmSeq :: "32 word"
  nmPid :: "32 word"
  nmPayload :: bytes

definition enc_msg :: "bool \<Rightarrow> nlMsg \<Rightarrow> bytes" where
  "enc_msg be m = pad_attr (put32 be (of_nat (nlmsgHdrLen + length (nmPayload m))) @ put16 be (nmTyp m) @ put16 be (nmFlags m)
     @ put32 be (nmSeq m) @ put32 be (nmPid m) @ nmPayload m)"

definition msg_fits :: "nlMsg \<Rightarrow> bool" where
  "msg_fits m \<longleftrightarrow> nlmsgHdrLen + length (nmPayload m) < 2 ^ 32"

definition msg_final :: "32 word \<Rightarrow> nlMsg \<Rightarrow> bool" where
  "msg_final seq m \<longleftrightarrow> nmSeq m = seq \<and> (nmTyp m = nlmsgDone \<or> nmTyp m = nlmsgError)"

definition msg_entries :: "bool \<Rightarrow> 8 word \<Rightarrow> 32 word \<Rightarrow> nlMsg \<Rightarrow> Entry list" where
  "msg_entries be family seq m =
    (if nmSeq m = seq \<and> nmTyp m = 0x100
     then (case parseEntry be family (nmPayload m) of None \<Rightarrow> [] | Some e \<Rightarrow> [e]) else [])"

lemma enc_msg_parts:
  assumes "msg_fits m"
  defines "l \<equiv> nlmsgHdrLen + length (nmPayload m)"
  shows "unat (get32 be (take 4 (enc_msg be m @ rest))) = l" "l \<le> length (enc_msg be m @ rest)"
    "get16 be (take 2 (drop 4 (enc_msg be m @ rest))) = nmTyp m"
    "get32 be (take 4 (drop 8 (enc_msg be m @ rest))) = nmSeq m"
    "drop nlmsgHdrLen (take l (enc_msg be m @ rest)) = nmPayload m" "drop (nlAlign l) (enc_msg be m @ rest) = rest"
proof -
  define raw where "raw = put32 be (of_nat l) @ put16 be (nmTyp m) @ put16 be (nmFlags m) @ put32 be (nmSeq m) @ put32 be (nmPid m) @ nmPayload m"
  have raw: "length raw = l" by (simp add: raw_def l_def)
  have enc: "enc_msg be m = pad_attr raw" by (simp add: enc_msg_def raw_def l_def)
  have cut: "take k (drop j (enc_msg be m @ rest)) = take k (drop j raw)" if "j + k \<le> l" for j k
    using that raw arg_cong[OF take_pad[of "j + k" raw rest], of "drop j"]
    by (simp add: take_drop enc add.commute del: take_append drop_append)
  have "l < 2 ^ 32" using assms by (simp add: msg_fits_def)
  then have u: "unat (of_nat l :: 32 word) = l" by (rule unat_of_nat32)
  have l16: "nlmsgHdrLen \<le> l" by (simp add: l_def)
  have rp: "take 4 (drop 0 raw) = put32 be (of_nat l)" "take 2 (drop 4 raw) = put16 be (nmTyp m)"
    "take 4 (drop 8 raw) = put32 be (nmSeq m)" "drop nlmsgHdrLen raw = nmPayload m" "take l (drop 0 raw) = raw"
    using raw by (simp_all add: raw_def)
  have c: "take 4 (drop 0 (enc_msg be m @ rest)) = put32 be (of_nat l)" "take 2 (drop 4 (enc_msg be m @ rest)) = put16 be (nmTyp m)"
    "take 4 (drop 8 (enc_msg be m @ rest)) = put32 be (nmSeq m)" "take l (drop 0 (enc_msg be m @ rest)) = raw"
    using cut[of 0 4] cut[of 4 2] cut[of 8 4] cut[of 0 l] rp l16 by simp_all
  show "unat (get32 be (take 4 (enc_msg be m @ rest))) = l" using c(1) u by (simp only: drop_0 get32_put32)
  show "get16 be (take 2 (drop 4 (enc_msg be m @ rest))) = nmTyp m"
    using get16_put16(1)[of be "nmTyp m" "[]"] by (simp only: c append_Nil2)
  show "get32 be (take 4 (drop 8 (enc_msg be m @ rest))) = nmSeq m" by (simp only: c get32_put32)
  show "drop nlmsgHdrLen (take l (enc_msg be m @ rest)) = nmPayload m" using c(4) rp(4) by (simp only: drop_0)
  show "l \<le> length (enc_msg be m @ rest)" using raw nlAlign_ge[of l] by (simp add: enc)
  show "drop (nlAlign l) (enc_msg be m @ rest) = rest" using raw by (simp add: enc)
qed

lemma read_msg:
  assumes "msg_fits m" "\<not> msg_final seq m" "readMessages be rest family seq = (es, r)"
  shows "readMessages be (enc_msg be m @ rest) family seq = (msg_entries be family seq m @ es, r)"
proof -
  note parts = enc_msg_parts[OF assms(1), of be rest]
  define buf where "buf = enc_msg be m @ rest"
  have "nlmsgHdrLen \<le> length buf" using parts(2) by (simp add: buf_def)
  then show ?thesis
    unfolding buf_def[symmetric]
    using parts[folded buf_def] assms(2,3)
    by (subst readMessages.simps) (auto simp: Let_def msg_final_def msg_entries_def nl_consts split: option.splits)
qed

lemma read_done:
  assumes "msg_fits m" "nmSeq m = seq" "nmTyp m = nlmsgDone"
  shows "readMessages be (enc_msg be m @ rest) family seq = ([], ReDone)"
proof -
  note parts = enc_msg_parts[OF assms(1), of be rest]
  define buf where "buf = enc_msg be m @ rest"
  have "nlmsgHdrLen \<le> length buf" using parts(2) by (simp add: buf_def)
  then show ?thesis
    unfolding buf_def[symmetric]
    using parts[folded buf_def] assms(2,3) by (subst readMessages.simps) (auto simp: Let_def)
qed

abbreviation enc_msgs :: "bool \<Rightarrow> nlMsg list \<Rightarrow> bytes" where
  "enc_msgs be ms \<equiv> concat (map (enc_msg be) ms)"

lemma read_msgs:
  assumes "\<forall>m\<in>set ms. msg_fits m \<and> \<not> msg_final seq m" "readMessages be rest family seq = (es, r)"
  shows "readMessages be (enc_msgs be ms @ rest) family seq = (concat (map (msg_entries be family seq) ms) @ es, r)"
  using assms(1) by (induction ms) (auto simp: read_msg assms(2))

lemma dump_batches:
  assumes "\<forall>ms\<in>set batches. \<forall>m\<in>set ms. msg_fits m \<and> \<not> msg_final seq m"
    and "dump_loop be eo family seq rs = (es, r)"
  shows "dump_loop be eo family seq (map (\<lambda>ms. Inr (enc_msgs be ms)) batches @ rs)
     = (concat (map (msg_entries be family seq) (concat batches)) @ es, r)"
  using assms(1)
proof (induction batches)
  case Nil
  then show ?case using assms(2) by simp
next
  case (Cons ms batches)
  have "readMessages be [] family seq = ([], ReMore)" by (subst readMessages.simps) simp
  then have "readMessages be (enc_msgs be ms) family seq = (concat (map (msg_entries be family seq) ms), ReMore)"
    using read_msgs[of ms seq be "[]" family] Cons.prems by simp
  then show ?case using Cons by simp
qed

text \<open>A dump delivers exactly the answers to its own request. However the kernel distributes its messages
  over receive buffers, and whatever late replies to earlier requests are mixed in, the dump loop hands
  over, in order, the entries of the messages of this request that can be parsed, and returns
  successfully at its end message, ignoring what follows.
\<close>

theorem dump_collects_own_answers:
  assumes "\<forall>ms\<in>set (batches @ [final]). \<forall>m\<in>set ms. msg_fits m \<and> \<not> msg_final seq m"
    and "msg_fits done_msg" "nmSeq done_msg = seq" "nmTyp done_msg = nlmsgDone"
  shows "dump_loop be eo family seq
      (map (\<lambda>ms. Inr (enc_msgs be ms)) batches @ Inr (enc_msgs be final @ enc_msg be done_msg @ junk) # later)
    = (concat (map (msg_entries be family seq) (concat (batches @ [final]))), Some None)"
proof -
  have "readMessages be (enc_msgs be final @ enc_msg be done_msg @ junk) family seq
      = (concat (map (msg_entries be family seq) final), ReDone)"
    using read_msgs[OF _ read_done[OF assms(2-4)]] assms(1) by simp
  then show ?thesis by (subst dump_batches) (use assms(1) in auto)
qed

theorem dump_collects_own_answers_witness:
  "dump_loop False 95 2 7 [Inr (enc_msg False \<lparr>nmTyp = 0x100, nmFlags = 2, nmSeq = 6, nmPid = 0, nmPayload = ex_payload\<rparr>
      @ enc_msg False \<lparr>nmTyp = 0x100, nmFlags = 2, nmSeq = 7, nmPid = 0, nmPayload = ex_payload\<rparr>
      @ enc_msg False \<lparr>nmTyp = 3, nmFlags = 2, nmSeq = 7, nmPid = 0, nmPayload = [0, 0, 0, 0]\<rparr>)] = ([ex_entry], Some None)"
proof -
  let ?late = "\<lparr>nmTyp = 0x100, nmFlags = 2, nmSeq = 6, nmPid = 0, nmPayload = ex_payload\<rparr>"
  let ?mine = "\<lparr>nmTyp = 0x100, nmFlags = 2, nmSeq = 7, nmPid = 0, nmPayload = ex_payload\<rparr>"
  let ?fin = "\<lparr>nmTyp = 3, nmFlags = 2, nmSeq = 7, nmPid = 0, nmPayload = [0, 0, 0, 0]\<rparr>"
  have a: "\<forall>ms\<in>set ([] @ [[?late, ?mine]]). \<forall>m\<in>set ms. msg_fits m \<and> \<not> msg_final 7 m"
    by (simp add: msg_fits_def msg_final_def nl_consts ex_payload_def)
  have b: "msg_fits ?fin" "nmSeq ?fin = 7" "nmTyp ?fin = nlmsgDone" by (simp_all add: msg_fits_def nl_consts)
  show ?thesis
    using dump_collects_own_answers[OF a b, of False 95 2 "[]" "[]"] by (simp add: msg_entries_def ex_parse)
qed

end
