(* ===== verification/Ctflush.thy ===== *)
theory Ctflush
  imports Ctflush_Netlink
begin

text \<open>
  Which established flows a routing change leaves on the wrong exit, \<open>internal/ctflush/ctflush.go\<close>: the
  view of a compiled plan, the three-valued match of a flow against a zone, the decision, and the flush
  with its limits. The conntrack table is an argument: what the dump of each family visits and how it
  ends, and the answer to each delete.
\<close>

section \<open>Data\<close>

datatype Plane = PlaneNft | PlaneIpset

record FlushOptions =
  foLimit :: int
  foLocal :: "(Addr \<Rightarrow> bool) option"
  foPlane :: Plane
  foHybrid :: bool

record Result =
  rsSeen :: nat
  rsDeleted :: nat
  rsGone :: nat
  rsCapped :: bool

datatype tri = TNo | TYes | TUnknown

record zoneView =
  zvMark :: "32 word"
  zvV4 :: "Prefix list"
  zvV6 :: "Prefix list"
  zvDomains :: bool
  zvSourceOnly :: bool
  zvScoped :: bool
  zvSrcHidden :: bool
  zvSrc4 :: "Prefix list"
  zvSrc6 :: "Prefix list"
  zvNegate :: bool

record View =
  vTags :: "32 word \<Rightarrow> id option"
  vWan :: "32 word \<Rightarrow> bool"
  vZones :: "zoneView list"
  vBypass :: "Prefix list"

section \<open>Prefixes\<close>

text \<open>Sorting by address: the code's sort is not stable, the lists it is used on have no equal addresses.\<close>

definition parse_cidr :: "string \<Rightarrow> Prefix option" where
  "parse_cidr c = (case ParsePrefix c of
      Some p \<Rightarrow> Some (masked_prefix p)
    | None \<Rightarrow> map_option host_prefix (ParseAddr c))"

definition addr_key :: "Addr \<Rightarrow> nat \<times> nat \<times> string" where
  "addr_key a = (case a of V4 w \<Rightarrow> (0, unat w, '''') | V6 w z \<Rightarrow> (1, unat w, z))"

definition parsePrefixes :: "string list \<Rightarrow> Prefix list" where
  "parsePrefixes cidrs = sort_key (\<lambda>p. addr_key (prefix_addr p)) (List.map_filter parse_cidr cidrs)"

definition contains_zone :: "Prefix list \<Rightarrow> Addr \<Rightarrow> bool" where
  "contains_zone ps a =
    (let k = sort_Search (\<lambda>j. addr_less a (prefix_addr (ps ! j))) 0 (length ps)
     in k \<noteq> 0 \<and> prefix_contains (ps ! (k - 1)) a)"

definition containsAny :: "Prefix list \<Rightarrow> Addr \<Rightarrow> bool" where
  "containsAny ps a \<longleftrightarrow> list_ex (\<lambda>p. prefix_contains p a) ps"

section \<open>The view of a plan\<close>

definition add_tag_egress :: "32 word \<Rightarrow> View \<Rightarrow> Egress \<Rightarrow> View" where
  "add_tag_egress msk v e =
    (let m = egMark e AND msk
     in if m = 0 then v
        else v\<lparr>vTags := (vTags v)(m \<mapsto> egTag e), vWan := (if egKind e = EgressWAN then (vWan v)(m := True) else vWan v)\<rparr>)"

definition add_slot :: "32 word \<Rightarrow> View \<Rightarrow> NDMPolicySlot \<Rightarrow> View" where
  "add_slot msk v ps =
    (let m = nsSlot ps AND msk in if m \<noteq> 0 then v\<lparr>vTags := (vTags v)(m \<mapsto> ''ndm-policy:'' @ nsName ps)\<rparr> else v)"

definition zone_view :: "32 word \<Rightarrow> Zone \<Rightarrow> zoneView" where
  "zone_view msk z =
    (let v4 = parsePrefixes (zV4 z); v6 = parsePrefixes (zV6 z); doms = (zDomains z \<noteq> []);
         scoped = (zSrcScoped z \<or> zSrcV4 z \<noteq> [] \<or> zSrcV6 z \<noteq> [] \<or> zSrcMAC z \<noteq> [] \<or> zSrcIface z \<noteq> [] \<or> zSrcPort z \<noteq> [])
     in \<lparr>zvMark = zMark z AND msk, zvV4 = v4, zvV6 = v6, zvDomains = doms,
         zvSourceOnly = (scoped \<and> v4 = [] \<and> v6 = [] \<and> \<not> doms), zvScoped = scoped,
         zvSrcHidden = (zSrcMAC z \<noteq> [] \<or> zSrcIface z \<noteq> [] \<or> zSrcPort z \<noteq> []),
         zvSrc4 = parsePrefixes (zSrcV4 z), zvSrc6 = parsePrefixes (zSrcV6 z), zvNegate = zSrcNegate z\<rparr>)"

definition matches_nothing :: "zoneView \<Rightarrow> bool" where
  "matches_nothing zv \<longleftrightarrow> zvV4 zv = [] \<and> zvV6 zv = [] \<and> \<not> zvDomains zv \<and> \<not> zvSourceOnly zv"

definition newView :: "Plan option \<Rightarrow> 32 word \<Rightarrow> View" where
  "newView po msk =
    (let v0 = \<lparr>vTags = Map.empty, vWan = (\<lambda>_. False), vZones = [], vBypass = []\<rparr>
     in case po of
          None \<Rightarrow> v0
        | Some p \<Rightarrow>
           (foldl (add_slot msk) (foldl (add_tag_egress msk) v0 (plEgresses p)) (NDMPolicySlots p))
             \<lparr>vZones := filter (\<lambda>zv. \<not> matches_nothing zv) (map (zone_view msk) (plZones p)),
              vBypass := parsePrefixes (plBypassV4 p) @ parsePrefixes (plBypassV6 p)\<rparr>)"

definition owns :: "View \<Rightarrow> 32 word \<Rightarrow> bool" where
  "owns v m \<longleftrightarrow> vTags v m \<noteq> None"

definition route :: "View \<Rightarrow> 32 word \<Rightarrow> 32 word" where
  "route v m = (if vWan v m then 0 else m)"

section \<open>Matching\<close>

definition match_dst :: "zoneView \<Rightarrow> Addr \<Rightarrow> tri" where
  "match_dst z dst =
    (if zvSourceOnly z then TYes
     else if (\<not> Is6 dst \<and> contains_zone (zvV4 z) dst) \<or> (Is6 dst \<and> contains_zone (zvV6 z) dst) then TYes
     else if zvDomains z then TUnknown else TNo)"

definition match_src :: "zoneView \<Rightarrow> Addr \<Rightarrow> Addr option \<Rightarrow> tri" where
  "match_src z dst src =
    (if \<not> zvScoped z then TYes
     else (case src of
             None \<Rightarrow> TUnknown
           | Some s \<Rightarrow>
              if zvSrcHidden z \<or> (zvSrc4 z = [] \<and> zvSrc6 z = []) then TUnknown
              else if containsAny (if Is6 dst then zvSrc6 z else zvSrc4 z) s = zvNegate z then TNo
              else TYes))"

definition match_zone :: "zoneView \<Rightarrow> Addr \<Rightarrow> Addr option \<Rightarrow> tri" where
  "match_zone z dst src =
    (if match_dst z dst = TNo then TNo
     else if match_src z dst src = TNo then TNo
     else if match_dst z dst = TYes \<and> match_src z dst src = TYes then TYes
     else TUnknown)"

text \<open>From the last zone backwards: \<open>(mark, matched, known)\<close>.\<close>

fun eval_zones :: "zoneView list \<Rightarrow> Addr \<Rightarrow> Addr option \<Rightarrow> 32 word \<times> bool \<times> bool" where
  "eval_zones [] dst src = (0, False, True)"
| "eval_zones (z # zs) dst src =
     (case match_zone z dst src of
        TYes \<Rightarrow> (zvMark z, True, True)
      | TUnknown \<Rightarrow> (0, False, False)
      | TNo \<Rightarrow> eval_zones zs dst src)"

definition eval :: "View \<Rightarrow> Addr \<Rightarrow> Addr option \<Rightarrow> 32 word \<times> bool \<times> bool" where
  "eval v dst src = eval_zones (rev (vZones v)) dst src"

section \<open>The decision\<close>

definition privateDst :: "Prefix list" where
  "privateDst = [P4 (0x0A000000, 8), P4 (0xAC100000, 12), P4 (0xC0A80000, 16),
     P6 (0xfc000000000000000000000000000000, 7), P6 (0xfe800000000000000000000000000000, 10)]"

record decider =
  dMask :: "32 word"
  dOld :: View
  dCur :: View
  dRemoved :: bool
  dOpt :: FlushOptions

definition newDecider :: "Plan option \<Rightarrow> Plan option \<Rightarrow> FlushOptions \<Rightarrow> decider" where
  "newDecider old cur opt =
    (let msk = (case cur of
           Some c \<Rightarrow> if plMask c \<noteq> 0 then plMask c
                     else (case old of Some o1 \<Rightarrow> if plMask o1 \<noteq> 0 then plMask o1 else 0x00ff0000 | None \<Rightarrow> 0x00ff0000)
         | None \<Rightarrow> (case old of Some o1 \<Rightarrow> if plMask o1 \<noteq> 0 then plMask o1 else 0x00ff0000 | None \<Rightarrow> 0x00ff0000))
     in \<lparr>dMask = msk, dOld = newView old msk, dCur = newView cur msk, dRemoved = (cur = None), dOpt = opt\<rparr>)"

definition is_local :: "FlushOptions \<Rightarrow> Addr \<Rightarrow> Addr option \<Rightarrow> bool" where
  "is_local opt dst src =
    (case foLocal opt of None \<Rightarrow> False | Some f \<Rightarrow> f dst \<or> (case src of None \<Rightarrow> False | Some s \<Rightarrow> f s))"

definition stale_mark :: "decider \<Rightarrow> Addr \<Rightarrow> Addr option \<Rightarrow> 32 word \<Rightarrow> bool" where
  "stale_mark d dst src m =
    (if dRemoved d then m \<noteq> 0 \<and> owns (dOld d) m \<and> \<not> vWan (dOld d) m
     else
       (case eval (dCur d) dst src of (nm, matched, known) \<Rightarrow>
          if \<not> known then False
          else if foPlane (dOpt d) = PlaneIpset then
            (if matched then False else owns (dCur d) m \<and> route (dCur d) m \<noteq> 0)
          else if m \<noteq> 0 \<and> owns (dCur d) m then route (dCur d) nm \<noteq> route (dCur d) m
          else m = 0 \<and> foHybrid (dOpt d) \<and> route (dCur d) nm \<noteq> 0))"

definition stale :: "decider \<Rightarrow> Entry \<Rightarrow> bool" where
  "stale d e =
    (let src = map_option Unmap (enSrc e)
     in case map_option Unmap (enDst e) of
          None \<Rightarrow> False
        | Some dst \<Rightarrow>
           if IsLoopback dst \<or> containsAny privateDst dst \<or> containsAny (vBypass (dCur d)) dst then False
           else if is_local (dOpt d) dst src then False
           else stale_mark d dst src (enMark e AND dMask d))"

text \<open>Lists are compared by their elements. (The code also tells a nil list from an empty one, which can only
  add a dump that finds nothing to do.)\<close>

definition Changed :: "Plan option \<Rightarrow> Plan option \<Rightarrow> bool" where
  "Changed old cur =
    (case (old, cur) of
       (None, None) \<Rightarrow> False
     | (Some o1, Some c) \<Rightarrow> plMask o1 \<noteq> plMask c \<or> plEgresses o1 \<noteq> plEgresses c \<or> plZones o1 \<noteq> plZones c
         \<or> plBypassV4 o1 \<noteq> plBypassV4 c \<or> plBypassV6 o1 \<noteq> plBypassV6 c
     | _ \<Rightarrow> True)"

section \<open>The flush\<close>

text \<open>One visited entry: counted, and kept when stale, at most one more than the limit.\<close>

definition visit :: "decider \<Rightarrow> nat \<times> Entry list \<Rightarrow> Entry \<Rightarrow> nat \<times> Entry list" where
  "visit d acc e =
    (case acc of (seen, doomed) \<Rightarrow>
      (seen + 1, if (foLimit (dOpt d) \<le> 0 \<or> int (length doomed) \<le> foLimit (dOpt d)) \<and> stale d e then doomed @ [e] else doomed))"

text \<open>The dumps of both families: \<open>Inl\<close> the error that ends the flush.\<close>

fun dump_all :: "decider \<Rightarrow> (8 word \<Rightarrow> Entry list \<times> dump_err option) \<Rightarrow> 8 word list \<Rightarrow> nat \<times> Entry list
    \<Rightarrow> nat \<times> Entry list \<times> (8 word \<times> dump_err) option" where
  "dump_all d dump [] acc = (fst acc, snd acc, None)"
| "dump_all d dump (fam # fams) acc =
     (case dump fam of (es, err) \<Rightarrow>
        (let acc' = foldl (visit d) acc es
         in case err of Some er \<Rightarrow> (fst acc', snd acc', Some (fam, er)) | None \<Rightarrow> dump_all d dump fams acc'))"

text \<open>The deletes: \<open>del k e\<close> is the answer to the \<open>k\<close>-th. Besides result and first error it gives the
  entries asked for.\<close>

fun delete_all :: "int \<Rightarrow> (nat \<Rightarrow> Entry \<Rightarrow> del_answer) \<Rightarrow> nat \<Rightarrow> Entry list \<Rightarrow> Result \<Rightarrow> del_answer option
    \<Rightarrow> Result \<times> del_answer option \<times> Entry list" where
  "delete_all limit del k [] res err = (res, err, [])"
| "delete_all limit del k (e # es) res err =
     (if limit > 0 \<and> int (rsDeleted res + rsGone res) \<ge> limit then (res\<lparr>rsCapped := True\<rparr>, err, [])
      else
        (let (res', err') =
               (case del k e of
                  DelOK \<Rightarrow> (res\<lparr>rsDeleted := rsDeleted res + 1\<rparr>, err)
                | DelGone \<Rightarrow> (res\<lparr>rsGone := rsGone res + 1\<rparr>, err)
                | a \<Rightarrow> (res, if err = None then Some a else err));
             (res'', err'', asked) = delete_all limit del (k + 1) es res' err'
         in (res'', err'', e # asked)))"

datatype flush_err = FlushDump "8 word" dump_err | FlushDelete del_answer

definition Flush :: "(8 word \<Rightarrow> Entry list \<times> dump_err option) \<Rightarrow> (nat \<Rightarrow> Entry \<Rightarrow> del_answer) \<Rightarrow> Plan option \<Rightarrow> Plan option
    \<Rightarrow> FlushOptions \<Rightarrow> Result \<times> flush_err option \<times> Entry list" where
  "Flush dump del old cur opt =
    (let zero = \<lparr>rsSeen = 0, rsDeleted = 0, rsGone = 0, rsCapped = False\<rparr>
     in if old = None \<and> cur = None then (zero, None, [])
        else
          (case dump_all (newDecider old cur opt) dump [2, 10] (0, []) of
             (seen, doomed, Some (fam, err)) \<Rightarrow> (zero\<lparr>rsSeen := seen\<rparr>, Some (FlushDump fam err), [])
           | (seen, doomed, None) \<Rightarrow>
               (case delete_all (foLimit opt) del 0 doomed (zero\<lparr>rsSeen := seen\<rparr>) None of
                  (res, err, asked) \<Rightarrow> (res, map_option FlushDelete err, asked))))"

section \<open>Binary search in a zone's set\<close>

text \<open>The order of a zone's prefixes: by address, and pairwise disjoint.\<close>

definition prefix_wf :: "Prefix \<Rightarrow> bool" where
  "prefix_wf p = (case p of P4 q \<Rightarrow> prefix_ok q | P6 q \<Rightarrow> prefix_ok q)"

definition zone_set_ok :: "Prefix list \<Rightarrow> bool" where
  "zone_set_ok ps \<longleftrightarrow> sorted_wrt (\<lambda>p q. addr_less (prefix_addr p) (prefix_addr q)) ps
     \<and> sorted_wrt (\<lambda>p q. \<forall>a. \<not> (prefix_contains p a \<and> prefix_contains q a)) ps
     \<and> (\<forall>p\<in>set ps. prefix_wf p)"

lemma addr_less_trans: "addr_less a b \<Longrightarrow> addr_less b c \<Longrightarrow> addr_less a c"
  by (cases a; cases b; cases c) auto

lemma addr_less_irrefl: "\<not> addr_less a a"
  by (cases a) auto

lemma prefix_starts: "prefix_contains p a \<Longrightarrow> prefix_wf p \<Longrightarrow> \<not> addr_less a (prefix_addr p)"
  by (cases p; cases a) (auto simp: contains_interval word_less_nat_alt not_less prefix_wf_def)

lemma prefix_self: "prefix_wf q \<Longrightarrow> prefix_contains q (prefix_addr q)"
  by (cases q) (auto simp: contains_interval prefix_wf_def)

lemma prefix_convex:
  "prefix_contains p a \<Longrightarrow> prefix_wf p \<Longrightarrow> addr_less (prefix_addr p) (prefix_addr q) \<Longrightarrow> \<not> addr_less a (prefix_addr q)
     \<Longrightarrow> prefix_contains p (prefix_addr q)"
  by (cases p; cases a; cases q) (auto simp: contains_interval word_less_nat_alt not_less prefix_wf_def)

lemma contains_zone_iff:
  assumes "zone_set_ok ps"
  shows "contains_zone ps a \<longleftrightarrow> containsAny ps a"
proof -
  let ?f = "\<lambda>j. addr_less a (prefix_addr (ps ! j))"
  define k where "k = sort_Search ?f 0 (length ps)"
  have srt: "addr_less (prefix_addr (ps ! i)) (prefix_addr (ps ! j))"
    and dis: "\<not> (prefix_contains (ps ! i) x \<and> prefix_contains (ps ! j) x)" if "i < j" "j < length ps" for i j x
    using assms that by (auto simp: zone_set_ok_def sorted_wrt_iff_nth_less)
  have wf: "prefix_wf (ps ! i)" if "i < length ps" for i using assms that by (auto simp: zone_set_ok_def)
  have mono: "?f j" if "i \<le> j" "j < length ps" "?f i" for i j
    using srt[of i j] that addr_less_trans by (cases "i = j") auto
  have k: "k \<le> length ps" "\<And>i. i < length ps \<Longrightarrow> ?f i \<longleftrightarrow> k \<le> i"
    using sort_Search_least[of 0 "length ps" ?f] mono by (auto simp: k_def)
  have only: "i = k - 1 \<and> k \<noteq> 0" if i: "i < length ps" "prefix_contains (ps ! i) a" for i
  proof -
    have "i < k" using prefix_starts[OF i(2) wf[OF i(1)]] k(2)[OF i(1)] by simp
    moreover have False if "i < k - 1"
    proof -
      have l: "k - 1 < length ps" using that k(1) by simp
      have "\<not> ?f (k - 1)" using k(2)[OF l] that by simp
      then have "prefix_contains (ps ! i) (prefix_addr (ps ! (k - 1)))"
        using prefix_convex[OF i(2) wf[OF i(1)] srt[OF that l]] by simp
      then show False using dis[OF that l] prefix_self[OF wf[OF l]] by blast
    qed
    ultimately show ?thesis by fastforce
  qed
  have "containsAny ps a \<longleftrightarrow> (\<exists>i<length ps. prefix_contains (ps ! i) a)"
    unfolding containsAny_def list_ex_iff by (metis in_set_conv_nth)
  also have "\<dots> \<longleftrightarrow> k \<noteq> 0 \<and> prefix_contains (ps ! (k - 1)) a"
    using only k(1) by (metis One_nat_def diff_less_Suc le_imp_less_Suc less_le_trans not_gr_zero diff_less zero_less_one)
  finally show ?thesis by (simp add: contains_zone_def Let_def k_def)
qed

section \<open>What the kernel does with a flow\<close>

text \<open>
  The planes as the renderers build them, for any way the predicates hidden from the plan turn out:
  \<open>truth\<close> tells which zones really match the flow. Zones mark in order, the last match wins. The nft plane
  restores a saved mark that is one of the plan's and stops; the ipset plane restores it and lets the zones
  re-mark. A mark selects an exit only if the plan owns it, and the WAN's mark means the main table.
\<close>

definition admissible :: "(zoneView \<Rightarrow> bool) \<Rightarrow> View \<Rightarrow> Addr \<Rightarrow> Addr option \<Rightarrow> bool" where
  "admissible truth v dst src \<longleftrightarrow> (\<forall>z\<in>set (vZones v).
     (match_zone z dst src = TYes \<longrightarrow> truth z) \<and> (match_zone z dst src = TNo \<longrightarrow> \<not> truth z))"

definition chain :: "(zoneView \<Rightarrow> bool) \<Rightarrow> zoneView list \<Rightarrow> 32 word \<Rightarrow> 32 word" where
  "chain truth zs m0 = foldl (\<lambda>m z. if truth z then zvMark z else m) m0 zs"

definition next_mark :: "Plane \<Rightarrow> View \<Rightarrow> (zoneView \<Rightarrow> bool) \<Rightarrow> 32 word \<Rightarrow> 32 word" where
  "next_mark plane v truth m =
    (case plane of
       PlaneNft \<Rightarrow> if m \<noteq> 0 \<and> owns v m then m else chain truth (vZones v) 0
     | PlaneIpset \<Rightarrow> chain truth (vZones v) m)"

definition exit_of :: "View \<Rightarrow> 32 word \<Rightarrow> 32 word" where
  "exit_of v m = (if owns v m then route v m else 0)"

lemma eval_chain:
  assumes "admissible truth v dst src" "eval v dst src = (nm, matched, True)"
  shows "chain truth (vZones v) m0 = (if matched then nm else m0) \<and> (\<not> matched \<longrightarrow> nm = 0)"
proof -
  have "\<lbrakk>\<forall>z\<in>set zs. (match_zone z dst src = TYes \<longrightarrow> truth z) \<and> (match_zone z dst src = TNo \<longrightarrow> \<not> truth z);
      eval_zones zs dst src = (nm, matched, True)\<rbrakk>
    \<Longrightarrow> chain truth (rev zs) m0 = (if matched then nm else m0) \<and> (\<not> matched \<longrightarrow> nm = 0)" for zs
    by (induction zs) (auto simp: chain_def split: tri.splits)
  from this[of "rev (vZones v)"] show ?thesis using assms by (simp add: admissible_def eval_def)
qed

definition zones_owned :: "View \<Rightarrow> bool" where
  "zones_owned v \<longleftrightarrow> \<not> vWan v 0 \<and> (\<forall>z\<in>set (vZones v). zvMark z = 0 \<or> owns v (zvMark z))"

lemma eval_mark: "eval v dst src = (nm, True, known) \<Longrightarrow> nm \<in> zvMark ` set (vZones v)"
proof -
  have "eval_zones zs dst src = (nm, True, known) \<Longrightarrow> nm \<in> zvMark ` set zs" for zs
    by (induction zs) (auto split: tri.splits)
  then show "eval v dst src = (nm, True, known) \<Longrightarrow> nm \<in> zvMark ` set (vZones v)" by (fastforce simp: eval_def)
qed

lemma exit_zone_mark:
  assumes "zones_owned v" "eval v dst src = (nm, matched, True)" "\<not> matched \<longrightarrow> nm = 0"
  shows "exit_of v nm = route v nm"
proof (cases matched)
  case True
  then have "nm = 0 \<or> owns v nm" using eval_mark[of v dst src nm True] assms by (auto simp: zones_owned_def)
  then show ?thesis using assms(1) by (auto simp: exit_of_def route_def zones_owned_def)
next
  case False
  then show ?thesis using assms by (auto simp: exit_of_def route_def zones_owned_def)
qed

text \<open>The flow is one the plan decides about: not private, bypassed, local or loopback.\<close>

definition routed_dst :: "decider \<Rightarrow> Entry \<Rightarrow> Addr \<Rightarrow> Addr option \<Rightarrow> bool" where
  "routed_dst d e dst src \<longleftrightarrow> src = map_option Unmap (enSrc e) \<and> map_option Unmap (enDst e) = Some dst
     \<and> \<not> IsLoopback dst \<and> \<not> containsAny privateDst dst \<and> \<not> containsAny (vBypass (dCur d)) dst \<and> \<not> is_local (dOpt d) dst src"

lemma stale_routed: "stale d e \<longleftrightarrow> (\<exists>dst src. routed_dst d e dst src \<and> stale_mark d dst src (enMark e AND dMask d))"
  by (cases "enDst e") (auto simp: stale_def routed_dst_def Let_def)

section \<open>Marks of a compiled plan\<close>

lemma fold_egress_tags:
  "vTags (foldl (add_tag_egress msk) v es) m \<noteq> None \<longleftrightarrow> vTags v m \<noteq> None \<or> (\<exists>e\<in>set es. egMark e AND msk = m \<and> m \<noteq> 0)"
  by (induction es arbitrary: v) (auto simp: add_tag_egress_def Let_def)

lemma fold_egress_wan: "vWan (foldl (add_tag_egress msk) v es) 0 = vWan v 0"
  by (induction es arbitrary: v) (auto simp: add_tag_egress_def Let_def)

lemma fold_slot_tags:
  "vTags (foldl (add_slot msk) v ss) m \<noteq> None \<longleftrightarrow> vTags v m \<noteq> None \<or> (\<exists>s\<in>set ss. nsSlot s AND msk = m \<and> m \<noteq> 0)"
  by (induction ss arbitrary: v) (auto simp: add_slot_def Let_def)

lemma fold_slot_wan: "vWan (foldl (add_slot msk) v ss) = vWan v"
  by (induction ss arbitrary: v) (auto simp: add_slot_def Let_def)

lemma newView_owns:
  "owns (newView (Some p) msk) m \<longleftrightarrow> m \<noteq> 0 \<and> ((\<exists>e\<in>set (plEgresses p). egMark e AND msk = m) \<or> (\<exists>s\<in>set (NDMPolicySlots p). nsSlot s AND msk = m))"
  unfolding owns_def newView_def Let_def by (auto simp: fold_slot_tags fold_egress_tags simp del: not_None_eq)

lemma policy_slots_cover:
  "z \<in> set zs \<Longrightarrow> zNDMPolicy z \<noteq> '''' \<Longrightarrow> zNDMPolicy z \<notin> set seen
    \<Longrightarrow> \<exists>s\<in>set (policy_slots seen zs). \<exists>z'\<in>set zs. zNDMPolicy z' = zNDMPolicy z \<and> nsSlot s = zMark z'"
proof (induction seen zs rule: policy_slots.induct)
  case (1 seen)
  then show ?case by simp
next
  case (2 seen z0 zs)
  show ?case
  proof (cases "zNDMPolicy z0 = '''' \<or> zNDMPolicy z0 \<in> set seen")
    case True
    then show ?thesis using 2 by auto
  next
    case False
    show ?thesis
    proof (cases "zNDMPolicy z = zNDMPolicy z0")
      case True
      then show ?thesis using False by auto
    next
      case ne: False
      then show ?thesis using 2(2)[OF False] 2(3-5) False by auto
    qed
  qed
qed

lemma mark_of_cases: "mark_of egs tag = 0 \<or> (\<exists>e\<in>set egs. mark_of egs tag = egMark e)"
  by (auto simp: mark_of_def split: option.splits dest!: map_of_SomeD)

lemma newView_zones: "vZones (newView (Some p) msk) = filter (\<lambda>zv. \<not> matches_nothing zv) (map (zone_view msk) (plZones p))"
  by (simp add: newView_def Let_def)

lemma zone_view_mark: "zvMark (zone_view msk z) = zMark z AND msk"
  by (simp add: zone_view_def Let_def)

lemma compiled_zones_owned: "zones_owned (newView (Some (plan_of opt p)) msk)"
proof -
  let ?pl = "plan_of opt p"
  have own: "zMark z AND msk = 0 \<or> owns (newView (Some ?pl) msk) (zMark z AND msk)" if z: "z \<in> set (plZones ?pl)" for z
  proof (cases "zNDMPolicy z = ''''")
    case True
    then have "zMark z = mark_of (plEgresses ?pl) (zEgressTag z)" using z by (auto simp: plan_zone_set mark_zone_def split: if_splits)
    then show ?thesis using mark_of_cases[of "plEgresses ?pl" "zEgressTag z"] by (auto simp: newView_owns)
  next
    case False
    have mk: "zMark z' = slot_of opt (length (plEgresses ?pl)) (csZones (compile_zones opt p)) (zNDMPolicy z')"
      if "z' \<in> set (plZones ?pl)" "zNDMPolicy z' \<noteq> ''''" for z'
      using that by (auto simp: plan_zone_set mark_zone_def)
    obtain s z' where "s \<in> set (policy_slots [] (plZones ?pl))" "z' \<in> set (plZones ?pl)"
      "zNDMPolicy z' = zNDMPolicy z" "nsSlot s = zMark z'" using policy_slots_cover[OF z False, of "[]"] by auto
    then have "s \<in> set (NDMPolicySlots ?pl)" "nsSlot s = zMark z"
      using mk[OF z False] mk[of z'] False by (auto simp: NDMPolicySlots_def)
    then show ?thesis by (metis newView_owns)
  qed
  have "\<not> vWan (newView (Some ?pl) msk) 0" by (simp add: newView_def Let_def fold_slot_wan fold_egress_wan)
  moreover have "\<forall>z\<in>set (vZones (newView (Some ?pl) msk)). zvMark z = 0 \<or> owns (newView (Some ?pl) msk) (zvMark z)"
    unfolding newView_zones using own by (force simp: zone_view_mark simp del: disj_not1)
  ultimately show ?thesis by (simp add: zones_owned_def)
qed

section \<open>Properties\<close>

lemma stale_mark_exits:
  assumes own: "zones_owned (dCur d)" and plane: "\<not> (foPlane (dOpt d) = PlaneNft \<and> foHybrid (dOpt d))" and cur: "\<not> dRemoved d"
    and ev: "eval (dCur d) dst src = (nm, matched, True)" and adm: "admissible truth (dCur d) dst src"
  shows "stale_mark d dst src m \<longleftrightarrow>
    exit_of (dCur d) (next_mark (foPlane (dOpt d)) (dCur d) truth m) \<noteq> exit_of (dCur d) (chain truth (vZones (dCur d)) 0)"
proof -
  have ch: "chain truth (vZones (dCur d)) m0 = (if matched then nm else m0)" and nm: "\<not> matched \<longrightarrow> nm = 0" for m0
    using eval_chain[OF adm ev] by auto
  have ex: "exit_of (dCur d) nm = route (dCur d) nm" by (rule exit_zone_mark[OF own ev nm])
  have z: "exit_of (dCur d) 0 = 0" using own by (auto simp: exit_of_def route_def zones_owned_def)
  show ?thesis
  proof (cases "foPlane (dOpt d)")
    case PlaneNft
    have "chain truth (vZones (dCur d)) 0 = nm" using ch nm by auto
    then show ?thesis
      using PlaneNft plane cur ex by (auto simp: stale_mark_def ev next_mark_def exit_of_def[of _ m])
  next
    case PlaneIpset
    then show ?thesis using cur nm z by (auto simp: stale_mark_def ev next_mark_def ch exit_of_def[of _ m])
  qed
qed

lemma known_eval:
  assumes "\<forall>z\<in>set (vZones v). match_zone z dst src \<noteq> TUnknown"
  shows "snd (snd (eval v dst src))"
proof -
  have "\<forall>z\<in>set zs. match_zone z dst src \<noteq> TUnknown \<Longrightarrow> snd (snd (eval_zones zs dst src))" for zs
    by (induction zs) (auto split: tri.splits)
  then show ?thesis using assms by (simp add: eval_def)
qed

lemma unknown_not_stale: "\<not> dRemoved d \<Longrightarrow> \<not> snd (snd (eval (dCur d) dst src)) \<Longrightarrow> \<not> stale_mark d dst src m"
  by (cases "eval (dCur d) dst src") (simp add: stale_mark_def)

text \<open>C22. A flush moves exactly the misrouted flows. After an apply of a compiled plan, take a flow whose
  destination the plan routes (it is not private, bypassed or local), on any plane but nftables with a TUN
  beside it. If the flow is deleted, then
  under every outcome of the predicates the plan cannot see the kernel would send its next packet to
  another exit than a new flow to the same destination; and if every zone can be decided and the flow is
  kept, then the two exits are the same.
\<close>

theorem flush_moves_misrouted_flows:
  assumes "\<not> (foPlane fo = PlaneNft \<and> foHybrid fo)" and "d = newDecider old (Some (plan_of opt p)) fo" and "routed_dst d e dst src"
    and "admissible truth (dCur d) dst src"
  shows "(stale d e \<longrightarrow> exit_of (dCur d) (next_mark (foPlane fo) (dCur d) truth (enMark e AND dMask d))
                       \<noteq> exit_of (dCur d) (chain truth (vZones (dCur d)) 0))
    \<and> ((\<forall>z\<in>set (vZones (dCur d)). match_zone z dst src \<noteq> TUnknown) \<and> \<not> stale d e
        \<longrightarrow> exit_of (dCur d) (next_mark (foPlane fo) (dCur d) truth (enMark e AND dMask d))
          = exit_of (dCur d) (chain truth (vZones (dCur d)) 0))"
proof -
  have d: "zones_owned (dCur d)" "\<not> dRemoved d" "dOpt d = fo"
    using compiled_zones_owned by (simp_all add: assms(2) newDecider_def Let_def)
  have st: "stale d e \<longleftrightarrow> stale_mark d dst src (enMark e AND dMask d)"
    using assms(3) by (auto simp: stale_routed routed_dst_def)
  have "\<exists>nm matched known. eval (dCur d) dst src = (nm, matched, known)" by (metis prod.exhaust)
  then obtain nm matched known where ev: "eval (dCur d) dst src = (nm, matched, known)" by blast
  show ?thesis
  proof (cases known)
    case True
    then show ?thesis using stale_mark_exits[OF d(1) _ d(2) _ assms(4), of nm matched] ev st assms(1) d(3) by auto
  next
    case False
    then show ?thesis using unknown_not_stale[OF d(2), of dst src] known_eval[of "dCur d" dst src] ev st by auto
  qed
qed

definition ex_flush :: FlushOptions where
  "ex_flush = \<lparr>foLimit = 0, foLocal = None, foPlane = PlaneNft, foHybrid = False\<rparr>"

definition ex_decider :: decider where
  "ex_decider = newDecider None (Some ex_plan) ex_flush"

theorem flush_moves_misrouted_flows_witness:
  "stale ex_decider (ex_entry\<lparr>enMark := 0x40000\<rparr>) \<and>
   exit_of (dCur ex_decider) 0x40000
     \<noteq> exit_of (dCur ex_decider) (chain (\<lambda>z. match_zone z (V4 0x08080808) (Some (V4 0xC0A80105)) = TYes) (vZones (dCur ex_decider)) 0)"
proof -
  let ?e = "ex_entry\<lparr>enMark := 0x40000\<rparr>" and ?dst = "V4 0x08080808" and ?src = "Some (V4 0xC0A80105)"
  let ?t = "\<lambda>z. match_zone z ?dst ?src = TYes"
  have d: "ex_decider = newDecider None (Some (plan_of ex_opt ex_profile)) ex_flush" by (simp add: ex_decider_def ex_plan)
  have p: "\<not> (foPlane ex_flush = PlaneNft \<and> foHybrid ex_flush)" by (simp add: ex_flush_def)
  have r: "routed_dst ex_decider ?e ?dst ?src" by code_simp
  have a: "admissible ?t (dCur ex_decider) ?dst ?src" by (simp add: admissible_def)
  have s: "stale ex_decider ?e" by code_simp
  have m: "owns (dCur ex_decider) 0x40000" "enMark ?e AND dMask ex_decider = 0x40000" by code_simp+
  show ?thesis
    using flush_moves_misrouted_flows[OF p d r a] s m by (simp add: next_mark_def ex_flush_def)
qed

section \<open>Limits of a flush\<close>

lemma subseq_subset: "subseq xs ys \<Longrightarrow> set xs \<subseteq> set ys"
  by (auto elim: list_emb_set)

lemma visit_fold:
  assumes "foldl (visit d) (seen, doomed) es = (seen', doomed')"
  shows "seen' = seen + length es \<and> (\<exists>ds. doomed' = doomed @ ds \<and> subseq ds (filter (stale d) es)
     \<and> (foLimit (dOpt d) \<le> 0 \<longrightarrow> ds = filter (stale d) es))
     \<and> (0 < foLimit (dOpt d) \<and> int (length doomed) \<le> foLimit (dOpt d) + 1 \<longrightarrow> int (length doomed') \<le> foLimit (dOpt d) + 1)"
  using assms
proof (induction es arbitrary: seen doomed)
  case Nil
  then show ?case by simp
next
  case (Cons e es)
  define keep where "keep \<longleftrightarrow> (foLimit (dOpt d) \<le> 0 \<or> int (length doomed) \<le> foLimit (dOpt d)) \<and> stale d e"
  have "visit d (seen, doomed) e = (seen + 1, if keep then doomed @ [e] else doomed)" by (simp add: visit_def keep_def)
  then have "foldl (visit d) (seen + 1, if keep then doomed @ [e] else doomed) es = (seen', doomed')"
    using Cons.prems by simp
  from Cons.IH[OF this] obtain ds where ds: "seen' = seen + 1 + length es" "doomed' = (if keep then doomed @ [e] else doomed) @ ds"
    "subseq ds (filter (stale d) es)" "foLimit (dOpt d) \<le> 0 \<longrightarrow> ds = filter (stale d) es"
    "0 < foLimit (dOpt d) \<and> int (length (if keep then doomed @ [e] else doomed)) \<le> foLimit (dOpt d) + 1
       \<longrightarrow> int (length doomed') \<le> foLimit (dOpt d) + 1" by auto
  show ?case
  proof (cases keep)
    case True
    then show ?thesis using ds by (auto simp: keep_def intro!: exI[of _ "e # ds"])
  next
    case False
    then show ?thesis using ds by (auto simp: keep_def intro!: exI[of _ ds] intro: list_emb_Cons)
  qed
qed

lemma delete_all_spec:
  assumes "delete_all limit del k es res err = (res', err', asked)"
  shows "prefix asked es \<and> rsSeen res' = rsSeen res
    \<and> rsDeleted res' = rsDeleted res + length (filter (\<lambda>i. del (k + i) (asked ! i) = DelOK) [0..<length asked])
    \<and> (0 < limit \<and> int (rsDeleted res + rsGone res) \<le> limit \<longrightarrow> int (rsDeleted res' + rsGone res') \<le> limit)
    \<and> (limit \<le> 0 \<longrightarrow> asked = es)
    \<and> (asked \<noteq> es \<longrightarrow> rsCapped res' \<and> int (rsDeleted res' + rsGone res') \<ge> limit)"
  using assms
proof (induction es arbitrary: k res err res' err' asked)
  case Nil
  then show ?case by auto
next
  case (Cons e es)
  show ?case
  proof (cases "limit > 0 \<and> int (rsDeleted res + rsGone res) \<ge> limit")
    case True
    then show ?thesis using Cons.prems by auto
  next
    case False
    define r1 where "r1 = (case del k e of DelOK \<Rightarrow> res\<lparr>rsDeleted := rsDeleted res + 1\<rparr> | DelGone \<Rightarrow> res\<lparr>rsGone := rsGone res + 1\<rparr> | _ \<Rightarrow> res)"
    define e1 where "e1 = (case del k e of DelOK \<Rightarrow> err | DelGone \<Rightarrow> err | a \<Rightarrow> if err = None then Some a else err)"
    obtain asked1 where rest: "delete_all limit del (k + 1) es r1 e1 = (res', err', asked1)" and asked: "asked = e # asked1"
      using Cons.prems False by (cases "del k e") (auto simp: r1_def e1_def split: prod.splits)
    note ih = Cons.IH[OF rest]
    have shift: "[0..<length asked] = 0 # map Suc [0..<length asked1]" by (simp add: asked map_Suc_upt upt_conv_Cons del: upt_Suc)
    have "length (filter (\<lambda>i. del (k + i) (asked ! i) = DelOK) [0..<length asked])
        = (if del k e = DelOK then 1 else 0) + length (filter (\<lambda>i. del (k + 1 + i) (asked1 ! i) = DelOK) [0..<length asked1])"
      by (subst shift) (simp add: asked filter_map o_def)
    moreover have "rsDeleted r1 = rsDeleted res + (if del k e = DelOK then 1 else 0)" "rsSeen r1 = rsSeen res"
      "int (rsDeleted r1 + rsGone r1) \<le> int (rsDeleted res + rsGone res) + 1"
      by (auto simp: r1_def split: del_answer.splits)
    ultimately show ?thesis using ih False by (auto simp: asked)
  qed
qed

text \<open>C38. A flush is bounded, exact and harmless on errors. Every entry it asks the kernel to delete is a
  visited entry that is stale; when a dump fails nothing is deleted; with a positive limit, at most that
  many entries are removed or found gone and at most one more is asked for; without a limit and with
  both dumps read, exactly the stale entries are asked for, in order, and every visited entry is counted.
\<close>

theorem flush_bounded:
  assumes "Flush dump del old cur opt = (res, err, asked)" and "old \<noteq> None \<or> cur \<noteq> None"
  shows "set asked \<subseteq> {e \<in> set (fst (dump 2) @ fst (dump 10)). stale (newDecider old cur opt) e}
    \<and> (snd (dump 2) \<noteq> None \<or> snd (dump 10) \<noteq> None \<longrightarrow> asked = [] \<and> rsDeleted res = 0 \<and> err \<noteq> None)
    \<and> (0 < foLimit opt \<longrightarrow> int (rsDeleted res + rsGone res) \<le> foLimit opt \<and> int (length asked) \<le> foLimit opt + 1)
    \<and> (foLimit opt \<le> 0 \<and> snd (dump 2) = None \<and> snd (dump 10) = None \<longrightarrow>
        asked = filter (stale (newDecider old cur opt)) (fst (dump 2) @ fst (dump 10))
        \<and> rsSeen res = length (fst (dump 2)) + length (fst (dump 10)))"
proof -
  define d where "d = newDecider old cur opt"
  have lim: "dOpt d = opt" by (simp add: d_def newDecider_def Let_def)
  obtain s2 d2 where v2: "foldl (visit d) (0, []) (fst (dump 2)) = (s2, d2)" by fastforce
  obtain s10 d10 where v10: "foldl (visit d) (s2, d2) (fst (dump 10)) = (s10, d10)" by fastforce
  note f2 = visit_fold[OF v2, unfolded lim] and f10 = visit_fold[OF v10, unfolded lim]
  have dumped: "dump_all d dump [2, 10] (0, []) = (case snd (dump 2) of Some er \<Rightarrow> (s2, d2, Some (2, er))
      | None \<Rightarrow> (case snd (dump 10) of Some er \<Rightarrow> (s10, d10, Some (10, er)) | None \<Rightarrow> (s10, d10, None)))"
    using v2 v10 by (cases "dump 2"; cases "dump 10") (auto split: option.splits)
  have no: "(old = None \<and> cur = None) = False" using assms(2) by auto
  have fl: "Flush dump del old cur opt = (case dump_all d dump [2, 10] (0, []) of
      (seen, doomed, Some (fam, er)) \<Rightarrow> (\<lparr>rsSeen = seen, rsDeleted = 0, rsGone = 0, rsCapped = False\<rparr>, Some (FlushDump fam er), [])
    | (seen, doomed, None) \<Rightarrow>
        (case delete_all (foLimit opt) del 0 doomed \<lparr>rsSeen = seen, rsDeleted = 0, rsGone = 0, rsCapped = False\<rparr> None of
           (res, er, asked) \<Rightarrow> (res, map_option FlushDelete er, asked)))"
    unfolding Flush_def Let_def no if_False d_def[symmetric] by simp
  show ?thesis
  proof (cases "snd (dump 2) = None \<and> snd (dump 10) = None")
    case False
    then have "asked = [] \<and> rsDeleted res = 0 \<and> rsGone res = 0 \<and> err \<noteq> None"
      using assms(1) unfolding fl dumped by (auto split: option.splits)
    then show ?thesis using False by auto
  next
    case True
    define zero where "zero = \<lparr>rsSeen = s10, rsDeleted = 0, rsGone = 0, rsCapped = False\<rparr>"
    obtain e0 where da: "delete_all (foLimit opt) del 0 d10 zero None = (res, e0, asked)"
      using assms(1) True unfolding fl dumped zero_def by (auto split: prod.splits)
    have sub: "set d10 \<subseteq> set (filter (stale d) (fst (dump 2) @ fst (dump 10)))"
      using f2 f10 by (auto dest!: subseq_subset)
    have "set asked \<subseteq> set d10" "length asked \<le> length d10"
      using delete_all_spec[OF da] by (auto dest: set_mono_prefix prefix_length_le)
    moreover have "foLimit opt \<le> 0 \<Longrightarrow> d10 = filter (stale d) (fst (dump 2) @ fst (dump 10))" using f2 f10 by auto
    moreover have "0 < foLimit opt \<Longrightarrow> int (length d10) \<le> foLimit opt + 1" using f2 f10 by auto
    moreover have "s10 = length (fst (dump 2)) + length (fst (dump 10))" using f2 f10 by simp
    ultimately show ?thesis
      using delete_all_spec[OF da] sub True unfolding d_def[symmetric] by (auto simp: zero_def)
  qed
qed

theorem flush_bounded_witness:
  "\<exists>res asked. Flush (\<lambda>fam. (if fam = 2 then [ex_entry, ex_entry\<lparr>enMark := 0x40000\<rparr>] else [], None)) (\<lambda>_ _. DelOK)
      None (Some ex_plan) ex_flush = (res, None, asked) \<and> asked = [ex_entry\<lparr>enMark := 0x40000\<rparr>] \<and> rsSeen res = 2"
proof -
  let ?dump = "\<lambda>fam :: 8 word. (if fam = 2 then [ex_entry, ex_entry\<lparr>enMark := 0x40000\<rparr>] else [], None :: dump_err option)"
  obtain res err asked where f: "Flush ?dump (\<lambda>_ _. DelOK) None (Some ex_plan) ex_flush = (res, err, asked)" by (metis prod.exhaust)
  have s: "\<not> stale ex_decider ex_entry" "stale ex_decider (ex_entry\<lparr>enMark := 0x40000\<rparr>)" by code_simp+
  have "fst (snd (Flush ?dump (\<lambda>_ _. DelOK) None (Some ex_plan) ex_flush)) = None" by code_simp
  then show ?thesis
    using flush_bounded[OF f] f s by (simp add: ex_flush_def ex_decider_def[unfolded ex_flush_def, symmetric])
qed

end
