(* ===== verification/Ctflush_Sets.thy ===== *)
theory Ctflush_Sets
  imports Ctflush
begin

text \<open>
  From the compiler to the conntrack view: an IPv4 prefix printed into a plan is parsed back unchanged, so
  the binary search of the conntrack view sees exactly the destinations of the list the zone came from.
\<close>

section \<open>Printing and parsing IPv4 prefixes\<close>

lemma dec_small:
  "n < 10 \<Longrightarrow> dec n = [hex_digit n]"
  "10 \<le> n \<Longrightarrow> n < 100 \<Longrightarrow> dec n = [hex_digit (n div 10), hex_digit (n mod 10)]"
  "100 \<le> n \<Longrightarrow> n < 1000 \<Longrightarrow> dec n = [hex_digit (n div 100), hex_digit (n div 10 mod 10), hex_digit (n mod 10)]"
proof -
  show one: "n < 10 \<Longrightarrow> dec n = [hex_digit n]" for n by (subst dec.simps) simp
  show two: "10 \<le> n \<Longrightarrow> n < 100 \<Longrightarrow> dec n = [hex_digit (n div 10), hex_digit (n mod 10)]" for n
    using one[of "n div 10"] by (subst dec.simps) simp
  show "100 \<le> n \<Longrightarrow> n < 1000 \<Longrightarrow> dec n = [hex_digit (n div 100), hex_digit (n div 10 mod 10), hex_digit (n mod 10)]"
    using two[of "n div 10"] by (subst dec.simps) (simp add: div_mult2_eq[symmetric])
qed

lemma digit_dot [simp]: "digit_val (CHR ''.'') = None"
  by code_simp

lemma parse4_step:
  assumes "n < 256"
  shows "parse4 True 0 0 fs (dec n @ cs) = parse4 False n (length (dec n)) fs cs"
proof -
  consider "n < 10" | "10 \<le> n" "n < 100" | "100 \<le> n" by linarith
  then show ?thesis
  proof cases
    case 1
    then show ?thesis by (simp add: dec_small digit_val_hex)
  next
    case 2
    then have "n div 10 \<noteq> 0" "n div 10 < 10" by auto
    then show ?thesis using 2 assms by (simp add: dec_small digit_val_hex)
  next
    case 3
    have h: "n div 100 = n div 10 div 10" by (simp add: div_mult2_eq[symmetric])
    have "100 * (n div 100) + n div 10 mod 10 * 10 + n mod 10 = n"
      using div_mult_mod_eq[of n 10] div_mult_mod_eq[of "n div 10" 10] h by linarith
    moreover have "n div 100 \<noteq> 0" "n div 100 < 10" using 3 assms by auto
    ultimately show ?thesis using 3 assms by (simp add: dec_small digit_val_hex)
  qed
qed

definition octets :: "32 word \<Rightarrow> nat list" where
  "octets w = [unat (drop_bit 24 w AND 255), unat (drop_bit 16 w AND 255), unat (drop_bit 8 w AND 255), unat (w AND 255)]"

lemma octet_less: "unat (w AND 255 :: 32 word) < 256"
proof -
  have "w AND 255 \<le> 255" by (rule word_and_le1)
  then show ?thesis by (simp add: word_le_nat_alt)
qed

lemma octets_word: "foldl (\<lambda>a b. push_bit 8 a OR of_nat b) 0 (octets w) = w"
proof -
  have m: "(255 :: 32 word) = mask 8" by (simp add: mask_eq_exp_minus_1)
  show ?thesis
  proof (rule bit_word_eqI, goal_cases)
    case (1 n)
    consider "n < 8" | "8 \<le> n" "n < 16" | "16 \<le> n" "n < 24" | "24 \<le> n" by linarith
    then show ?case using 1 by cases (auto simp: octets_def m bit_simps)
  qed
qed

lemma dec_chars: "c \<in> set (dec n) \<Longrightarrow> \<exists>d<10. c = hex_digit d"
proof (induction n rule: dec.induct)
  case step: (1 n)
  show ?case
  proof (cases "n < 10")
    case True
    then show ?thesis using step(2) by (auto simp: dec_small)
  next
    case False
    then have "dec n = dec (n div 10) @ [hex_digit (n mod 10)]" by (subst dec.simps) simp
    then consider "c \<in> set (dec (n div 10))" | "c = hex_digit (n mod 10)" using step(2) by auto
    then show ?thesis
    proof cases
      case 1
      then show ?thesis using step(1)[OF False] by simp
    next
      case 2
      then show ?thesis by (intro exI[of _ "n mod 10"]) simp
    qed
  qed
qed

lemma digit_not_special: "d < 10 \<Longrightarrow> hex_digit d \<notin> {CHR ''.'', CHR '':'', CHR ''%'', CHR ''/''}"
proof -
  have "\<forall>d<10. hex_digit d \<notin> {CHR ''.'', CHR '':'', CHR ''%'', CHR ''/''}" by code_simp
  then show "d < 10 \<Longrightarrow> hex_digit d \<notin> {CHR ''.'', CHR '':'', CHR ''%'', CHR ''/''}" by blast
qed

lemma dec_not_special: "c \<in> set (dec n) \<Longrightarrow> c \<notin> {CHR ''.'', CHR '':'', CHR ''%'', CHR ''/''}"
  using dec_chars digit_not_special by metis

definition dotted :: "32 word \<Rightarrow> string" where
  "dotted w = dec (octets w ! 0) @ ''.'' @ dec (octets w ! 1) @ ''.'' @ dec (octets w ! 2) @ ''.'' @ dec (octets w ! 3)"

lemma string4_dotted: "string4 (w, b) = dotted w @ CHR ''/'' # dec b"
  by (simp add: string4_def dotted_def octets_def)

lemma parse_dotted: "parseIPv4 (dotted w) = Some (V4 w)"
proof -
  have o: "octets w ! 0 < 256" "octets w ! 1 < 256" "octets w ! 2 < 256" "octets w ! 3 < 256"
    by (simp_all add: octets_def octet_less)
  have "parse4 True 0 0 [] (dotted w) = Some (octets w)"
    using o parse4_step[of "octets w ! 3" _ "[]"] by (simp add: dotted_def parse4_step dec_nonempty) (simp add: octets_def)
  then show ?thesis by (simp add: parseIPv4_def octets_word)
qed

lemma find_skip: "\<forall>c\<in>set xs. \<not> P c \<Longrightarrow> find P (xs @ ys) = find P ys"
  by (induction xs) auto

lemma ParseAddr_dotted: "ParseAddr (dotted w) = Some (V4 w)"
proof -
  have "find (\<lambda>c. c \<in> {CHR ''.'', CHR '':'', CHR ''%''}) (dotted w) = Some (CHR ''.'')"
    unfolding dotted_def by (subst find_skip) (use dec_not_special in auto)
  then show ?thesis by (simp add: ParseAddr_def parse_dotted)
qed

lemma split_at:
  "\<forall>c\<in>set xs. P c \<Longrightarrow> \<not> P y \<Longrightarrow> takeWhile P (xs @ y # ys) = xs"
  "\<forall>c\<in>set xs. P c \<Longrightarrow> \<not> P y \<Longrightarrow> dropWhile P (xs @ y # ys) = y # ys"
  by (induction xs) auto

lemma ParsePrefix_string4:
  assumes "b \<le> 32"
  shows "ParsePrefix (string4 (w, b)) = Some (P4 (w, b))"
proof -
  have ns: "\<forall>c\<in>set (dec b). c \<noteq> CHR ''/''" using dec_not_special by blast
  have rv: "rev (string4 (w, b)) = rev (dec b) @ CHR ''/'' # rev (dotted w)" by (simp add: string4_dotted)
  have t: "takeWhile (\<lambda>c. c \<noteq> CHR ''/'') (rev (string4 (w, b))) = rev (dec b)"
    "dropWhile (\<lambda>c. c \<noteq> CHR ''/'') (rev (string4 (w, b))) = CHR ''/'' # rev (dotted w)"
    unfolding rv by (rule split_at; use ns in simp)+
  have z: "\<not> (length (dec b) > 1 \<and> \<not> (CHR ''1'' \<le> hd (dec b) \<and> hd (dec b) \<le> CHR ''9''))"
  proof (cases "b < 10")
    case True
    then show ?thesis by (simp add: dec_small)
  next
    case False
    then have "b div 10 \<in> {1, 2, 3}" using assms by auto
    then show ?thesis using False assms by (auto simp: dec_small hex_digit_def hexDigits_def less_eq_char_def)
  qed
  have c: "contains_char (CHR ''/'') (string4 (w, b))" by (simp add: contains_char_def string4_dotted)
  show ?thesis
    using assms z by (simp add: ParsePrefix_def t c ParseAddr_dotted atoi_dec Let_def)
qed

section \<open>The view of a compiled list\<close>

lemma disjoint_strict:
  assumes "prefix_ok p" "prefix_ok q" "p \<le> q" "addrs p \<inter> addrs q = {}"
  shows "fst p < fst (q :: 32 word \<times> nat)"
proof -
  have "fst p \<in> addrs p" "fst q \<in> addrs q" using assms by (auto simp: addrs_def contains_interval)
  then show ?thesis using assms(3,4) by (cases p; cases q) auto
qed

lemma P4_set_ok:
  assumes "sorted q" "sorted_wrt (\<lambda>p q. addrs p \<inter> addrs q = {}) q" "\<forall>p\<in>set q. prefix_ok p"
  shows "zone_set_ok (map P4 q)"
proof -
  have lt: "fst (q ! i) < fst (q ! j)" if "i < j" "j < length q" for i j
    using disjoint_strict[of "q ! i" "q ! j"] assms that by (auto simp: sorted_wrt_iff_nth_less sorted_iff_nth_mono)
  have "\<not> (prefix_contains (P4 (q ! i)) a \<and> prefix_contains (P4 (q ! j)) a)" if "i < j" "j < length q" for i j a
    using assms(2) that by (cases a) (auto simp: sorted_wrt_iff_nth_less addrs_def)
  then show ?thesis using assms(3) lt by (auto simp: zone_set_ok_def sorted_wrt_iff_nth_less prefix_wf_def)
qed

lemma parse_printed:
  assumes "sorted q" "\<forall>p\<in>set q. prefix_ok p"
  shows "parsePrefixes (map string4 q) = map P4 q"
proof -
  have "parse_cidr (string4 p) = Some (P4 p)" if "p \<in> set q" for p
    using assms(2) that ParsePrefix_string4[of "snd p" "fst p"] masked_id[of p]
    by (auto simp: parse_cidr_def prefix_ok_def)
  then have mf: "List.map_filter parse_cidr (map string4 q) = map P4 q"
    by (induction q) (simp_all add: List.map_filter_simps)
  have "sorted (map (\<lambda>p. addr_key (prefix_addr p)) (map P4 q))"
    using assms(1) by (auto simp: sorted_iff_nth_mono addr_key_def less_eq_prod_def word_le_nat_alt word_less_nat_alt)
  then show ?thesis by (simp add: parsePrefixes_def mf sort_key_id_if_sorted)
qed

text \<open>C35. The conntrack view sees the compiled destinations. For any list of entries, the IPv4 strings that the
  compiler puts into a plan, parsed back and searched by bisection for an address, contain it exactly when
  one of the list's IPv4 entries covers it.
\<close>

theorem view_matches_list:
  "contains_zone (parsePrefixes (fst (classifyCIDRs ins))) (V4 a) \<longleftrightarrow> (\<exists>p\<in>v4s ins. a \<in> addrs p)"
proof -
  obtain q4 q6 bad where c: "classify ins = (q4, q6, bad)" by (cases "classify ins")
  note sp = classify_spec[OF c]
  have ok: "\<forall>p\<in>set q4. prefix_ok p" using sp(1) entry_prefix_ok by (fastforce simp: v4s_def)
  have "contains_zone (parsePrefixes (fst (classifyCIDRs ins))) (V4 a) \<longleftrightarrow> containsAny (map P4 q4) (V4 a)"
    using contains_zone_iff[OF P4_set_ok[OF sp(8) sp(4) ok]] parse_printed[OF sp(8) ok] by (simp add: classifyCIDRs_def c)
  also have "\<dots> \<longleftrightarrow> a \<in> (\<Union>p\<in>set q4. addrs p)" by (auto simp: containsAny_def list_ex_iff addrs_def)
  also have "\<dots> \<longleftrightarrow> a \<in> (\<Union>p\<in>v4s ins. addrs p)" by (simp only: sp(6))
  finally show ?thesis by simp
qed

end
