(* ===== verification/List_Failover.thy ===== *)
theory List_Failover
  imports Health_Monitor PBR_Plan
begin

text \<open>
  Failover of routing lists on the kernel plane, \<open>internal/server/listfailover.go\<close>: one pass of the loop that
  re-points a group's routing table at a healthy member and restores a lost route of a single endpoint.
  It joins the compiled routing plan with the health monitor. What the pass reads (switches, the apply
  lock, the applied plan, the text of \<open>ip route show table all\<close>, link states) is an argument; writes and
  log lines are effects, the answer to the \<open>k\<close>-th write is \<open>peWrite k\<close>.
\<close>

section \<open>Reading routing tables\<close>

fun split_on :: "char \<Rightarrow> string \<Rightarrow> string list" where
  "split_on c [] = [[]]"
| "split_on c (x # xs) = (if x = c then [] # split_on c xs else (case split_on c xs of l # ls \<Rightarrow> (x # l) # ls | [] \<Rightarrow> [[x]]))"

text \<open>\<open>strings.Fields\<close>: the non-empty runs between white space.\<close>

function fields_from :: "string \<Rightarrow> string \<Rightarrow> string list" where
  "fields_from cur s =
    (case find (\<lambda>w. w \<noteq> [] \<and> prefix w s) uspaces of
       Some w \<Rightarrow> (if cur = [] then [] else [rev cur]) @ fields_from [] (drop (length w) s)
     | None \<Rightarrow> (case s of [] \<Rightarrow> if cur = [] then [] else [rev cur] | c # cs \<Rightarrow> fields_from (c # cur) cs))"
  by pat_completeness auto
termination
  by (relation "measure (\<lambda>(cur, s). length s)") (auto simp: find_Some_iff prefix_def)

declare fields_from.simps [simp del]

definition Fields :: "string \<Rightarrow> string list" where
  "Fields s = fields_from [] s"

text \<open>\<open>fmt.Sscanf\<close> of \<open>%d\<close> into an \<open>int\<close> of the given width: an optional sign and leading digits.\<close>

definition Sscanf_d :: "nat \<Rightarrow> string \<Rightarrow> int option" where
  "Sscanf_d bits s =
    (let neg = (s \<noteq> [] \<and> hd s = CHR ''-''); rest = (if s \<noteq> [] \<and> hd s \<in> {CHR ''+'', CHR ''-''} then tl s else s);
         ds = takeWhile (\<lambda>c. digit_val c \<noteq> None) rest
     in case atoi ds of
          None \<Rightarrow> None
        | Some n \<Rightarrow>
           (let v = (if neg then - int n else int n)
            in if - (2 ^ (bits - 1)) \<le> v \<and> v < 2 ^ (bits - 1) then Some v else None))"

fun table_field :: "nat \<Rightarrow> string list \<Rightarrow> int" where
  "table_field bits (f # v # fs) =
     (if f = ''table'' then (case Sscanf_d bits v of Some n \<Rightarrow> n | None \<Rightarrow> 0) else table_field bits (v # fs))"
| "table_field bits _ = 0"

definition parse_default :: "nat \<Rightarrow> string \<Rightarrow> (int \<times> string) option" where
  "parse_default bits line =
    (case Fields line of
       f0 # f1 # iface # f3 # fs \<Rightarrow>
         if f0 \<noteq> ''default'' \<or> f1 \<noteq> ''dev'' then None
         else (let table = table_field bits (f3 # fs) in if table \<noteq> 0 \<and> iface \<noteq> '''' then Some (table, iface) else None)
     | _ \<Rightarrow> None)"

definition parseTableDefaults :: "nat \<Rightarrow> string \<Rightarrow> (int \<Rightarrow> string option)" where
  "parseTableDefaults bits text =
    foldl (\<lambda>out line. case parse_default bits line of None \<Rightarrow> out | Some (t, i) \<Rightarrow> out(t \<mapsto> i)) Map.empty (split_on (CHR 0x0A) text)"

text \<open>A missing table reads as the empty interface.\<close>

definition table_at :: "(int \<Rightarrow> string option) \<Rightarrow> int \<Rightarrow> string" where
  "table_at live t = (case live t of None \<Rightarrow> '''' | Some i \<Rightarrow> i)"

section \<open>What the plan owns\<close>

definition hasV6Zone :: "Plan \<Rightarrow> bool" where
  "hasV6Zone pl \<longleftrightarrow> list_ex (\<lambda>z. zV6 z \<noteq> [] \<or> zSrcV6 z \<noteq> [] \<or> zDomains z \<noteq> []
     \<or> (zSrcScoped z \<and> zV4 z = [] \<and> zV6 z = [] \<and> zSrcV4 z = [] \<and> zSrcV6 z = [])) (plZones pl)"

definition HasV6 :: "Plan \<Rightarrow> bool" where
  "HasV6 pl \<longleftrightarrow> plBypassV6 pl \<noteq> [] \<or> hasV6Zone pl"

definition kernelIfaceByEndpoint :: "Profile \<Rightarrow> (id \<Rightarrow> string option)" where
  "kernelIfaceByEndpoint p = foldl (\<lambda>out e. if kernelIface e \<noteq> '''' then out(epID e \<mapsto> kernelIface e) else out) Map.empty (prEndpoints p)"

definition iface_at :: "(id \<Rightarrow> string option) \<Rightarrow> id \<Rightarrow> string" where
  "iface_at ifaceOf i = (case ifaceOf i of None \<Rightarrow> '''' | Some n \<Rightarrow> n)"

record listFailoverTable =
  ltGroup :: Group
  ltTable :: int

definition owned_table :: "Profile \<Rightarrow> (id \<Rightarrow> string option) \<Rightarrow> Egress \<Rightarrow> listFailoverTable option" where
  "owned_table profile ifaceOf eg =
    (if egKind eg \<noteq> EgressInterface \<or> egTable eg = 0 then None
     else (case GroupByID profile (egTag eg) of
             None \<Rightarrow> None
           | Some g \<Rightarrow> if list_ex (\<lambda>i. iface_at ifaceOf i \<noteq> '''') (grMembers g)
                       then Some \<lparr>ltGroup = g, ltTable = egTable eg\<rparr> else None))"

definition listFailoverTables :: "Plan \<Rightarrow> Profile \<Rightarrow> (id \<Rightarrow> string option) \<Rightarrow> listFailoverTable list" where
  "listFailoverTables plan profile ifaceOf = List.map_filter (owned_table profile ifaceOf) (plEgresses plan)"

definition electMember :: "Group \<Rightarrow> (id \<Rightarrow> string option) \<Rightarrow> (id \<Rightarrow> bool) \<Rightarrow> string option" where
  "electMember g ifaceOf alive =
    map_option (iface_at ifaceOf) (find (\<lambda>i. alive i \<and> iface_at ifaceOf i \<noteq> '''') (grMembers g))"

definition electHealthyMember :: "Monitor \<Rightarrow> Group \<Rightarrow> (id \<Rightarrow> string option) \<Rightarrow> string option" where
  "electHealthyMember mon g ifaceOf =
    (if grMembers g = [] then None
     else electMember g ifaceOf
       (\<lambda>i. foldl (\<lambda>acc h. if mhID h = i then mhAlive h else acc) False (MemberHealth_of (grMembers g) mon)))"

record listFailoverTarget =
  tgtGroup :: id
  tgtName :: string
  tgtTable :: int
  tgtCurrent :: string
  tgtElected :: string

definition listFailoverTargetsFrom :: "Monitor \<Rightarrow> Plan \<Rightarrow> Profile \<Rightarrow> (int \<Rightarrow> string option) \<Rightarrow> listFailoverTarget list" where
  "listFailoverTargetsFrom mon plan profile live =
    (let ifaceOf = kernelIfaceByEndpoint profile
     in List.map_filter (\<lambda>owned.
          map_option (\<lambda>elected. \<lparr>tgtGroup = grID (ltGroup owned), tgtName = grName (ltGroup owned), tgtTable = ltTable owned,
              tgtCurrent = table_at live (ltTable owned), tgtElected = elected\<rparr>)
            (electHealthyMember mon (ltGroup owned) ifaceOf))
        (listFailoverTables plan profile ifaceOf))"

record tableRestore =
  reTable :: int
  reIface :: string

definition lost_route :: "Profile \<Rightarrow> (int \<Rightarrow> string option) \<Rightarrow> (string \<Rightarrow> bool) \<Rightarrow> Egress \<Rightarrow> tableRestore option" where
  "lost_route profile live up eg =
    (if egKind eg \<noteq> EgressInterface \<or> egTable eg = 0 \<or> egIface eg = '''' then None
     else if GroupByID profile (egTag eg) \<noteq> None then None
     else if table_at live (egTable eg) \<noteq> '''' then None
     else if \<not> up (egIface eg) then None
     else Some \<lparr>reTable = egTable eg, reIface = egIface eg\<rparr>)"

definition lostTableRoutes :: "Plan \<Rightarrow> Profile \<Rightarrow> (int \<Rightarrow> string option) \<Rightarrow> (string \<Rightarrow> bool) \<Rightarrow> tableRestore list" where
  "lostTableRoutes plan profile live up = List.map_filter (lost_route profile live up) (plEgresses plan)"

section \<open>The pass\<close>

record PassEnv =
  peReady :: bool \<comment> \<open>store and monitor present, not the demo\<close>
  peRoutingOff :: bool
  peIPRoute :: bool
  peApplying :: bool
  peLock :: bool
  peRoutingOffLocked :: bool
  pePlan :: "(Plan \<times> Profile) option"
  peRead :: "bool \<Rightarrow> string option"
  peWrite :: "nat \<Rightarrow> string option" \<comment> \<open>the error of the k-th write\<close>
  peUp :: "string \<Rightarrow> bool"
  peNow :: "nat \<Rightarrow> go_time"
  peIntBits :: nat

datatype lf_effect = TableWrite bool string int | LogWritable bool int | LogCannot bool int string
  | LogRestored bool int string | LogCannotRestore bool int string string

record LFState =
  lsMonitor :: Monitor
  lsErr :: "bool \<times> int \<Rightarrow> string option" \<comment> \<open>listFailoverErr\<close>
  lsRestoreErr :: "bool \<times> int \<Rightarrow> string option" \<comment> \<open>tableRestoreErr\<close>
  lsCalls :: nat
  lsEffects :: "lf_effect list"

definition emit :: "lf_effect list \<Rightarrow> LFState \<Rightarrow> LFState" where
  "emit fx s = s\<lparr>lsEffects := lsEffects s @ fx\<rparr>"

definition noteListFailoverWrite :: "bool \<Rightarrow> int \<Rightarrow> string option \<Rightarrow> LFState \<Rightarrow> LFState" where
  "noteListFailoverWrite v6 table err s =
    (case err of
       None \<Rightarrow> (if lsErr s (v6, table) \<noteq> None then emit [LogWritable v6 table] (s\<lparr>lsErr := (lsErr s)((v6, table) := None)\<rparr>) else s)
     | Some msg \<Rightarrow>
        if lsErr s (v6, table) \<noteq> Some msg then emit [LogCannot v6 table msg] (s\<lparr>lsErr := (lsErr s)((v6, table) \<mapsto> msg)\<rparr>) else s)"

definition noteTableRestore :: "bool \<Rightarrow> tableRestore \<Rightarrow> string option \<Rightarrow> LFState \<Rightarrow> LFState" where
  "noteTableRestore v6 lost err s =
    (case err of
       None \<Rightarrow> emit [LogRestored v6 (reTable lost) (reIface lost)] (s\<lparr>lsRestoreErr := (lsRestoreErr s)((v6, reTable lost) := None)\<rparr>)
     | Some msg \<Rightarrow>
        if (case lsRestoreErr s (v6, reTable lost) of None \<Rightarrow> '''' | Some prev \<Rightarrow> prev) \<noteq> msg
        then emit [LogCannotRestore v6 (reTable lost) (reIface lost) msg] (s\<lparr>lsRestoreErr := (lsRestoreErr s)((v6, reTable lost) \<mapsto> msg)\<rparr>)
        else s)"

definition orNone :: "string \<Rightarrow> string" where
  "orNone s = (if s = '''' then ''(none)'' else s)"

definition write_table :: "PassEnv \<Rightarrow> bool \<Rightarrow> string \<Rightarrow> int \<Rightarrow> LFState \<Rightarrow> string option \<times> LFState" where
  "write_table env v6 iface table s = (peWrite env (lsCalls s), emit [TableWrite v6 iface table] (s\<lparr>lsCalls := lsCalls s + 1\<rparr>))"

definition point_family :: "PassEnv \<Rightarrow> (bool \<Rightarrow> (int \<Rightarrow> string option) option) \<Rightarrow> listFailoverTarget \<Rightarrow> LFState \<Rightarrow> bool \<Rightarrow> LFState" where
  "point_family env live t s v6 =
    (case live v6 of
       None \<Rightarrow> s
     | Some tables \<Rightarrow>
        if table_at tables (tgtTable t) = tgtElected t then s
        else
          (case write_table env v6 (tgtElected t) (tgtTable t) s of (err, s1) \<Rightarrow>
             (let s2 = noteListFailoverWrite v6 (tgtTable t) err s1
              in if err = None \<and> \<not> v6
                 then s2\<lparr>lsMonitor := RecordSwitch (tgtGroup t) (tgtName t) (orNone (tgtCurrent t)) (tgtElected t) (peNow env (lsCalls s)) (lsMonitor s2)\<rparr>
                 else s2)))"

definition point_target :: "PassEnv \<Rightarrow> (bool \<Rightarrow> (int \<Rightarrow> string option) option) \<Rightarrow> LFState \<Rightarrow> listFailoverTarget \<Rightarrow> LFState" where
  "point_target env live s t = foldl (point_family env live t) s [False, True]"

definition restore_family :: "PassEnv \<Rightarrow> Plan \<Rightarrow> Profile \<Rightarrow> (bool \<Rightarrow> (int \<Rightarrow> string option) option) \<Rightarrow> LFState \<Rightarrow> bool \<Rightarrow> LFState" where
  "restore_family env plan profile live s v6 =
    (case live v6 of
       None \<Rightarrow> s
     | Some tables \<Rightarrow>
        foldl (\<lambda>s lost. case write_table env v6 (reIface lost) (reTable lost) s of (err, s1) \<Rightarrow> noteTableRestore v6 lost err s1)
          s (lostTableRoutes plan profile tables (peUp env)))"

definition restoreLostTableRoutes :: "PassEnv \<Rightarrow> Plan \<Rightarrow> Profile \<Rightarrow> (bool \<Rightarrow> (int \<Rightarrow> string option) option) \<Rightarrow> LFState \<Rightarrow> LFState" where
  "restoreLostTableRoutes env plan profile live s = foldl (restore_family env plan profile live) s [False, True]"

definition liveTableDefaults :: "PassEnv \<Rightarrow> bool \<Rightarrow> (int \<Rightarrow> string option) option" where
  "liveTableDefaults env v6 = map_option (parseTableDefaults (peIntBits env)) (peRead env v6)"

definition lf_gates :: "PassEnv \<Rightarrow> bool" where
  "lf_gates env \<longleftrightarrow> peReady env \<and> \<not> peRoutingOff env \<and> peIPRoute env \<and> \<not> peApplying env \<and> peLock env \<and> \<not> peRoutingOffLocked env"

definition listFailoverTick :: "PassEnv \<Rightarrow> LFState \<Rightarrow> LFState" where
  "listFailoverTick env s =
    (if \<not> lf_gates env then s
     else
       (case pePlan env of
          None \<Rightarrow> s
        | Some (plan, profile) \<Rightarrow>
           (case liveTableDefaults env False of
              None \<Rightarrow> s
            | Some live4 \<Rightarrow>
               (let live = (\<lambda>v6. if v6 then (if HasV6 plan then liveTableDefaults env True else None) else Some live4);
                    s1 = foldl (point_target env live) s (listFailoverTargetsFrom (lsMonitor s) plan profile live4)
                in restoreLostTableRoutes env plan profile live s1))))"

definition kernelElectableMembers :: "Profile \<Rightarrow> Plan \<Rightarrow> (id \<Rightarrow> id list option)" where
  "kernelElectableMembers profile plan =
    (let ifaceOf = kernelIfaceByEndpoint profile
     in foldl (\<lambda>out eg.
          if egKind eg \<noteq> EgressInterface \<or> egTable eg = 0 then out
          else (case GroupByID profile (egTag eg) of
                  None \<Rightarrow> out
                | Some g \<Rightarrow> if out (grID g) \<noteq> None then out
                            else out(grID g \<mapsto> filter (\<lambda>i. iface_at ifaceOf i \<noteq> '''') (grMembers g)))) Map.empty (plEgresses plan))"

definition selfSwitchingGroups :: "PassEnv \<Rightarrow> id list" where
  "selfSwitchingGroups env =
    (if \<not> peReady env \<or> peRoutingOff env \<or> \<not> peIPRoute env then []
     else (case pePlan env of
             None \<Rightarrow> []
           | Some (plan, profile) \<Rightarrow>
               dedup [] (map (\<lambda>t. grID (ltGroup t)) (listFailoverTables plan profile (kernelIfaceByEndpoint profile)))))"

section \<open>The election\<close>

definition member_up :: "Monitor \<Rightarrow> id \<Rightarrow> bool" where
  "member_up mon i \<longleftrightarrow> i = ''direct'' \<or> state_of (mStats mon i) = Alive"

lemma MemberHealth_of_up: "map (\<lambda>h. (mhID h, mhAlive h)) (MemberHealth_of ids mon) = map (\<lambda>i. (i, member_up mon i)) ids"
  by (auto simp: MemberHealth_of_def member_up_def state_of_def split: option.splits)

lemma foldl_assigned: "i \<in> set ids \<or> b = f i \<Longrightarrow> foldl (\<lambda>acc p. if fst p = i then snd p else acc) b (map (\<lambda>i. (i, f i)) ids) = f i"
  by (induction ids arbitrary: b) force+

lemma last_alive:
  assumes "i \<in> set ids"
  shows "foldl (\<lambda>acc h. if mhID h = i then mhAlive h else acc) b (MemberHealth_of ids mon) = member_up mon i"
proof -
  have "foldl (\<lambda>acc h. if mhID h = i then mhAlive h else acc) b (MemberHealth_of ids mon)
      = foldl (\<lambda>acc p. if fst p = i then snd p else acc) b (map (\<lambda>h. (mhID h, mhAlive h)) (MemberHealth_of ids mon))"
    by (simp add: foldl_map)
  also have "\<dots> = member_up mon i"
    unfolding MemberHealth_of_up using assms foldl_assigned[of i ids b "member_up mon"] by blast
  finally show ?thesis .
qed

lemma find_cong_set: "(\<And>x. x \<in> set xs \<Longrightarrow> P x = Q x) \<Longrightarrow> find P xs = find Q xs"
  by (induction xs) auto

lemma elect_find:
  "electHealthyMember mon g ifaceOf =
     map_option (iface_at ifaceOf) (find (\<lambda>i. member_up mon i \<and> iface_at ifaceOf i \<noteq> '''') (grMembers g))"
proof -
  have "find (\<lambda>i. foldl (\<lambda>acc h. if mhID h = i then mhAlive h else acc) False (MemberHealth_of (grMembers g) mon) \<and> iface_at ifaceOf i \<noteq> '''') (grMembers g)
      = find (\<lambda>i. member_up mon i \<and> iface_at ifaceOf i \<noteq> '''') (grMembers g)"
    by (rule find_cong_set) (simp add: last_alive)
  then show ?thesis by (simp add: electHealthyMember_def electMember_def)
qed

text \<open>The elected member: the first that is up and has a kernel link.\<close>

definition elected_first :: "Monitor \<Rightarrow> Group \<Rightarrow> (id \<Rightarrow> string option) \<Rightarrow> string \<Rightarrow> bool" where
  "elected_first mon g ifaceOf ifc \<longleftrightarrow> (\<exists>pre m post. grMembers g = pre @ m # post \<and> ifc = iface_at ifaceOf m \<and> ifc \<noteq> ''''
     \<and> member_up mon m \<and> (\<forall>x\<in>set pre. member_up mon x \<longrightarrow> iface_at ifaceOf x = ''''))"

lemma elect_first:
  assumes "electHealthyMember mon g ifaceOf = Some ifc"
  shows "elected_first mon g ifaceOf ifc"
proof -
  obtain m where m: "find (\<lambda>i. member_up mon i \<and> iface_at ifaceOf i \<noteq> '''') (grMembers g) = Some m" "ifc = iface_at ifaceOf m"
    using assms by (auto simp: elect_find)
  then obtain i where i: "i < length (grMembers g)" "grMembers g ! i = m" "member_up mon m" "iface_at ifaceOf m \<noteq> ''''"
    "\<And>j. j < i \<Longrightarrow> \<not> (member_up mon (grMembers g ! j) \<and> iface_at ifaceOf (grMembers g ! j) \<noteq> '''')"
    by (auto simp: find_Some_iff)
  have "grMembers g = take i (grMembers g) @ m # drop (Suc i) (grMembers g)" using i id_take_nth_drop by metis
  moreover have "\<forall>x\<in>set (take i (grMembers g)). member_up mon x \<longrightarrow> iface_at ifaceOf x = ''''"
    using i by (auto simp: in_set_conv_nth)
  ultimately show ?thesis unfolding elected_first_def using m(2) i(3,4) by blast
qed

section \<open>The writes of a pass\<close>

definition family_writes :: "bool \<Rightarrow> lf_effect list \<Rightarrow> (int \<times> string) list" where
  "family_writes v6 fx = List.map_filter (\<lambda>e. case e of TableWrite v i t \<Rightarrow> if v = v6 then Some (t, i) else None | _ \<Rightarrow> None) fx"

lemma family_writes_append [simp]: "family_writes v (a @ b) = family_writes v a @ family_writes v b"
  by (simp add: family_writes_def List.map_filter_def)

lemma family_writes_simps [simp]:
  "family_writes v [] = []"
  "family_writes v [TableWrite v' i t] = (if v' = v then [(t, i)] else [])"
  "family_writes v [LogWritable a b] = []" "family_writes v [LogCannot a b c] = []"
  "family_writes v [LogRestored a b c] = []" "family_writes v [LogCannotRestore a b c d] = []"
  by (simp_all add: family_writes_def List.map_filter_def)

lemma in_family_writes: "TableWrite v i t \<in> set fx \<longleftrightarrow> (t, i) \<in> set (family_writes v fx)"
proof (induction fx)
  case Nil
  then show ?case by simp
next
  case (Cons e fx)
  have "family_writes v (e # fx) = family_writes v [e] @ family_writes v fx"
    using family_writes_append[of v "[e]" fx] by (simp del: family_writes_append)
  then show ?case using Cons by (cases e) auto
qed

lemma note_writes [simp]:
  "family_writes v (lsEffects (noteListFailoverWrite v6 t err s)) = family_writes v (lsEffects s)"
  "family_writes v (lsEffects (noteTableRestore v6 l err s)) = family_writes v (lsEffects s)"
  "lsMonitor (noteListFailoverWrite v6 t err s) = lsMonitor s" "lsMonitor (noteTableRestore v6 l err s) = lsMonitor s"
  by (cases err; simp add: noteListFailoverWrite_def noteTableRestore_def emit_def)+

lemma RecordSwitch_stats [simp]: "mStats (RecordSwitch g n a b now m) = mStats m"
  by (simp add: RecordSwitch_def pushEvent_def)

lemma point_family_writes:
  "family_writes v (lsEffects (point_family env live t s v6)) = family_writes v (lsEffects s)
     @ (case live v6 of None \<Rightarrow> [] | Some tables \<Rightarrow> if v = v6 \<and> table_at tables (tgtTable t) \<noteq> tgtElected t then [(tgtTable t, tgtElected t)] else [])"
  "mStats (lsMonitor (point_family env live t s v6)) = mStats (lsMonitor s)"
  by (cases "live v6"; simp add: point_family_def write_table_def emit_def Let_def)+

definition moves :: "(int \<Rightarrow> string option) \<Rightarrow> listFailoverTarget list \<Rightarrow> (int \<times> string) list" where
  "moves tables ts = map (\<lambda>t. (tgtTable t, tgtElected t)) (filter (\<lambda>t. table_at tables (tgtTable t) \<noteq> tgtElected t) ts)"

lemma point_targets_writes:
  "family_writes v (lsEffects (foldl (point_target env live) s ts)) = family_writes v (lsEffects s)
     @ (case live v of None \<Rightarrow> [] | Some tables \<Rightarrow> moves tables ts)"
  "mStats (lsMonitor (foldl (point_target env live) s ts)) = mStats (lsMonitor s)"
proof -
  have "family_writes v (lsEffects (foldl (point_target env live) s ts)) = family_writes v (lsEffects s)
     @ (case live v of None \<Rightarrow> [] | Some tables \<Rightarrow> moves tables ts)
    \<and> mStats (lsMonitor (foldl (point_target env live) s ts)) = mStats (lsMonitor s)" for s
  proof (induction ts arbitrary: s)
    case Nil
    then show ?case by (simp add: moves_def split: option.splits)
  next
    case (Cons t ts)
    have "family_writes v (lsEffects (point_target env live s t)) = family_writes v (lsEffects s)
        @ (case live v of None \<Rightarrow> [] | Some tables \<Rightarrow> moves tables [t])"
      by (cases v) (auto simp: point_target_def point_family_writes moves_def split: option.splits)
    moreover have "mStats (lsMonitor (point_target env live s t)) = mStats (lsMonitor s)"
      by (simp add: point_target_def point_family_writes)
    ultimately show ?case using Cons[of "point_target env live s t"] by (simp add: moves_def split: option.splits)
  qed
  then show "family_writes v (lsEffects (foldl (point_target env live) s ts)) = family_writes v (lsEffects s)
     @ (case live v of None \<Rightarrow> [] | Some tables \<Rightarrow> moves tables ts)"
    "mStats (lsMonitor (foldl (point_target env live) s ts)) = mStats (lsMonitor s)" by auto
qed

lemma restore_family_writes:
  "family_writes v (lsEffects (restore_family env plan profile live s v6)) = family_writes v (lsEffects s)
     @ (case live v6 of None \<Rightarrow> [] | Some tables \<Rightarrow>
          if v = v6 then map (\<lambda>l. (reTable l, reIface l)) (lostTableRoutes plan profile tables (peUp env)) else [])"
proof (cases "live v6")
  case None
  then show ?thesis by (simp add: restore_family_def)
next
  case (Some tables)
  have "family_writes v (lsEffects (foldl (\<lambda>s lost. case write_table env v6 (reIface lost) (reTable lost) s of (err, s1) \<Rightarrow> noteTableRestore v6 lost err s1) s ls))
      = family_writes v (lsEffects s) @ (if v = v6 then map (\<lambda>l. (reTable l, reIface l)) ls else [])" for ls :: "tableRestore list" and s
    by (induction ls arbitrary: s) (simp_all add: write_table_def emit_def)
  then show ?thesis using Some by (simp add: restore_family_def)
qed

definition live_tables :: "PassEnv \<Rightarrow> Plan \<Rightarrow> bool \<Rightarrow> (int \<Rightarrow> string option) option" where
  "live_tables env plan v6 = (if v6 \<and> \<not> HasV6 plan then None else liveTableDefaults env v6)"

text \<open>The writes one family gets in a pass: the moves of the election, then the lost routes.\<close>

definition pass_writes :: "PassEnv \<Rightarrow> Monitor \<Rightarrow> bool \<Rightarrow> (int \<times> string) list" where
  "pass_writes env mon v =
    (case (if lf_gates env then pePlan env else None) of
       None \<Rightarrow> []
     | Some (plan, profile) \<Rightarrow>
        (case (live_tables env plan False, live_tables env plan v) of
           (Some live4, Some tables) \<Rightarrow>
             moves tables (listFailoverTargetsFrom mon plan profile live4)
               @ map (\<lambda>l. (reTable l, reIface l)) (lostTableRoutes plan profile tables (peUp env))
         | _ \<Rightarrow> []))"

lemma tick_writes:
  "family_writes v (lsEffects (listFailoverTick env s)) = family_writes v (lsEffects s) @ pass_writes env (lsMonitor s) v"
  by (cases v) (auto simp: listFailoverTick_def pass_writes_def live_tables_def restoreLostTableRoutes_def restore_family_writes
      point_targets_writes Let_def split: option.splits)

lemma in_map_filter: "y \<in> set (List.map_filter f xs) \<longleftrightarrow> (\<exists>x\<in>set xs. f x = Some y)"
  by (force simp: List.map_filter_def)

lemma owned_table_Some:
  "owned_table profile ifaceOf eg = Some ow \<longleftrightarrow> egKind eg = EgressInterface \<and> egTable eg \<noteq> 0
     \<and> (\<exists>g. GroupByID profile (egTag eg) = Some g \<and> list_ex (\<lambda>i. iface_at ifaceOf i \<noteq> '''') (grMembers g) \<and> ow = \<lparr>ltGroup = g, ltTable = egTable eg\<rparr>)"
  by (cases "GroupByID profile (egTag eg)") (auto simp: owned_table_def)

lemma lost_route_Some:
  "lost_route profile live up eg = Some l \<longleftrightarrow> egKind eg = EgressInterface \<and> egTable eg \<noteq> 0 \<and> egIface eg \<noteq> ''''
     \<and> GroupByID profile (egTag eg) = None \<and> table_at live (egTable eg) = '''' \<and> up (egIface eg) \<and> l = \<lparr>reTable = egTable eg, reIface = egIface eg\<rparr>"
  unfolding lost_route_def by (cases "GroupByID profile (egTag eg)") auto

lemma targets_elected:
  "t \<in> set (listFailoverTargetsFrom mon plan profile live) \<longleftrightarrow>
     (\<exists>eg\<in>set (plEgresses plan). \<exists>g ifc. egKind eg = EgressInterface \<and> egTable eg \<noteq> 0 \<and> GroupByID profile (egTag eg) = Some g
        \<and> electHealthyMember mon g (kernelIfaceByEndpoint profile) = Some ifc
        \<and> t = \<lparr>tgtGroup = grID g, tgtName = grName g, tgtTable = egTable eg, tgtCurrent = table_at live (egTable eg), tgtElected = ifc\<rparr>)"
  (is "?l = ?r")
proof
  assume ?l
  then show ?r
    by (force simp: listFailoverTargetsFrom_def listFailoverTables_def in_map_filter owned_table_Some Let_def)
next
  assume ?r
  then obtain eg g ifc where e: "eg \<in> set (plEgresses plan)" "egKind eg = EgressInterface" "egTable eg \<noteq> 0" "GroupByID profile (egTag eg) = Some g"
    and el: "electHealthyMember mon g (kernelIfaceByEndpoint profile) = Some ifc"
    and t: "t = \<lparr>tgtGroup = grID g, tgtName = grName g, tgtTable = egTable eg, tgtCurrent = table_at live (egTable eg), tgtElected = ifc\<rparr>"
    by blast
  have "list_ex (\<lambda>i. iface_at (kernelIfaceByEndpoint profile) i \<noteq> '''') (grMembers g)"
    using elect_first[OF el] by (auto simp: elected_first_def)
  then have "owned_table profile (kernelIfaceByEndpoint profile) eg = Some \<lparr>ltGroup = g, ltTable = egTable eg\<rparr>"
    using e by (simp add: owned_table_Some)
  then have "\<lparr>ltGroup = g, ltTable = egTable eg\<rparr> \<in> set (listFailoverTables plan profile (kernelIfaceByEndpoint profile))"
    using e(1) by (auto simp: listFailoverTables_def in_map_filter)
  then show ?l
    unfolding listFailoverTargetsFrom_def Let_def in_map_filter using el t by (intro bexI) simp_all
qed

lemma lost_iff:
  "l \<in> set (lostTableRoutes plan profile live up) \<longleftrightarrow>
     (\<exists>eg\<in>set (plEgresses plan). egKind eg = EgressInterface \<and> egTable eg \<noteq> 0 \<and> egIface eg \<noteq> '''' \<and> GroupByID profile (egTag eg) = None
        \<and> table_at live (egTable eg) = '''' \<and> up (egIface eg) \<and> l = \<lparr>reTable = egTable eg, reIface = egIface eg\<rparr>)"
  by (simp add: lostTableRoutes_def in_map_filter lost_route_Some)

lemma elect_unique: "elected_first mon g ifaceOf ifc \<longleftrightarrow> electHealthyMember mon g ifaceOf = Some ifc"
proof
  assume "elected_first mon g ifaceOf ifc"
  then obtain pre m post where m: "grMembers g = pre @ m # post" "ifc = iface_at ifaceOf m" "ifc \<noteq> ''''" "member_up mon m"
    and pre: "\<forall>x\<in>set pre. member_up mon x \<longrightarrow> iface_at ifaceOf x = ''''" by (auto simp: elected_first_def)
  have "find (\<lambda>i. member_up mon i \<and> iface_at ifaceOf i \<noteq> '''') (pre @ m # post) = Some m"
    using pre m(2-4) by (induction pre) auto
  then show "electHealthyMember mon g ifaceOf = Some ifc" using m by (simp add: elect_find)
qed (rule elect_first)

text \<open>An egress is due for a write of a table: the specification of the pass.\<close>

definition due :: "Monitor \<Rightarrow> Profile \<Rightarrow> (int \<Rightarrow> string option) \<Rightarrow> (string \<Rightarrow> bool) \<Rightarrow> Egress \<Rightarrow> string \<Rightarrow> bool" where
  "due mon profile tables up eg ifc \<longleftrightarrow> egKind eg = EgressInterface \<and> egTable eg \<noteq> 0
     \<and> (case GroupByID profile (egTag eg) of
          Some g \<Rightarrow> elected_first mon g (kernelIfaceByEndpoint profile) ifc \<and> table_at tables (egTable eg) \<noteq> ifc
        | None \<Rightarrow> ifc = egIface eg \<and> ifc \<noteq> '''' \<and> table_at tables (egTable eg) = '''' \<and> up ifc)"

lemma moves_due:
  "(t, ifc) \<in> set (moves tables (listFailoverTargetsFrom mon plan profile live)) \<longleftrightarrow>
     (\<exists>eg\<in>set (plEgresses plan). egTable eg = t \<and> GroupByID profile (egTag eg) \<noteq> None \<and> due mon profile tables up eg ifc)"
  (is "?l = ?r")
proof
  assume ?l
  then show ?r by (force simp: moves_def targets_elected due_def elect_unique)
next
  assume ?r
  then obtain eg g where "eg \<in> set (plEgresses plan)" "egTable eg = t" "GroupByID profile (egTag eg) = Some g" "due mon profile tables up eg ifc"
    by auto
  moreover from this have "\<lparr>tgtGroup = grID g, tgtName = grName g, tgtTable = t, tgtCurrent = table_at live t, tgtElected = ifc\<rparr>
      \<in> set (listFailoverTargetsFrom mon plan profile live)"
    unfolding targets_elected by (intro bexI[of _ eg] exI[of _ g] exI[of _ ifc]) (simp_all add: due_def elect_unique)
  ultimately show ?l by (force simp: moves_def due_def)
qed

lemma lost_due:
  "(t, ifc) \<in> set (map (\<lambda>l. (reTable l, reIface l)) (lostTableRoutes plan profile tables up)) \<longleftrightarrow>
     (\<exists>eg\<in>set (plEgresses plan). egTable eg = t \<and> GroupByID profile (egTag eg) = None \<and> due mon profile tables up eg ifc)"
  by (force simp: lost_iff due_def)

lemma pass_writes_due:
  "(t, ifc) \<in> set (pass_writes env mon v) \<longleftrightarrow> lf_gates env \<and> (\<exists>plan profile live4 tables.
     pePlan env = Some (plan, profile) \<and> live_tables env plan False = Some live4 \<and> live_tables env plan v = Some tables
     \<and> (\<exists>eg\<in>set (plEgresses plan). egTable eg = t \<and> due mon profile tables (peUp env) eg ifc))"
proof (cases "lf_gates env \<and> (\<exists>plan profile live4 tables. pePlan env = Some (plan, profile) \<and> live_tables env plan False = Some live4 \<and> live_tables env plan v = Some tables)")
  case False
  then have "pass_writes env mon v = []"
    by (cases "pePlan env"; cases "live_tables env (fst (the (pePlan env))) False"; cases "live_tables env (fst (the (pePlan env))) v")
      (auto simp: pass_writes_def)
  then show ?thesis using False by auto
next
  case True
  then obtain plan profile live4 tables where e: "lf_gates env" "pePlan env = Some (plan, profile)"
    "live_tables env plan False = Some live4" "live_tables env plan v = Some tables" by blast
  then have "pass_writes env mon v = moves tables (listFailoverTargetsFrom mon plan profile live4)
      @ map (\<lambda>l. (reTable l, reIface l)) (lostTableRoutes plan profile tables (peUp env))"
    by (simp add: pass_writes_def)
  then have "(t, ifc) \<in> set (pass_writes env mon v) \<longleftrightarrow> (\<exists>eg\<in>set (plEgresses plan). egTable eg = t \<and> due mon profile tables (peUp env) eg ifc)"
    unfolding set_append Un_iff by (simp only: set_append Un_iff moves_due[of t ifc tables mon plan profile live4 "peUp env"] lost_due[of t ifc plan profile tables "peUp env" mon]) blast
  then show ?thesis using e by simp
qed

text \<open>C23. What a pass of the list failover loop writes, exactly. A pass sends \<open>ip route replace default dev ifc
  table t\<close> for a family precisely when every switch lets it run (routing on, \<open>iproute2\<close> there, no Apply in
  progress, the lock free and routing still on under it), the router's applied plan is known, the IPv4 tables
  and those of that family could be read, and \<open>t\<close> is the non-zero table of an interface egress of that plan that
  is due: a group's table is due when \<open>ifc\<close> is the link of the group's first member in order that is up and
  has a kernel link, and the table does not point there; an endpoint's table is due when it holds no route and
  the endpoint's own device is up. The main table, the WAN and tables of nobody in the plan are never written.\<close>

theorem pass_writes_exactly_due:
  "TableWrite v6 ifc t \<in> set (lsEffects (listFailoverTick env (s\<lparr>lsEffects := []\<rparr>))) \<longleftrightarrow>
     lf_gates env \<and> (\<exists>plan profile live4 tables.
       pePlan env = Some (plan, profile) \<and> live_tables env plan False = Some live4 \<and> live_tables env plan v6 = Some tables
       \<and> (\<exists>eg\<in>set (plEgresses plan). egTable eg = t \<and> due (lsMonitor s) profile tables (peUp env) eg ifc))"
  by (simp add: in_family_writes tick_writes pass_writes_due)

section \<open>A pass settles the tables\<close>

definition tables_after :: "(int \<Rightarrow> string option) \<Rightarrow> (int \<times> string) list \<Rightarrow> (int \<Rightarrow> string option)" where
  "tables_after m ws = foldl (\<lambda>m (t, i). m(t \<mapsto> i)) m ws"

lemma tables_after_written: "(\<forall>i'. (t, i') \<in> set ws \<longrightarrow> i' = i) \<Longrightarrow> (t, i) \<in> set ws \<or> m t = Some i \<Longrightarrow> tables_after m ws t = Some i"
  unfolding tables_after_def by (induction ws arbitrary: m) auto

lemma tables_after_kept: "(\<forall>i. (t, i) \<notin> set ws) \<Longrightarrow> tables_after m ws t = m t"
  unfolding tables_after_def by (induction ws arbitrary: m) auto

lemma interface_tables_distinct:
  assumes "a \<in> set (plEgresses (plan_of opt p))" "b \<in> set (plEgresses (plan_of opt p))"
    "egKind a = EgressInterface" "egKind b = EgressInterface" "egTable a = egTable b"
  shows "a = b"
  using assms by (auto simp: plan_egresses egresses_def wan_egress_def tag_egress_def in_set_enumerate_eq split: prod.splits)

lemma tick_stats: "mStats (lsMonitor (listFailoverTick env s)) = mStats (lsMonitor s)"
proof -
  have "mStats (lsMonitor (restore_family env plan profile live s v)) = mStats (lsMonitor s)" for plan profile live v s
  proof (cases "live v")
    case (Some tables)
    have "mStats (lsMonitor (foldl (\<lambda>s lost. case write_table env v (reIface lost) (reTable lost) s of (err, s1) \<Rightarrow> noteTableRestore v lost err s1) s ls))
        = mStats (lsMonitor s)" for ls :: "tableRestore list"
      by (induction ls arbitrary: s) (simp_all add: write_table_def emit_def)
    then show ?thesis using Some by (simp add: restore_family_def)
  qed (simp add: restore_family_def)
  then show ?thesis
    by (simp add: listFailoverTick_def restoreLostTableRoutes_def point_targets_writes Let_def split: option.splits)
qed

lemma due_stats: "mStats mon' = mStats mon \<Longrightarrow> due mon' profile tables up eg ifc = due mon profile tables up eg ifc"
  by (simp add: due_def elected_first_def member_up_def split: option.split)

lemma due_unique: "due mon profile tables up eg i \<Longrightarrow> due mon profile tables up eg j \<Longrightarrow> i = j"
  by (auto simp: due_def elect_unique split: option.splits)

text \<open>Once the writes that are due are in the tables, nothing is due any more.\<close>

lemma due_settled:
  assumes writes: "\<And>t i. (t, i) \<in> set ws \<longleftrightarrow> (\<exists>eg\<in>set egs. egTable eg = t \<and> due mon profile tables up eg i)"
    and inj: "\<And>a b. a \<in> set egs \<Longrightarrow> b \<in> set egs \<Longrightarrow> egKind a = EgressInterface \<Longrightarrow> egKind b = EgressInterface \<Longrightarrow> egTable a = egTable b \<Longrightarrow> a = b"
    and eg: "eg \<in> set egs"
  shows "\<not> due mon profile (tables_after tables ws) up eg ifc"
proof
  assume d: "due mon profile (tables_after tables ws) up eg ifc"
  have own: "(egTable eg, i) \<in> set ws \<longleftrightarrow> due mon profile tables up eg i" for i
    using writes[of "egTable eg" i] inj eg d by (auto simp: due_def)
  show False
  proof (cases "\<exists>i. due mon profile tables up eg i")
    case True
    then obtain i where i: "due mon profile tables up eg i" by blast
    then have "tables_after tables ws (egTable eg) = Some i"
      using own due_unique by (intro tables_after_written) blast+
    then show False using d i by (auto simp: due_def table_at_def elect_unique split: option.splits)
  next
    case False
    then have "tables_after tables ws (egTable eg) = tables (egTable eg)" using own by (intro tables_after_kept) blast
    then have "due mon profile tables up eg ifc" using d by (auto simp: due_def table_at_def split: option.splits)
    then show False using False by blast
  qed
qed

lemma foldl_idle: "(\<And>x. x \<in> set xs \<Longrightarrow> f s x = s) \<Longrightarrow> foldl f s xs = s"
  by (induction xs) auto

lemma tick_idle:
  assumes "\<And>v. pass_writes env (lsMonitor s) v = []"
  shows "listFailoverTick env s = s"
proof (cases "lf_gates env \<and> (\<exists>plan profile live4. pePlan env = Some (plan, profile) \<and> live_tables env plan False = Some live4)")
  case False
  then show ?thesis by (auto simp: listFailoverTick_def live_tables_def split: option.splits)
next
  case True
  then obtain plan profile live4 where e: "lf_gates env" "pePlan env = Some (plan, profile)" "live_tables env plan False = Some live4" by blast
  let ?ts = "listFailoverTargetsFrom (lsMonitor s) plan profile live4"
  let ?live = "live_tables env plan"
  have l: "(\<lambda>v6. if v6 then (if HasV6 plan then liveTableDefaults env True else None) else Some live4) = ?live"
    using e(3) by (auto simp: live_tables_def)
  have none: "moves tables ?ts = [] \<and> lostTableRoutes plan profile tables (peUp env) = []" if "?live v = Some tables" for v tables
    using assms[of v] e that by (simp add: pass_writes_def)
  have "point_family env ?live t s v = s" if "t \<in> set ?ts" for t v
    using none[of v] that by (cases "?live v") (auto simp: point_family_def moves_def filter_empty_conv)
  then have "foldl (point_target env ?live) s ?ts = s" by (intro foldl_idle) (simp add: point_target_def)
  moreover have "restore_family env plan profile ?live s v = s" for v
    using none[of v] by (cases "?live v") (auto simp: restore_family_def)
  ultimately show ?thesis
    using e by (simp add: listFailoverTick_def restoreLostTableRoutes_def l live_tables_def Let_def)
qed

text \<open>C24. A pass settles. Take a plan made by the compiler and a pass that reads the tables. If the router then holds
  what the pass wrote, the links and the health are as before, the next pass does nothing: no write, no log
  line, no recorded switch. So the loop cannot flap between members by itself, and no two egresses of a plan
  fight over one table.\<close>

theorem next_pass_idle:
  assumes "lf_gates env" "lsEffects s = []" "pePlan env = Some (plan_of opt p, profile)"
    and "live_tables env (plan_of opt p) False \<noteq> None"
    and "pePlan env' = pePlan env" "peUp env' = peUp env"
    and "\<And>v. live_tables env' (plan_of opt p) v
           = map_option (\<lambda>tables. tables_after tables (family_writes v (lsEffects (listFailoverTick env s)))) (live_tables env (plan_of opt p) v)"
  shows "listFailoverTick env' (listFailoverTick env s) = listFailoverTick env s"
proof (rule tick_idle)
  fix v
  let ?mon = "lsMonitor (listFailoverTick env s)"
  have False if w: "(t, i) \<in> set (pass_writes env' ?mon v)" for t i
  proof -
    obtain tables' eg where eg: "live_tables env' (plan_of opt p) v = Some tables'" "eg \<in> set (plEgresses (plan_of opt p))"
      "due ?mon profile tables' (peUp env) eg i"
      using w assms(3,5,6) by (auto simp: pass_writes_due)
    obtain tables where t: "live_tables env (plan_of opt p) v = Some tables"
      "tables' = tables_after tables (pass_writes env (lsMonitor s) v)"
      using eg(1) assms(2) assms(7)[of v] by (auto simp: tick_writes)
    obtain live4 where l4: "live_tables env (plan_of opt p) False = Some live4" using assms(4) by blast
    have ws: "(t, i) \<in> set (pass_writes env (lsMonitor s) v) \<longleftrightarrow>
        (\<exists>eg\<in>set (plEgresses (plan_of opt p)). egTable eg = t \<and> due (lsMonitor s) profile tables (peUp env) eg i)" for t i
      using assms(1,3) t(1) l4 by (simp add: pass_writes_due)
    have "\<not> due (lsMonitor s) profile tables' (peUp env) eg i"
      unfolding t(2) by (rule due_settled[OF ws interface_tables_distinct eg(2)]) assumption+
    then show False using eg(3) due_stats[OF tick_stats] by blast
  qed
  then have "x \<notin> set (pass_writes env' ?mon v)" for x by (cases x) blast
  then show "pass_writes env' ?mon v = []" using list.set_sel(1) by blast
qed

text \<open>Two adopted tunnels in a group, the first one down, and a third one whose table lost its route.\<close>

definition lf_ep :: "id \<Rightarrow> string \<Rightarrow> Endpoint" where
  "lf_ep i ifc = ex_ep i EngineExternal [(''interface'', PStr ifc)]"

definition lf_profile :: "Group list \<Rightarrow> id \<Rightarrow> Profile" where
  "lf_profile gs out = \<lparr>prEndpoints = [lf_ep ''a'' ''awg0'', lf_ep ''b'' ''awg1'', lf_ep ''c'' ''awg2''], prGroups = gs,
     prRules = [ex_rule ''r'' [''8.8.8.0/24''] [] out, ex_rule ''s'' [''9.9.9.0/24''] [] ''c''], prRoutingLists = [], prDeviceGroups = [], prDNS = None\<rparr>"

definition lf_monitor :: "(id \<times> State) list \<Rightarrow> Monitor" where
  "lf_monitor hs = records (NewMonitor False) (map (\<lambda>(i, st). \<lparr>pbID = i, pbName = i, pbKind = ''endpoint'', pbState = st, pbLatency = 20, pbNow = 0\<rparr>) hs)"

definition lf_env :: "Profile \<Rightarrow> string \<Rightarrow> PassEnv" where
  "lf_env p text = \<lparr>peReady = True, peRoutingOff = False, peIPRoute = True, peApplying = False, peLock = True, peRoutingOffLocked = False,
     pePlan = Some (plan_of ex_opt p, p), peRead = (\<lambda>v6. Some text), peWrite = (\<lambda>_. None), peUp = (\<lambda>_. True), peNow = (\<lambda>k. 1000), peIntBits = 64\<rparr>"

definition lf_state :: "(id \<times> State) list \<Rightarrow> LFState" where
  "lf_state hs = \<lparr>lsMonitor = lf_monitor hs, lsErr = Map.empty, lsRestoreErr = Map.empty, lsCalls = 0, lsEffects = []\<rparr>"

definition lf_pair :: Profile where
  "lf_pair = lf_profile [ex_gr ''g'' [''a'', ''b'']] ''g''"

definition lf_before :: PassEnv where
  "lf_before = lf_env lf_pair ''default dev awg0 table 152 proto static''"

definition lf_after :: PassEnv where
  "lf_after = lf_env lf_pair (''default dev awg1 table 152'' @ [CHR 0x0A] @ ''default dev awg2 table 151'')"

definition lf_down :: LFState where
  "lf_down = lf_state [(''a'', Down), (''b'', Alive)]"

lemma lf_down_pass: "lsEffects (listFailoverTick lf_before lf_down) =
   [TableWrite False ''awg1'' 152, TableWrite False ''awg2'' 151, LogRestored False 151 ''awg2'']"
  by code_simp

lemma parse_lines:
  "parseTableDefaults bits text = foldl (\<lambda>out d. case d of None \<Rightarrow> out | Some (t, i) \<Rightarrow> out(t \<mapsto> i)) Map.empty
     (map (parse_default bits) (split_on (CHR 0x0A) text))"
  by (simp add: parseTableDefaults_def foldl_map)

lemma lf_texts:
  "map (parse_default 64) (split_on (CHR 0x0A) ''default dev awg0 table 152 proto static'') = [Some (152, ''awg0'')]"
  "map (parse_default 64) (split_on (CHR 0x0A) (''default dev awg1 table 152'' @ [CHR 0x0A] @ ''default dev awg2 table 151''))
     = [Some (152, ''awg1''), Some (151, ''awg2'')]"
  by code_simp+

lemma lf_tables:
  "live_tables lf_before (plan_of ex_opt lf_pair) v = (if v then None else Some [152 \<mapsto> ''awg0''])"
  "live_tables lf_after (plan_of ex_opt lf_pair) v = (if v then None else Some [152 \<mapsto> ''awg1'', 151 \<mapsto> ''awg2''])"
proof -
  have "\<not> HasV6 (plan_of ex_opt lf_pair)" by code_simp
  then show "live_tables lf_before (plan_of ex_opt lf_pair) v = (if v then None else Some [152 \<mapsto> ''awg0''])"
    "live_tables lf_after (plan_of ex_opt lf_pair) v = (if v then None else Some [152 \<mapsto> ''awg1'', 151 \<mapsto> ''awg2''])"
    by (simp_all only: live_tables_def liveTableDefaults_def lf_before_def lf_after_def lf_env_def parse_lines PassEnv.simps lf_texts option.map) simp_all
qed

theorem next_pass_idle_witness:
  "lsEffects (listFailoverTick lf_before lf_down) = [TableWrite False ''awg1'' 152, TableWrite False ''awg2'' 151, LogRestored False 151 ''awg2'']
   \<and> listFailoverTick lf_after (listFailoverTick lf_before lf_down) = listFailoverTick lf_before lf_down"
proof -
  have "lf_gates lf_before" "lsEffects lf_down = []" "pePlan lf_before = Some (plan_of ex_opt lf_pair, lf_pair)"
    "pePlan lf_after = pePlan lf_before" "peUp lf_after = peUp lf_before"
    by (simp_all add: lf_gates_def lf_before_def lf_after_def lf_env_def lf_down_def lf_state_def)
  moreover have "live_tables lf_after (plan_of ex_opt lf_pair) v = map_option (\<lambda>tables. tables_after tables
      (family_writes v (lsEffects (listFailoverTick lf_before lf_down)))) (live_tables lf_before (plan_of ex_opt lf_pair) v)" for v
    by (cases v) (simp_all add: lf_tables lf_down_pass tables_after_def family_writes_def List.map_filter_simps)
  ultimately show ?thesis
    using next_pass_idle[of lf_before lf_down ex_opt lf_pair lf_pair lf_after] by (simp add: lf_tables lf_down_pass)
qed

section \<open>Nested groups\<close>

lemma kernel_iface_owner:
  assumes "iface_at (kernelIfaceByEndpoint p) i \<noteq> ''''"
  shows "\<exists>e\<in>set (prEndpoints p). epID e = i \<and> kernelIface e = iface_at (kernelIfaceByEndpoint p) i"
proof -
  have "foldl (\<lambda>out e. if kernelIface e \<noteq> '''' then out(epID e \<mapsto> kernelIface e) else out) m es i = m i
      \<or> (\<exists>e\<in>set es. epID e = i \<and> foldl (\<lambda>out e. if kernelIface e \<noteq> '''' then out(epID e \<mapsto> kernelIface e) else out) m es i = Some (kernelIface e))" for m es
    by (induction es rule: rev_induct) auto
  from this[of Map.empty "prEndpoints p"] show ?thesis using assms by (auto simp: kernelIfaceByEndpoint_def iface_at_def split: option.splits)
qed

text \<open>C40. A group's table goes to the group's own members and nowhere else. Whenever a pass over a plan made by the
  compiler writes the table of an egress whose tag is a group, in either family, the interface is the kernel link of a
  connection that the group lists itself and that is up in the monitor. So no two egresses share a table through
  which another's choice could slip in; a group nested inside is never followed, even where the compiler pinned the table
  through it; and while no member of the group's own with a link is up, the table stays as it is.\<close>

theorem group_table_follows_own_members:
  assumes "pePlan env = Some (plan_of opt p, profile)" "eg \<in> set (plEgresses (plan_of opt p))" "egKind eg = EgressInterface"
    and "GroupByID profile (egTag eg) = Some g"
    and "TableWrite v6 ifc (egTable eg) \<in> set (lsEffects (listFailoverTick env (s\<lparr>lsEffects := []\<rparr>)))"
  shows "\<exists>e\<in>set (prEndpoints profile). epID e \<in> set (grMembers g) \<and> kernelIface e = ifc \<and> ifc \<noteq> '''' \<and> member_up (lsMonitor s) (epID e)"
proof -
  have "(egTable eg, ifc) \<in> set (pass_writes env (lsMonitor s) v6)" using assms(5) by (simp add: in_family_writes tick_writes)
  then obtain tables eg' where w: "eg' \<in> set (plEgresses (plan_of opt p))" "egTable eg' = egTable eg" "due (lsMonitor s) profile tables (peUp env) eg' ifc"
    using assms(1) by (auto simp: pass_writes_due)
  then have "eg' = eg" using interface_tables_distinct[OF w(1) assms(2)] assms(3) by (simp add: due_def)
  then have "elected_first (lsMonitor s) g (kernelIfaceByEndpoint profile) ifc" using w(3) assms(4) by (simp add: due_def)
  then obtain m where m: "m \<in> set (grMembers g)" "ifc = iface_at (kernelIfaceByEndpoint profile) m" "ifc \<noteq> ''''" "member_up (lsMonitor s) m"
    unfolding elected_first_def by (metis in_set_conv_decomp)
  then obtain e where "e \<in> set (prEndpoints profile)" "epID e = m" "kernelIface e = ifc" using kernel_iface_owner[of profile m] by auto
  then show ?thesis using m by blast
qed

definition lf_nested :: Profile where
  "lf_nested = lf_profile [ex_gr ''g1'' [''g2'', ''b''], ex_gr ''g2'' [''a'']] ''g1''"

lemma group_table_follows_own_members_witness:
  "TableWrite False ''awg1'' 152 \<in> set (lsEffects (listFailoverTick (lf_env lf_nested ''default dev awg0 table 152'') (lf_state [(''a'', Alive), (''b'', Alive), (''g2'', Alive)])))
   \<and> (\<exists>e\<in>set (prEndpoints lf_nested). epID e \<in> {''g2'', ''b''} \<and> kernelIface e = ''awg1'')"
proof -
  let ?env = "lf_env lf_nested ''default dev awg0 table 152''" and ?s = "lf_state [(''a'', Alive), (''b'', Alive), (''g2'', Alive)]"
  let ?eg = "ex_egress ''g1'' EgressInterface ''awg0'' 0x30000 152"
  have eg: "?eg \<in> set (plEgresses (plan_of ex_opt lf_nested))" by code_simp
  have w: "lsEffects (listFailoverTick ?env ?s) = [TableWrite False ''awg1'' 152, TableWrite False ''awg2'' 151, LogRestored False 151 ''awg2'']" by code_simp
  have g: "GroupByID lf_nested (egTag ?eg) = Some (ex_gr ''g1'' [''g2'', ''b''])"
    by (simp add: GroupByID_def lf_nested_def lf_profile_def ex_egress_def ex_gr_def)
  have s: "?s\<lparr>lsEffects := []\<rparr> = ?s" by (simp add: lf_state_def)
  have p: "pePlan ?env = Some (plan_of ex_opt lf_nested, lf_nested)" by (simp add: lf_env_def)
  have k: "egKind ?eg = EgressInterface" "egTable ?eg = 152" by (simp_all add: ex_egress_def)
  have "TableWrite False ''awg1'' (egTable ?eg) \<in> set (lsEffects (listFailoverTick ?env (?s\<lparr>lsEffects := []\<rparr>)))" unfolding s w k(2) by simp
  from group_table_follows_own_members[OF p eg k(1) g this] show ?thesis using w by (auto simp: ex_gr_def)
qed

text \<open>The compiler does follow nested groups. With a group \<open>g1\<close> of the group \<open>g2\<close> (the tunnel \<open>a\<close>) and then the tunnel
  \<open>b\<close>, all up, it pins the table of \<open>g1\<close> to the link of \<open>a\<close>, and the next pass of the loop moves it to the link of
  \<open>b\<close>, the second choice. With \<open>b\<close> down and \<open>a\<close> up the table is not moved at all, so a table pinned to \<open>b\<close> stays on the
  dead member; and when \<open>g2\<close> is the only member, a lost route of the group is put back by nobody.\<close>

lemma election_ignores_nested_groups:
  "find (\<lambda>eg. egTag eg = ''g1'') (plEgresses (plan_of ex_opt lf_nested)) = Some (ex_egress ''g1'' EgressInterface ''awg0'' 0x30000 152)
   \<and> lsEffects (listFailoverTick (lf_env lf_nested ''default dev awg0 table 152'') (lf_state [(''a'', Alive), (''b'', Alive), (''g2'', Alive)]))
       = [TableWrite False ''awg1'' 152, TableWrite False ''awg2'' 151, LogRestored False 151 ''awg2'']
   \<and> lsEffects (listFailoverTick (lf_env lf_nested ''default dev awg1 table 152'') (lf_state [(''a'', Alive), (''b'', Down), (''g2'', Alive)]))
       = [TableWrite False ''awg2'' 151, LogRestored False 151 ''awg2'']
   \<and> lsEffects (listFailoverTick (lf_env (lf_profile [ex_gr ''g1'' [''g2''], ex_gr ''g2'' [''a'']] ''g1'') '''') (lf_state [(''a'', Alive), (''g2'', Alive)]))
       = [TableWrite False ''awg2'' 151, LogRestored False 151 ''awg2'']"
  by code_simp

end
