(* ===== verification/Profile_Validate.thy ===== *)
theory Profile_Validate
  imports PBR_Compile
begin

text \<open>
  Validation of a profile, \<open>internal/model/validate.go\<close> and \<open>internal/model/dns.go\<close>: \<open>Validate\<close> returns the first
  problem it finds. Its loops are translated in order, with the map of used ids, the colours of the search
  for group cycles and the tags of the DNS servers as loop state. The main result is that it accepts exactly
  the well-formed profiles. The checks of protocol parameters that concern one endpoint only (\<open>quic.go\<close>,
  \<open>byedpi.go\<close>, \<open>hysteria2_realm.go\<close>, \<open>endpointLoadProblem\<close>) are an argument; nothing here depends on what they
  accept.
\<close>

section \<open>Errors\<close>

datatype arg = AS string | AI int

text \<open>The two typed errors and the untyped one: a format and its arguments. Dashes and quotes in formats
  are left out.\<close>

datatype verr = UnresolvedRef (verrKind: string) (verrID: id) (verrTarget: id) string
  | DisabledRef (verrKind: string) (verrID: id) (verrTarget: id) string
  | Plain string "arg list"

text \<open>A sequence of \<open>if condition { return error }\<close>, and a loop over a slice that stops at the first error.\<close>

definition first_fail :: "(bool \<times> verr) list \<Rightarrow> verr option" where
  "first_fail cs = map_option snd (find fst cs)"

lemma first_fail_None: "first_fail cs = None \<longleftrightarrow> list_all (\<lambda>c. \<not> fst c) cs"
  by (auto simp: first_fail_def find_None_iff list_all_iff)

lemma first_fail_simps [simp]:
  "first_fail [] = None" "first_fail ((b, e) # cs) = (if b then Some e else first_fail cs)"
  by (simp_all add: first_fail_def)

fun each :: "('s \<Rightarrow> 'a \<Rightarrow> verr + 's) \<Rightarrow> 'a list \<Rightarrow> 's \<Rightarrow> verr + 's" where
  "each f [] s = Inr s"
| "each f (x # xs) s = (case f s x of Inl e \<Rightarrow> Inl e | Inr s' \<Rightarrow> each f xs s')"

definition fails :: "verr option \<Rightarrow> 's \<Rightarrow> verr + 's" where
  "fails r s = (case r of None \<Rightarrow> Inr s | Some e \<Rightarrow> Inl e)"

section \<open>Strings\<close>

text \<open>\<open>strings.ToLower(s) = t\<close> for a lower-case ASCII \<open>t\<close>. Besides capital letters only two code points have a
  lower-case form in ASCII: U+0130 (i) and U+212A (k).\<close>

fun lower_is :: "string \<Rightarrow> string \<Rightarrow> bool" where
  "lower_is s [] \<longleftrightarrow> s = []"
| "lower_is s (c # t) \<longleftrightarrow>
     (case s of [] \<Rightarrow> False | x # xs \<Rightarrow>
        (lower_char x = c \<and> lower_is xs t)
        \<or> (c = CHR ''i'' \<and> prefix [CHR 0xC4, CHR 0xB0] s \<and> lower_is (drop 2 s) t)
        \<or> (c = CHR ''k'' \<and> prefix [CHR 0xE2, CHR 0x84, CHR 0xAA] s \<and> lower_is (drop 3 s) t))"

definition isBuiltin :: "id \<Rightarrow> bool" where
  "isBuiltin target \<longleftrightarrow> lower_is target OutboundDirect \<or> lower_is target OutboundBlock"

definition isDigit :: "char \<Rightarrow> bool" where
  "isDigit c \<longleftrightarrow> digit_val c \<noteq> None"

text \<open>\<open>net.ParseIP\<close> and \<open>net.ParseCIDR\<close> accept the string.\<close>

definition ParseIP :: "string \<Rightarrow> bool" where
  "ParseIP s \<longleftrightarrow> (case ParseAddr s of None \<Rightarrow> False | Some (V4 _) \<Rightarrow> True | Some (V6 _ z) \<Rightarrow> z = [])"

definition ParseCIDR :: "string \<Rightarrow> bool" where
  "ParseCIDR s \<longleftrightarrow>
    (let host = takeWhile (\<lambda>c. c \<noteq> CHR ''/'') s; m = drop 1 (dropWhile (\<lambda>c. c \<noteq> CHR ''/'') s)
     in contains_char (CHR ''/'') s \<and> ParseIP host \<and> m \<noteq> [] \<and> list_all isDigit m
        \<and> (case (atoi m, ParseAddr host) of
             (Some n, Some (V4 _)) \<Rightarrow> n \<le> 32 | (Some n, Some (V6 _ _)) \<Rightarrow> n \<le> 128 | _ \<Rightarrow> False))"

definition firstInvalidCIDR :: "string list \<Rightarrow> string option" where
  "firstInvalidCIDR cidrs = find (\<lambda>c. let s = TrimSpace c in s \<noteq> '''' \<and> \<not> ParseCIDR s \<and> \<not> ParseIP s) cidrs"

definition validSourceIface :: "string \<Rightarrow> bool" where
  "validSourceIface s \<longleftrightarrow> s \<noteq> '''' \<and> length s \<le> 15
     \<and> (let t = (if last s = CHR ''*'' then butlast s else s)
        in t \<noteq> '''' \<and> list_all (\<lambda>c. alnum c \<or> c \<in> {CHR ''.'', CHR ''-'', CHR ''_'', CHR ''@''}) t)"

definition ValidNDMPolicyName :: "string \<Rightarrow> bool" where
  "ValidNDMPolicyName name \<longleftrightarrow> name \<noteq> '''' \<and> length name \<le> 64 \<and> list_all (\<lambda>c. alnum c \<or> c \<in> {CHR ''_'', CHR ''-''}) name"

text \<open>\<open>strings.TrimPrefix(strings.ToUpper(a), "AS")\<close>, as far as digits go: \<open>s\<close> is also the upper case of U+017F.\<close>

definition trim_AS :: "string \<Rightarrow> string" where
  "trim_AS a =
    (case a of
       x # xs \<Rightarrow>
         if x \<in> {CHR ''A'', CHR ''a''} then
           (if xs \<noteq> [] \<and> hd xs \<in> {CHR ''S'', CHR ''s''} then tl xs
            else if prefix [CHR 0xC5, CHR 0xBF] xs then drop 2 xs else a)
         else a
     | [] \<Rightarrow> a)"

fun split_char :: "char \<Rightarrow> string \<Rightarrow> string list" where
  "split_char c [] = [[]]"
| "split_char c (x # xs) = (if x = c then [] # split_char c xs else (case split_char c xs of l # ls \<Rightarrow> (x # l) # ls | [] \<Rightarrow> [[x]]))"

definition isHTTP :: "string \<Rightarrow> bool" where
  "isHTTP s \<longleftrightarrow> prefix ''https://'' s \<or> prefix ''http://'' s"

definition validCIDRSource :: "string \<Rightarrow> bool" where
  "validCIDRSource s \<longleftrightarrow> isHTTP s
     \<or> (prefix ''asn:'' s
        \<and> (let l = drop 4 s
           in TrimSpace l \<noteq> '''' \<and> list_all (\<lambda>a. let r = trim_AS (TrimSpace a) in r \<noteq> '''' \<and> list_all isDigit r) (split_char (CHR '','') l)))"

definition ValidRefreshHours :: "RoutingList \<Rightarrow> bool" where
  "ValidRefreshHours rl \<longleftrightarrow>
    (if rlCIDRSource rl = '''' \<or> rlRefreshHours rl = 0 then rlRefreshHours rl \<ge> 0
     else rlRefreshHours rl \<ge> 6 \<and> rlRefreshHours rl \<le> 720)"

section \<open>Endpoints\<close>

text \<open>The checks of one endpoint's protocol parameters: an error text or none, and \<open>UsesRealm\<close>.\<close>

record Checks =
  ckQUIC :: "Endpoint \<Rightarrow> string" \<comment> \<open>QUICTuningProblem\<close>
  ckByeDPI :: "Endpoint \<Rightarrow> string option" \<comment> \<open>the error of ByeDPIStrategy\<close>
  ckRealm :: "Endpoint \<Rightarrow> bool" \<comment> \<open>UsesRealm\<close>
  ckLoad :: "Endpoint \<Rightarrow> string" \<comment> \<open>endpointLoadProblem\<close>

definition bad_path :: "id \<Rightarrow> bool" where
  "bad_path i \<longleftrightarrow> list_ex (\<lambda>c. c \<in> {CHR ''/'', CHR 0x5C, CHR 0x00}) i \<or> i = ''.'' \<or> i = ''..''"

definition endpoint_problem :: "Checks \<Rightarrow> Endpoint \<Rightarrow> verr option" where
  "endpoint_problem ck e =
    (case first_fail
       [(epMTU e \<noteq> 0 \<and> (epMTU e < 576 \<or> epMTU e > 9200), Plain ''endpoint %q: mtu %d out of range'' [AS (epID e), AI (epMTU e)]),
        (epPersistentKeepalive e \<noteq> 0 \<and> (epPersistentKeepalive e < 1 \<or> epPersistentKeepalive e > 65535),
         Plain ''endpoint %q: persistent_keepalive %d out of range'' [AS (epID e), AI (epPersistentKeepalive e)]),
        (ckQUIC ck e \<noteq> '''', Plain ''endpoint %q: %s'' [AS (epID e), AS (ckQUIC ck e)]),
        (epAWGUserspace e \<and> (epEngine e \<noteq> EngineAmneziaWG \<or> epOwner e \<noteq> ''''), Plain ''endpoint %q: awg_userspace'' [AS (epID e)])] of
       Some err \<Rightarrow> Some err
     | None \<Rightarrow>
        (case epEngine e of
           EngineExternal \<Rightarrow>
             (let ifn = param_string e ''interface''
              in first_fail
                [(TrimSpace ifn = '''', Plain ''endpoint %q: external engine needs params.interface'' [AS (epID e)]),
                 (contains_char (CHR ''*'') ifn \<or> \<not> validSourceIface ifn, Plain ''endpoint %q: invalid params.interface %q'' [AS (epID e), AS ifn])])
         | EngineByeDPI \<Rightarrow> map_option (\<lambda>m. Plain ''endpoint %q (byedpi): %v'' [AS (epID e), AS m]) (ckByeDPI ck e)
         | _ \<Rightarrow> first_fail
             [(\<not> ckRealm ck e \<and> epServer e = '''', Plain ''endpoint %q: empty server'' [AS (epID e)]),
              (\<not> ckRealm ck e \<and> (epPort e < 1 \<or> epPort e > 65535), Plain ''endpoint %q: port %d out of range'' [AS (epID e), AI (epPort e)]),
              (epProtocol e = '''', Plain ''endpoint %q: empty protocol'' [AS (epID e)]),
              (epEnabled e \<and> ckLoad ck e \<noteq> '''', Plain ''endpoint %q (%s): %s'' [AS (epID e), AS (epProtocol e), AS (ckLoad ck e)])]))"

text \<open>The ids in use with their kind, and the targets that are switched on.\<close>

record Names =
  nmKind :: "id \<Rightarrow> string option"
  nmOn :: "id \<Rightarrow> bool"

definition names0 :: Names where
  "names0 = \<lparr>nmKind = [OutboundDirect \<mapsto> ''builtin outbound'', OutboundBlock \<mapsto> ''builtin outbound''], nmOn = (\<lambda>_. False)\<rparr>"

definition claim_id :: "string \<Rightarrow> id \<Rightarrow> Names \<Rightarrow> verr + Names" where
  "claim_id kind i ns =
    (case nmKind ns i of
       Some prev \<Rightarrow> Inl (Plain ''duplicate id %q (already used by %s)'' [AS i, AS prev])
     | None \<Rightarrow> Inr (ns\<lparr>nmKind := (nmKind ns)(i \<mapsto> kind)\<rparr>))"

definition set_on :: "id \<Rightarrow> bool \<Rightarrow> Names \<Rightarrow> Names" where
  "set_on i b ns = ns\<lparr>nmOn := (nmOn ns)(i := b)\<rparr>"

definition validate_endpoint :: "Checks \<Rightarrow> Names \<Rightarrow> Endpoint \<Rightarrow> verr + Names" where
  "validate_endpoint ck ns e =
    (case first_fail
       [(epID e = '''', Plain ''endpoint %q has empty id'' [AS (epName e)]),
        (bad_path (epID e), Plain ''endpoint %q: invalid id %q'' [AS (epName e), AS (epID e)]),
        (isBuiltin (epID e), Plain ''duplicate id %q (reserved builtin outbound tag, case-insensitive)'' [AS (epID e)])] of
       Some err \<Rightarrow> Inl err
     | None \<Rightarrow>
        (case claim_id ''endpoint'' (epID e) ns of
           Inl err \<Rightarrow> Inl err
         | Inr ns' \<Rightarrow> fails (endpoint_problem ck e) (set_on (epID e) (epEnabled e) ns')))"

section \<open>Groups\<close>

definition validate_group :: "Names \<Rightarrow> Group \<Rightarrow> verr + Names" where
  "validate_group ns g =
    (case first_fail
       [(grID g = '''', Plain ''group %q has empty id'' [AS (grName g)]),
        (isBuiltin (grID g), Plain ''duplicate id %q (reserved builtin outbound tag, case-insensitive)'' [AS (grID g)])] of
       Some err \<Rightarrow> Inl err
     | None \<Rightarrow>
        (case claim_id ''group'' (grID g) ns of
           Inl err \<Rightarrow> Inl err
         | Inr ns' \<Rightarrow> fails (first_fail [(grMembers g = [], Plain ''group %q: no members'' [AS (grID g)])]) (set_on (grID g) True ns')))"

definition member_problem :: "Names \<Rightarrow> Group \<Rightarrow> id \<Rightarrow> verr option" where
  "member_problem ns g m =
    (if m = OutboundDirect then None
     else first_fail
       [(m = OutboundBlock, Plain ''group %q: member %q is a route action (reject), not an outbound'' [AS (grID g), AS m]),
        (nmKind ns m = None, UnresolvedRef ''group'' (grID g) m ''member does not resolve''),
        (m = grID g, Plain ''group %q: cannot contain itself'' [AS (grID g)]),
        (\<not> nmOn ns m, DisabledRef ''group'' (grID g) m ''member is disabled'')])"

definition validate_members :: "Names \<Rightarrow> unit \<Rightarrow> Group \<Rightarrow> verr + unit" where
  "validate_members ns u g = each (\<lambda>u m. fails (member_problem ns g m) u) (grMembers g) u"

text \<open>The search for cycles among groups: not seen, on the stack, done.\<close>

definition groupAdj :: "Names \<Rightarrow> Group list \<Rightarrow> (id \<times> id list) list" where
  "groupAdj ns gs = map (\<lambda>g. (grID g, filter (\<lambda>m. nmKind ns m = Some ''group'') (grMembers g))) gs"

definition adj_of :: "(id \<times> id list) list \<Rightarrow> id \<Rightarrow> id list" where
  "adj_of adj i = (case map_of adj i of None \<Rightarrow> [] | Some ms \<Rightarrow> ms)"

datatype colour = Unseen | Visiting | Done

function dfs_members :: "(id \<times> id list) list \<Rightarrow> id \<Rightarrow> id list \<Rightarrow> (id \<Rightarrow> colour) \<Rightarrow> verr + (id \<Rightarrow> colour)" where
  "dfs_members adj i [] color = Inr color"
| "dfs_members adj i (m # ms) color =
     (case color m of
        Visiting \<Rightarrow> Inl (Plain ''group %q is part of a cycle (via %q)'' [AS i, AS m])
      | Done \<Rightarrow> dfs_members adj i ms color
      | Unseen \<Rightarrow>
          (case dfs_members adj m (adj_of adj m) (color(m := Visiting)) of
             Inl e \<Rightarrow> Inl e
           | Inr color' \<Rightarrow> dfs_members adj i ms (color'(m := Done))))"
  by pat_completeness auto

definition white :: "(id \<times> id list) list \<Rightarrow> (id \<Rightarrow> colour) \<Rightarrow> nat" where
  "white adj color = card {k \<in> fst ` set adj. color k = Unseen}"

lemma white_less: "k \<in> fst ` set adj \<Longrightarrow> color k = Unseen \<Longrightarrow> white adj (color(k := Visiting)) < white adj color"
  unfolding white_def by (rule psubset_card_mono) auto

lemma white_mono: "(\<And>k. color' k = Unseen \<Longrightarrow> color k = Unseen) \<Longrightarrow> white adj color' \<le> white adj color"
  unfolding white_def by (rule card_mono) auto

lemma white_visit: "white adj (color(m := Visiting)) \<le> white adj color"
  by (rule white_mono) (simp split: if_splits)

lemma adj_of_none: "m \<notin> fst ` set adj \<Longrightarrow> adj_of adj m = []"
  by (auto simp: adj_of_def split: option.splits dest: map_of_SomeD intro: rev_image_eqI)

lemma dfs_dom_keeps:
  "dfs_members_dom (adj, i, ms, color) \<Longrightarrow> dfs_members adj i ms color = Inr color' \<Longrightarrow> color' k = Unseen \<Longrightarrow> color k = Unseen"
proof (induction adj i ms color arbitrary: color' rule: dfs_members.pinduct)
  case (1 adj i color)
  then show ?case by (simp add: dfs_members.psimps)
next
  case (2 adj i m ms color)
  show ?case
  proof (cases "color m")
    case Unseen
    then obtain c where c: "dfs_members adj m (adj_of adj m) (color(m := Visiting)) = Inr c" "dfs_members adj i ms (c(m := Done)) = Inr color'"
      using 2(1,5) by (auto simp: dfs_members.psimps split: sum.splits)
    have "(c(m := Done)) k = Unseen" using 2(3)[OF Unseen c(1) c(2) 2(6)] .
    then show ?thesis using 2(2)[OF Unseen c(1)] by (auto split: if_splits)
  next
    case Visiting
    then show ?thesis using 2(1,5) by (auto simp: dfs_members.psimps)
  next
    case Done
    then show ?thesis using 2(1,4,5,6) by (auto simp: dfs_members.psimps)
  qed
qed

lemma white_after:
  assumes "dfs_members_dom (adj, m, ms, color(m := Visiting))" "dfs_members adj m ms (color(m := Visiting)) = Inr c"
  shows "white adj (c(m := Done)) \<le> white adj color"
proof (rule white_mono)
  fix k assume "(c(m := Done)) k = Unseen"
  then have "k \<noteq> m" "c k = Unseen" by (auto split: if_splits)
  then show "color k = Unseen" using dfs_dom_keeps[OF assms, of k] by simp
qed

termination dfs_members
proof (relation "measures [\<lambda>(adj, i, ms, color). white adj color, \<lambda>(adj, i, ms, color). length ms]", goal_cases)
  case (2 adj i m ms color)
  then show ?case
    using white_less[of m adj color] white_visit[of adj color m] adj_of_none[of m adj]
    by (cases "m \<in> fst ` set adj") auto
next
  case (3 adj i m ms color c)
  then show ?case using white_after[of adj m "adj_of adj m" color c] by auto
qed auto

definition dfs_group :: "(id \<times> id list) list \<Rightarrow> (id \<Rightarrow> colour) \<Rightarrow> Group \<Rightarrow> verr + (id \<Rightarrow> colour)" where
  "dfs_group adj color g =
    (if color (grID g) = Unseen
     then (case dfs_members adj (grID g) (adj_of adj (grID g)) (color(grID g := Visiting)) of
             Inl e \<Rightarrow> Inl e | Inr color' \<Rightarrow> Inr (color'(grID g := Done)))
     else Inr color)"

section \<open>Rules, device groups and lists\<close>

definition isResolvable :: "id \<Rightarrow> Names \<Rightarrow> bool" where
  "isResolvable target ns \<longleftrightarrow> isBuiltin target \<or> nmKind ns target \<noteq> None"

definition ruleHasNoMatcher :: "Rule \<Rightarrow> bool" where
  "ruleHasNoMatcher r \<longleftrightarrow> \<not> hasNonBlank (ruDomainSuffix r) \<and> \<not> hasNonBlank (ruDomain r) \<and> \<not> hasNonBlank (ruGeoSite r)
     \<and> \<not> hasNonBlank (ruGeoIP r) \<and> \<not> hasNonBlank (ruIPCIDR r) \<and> ruPort r = []
     \<and> \<not> hasNonBlank (ruSourceIPCIDR r) \<and> \<not> hasNonBlank (ruSourceMAC r) \<and> \<not> hasNonBlank (ruSourceIface r) \<and> ruSourcePort r = []"

definition bad_port :: "int \<Rightarrow> bool" where
  "bad_port n \<longleftrightarrow> n < 0 \<or> n > 65535"

definition bad_mac :: "string \<Rightarrow> bool" where
  "bad_mac s \<longleftrightarrow> (case ParseMAC s of None \<Rightarrow> True | Some hw \<Rightarrow> length hw \<noteq> 6)"

text \<open>A loop over a field that returns at the first bad entry.\<close>

definition bad_entry :: "('a \<Rightarrow> bool) \<Rightarrow> 'a list \<Rightarrow> string \<Rightarrow> id \<Rightarrow> ('a \<Rightarrow> arg) \<Rightarrow> bool \<times> verr" where
  "bad_entry P xs fmt i f = (case find P xs of None \<Rightarrow> (False, Plain fmt []) | Some x \<Rightarrow> (True, Plain fmt [AS i, f x]))"

definition matcher_problem :: "Rule \<Rightarrow> verr option" where
  "matcher_problem r = first_fail
    [(ruleHasNoMatcher r, Plain ''rule %q: has no match condition'' [AS (ruID r)]),
     (case firstInvalidCIDR (ruIPCIDR r) of None \<Rightarrow> (False, Plain '''' []) | Some c \<Rightarrow> (True, Plain ''rule %q: invalid ip_cidr %q'' [AS (ruID r), AS c])),
     bad_entry bad_port (ruPort r) ''rule %q: port %d out of range'' (ruID r) AI,
     (case firstInvalidCIDR (ruSourceIPCIDR r) of None \<Rightarrow> (False, Plain '''' [])
        | Some c \<Rightarrow> (True, Plain ''rule %q: invalid source_ip_cidr %q'' [AS (ruID r), AS c])),
     bad_entry bad_port (ruSourcePort r) ''rule %q: source_port %d out of range'' (ruID r) AI,
     bad_entry (\<lambda>m. let s = TrimSpace m in s \<noteq> '''' \<and> bad_mac s) (ruSourceMAC r) ''rule %q: invalid source_mac %q'' (ruID r) AS,
     bad_entry (\<lambda>i. let s = TrimSpace i in s \<noteq> '''' \<and> \<not> validSourceIface s) (ruSourceIface r) ''rule %q: invalid source_iface %q'' (ruID r) AS]"

text \<open>A reference to an outbound that must resolve and be switched on.\<close>

definition outbound_problem :: "Names \<Rightarrow> string \<Rightarrow> id \<Rightarrow> id \<Rightarrow> string \<Rightarrow> verr option" where
  "outbound_problem ns kind i target field = first_fail
    [(\<not> isResolvable target ns, UnresolvedRef kind i target field),
     (\<not> isBuiltin target \<and> \<not> nmOn ns target, DisabledRef kind i target field)]"

definition validate_rule :: "Names \<times> nat \<Rightarrow> Rule \<Rightarrow> verr + Names \<times> nat" where
  "validate_rule st r =
    (case st of (ns, defaults) \<Rightarrow>
      if ruID r = '''' then Inl (Plain ''rule has empty id'' [])
      else (case claim_id ''rule'' (ruID r) ns of
              Inl err \<Rightarrow> Inl err
            | Inr ns' \<Rightarrow>
               if ruDisabled r then Inr (ns', defaults)
               else (case (if ruDefault r then None else matcher_problem r) of
                       Some err \<Rightarrow> Inl err
                     | None \<Rightarrow>
                        (case NDMPolicyName (ruOutbound r) of
                           Some _ \<Rightarrow> Inl (Plain ''rule %q: outbound %q is a KeeneticOS access policy'' [AS (ruID r), AS (ruOutbound r)])
                         | None \<Rightarrow> fails (outbound_problem ns' ''rule'' (ruID r) (ruOutbound r) ''outbound'')
                                     (ns', if ruDefault r then defaults + 1 else defaults)))))"

definition ValidateDeviceMember :: "unit \<Rightarrow> DeviceMember \<Rightarrow> verr + unit" where
  "ValidateDeviceMember u m =
    (let mac = TrimSpace (dmMAC m); ip = TrimSpace (dmIP m)
     in fails (first_fail
          [(mac = '''' \<and> ip = '''', Plain ''a member needs a MAC or an IP'' []),
           (mac \<noteq> '''' \<and> bad_mac mac, Plain ''invalid MAC %q'' [AS (dmMAC m)]),
           (ip \<noteq> '''' \<and> firstInvalidCIDR [ip] \<noteq> None, Plain ''invalid IP/CIDR %q'' [AS (dmIP m)])]) u)"

definition ValidateDeviceGroup :: "DeviceGroup \<Rightarrow> verr + unit" where
  "ValidateDeviceGroup g =
    (if TrimSpace (dgID g) = '''' then Inl (Plain ''id is required'' []) else each ValidateDeviceMember (dgMembers g) ())"

definition validate_device_group :: "Names \<Rightarrow> DeviceGroup \<Rightarrow> verr + Names" where
  "validate_device_group ns g =
    (case ValidateDeviceGroup g of
       Inl err \<Rightarrow> Inl (Plain ''device group %q: %w'' [AS (dgName g)])
     | Inr _ \<Rightarrow> claim_id ''device group'' (dgID g) ns)"

definition list_outbound_problem :: "Names \<Rightarrow> RoutingList \<Rightarrow> verr option" where
  "list_outbound_problem ns rl =
    (case NDMPolicyName (rlOutbound rl) of
       Some name \<Rightarrow> first_fail [(\<not> ValidNDMPolicyName name, Plain ''routing list %q: outbound %q: an access policy name'' [AS (rlID rl), AS (rlOutbound rl)])]
     | None \<Rightarrow> outbound_problem ns ''routing list'' (rlID rl) (rlOutbound rl) ''outbound'')"

definition scope_problem :: "id list \<Rightarrow> RoutingList \<Rightarrow> verr option" where
  "scope_problem devGroups rl = first_fail
    [(rlScopeMode rl \<notin> {'''', ''all'', ''only'', ''except''}, Plain ''routing list %q: invalid scope_mode %q'' [AS (rlID rl), AS (rlScopeMode rl)]),
     bad_entry (\<lambda>gid. gid \<notin> set devGroups) (rlScopeGroups rl) ''routing list %q: scope references unknown device group %q'' (rlID rl) AS,
     (rlTLSFragment rl \<notin> {'''', ''record'', ''handshake''}, Plain ''routing list %q: invalid tls_fragment %q'' [AS (rlID rl), AS (rlTLSFragment rl)]),
     (rlScopeMode rl \<in> {''only'', ''except''} \<and> rlScopeGroups rl = [],
      Plain ''routing list %q: scope_mode %q needs at least one device group'' [AS (rlID rl), AS (rlScopeMode rl)])]"

definition download_problem :: "Names \<Rightarrow> RoutingList \<Rightarrow> verr option" where
  "download_problem ns rl =
    (if rlDownloadVia rl = '''' then None
     else if NDMPolicyName (rlDownloadVia rl) \<noteq> None
          then Some (Plain ''routing list %q: download_via %q is a KeeneticOS access policy'' [AS (rlID rl), AS (rlDownloadVia rl)])
     else outbound_problem ns ''routing list'' (rlID rl) (rlDownloadVia rl) ''download_via'')"

definition source_problem :: "RoutingList \<Rightarrow> verr option" where
  "source_problem rl = first_fail
    [(rlSource rl = '''' \<and> rlManual rl = [] \<and> rlCIDRSource rl = '''' \<and> rlCIDRCache rl = [] \<and> rlDomainSource rl = '''' \<and> rlDomainCache rl = [],
      Plain ''routing list %q: needs a source URL, a CIDR source, a domain source, or manual entries'' [AS (rlID rl)]),
     (rlCIDRSource rl \<noteq> '''' \<and> \<not> validCIDRSource (rlCIDRSource rl), Plain ''routing list %q: cidr_source %q'' [AS (rlID rl), AS (rlCIDRSource rl)]),
     (rlDomainSource rl \<noteq> '''' \<and> \<not> isHTTP (rlDomainSource rl), Plain ''routing list %q: domain_source %q'' [AS (rlID rl), AS (rlDomainSource rl)])]"

definition or_else :: "verr option \<Rightarrow> verr option \<Rightarrow> verr option" where
  "or_else a b = (case a of Some e \<Rightarrow> Some e | None \<Rightarrow> b)"

definition validate_list :: "id list \<Rightarrow> Names \<Rightarrow> RoutingList \<Rightarrow> verr + Names" where
  "validate_list devGroups ns rl =
    (if rlID rl = '''' then Inl (Plain ''routing list %q has empty id'' [AS (rlName rl)])
     else (case claim_id ''routing list'' (rlID rl) ns of
             Inl err \<Rightarrow> Inl err
           | Inr ns' \<Rightarrow>
              fails (or_else (source_problem rl) (or_else (list_outbound_problem ns' rl)
                (or_else (scope_problem devGroups rl) (download_problem ns' rl)))) ns'))"

section \<open>The DNS plane\<close>

definition encryptedDNSTypes :: "string list" where
  "encryptedDNSTypes = [''https'', ''tls'', ''quic'', ''h3'']"

definition plaintextDNSTypes :: "string list" where
  "plaintextDNSTypes = [''udp'', ''tcp'']"

definition networkDNSTypes :: "string list" where
  "networkDNSTypes = encryptedDNSTypes @ plaintextDNSTypes"

text \<open>\<open>vpnDNSTypes\<close>: each type is named like the protocol it needs.\<close>

definition vpnDNSTypes :: "string list" where
  "vpnDNSTypes = [''openvpn'', ''openconnect'']"

definition validDNSServerTypes :: "string list" where
  "validDNSServerTypes = networkDNSTypes @ [''local'', ''fakeip''] @ vpnDNSTypes"

definition IsVPNDNSType :: "string \<Rightarrow> bool" where
  "IsVPNDNSType t \<longleftrightarrow> list_ex (lower_is (TrimSpace t)) vpnDNSTypes"

datatype vpnFault = vpnFaultNone | vpnFaultMissing | vpnFaultProtocol | vpnFaultEngine | vpnFaultOff

definition vpnResolverFault :: "string \<Rightarrow> id \<Rightarrow> Endpoint list \<Rightarrow> vpnFault" where
  "vpnResolverFault proto i eps =
    (case find (\<lambda>e. epID e = i) eps of
       None \<Rightarrow> vpnFaultMissing
     | Some e \<Rightarrow> if epProtocol e \<noteq> proto then vpnFaultProtocol
                 else if epEngine e \<noteq> EngineSingBox then vpnFaultEngine
                 else if \<not> epEnabled e then vpnFaultOff else vpnFaultNone)"

text \<open>What the server loop collects: each tag with its state and type, and the connections whose resolvers
  are asked.\<close>

record DTags =
  dtTags :: "string \<Rightarrow> (bool \<times> string) option"
  dtVPN :: "id \<Rightarrow> string option"

definition validateVPNDNSServer :: "DNSServer \<Rightarrow> Endpoint list \<Rightarrow> DTags \<Rightarrow> verr + DTags" where
  "validateVPNDNSServer s eps st =
    (let i = TrimSpace (dsEndpoint s)
     in if i = '''' then Inl (Plain ''dns server %q (%s): choose the connection whose pushed resolvers it asks'' [AS (dsTag s), AS (dsType s)])
        else (case vpnResolverFault (dsType s) i eps of
                vpnFaultMissing \<Rightarrow> Inl (UnresolvedRef ''DNS server'' (dsTag s) i ''connection does not exist'')
              | vpnFaultProtocol \<Rightarrow> Inl (Plain ''dns server %q (%s): connection %q is another protocol'' [AS (dsTag s), AS (dsType s), AS i])
              | vpnFaultEngine \<Rightarrow> Inl (Plain ''dns server %q: connection %q is not run by the proxy core'' [AS (dsTag s), AS i])
              | vpnFaultOff \<Rightarrow> Inl (DisabledRef ''DNS server'' (dsTag s) i ''connection is switched off'')
              | vpnFaultNone \<Rightarrow>
                 (case dtVPN st i of
                    Some other \<Rightarrow> Inl (Plain ''dns servers %q and %q both ask connection %q'' [AS other, AS (dsTag s), AS i])
                  | None \<Rightarrow> Inr (st\<lparr>dtVPN := (dtVPN st)(i \<mapsto> dsTag s)\<rparr>))))"

definition detour_problem :: "Names \<Rightarrow> DNSServer \<Rightarrow> verr option" where
  "detour_problem ns s =
    (if dsDetour s = '''' then None
     else first_fail
       [(dsDetour s = OutboundBlock, Plain ''dns server %q: detour %q is a route action (reject), not an outbound'' [AS (dsTag s), AS (dsDetour s)]),
        (\<not> isResolvable (dsDetour s) ns, Plain ''dns server %q: detour %q does not resolve'' [AS (dsTag s), AS (dsDetour s)]),
        (\<not> isBuiltin (dsDetour s) \<and> \<not> nmOn ns (dsDetour s), Plain ''dns server %q: detour %q targets a disabled endpoint'' [AS (dsTag s), AS (dsDetour s)])])"

definition network_problem :: "Names \<Rightarrow> DNSServer \<Rightarrow> verr option" where
  "network_problem ns s =
    (if dsType s \<notin> set networkDNSTypes then None
     else or_else (first_fail
       [(TrimSpace (dsServer s) = '''', Plain ''dns server %q (%s): empty server address'' [AS (dsTag s), AS (dsType s)]),
        (dsType s \<in> set encryptedDNSTypes \<and> \<not> ParseIP (TrimSpace (dsServer s)) \<and> TrimSpace (dsDomainResolver s) = '''',
         Plain ''dns server %q: hostname %q needs a bootstrap domain_resolver'' [AS (dsTag s), AS (dsServer s)]),
        (dsServerPort s \<noteq> 0 \<and> (dsServerPort s < 1 \<or> dsServerPort s > 65535), Plain ''dns server %q: server_port %d out of range'' [AS (dsTag s), AI (dsServerPort s)])])
       (detour_problem ns s))"

definition fakeip_problem :: "DNSServer \<Rightarrow> verr option" where
  "fakeip_problem s =
    (if dsType s \<noteq> ''fakeip'' then None
     else first_fail
       [(TrimSpace (dsInet4Range s) = '''', Plain ''dns server %q: fakeip needs an inet4_range'' [AS (dsTag s)]),
        (\<not> ParseCIDR (TrimSpace (dsInet4Range s)), Plain ''dns server %q: fakeip inet4_range %q must be a CIDR'' [AS (dsTag s), AS (dsInet4Range s)]),
        (TrimSpace (dsInet6Range s) \<noteq> '''' \<and> \<not> ParseCIDR (TrimSpace (dsInet6Range s)),
         Plain ''dns server %q: fakeip inet6_range %q must be a CIDR'' [AS (dsTag s), AS (dsInet6Range s)])])"

definition validate_server :: "DNSSettings \<Rightarrow> Names \<Rightarrow> Endpoint list \<Rightarrow> DTags \<Rightarrow> DNSServer \<Rightarrow> verr + DTags" where
  "validate_server dns ns eps st s =
    (case first_fail
       [(TrimSpace (dsTag s) = '''', Plain ''dns server has empty tag'' []),
        (dtTags st (dsTag s) \<noteq> None, Plain ''dns: duplicate server tag %q'' [AS (dsTag s)]),
        (dsType s \<notin> set validDNSServerTypes, Plain ''dns server %q: unknown type %q'' [AS (dsTag s), AS (dsType s)]),
        (dnLeakProof dns \<and> dsType s \<in> set plaintextDNSTypes, Plain ''dns server %q: plaintext %s is not allowed with leak protection'' [AS (dsTag s), AS (dsType s)])] of
       Some err \<Rightarrow> Inl err
     | None \<Rightarrow>
        (let st1 = st\<lparr>dtTags := (dtTags st)(dsTag s \<mapsto> (dsEnabled s, dsType s))\<rparr>
         in case (if dsType s \<in> set vpnDNSTypes \<and> dsEnabled s then validateVPNDNSServer s eps st1 else Inr st1) of
              Inl err \<Rightarrow> Inl err
            | Inr st2 \<Rightarrow> fails (or_else (network_problem ns s) (fakeip_problem s)) st2))"

definition bootstrap_problem :: "DTags \<Rightarrow> DNSServer \<Rightarrow> verr option" where
  "bootstrap_problem st s =
    (let dr = TrimSpace (dsDomainResolver s)
     in if \<not> dsEnabled s \<or> dsType s \<notin> set networkDNSTypes \<or> dr = '''' then None
        else (case dtTags st dr of
                None \<Rightarrow> Some (Plain ''dns server %q: domain_resolver %q is not a defined server tag'' [AS (dsTag s), AS (dsDomainResolver s)])
              | Some (on, t) \<Rightarrow>
                 first_fail
                   [(\<not> on, Plain ''dns server %q: domain_resolver %q targets a disabled server'' [AS (dsTag s), AS (dsDomainResolver s)]),
                    (t = ''fakeip'' \<or> t = ''local'' \<or> IsVPNDNSType t,
                     Plain ''dns server %q: domain_resolver %q targets a server that cannot bootstrap a hostname'' [AS (dsTag s), AS (dsDomainResolver s)])]))"

definition emitted_server :: "bool \<Rightarrow> DNSServer \<Rightarrow> bool" where
  "emitted_server tun s \<longleftrightarrow> dsEnabled s \<and> (tun \<or> dsType s \<noteq> ''fakeip'')"

definition DefaultServer :: "DNSSettings \<Rightarrow> bool \<Rightarrow> DNSServer option" where
  "DefaultServer d tun =
    (case (if dnFinal d \<noteq> '''' then find (\<lambda>s. dsTag s = dnFinal d \<and> emitted_server tun s) (dnServers d) else None) of
       Some s \<Rightarrow> Some s
     | None \<Rightarrow> find (emitted_server tun) (dnServers d))"

definition default_is :: "(string \<Rightarrow> bool) \<Rightarrow> DNSSettings \<Rightarrow> bool \<Rightarrow> bool" where
  "default_is P d tun \<longleftrightarrow> (case DefaultServer d tun of None \<Rightarrow> False | Some s \<Rightarrow> P (dsType s))"

definition default_tag :: "DNSSettings \<Rightarrow> bool \<Rightarrow> string" where
  "default_tag d tun = (case DefaultServer d tun of None \<Rightarrow> '''' | Some s \<Rightarrow> dsTag s)"

definition final_type :: "DTags \<Rightarrow> string \<Rightarrow> string" where
  "final_type st tag = (case dtTags st tag of None \<Rightarrow> '''' | Some (_, t) \<Rightarrow> t)"

definition final_on :: "DTags \<Rightarrow> string \<Rightarrow> bool" where
  "final_on st tag = (case dtTags st tag of None \<Rightarrow> False | Some (on, _) \<Rightarrow> on)"

definition default_problem :: "DNSSettings \<Rightarrow> DTags \<Rightarrow> verr option" where
  "default_problem dns st = first_fail
    [(let cs = TrimSpace (dnClientSubnet dns) in cs \<noteq> '''' \<and> \<not> ParseCIDR cs \<and> \<not> ParseIP cs, Plain ''dns: client_subnet %q must be an IP or CIDR'' [AS (dnClientSubnet dns)]),
     (dnFinal dns \<noteq> '''' \<and> dtTags st (dnFinal dns) = None, Plain ''dns: final %q is not a defined server tag'' [AS (dnFinal dns)]),
     (IsVPNDNSType (final_type st (dnFinal dns)), Plain ''dns: the default resolver %q only answers names its VPN connection pushes'' [AS (dnFinal dns)]),
     (default_is IsVPNDNSType dns False, Plain ''dns: the first resolver %q would answer every name no rule matches'' [AS (default_tag dns False)]),
     (default_is IsVPNDNSType dns True, Plain ''dns: the first resolver %q would answer every name no rule matches'' [AS (default_tag dns True)]),
     (dnLeakProof dns \<and> dnFinal dns \<noteq> '''' \<and> list_ex (\<lambda>s. dsTag s = dnFinal dns \<and> dsType s \<notin> set encryptedDNSTypes) (dnServers dns),
      Plain ''dns: leak protection requires an ENCRYPTED final resolver'' [AS (dnFinal dns)]),
     (dnLeakProof dns \<and> dnFinal dns = '''' \<and> default_is (\<lambda>t. t \<notin> set encryptedDNSTypes) dns False,
      Plain ''dns: leak protection requires an ENCRYPTED default resolver'' [AS (default_tag dns False)]),
     (dnFinal dns \<noteq> '''' \<and> \<not> final_on st (dnFinal dns), Plain ''dns: final %q targets a disabled server'' [AS (dnFinal dns)])]"

definition dnsRuleHasNoMatcher :: "DNSRule \<Rightarrow> bool" where
  "dnsRuleHasNoMatcher r \<longleftrightarrow> \<not> hasNonBlank (drRuleSets r) \<and> \<not> hasNonBlank (drDomainSuffix r) \<and> \<not> hasNonBlank (drDomain r)
     \<and> \<not> hasNonBlank (drGeoSite r) \<and> \<not> hasNonBlank (drQueryType r)"

definition dns_rule_problem :: "Names \<Rightarrow> DTags \<Rightarrow> DNSRule \<Rightarrow> verr option" where
  "dns_rule_problem ns st r =
    (if TrimSpace (drID r) = '''' then Some (Plain ''dns rule has empty id'' [])
     else if drDisabled r then None
     else first_fail
       [(drServer r \<noteq> ''reject'' \<and> dtTags st (drServer r) = None, Plain ''dns rule %q: server %q is not a defined tag'' [AS (drID r), AS (drServer r)]),
        bad_entry (\<lambda>rs. TrimSpace rs \<noteq> '''' \<and> nmKind ns rs \<noteq> Some ''routing list'') (drRuleSets r) ''dns rule %q: rule_set %q is not a routing list'' (drID r) AS,
        (dnsRuleHasNoMatcher r, Plain ''dns rule %q: has no match condition'' [AS (drID r)]),
        (drServer r \<noteq> ''reject'' \<and> \<not> final_on st (drServer r), Plain ''dns rule %q: server %q is a disabled resolver'' [AS (drID r), AS (drServer r)])])"

text \<open>A pass over a slice that carries no state.\<close>

definition all_pass :: "('a \<Rightarrow> verr option) \<Rightarrow> 'a list \<Rightarrow> verr option" where
  "all_pass f xs = (case find (\<lambda>x. f x \<noteq> None) xs of None \<Rightarrow> None | Some x \<Rightarrow> f x)"

definition validateDNS :: "DNSSettings \<Rightarrow> Names \<Rightarrow> Endpoint list \<Rightarrow> verr option" where
  "validateDNS dns ns eps =
    or_else (first_fail
      [(dnStrategy dns \<notin> {'''', ''prefer_ipv4'', ''prefer_ipv6'', ''ipv4_only'', ''ipv6_only''}, Plain ''dns: unknown strategy %q'' [AS (dnStrategy dns)]),
       (dnFakeIP dns \<and> \<not> dnIndependentCache dns, Plain ''dns: fakeip requires independent_cache'' [])])
     (case each (validate_server dns ns eps) (dnServers dns) \<lparr>dtTags = Map.empty, dtVPN = Map.empty\<rparr> of
        Inl err \<Rightarrow> Some err
      | Inr st \<Rightarrow>
         or_else (all_pass (bootstrap_problem st) (dnServers dns))
          (or_else (default_problem dns st) (all_pass (dns_rule_problem ns st) (dnRules dns))))"

definition dns_part :: "Profile \<Rightarrow> Names \<Rightarrow> verr option" where
  "dns_part p ns = (case prDNS p of None \<Rightarrow> None | Some dns \<Rightarrow> validateDNS dns ns (prEndpoints p))"

definition dnsNamespace :: "Profile \<Rightarrow> Names" where
  "dnsNamespace p =
    (let claim = (\<lambda>kind ns i. if i \<noteq> '''' then ns\<lparr>nmKind := (nmKind ns)(i \<mapsto> kind)\<rparr> else ns);
         ns0 = \<lparr>nmKind = Map.empty, nmOn = (\<lambda>_. False)\<rparr>;
         ns1 = foldl (\<lambda>ns e. if epID e \<noteq> '''' then set_on (epID e) (epEnabled e) (claim ''endpoint'' ns (epID e)) else ns) ns0 (prEndpoints p);
         ns2 = foldl (\<lambda>ns g. if grID g \<noteq> '''' then set_on (grID g) True (claim ''group'' ns (grID g)) else ns) ns1 (prGroups p);
         ns3 = foldl (claim ''rule'') ns2 (map ruID (prRules p))
     in foldl (claim ''routing list'') ns3 (map rlID (prRoutingLists p)))"

definition ValidateDNS :: "Profile \<Rightarrow> verr option" where
  "ValidateDNS p = dns_part p (dnsNamespace p)"

section \<open>Validate\<close>

definition validate_groups :: "Profile \<Rightarrow> Names \<Rightarrow> verr + Names" where
  "validate_groups p ns1 =
    (case each validate_group (prGroups p) ns1 of
       Inl e \<Rightarrow> Inl e
     | Inr ns \<Rightarrow>
        (case each (validate_members ns) (prGroups p) () of
           Inl e \<Rightarrow> Inl e
         | Inr _ \<Rightarrow>
            (case each (dfs_group (groupAdj ns (prGroups p))) (prGroups p) (\<lambda>_. Unseen) of
               Inl e \<Rightarrow> Inl e
             | Inr _ \<Rightarrow> Inr ns)))"

definition validate_rules :: "Profile \<Rightarrow> Names \<Rightarrow> verr + Names" where
  "validate_rules p ns =
    (case each validate_rule (prRules p) (ns, 0) of
       Inl e \<Rightarrow> Inl e
     | Inr (ns', defaults) \<Rightarrow> if defaults > 1 then Inl (Plain ''more than one default rule (%d)'' [AI (int defaults)]) else Inr ns')"

definition then_check :: "verr + 's \<Rightarrow> ('s \<Rightarrow> verr + 't) \<Rightarrow> verr + 't" where
  "then_check r f = (case r of Inl e \<Rightarrow> Inl e | Inr s \<Rightarrow> f s)"

definition validate_names :: "Checks \<Rightarrow> Profile \<Rightarrow> verr + Names" where
  "validate_names ck p =
    then_check (each (validate_endpoint ck) (prEndpoints p) names0) (\<lambda>ns1.
    then_check (validate_groups p ns1) (\<lambda>ns2.
    then_check (validate_rules p ns2) (\<lambda>ns3.
    then_check (each validate_device_group (prDeviceGroups p) ns3) (\<lambda>ns4.
      each (validate_list (map dgID (prDeviceGroups p))) (prRoutingLists p) ns4))))"

definition Validate :: "Checks \<Rightarrow> Profile \<Rightarrow> verr option" where
  "Validate ck p = (case validate_names ck p of Inl e \<Rightarrow> Some e | Inr ns \<Rightarrow> dns_part p ns)"

end
