(* ===== verification/Profile_Wellformed.thy ===== *)
theory Profile_Wellformed
  imports Profile_Validate
begin

text \<open>
  What \<open>Validate\<close> accepts, stated without loops: all ids distinct, every reference live, groups acyclic, and
  the rest object by object. The loops that claim ids share one contract, \<open>claim_loop\<close>; the depth-first
  search is shown to find a cycle exactly when there is one.
\<close>

section \<open>Loops that claim ids\<close>

locale claim_loop =
  fixes f :: "'s \<Rightarrow> 'a \<Rightarrow> verr + 's" and key :: "'a \<Rightarrow> id" and good :: "'a \<Rightarrow> bool"
    and upd :: "'s \<Rightarrow> 'a \<Rightarrow> 's" and taken :: "'s \<Rightarrow> id set" and inv :: "'s \<Rightarrow> bool"
  assumes step: "inv s \<Longrightarrow> f s x = Inr s' \<longleftrightarrow> key x \<notin> taken s \<and> good x \<and> s' = upd s x"
    and keeps: "inv s \<Longrightarrow> inv (upd s x)"
    and takes: "taken (upd s x) = insert (key x) (taken s)"
begin

lemma loop:
  "inv s \<Longrightarrow> each f xs s = Inr s' \<longleftrightarrow>
     distinct (map key xs) \<and> set (map key xs) \<inter> taken s = {} \<and> (\<forall>x\<in>set xs. good x) \<and> s' = foldl upd s xs"
proof (induction xs arbitrary: s)
  case Nil
  then show ?case by auto
next
  case (Cons x xs)
  have "each f (x # xs) s = Inr s' \<longleftrightarrow> (\<exists>t. f s x = Inr t \<and> each f xs t = Inr s')"
    by (simp split: sum.split)
  also have "\<dots> \<longleftrightarrow> key x \<notin> taken s \<and> good x \<and> each f xs (upd s x) = Inr s'"
    using step[OF Cons.prems] by auto
  also have "\<dots> \<longleftrightarrow> distinct (map key (x # xs)) \<and> set (map key (x # xs)) \<inter> taken s = {} \<and> (\<forall>y\<in>set (x # xs). good y)
      \<and> s' = foldl upd s (x # xs)"
    using Cons.IH[OF keeps[OF Cons.prems]] takes by auto
  finally show ?case .
qed

lemma taken_foldl: "taken (foldl upd s xs) = taken s \<union> set (map key xs)"
  by (induction xs arbitrary: s) (auto simp: takes)

lemma inv_foldl: "inv s \<Longrightarrow> inv (foldl upd s xs)"
  by (induction xs arbitrary: s) (auto simp: keeps)

end

definition taken_ids :: "Names \<Rightarrow> id set" where
  "taken_ids ns = dom (nmKind ns)"

definition add_id :: "string \<Rightarrow> id \<Rightarrow> Names \<Rightarrow> Names" where
  "add_id kind i ns = ns\<lparr>nmKind := (nmKind ns)(i \<mapsto> kind)\<rparr>"

lemma claim_id_Inr: "claim_id kind i ns = Inr ns' \<longleftrightarrow> i \<notin> taken_ids ns \<and> ns' = add_id kind i ns"
  by (auto simp: claim_id_def taken_ids_def add_id_def split: option.splits)

lemma names_sel [simp]:
  "taken_ids (add_id kind i ns) = insert i (taken_ids ns)" "taken_ids (set_on i b ns) = taken_ids ns"
  "nmOn (add_id kind i ns) = nmOn ns" "nmKind (set_on i b ns) = nmKind ns"
  by (auto simp: taken_ids_def add_id_def set_on_def)

named_theorems checks \<open>when a sequence of checks succeeds\<close>

declare claim_id_Inr [checks]

lemma fails_Inr [checks]: "fails r s = Inr s' \<longleftrightarrow> r = None \<and> s' = s"
  by (auto simp: fails_def split: option.splits)

lemma guard_then [checks]: "(case r of Some e \<Rightarrow> Inl e | None \<Rightarrow> t) = Inr s \<longleftrightarrow> r = None \<and> t = Inr s"
  by (cases r) auto

lemma or_else_None [checks]: "or_else a b = None \<longleftrightarrow> a = None \<and> b = None"
  by (cases a) (auto simp: or_else_def)

lemma then_check_Inr [checks]: "then_check r f = Inr t \<longleftrightarrow> (\<exists>s. r = Inr s \<and> f s = Inr t)"
  by (cases r) (auto simp: then_check_def)

lemma sum_case_Inr [checks]: "(case r of Inl e \<Rightarrow> Inl e | Inr s \<Rightarrow> h s) = Inr t \<longleftrightarrow> (\<exists>s. r = Inr s \<and> h s = Inr t)"
  by (cases r) auto

lemma if_Inl_Inr [checks]: "(if b then Inl e else r) = Inr s \<longleftrightarrow> \<not> b \<and> r = Inr s"
  by auto

lemma bad_entry_ok [checks]: "fst (bad_entry P xs fmt i f) \<longleftrightarrow> list_ex P xs"
proof (cases "find P xs")
  case None
  then have "\<not> list_ex P xs" by (simp add: find_None_iff list_ex_iff)
  then show ?thesis using None by (simp add: bad_entry_def)
next
  case (Some x)
  then have "list_ex P xs" by (auto simp: find_Some_iff list_ex_iff)
  then show ?thesis using Some by (simp add: bad_entry_def)
qed

lemma all_pass_None [checks]: "all_pass f xs = None \<longleftrightarrow> (\<forall>x\<in>set xs. f x = None)"
  by (auto simp: all_pass_def find_None_iff find_Some_iff split: option.splits)

section \<open>Objects\<close>

definition endpoint_ok :: "Checks \<Rightarrow> Endpoint \<Rightarrow> bool" where
  "endpoint_ok ck e \<longleftrightarrow> epID e \<noteq> '''' \<and> \<not> bad_path (epID e) \<and> \<not> isBuiltin (epID e) \<and> endpoint_problem ck e = None"

definition add_endpoint :: "Names \<Rightarrow> Endpoint \<Rightarrow> Names" where
  "add_endpoint ns e = set_on (epID e) (epEnabled e) (add_id ''endpoint'' (epID e) ns)"

lemma validate_endpoint_Inr:
  "validate_endpoint ck ns e = Inr ns' \<longleftrightarrow> epID e \<notin> taken_ids ns \<and> endpoint_ok ck e \<and> ns' = add_endpoint ns e"
  by (auto simp: validate_endpoint_def endpoint_ok_def add_endpoint_def checks first_fail_None)

definition group_ok :: "Group \<Rightarrow> bool" where
  "group_ok g \<longleftrightarrow> grID g \<noteq> '''' \<and> \<not> isBuiltin (grID g) \<and> grMembers g \<noteq> []"

definition add_group :: "Names \<Rightarrow> Group \<Rightarrow> Names" where
  "add_group ns g = set_on (grID g) True (add_id ''group'' (grID g) ns)"

lemma validate_group_Inr:
  "validate_group ns g = Inr ns' \<longleftrightarrow> grID g \<notin> taken_ids ns \<and> group_ok g \<and> ns' = add_group ns g"
  by (auto simp: validate_group_def group_ok_def add_group_def checks first_fail_None)

definition matchers_ok :: "Rule \<Rightarrow> bool" where
  "matchers_ok r \<longleftrightarrow> \<not> ruleHasNoMatcher r \<and> firstInvalidCIDR (ruIPCIDR r) = None \<and> firstInvalidCIDR (ruSourceIPCIDR r) = None
     \<and> (\<forall>n\<in>set (ruPort r @ ruSourcePort r). 0 \<le> n \<and> n \<le> 65535)
     \<and> (\<forall>m\<in>set (ruSourceMAC r). TrimSpace m = '''' \<or> \<not> bad_mac (TrimSpace m))
     \<and> (\<forall>i\<in>set (ruSourceIface r). TrimSpace i = '''' \<or> validSourceIface (TrimSpace i))"

lemma matcher_problem_None: "matcher_problem r = None \<longleftrightarrow> matchers_ok r"
  by (auto simp: matcher_problem_def matchers_ok_def first_fail_None checks list_ex_iff bad_port_def Let_def ball_Un not_less split: option.splits)

text \<open>A target that a reference may name: a builtin in any case, or a switched-on endpoint or group.\<close>

definition usable :: "(id \<Rightarrow> bool) \<Rightarrow> id \<Rightarrow> bool" where
  "usable on t \<longleftrightarrow> isBuiltin t \<or> on t"

definition names_ok :: "(id \<Rightarrow> bool) \<Rightarrow> Names \<Rightarrow> bool" where
  "names_ok on ns \<longleftrightarrow> nmOn ns = on \<and> (\<forall>t. on t \<longrightarrow> t \<in> taken_ids ns)"

lemma outbound_problem_None:
  "names_ok on ns \<Longrightarrow> outbound_problem ns kind i t field = None \<longleftrightarrow> usable on t"
  by (auto simp: outbound_problem_def names_ok_def usable_def isResolvable_def taken_ids_def)

lemma names_ok_add [simp]: "names_ok on ns \<Longrightarrow> names_ok on (add_id kind i ns)"
  by (auto simp: names_ok_def)

definition rule_ok :: "(id \<Rightarrow> bool) \<Rightarrow> Rule \<Rightarrow> bool" where
  "rule_ok on r \<longleftrightarrow> ruID r \<noteq> '''' \<and> (ruDisabled r \<or>
     (ruDefault r \<or> matchers_ok r) \<and> NDMPolicyName (ruOutbound r) = None \<and> usable on (ruOutbound r))"

definition add_rule :: "Names \<times> nat \<Rightarrow> Rule \<Rightarrow> Names \<times> nat" where
  "add_rule st r = (add_id ''rule'' (ruID r) (fst st), snd st + (if ruDefault r \<and> \<not> ruDisabled r then 1 else 0))"

lemma validate_rule_Inr:
  assumes "names_ok on (fst st)"
  shows "validate_rule st r = Inr st' \<longleftrightarrow> ruID r \<notin> taken_ids (fst st) \<and> rule_ok on r \<and> st' = add_rule st r"
proof (cases st)
  case (Pair ns n)
  have o: "outbound_problem (add_id ''rule'' (ruID r) ns) ''rule'' (ruID r) (ruOutbound r) ''outbound'' = None \<longleftrightarrow> usable on (ruOutbound r)"
    using assms Pair by (simp add: outbound_problem_None)
  show ?thesis
  proof (cases "ruDisabled r")
    case True
    then show ?thesis using Pair by (auto simp: validate_rule_def rule_ok_def add_rule_def checks)
  next
    case False
    have p: "(case NDMPolicyName (ruOutbound r) of None \<Rightarrow> t | Some _ \<Rightarrow> Inl e) = Inr s \<longleftrightarrow> NDMPolicyName (ruOutbound r) = None \<and> t = Inr s"
      for t :: "verr + Names \<times> nat" and e s by (cases "NDMPolicyName (ruOutbound r)") auto
    show ?thesis using False Pair by (auto simp: validate_rule_def rule_ok_def add_rule_def checks o p matcher_problem_None)
  qed
qed

definition device_group_ok :: "DeviceGroup \<Rightarrow> bool" where
  "device_group_ok g \<longleftrightarrow> TrimSpace (dgID g) \<noteq> '''' \<and> (\<forall>m\<in>set (dgMembers g).
     (TrimSpace (dmMAC m) \<noteq> '''' \<or> TrimSpace (dmIP m) \<noteq> '''') \<and> (TrimSpace (dmMAC m) = '''' \<or> \<not> bad_mac (TrimSpace (dmMAC m)))
     \<and> (TrimSpace (dmIP m) = '''' \<or> firstInvalidCIDR [TrimSpace (dmIP m)] = None))"

lemma each_unit: "each (f :: unit \<Rightarrow> 'a \<Rightarrow> verr + unit) xs () = Inr () \<longleftrightarrow> (\<forall>x\<in>set xs. f () x = Inr ())"
  by (induction xs) (auto simp: checks)

lemma ValidateDeviceGroup_Inr: "ValidateDeviceGroup g = Inr () \<longleftrightarrow> device_group_ok g"
proof -
  have "ValidateDeviceMember u m = Inr () \<longleftrightarrow> (TrimSpace (dmMAC m) \<noteq> '''' \<or> TrimSpace (dmIP m) \<noteq> '''')
      \<and> (TrimSpace (dmMAC m) = '''' \<or> \<not> bad_mac (TrimSpace (dmMAC m))) \<and> (TrimSpace (dmIP m) = '''' \<or> firstInvalidCIDR [TrimSpace (dmIP m)] = None)" for m u
    unfolding ValidateDeviceMember_def Let_def fails_Inr first_fail_None by simp
  then show ?thesis by (simp add: ValidateDeviceGroup_def device_group_ok_def checks each_unit)
qed

lemma validate_device_group_Inr:
  "validate_device_group ns g = Inr ns' \<longleftrightarrow> dgID g \<notin> taken_ids ns \<and> device_group_ok g \<and> ns' = add_id ''device group'' (dgID g) ns"
proof (cases "ValidateDeviceGroup g")
  case (Inl a)
  then have "\<not> device_group_ok g" by (simp flip: ValidateDeviceGroup_Inr)
  then show ?thesis using Inl by (simp add: validate_device_group_def)
next
  case (Inr u)
  then have "device_group_ok g" by (simp flip: ValidateDeviceGroup_Inr)
  then show ?thesis using Inr by (simp add: validate_device_group_def claim_id_Inr)
qed

definition list_ok :: "(id \<Rightarrow> bool) \<Rightarrow> id list \<Rightarrow> RoutingList \<Rightarrow> bool" where
  "list_ok on devs rl \<longleftrightarrow> rlID rl \<noteq> '''' \<and> source_problem rl = None
     \<and> (case NDMPolicyName (rlOutbound rl) of Some name \<Rightarrow> ValidNDMPolicyName name | None \<Rightarrow> usable on (rlOutbound rl))
     \<and> rlScopeMode rl \<in> {'''', ''all'', ''only'', ''except''} \<and> set (rlScopeGroups rl) \<subseteq> set devs
     \<and> (rlScopeMode rl \<in> {''only'', ''except''} \<longrightarrow> rlScopeGroups rl \<noteq> []) \<and> rlTLSFragment rl \<in> {'''', ''record'', ''handshake''}
     \<and> (rlDownloadVia rl = '''' \<or> NDMPolicyName (rlDownloadVia rl) = None \<and> usable on (rlDownloadVia rl))"

lemma scope_problem_None:
  "scope_problem devs rl = None \<longleftrightarrow> rlScopeMode rl \<in> {'''', ''all'', ''only'', ''except''} \<and> set (rlScopeGroups rl) \<subseteq> set devs
     \<and> (rlScopeMode rl \<in> {''only'', ''except''} \<longrightarrow> rlScopeGroups rl \<noteq> []) \<and> rlTLSFragment rl \<in> {'''', ''record'', ''handshake''}"
  unfolding scope_problem_def first_fail_None by (auto simp: checks list_ex_iff)

lemma validate_list_Inr:
  assumes "names_ok on ns"
  shows "validate_list devs ns rl = Inr ns' \<longleftrightarrow> rlID rl \<notin> taken_ids ns \<and> list_ok on devs rl \<and> ns' = add_id ''routing list'' (rlID rl) ns"
proof -
  let ?n = "add_id ''routing list'' (rlID rl) ns"
  have o: "outbound_problem ?n k i t fld = None \<longleftrightarrow> usable on t" for k i t fld using assms by (simp add: outbound_problem_None)
  have "list_outbound_problem ?n rl = None \<longleftrightarrow> (case NDMPolicyName (rlOutbound rl) of Some name \<Rightarrow> ValidNDMPolicyName name | None \<Rightarrow> usable on (rlOutbound rl))"
    by (auto simp: list_outbound_problem_def o split: option.splits)
  moreover have "download_problem ?n rl = None \<longleftrightarrow> (rlDownloadVia rl = '''' \<or> NDMPolicyName (rlDownloadVia rl) = None \<and> usable on (rlDownloadVia rl))"
    by (auto simp: download_problem_def o)
  ultimately show ?thesis
    by (auto simp: validate_list_def list_ok_def checks scope_problem_None)
qed

interpretation endpoint_loop: claim_loop "validate_endpoint ck" epID "endpoint_ok ck" add_endpoint taken_ids "\<lambda>_. True" for ck
  by unfold_locales (auto simp: validate_endpoint_Inr add_endpoint_def)

interpretation group_loop: claim_loop validate_group grID group_ok add_group taken_ids "\<lambda>_. True"
  by unfold_locales (auto simp: validate_group_Inr add_group_def)

interpretation rule_loop: claim_loop validate_rule ruID "rule_ok on" add_rule "\<lambda>st. taken_ids (fst st)" "\<lambda>st. names_ok on (fst st)" for on
  by unfold_locales (auto simp: validate_rule_Inr add_rule_def)

interpretation device_loop: claim_loop validate_device_group dgID device_group_ok "\<lambda>ns g. add_id ''device group'' (dgID g) ns" taken_ids "names_ok on" for on
  by unfold_locales (auto simp: validate_device_group_Inr)

interpretation list_loop: claim_loop "validate_list devs" rlID "list_ok on devs" "\<lambda>ns l. add_id ''routing list'' (rlID l) ns" taken_ids "names_ok on" for devs on
  by unfold_locales (auto simp: validate_list_Inr)

section \<open>Cycles of groups\<close>

definition edges :: "(id \<times> id list) list \<Rightarrow> (id \<times> id) set" where
  "edges adj = {(a, m). m \<in> set (adj_of adj a)}"

text \<open>The finished nodes are closed under edges, and none of them is on a cycle.\<close>

definition finished :: "(id \<times> id) set \<Rightarrow> (id \<Rightarrow> colour) \<Rightarrow> bool" where
  "finished E color \<longleftrightarrow> (\<forall>x y. color x = Done \<longrightarrow> (x, y) \<in> E \<longrightarrow> color y = Done) \<and> (\<forall>x. color x = Done \<longrightarrow> (x, x) \<notin> E\<^sup>+)"

lemma finished_reach: "(a, b) \<in> E\<^sup>* \<Longrightarrow> finished E color \<Longrightarrow> color a = Done \<Longrightarrow> color b = Done"
  by (induction rule: rtrancl_induct) (auto simp: finished_def)

lemma finish_node:
  assumes "finished E color" "color x \<noteq> Done" "\<And>y. (x, y) \<in> E \<Longrightarrow> color y = Done"
  shows "finished E (color(x := Done))"
proof -
  have "(x, x) \<notin> E\<^sup>+"
  proof
    assume "(x, x) \<in> E\<^sup>+"
    then obtain y where "(x, y) \<in> E" "(y, x) \<in> E\<^sup>*" by (meson tranclD)
    then show False using assms finished_reach by blast
  qed
  then show ?thesis using assms unfolding finished_def by auto
qed

lemma finished_visit: "finished E color \<Longrightarrow> color m = Unseen \<Longrightarrow> finished E (color(m := Visiting))"
  unfolding finished_def by auto

lemma dfs_success:
  assumes "dfs_members adj i ms color = Inr c" "finished (edges adj) color"
  shows "finished (edges adj) c \<and> (\<forall>m\<in>set ms. c m = Done) \<and> (\<forall>k. c k = Done \<or> c k = color k) \<and> (\<forall>k. color k \<noteq> Unseen \<longrightarrow> c k = color k)"
  using assms
proof (induction adj i ms color arbitrary: c rule: dfs_members.induct)
  case (1 adj i color)
  then show ?case by auto
next
  case (2 adj i m ms color)
  show ?case
  proof (cases "color m")
    case Unseen
    then obtain c1 where c1: "dfs_members adj m (adj_of adj m) (color(m := Visiting)) = Inr c1" "dfs_members adj i ms (c1(m := Done)) = Inr c"
      using 2(4) by (auto simp: checks)
    have n: "finished (edges adj) c1 \<and> (\<forall>x\<in>set (adj_of adj m). c1 x = Done) \<and> (\<forall>k. c1 k = Done \<or> c1 k = (color(m := Visiting)) k)
        \<and> (\<forall>k. (color(m := Visiting)) k \<noteq> Unseen \<longrightarrow> c1 k = (color(m := Visiting)) k)"
      using 2(1)[OF Unseen c1(1)] finished_visit 2(5) Unseen by blast
    then have m: "c1 m = Visiting" by (metis colour.distinct(1) fun_upd_same)
    have "finished (edges adj) (c1(m := Done))" by (rule finish_node) (use n m in \<open>auto simp: edges_def\<close>)
    note rest = 2(2)[OF Unseen c1(1) c1(2) this]
    have "c k = Done \<or> c k = color k" for k using rest n Unseen m by (cases "k = m") (simp_all, metis fun_upd_other)
    moreover have "c k = color k" if "color k \<noteq> Unseen" for k
      using rest n that Unseen by (metis fun_upd_other)
    ultimately show ?thesis using rest by (auto split: if_splits)
  next
    case Visiting
    then show ?thesis using 2(4) by simp
  next
    case Done
    then show ?thesis using 2(3)[OF Done] 2(4,5) by auto
  qed
qed

lemma dfs_failure:
  assumes "dfs_members adj i ms color = Inl e" "finished (edges adj) color" "set ms \<subseteq> set (adj_of adj i)"
    and "\<And>v. color v = Visiting \<Longrightarrow> (v, i) \<in> (edges adj)\<^sup>*"
  shows "\<exists>x. (x, x) \<in> (edges adj)\<^sup>+"
  using assms
proof (induction adj i ms color rule: dfs_members.induct)
  case (1 adj i color)
  then show ?case by simp
next
  case (2 adj i m ms color)
  have im: "(i, m) \<in> edges adj" using 2(6) by (auto simp: edges_def)
  show ?case
  proof (cases "color m")
    case Visiting
    then show ?thesis using 2(7) im by (meson rtrancl_into_trancl1)
  next
    case Done
    then show ?thesis using 2(3)[OF Done] 2(4-7) by simp
  next
    case Unseen
    have v: "(v, m) \<in> (edges adj)\<^sup>*" if "(color(m := Visiting)) v = Visiting" for v
      using that 2(7)[of v] im by (auto split: if_splits)
    show ?thesis
    proof (cases "dfs_members adj m (adj_of adj m) (color(m := Visiting))")
      case (Inl e')
      then have "dfs_members adj m (adj_of adj m) (color(m := Visiting)) = Inl e" using 2(4) Unseen by simp
      then show ?thesis by (rule 2(1)[OF Unseen _ finished_visit[OF 2(5) Unseen] subset_refl v])
    next
      case (Inr c)
      have s: "finished (edges adj) c" "\<forall>x\<in>set (adj_of adj m). c x = Done" "\<And>k. c k = Done \<or> c k = (color(m := Visiting)) k"
        "c m = (color(m := Visiting)) m"
        using dfs_success[OF Inr finished_visit[OF 2(5) Unseen]] by auto
      have f: "finished (edges adj) (c(m := Done))" by (rule finish_node) (use s in \<open>auto simp: edges_def\<close>)
      have w: "(v, i) \<in> (edges adj)\<^sup>*" if "(c(m := Done)) v = Visiting" for v
        using that s(3)[of v] 2(7)[of v] by (auto split: if_splits)
      have "dfs_members adj i ms (c(m := Done)) = Inl e" using 2(4) Unseen Inr by simp
      moreover have "set ms \<subseteq> set (adj_of adj i)" using 2(6) by simp
      ultimately show ?thesis by (rule 2(2)[OF Unseen Inr _ f _ w])
    qed
  qed
qed

lemma dfs_groups:
  assumes "finished (edges adj) color" "\<And>k. color k \<noteq> Visiting"
  shows "(case each (dfs_group adj) gs color of
      Inl _ \<Rightarrow> \<exists>x. (x, x) \<in> (edges adj)\<^sup>+
    | Inr c \<Rightarrow> finished (edges adj) c \<and> (\<forall>g\<in>set gs. c (grID g) = Done) \<and> (\<forall>k. color k = Done \<longrightarrow> c k = Done))"
  using assms
proof (induction gs arbitrary: color)
  case Nil
  then show ?case by simp
next
  case (Cons g gs)
  let ?i = "grID g"
  show ?case
  proof (cases "color ?i = Unseen")
    case False
    then have "color ?i = Done" using Cons(3) colour.exhaust by metis
    then show ?thesis using Cons(1)[OF Cons(2,3)] False by (auto simp: dfs_group_def split: sum.splits)
  next
    case True
    show ?thesis
    proof (cases "dfs_members adj ?i (adj_of adj ?i) (color(?i := Visiting))")
      case (Inl e)
      have "\<exists>x. (x, x) \<in> (edges adj)\<^sup>+"
        by (rule dfs_failure[OF Inl finished_visit[OF Cons(2) True]]) (use Cons(3) in \<open>auto split: if_splits\<close>)
      then show ?thesis using True Inl by (simp add: dfs_group_def)
    next
      case (Inr c)
      have s: "finished (edges adj) c" "\<forall>x\<in>set (adj_of adj ?i). c x = Done" "\<And>k. c k = Done \<or> c k = (color(?i := Visiting)) k"
        "c ?i = (color(?i := Visiting)) ?i" "\<And>k. (color(?i := Visiting)) k \<noteq> Unseen \<longrightarrow> c k = (color(?i := Visiting)) k"
        using dfs_success[OF Inr finished_visit[OF Cons(2) True]] by auto
      define c2 where "c2 = c(?i := Done)"
      have f: "finished (edges adj) c2" unfolding c2_def by (rule finish_node) (use s in \<open>auto simp: edges_def\<close>)
      have nv: "c2 k \<noteq> Visiting" for k using s(3)[of k] Cons(3)[of k] by (auto simp: c2_def split: if_splits)
      have e: "each (dfs_group adj) (g # gs) color = each (dfs_group adj) gs c2"
        using True Inr by (simp add: dfs_group_def c2_def)
      have d: "c2 k = Done" if "color k = Done \<or> k = ?i" for k using s(5)[of k] that by (auto simp: c2_def)
      show ?thesis using Cons(1)[OF f nv] d unfolding e by (auto split: sum.splits)
    qed
  qed
qed

definition group_edges :: "Group list \<Rightarrow> (id \<times> id) set" where
  "group_edges gs = {(grID g, m) | g m. g \<in> set gs \<and> m \<in> set (grMembers g) \<and> m \<in> grID ` set gs}"

lemma adj_groups:
  assumes "distinct (map grID gs)" "\<And>m. nmKind ns m = Some ''group'' \<longleftrightarrow> m \<in> grID ` set gs"
  shows "edges (groupAdj ns gs) = group_edges gs"
proof -
  have "adj_of (groupAdj ns gs) (grID g) = filter (\<lambda>m. m \<in> grID ` set gs) (grMembers g)" if "g \<in> set gs" for g
  proof -
    have "map_of (groupAdj ns gs) (grID g) = Some (filter (\<lambda>m. nmKind ns m = Some ''group'') (grMembers g))"
      using that assms(1) by (intro map_of_is_SomeI) (auto simp: groupAdj_def comp_def)
    then show ?thesis using assms(2) by (simp add: adj_of_def)
  qed
  moreover have "adj_of (groupAdj ns gs) i = []" if "i \<notin> grID ` set gs" for i
    using that by (intro adj_of_none) (auto simp: groupAdj_def image_image)
  ultimately have "m \<in> set (adj_of (groupAdj ns gs) i) \<longleftrightarrow> (i, m) \<in> group_edges gs" for i m
  proof (cases "i \<in> grID ` set gs")
    case True
    then obtain g where g: "g \<in> set gs" "i = grID g" by blast
    have "g' = g" if "g' \<in> set gs" "grID g' = grID g" for g' using that g assms(1) by (metis distinct_map inj_onD)
    then show ?thesis using g \<open>\<And>g. g \<in> set gs \<Longrightarrow> adj_of (groupAdj ns gs) (grID g) = _ g\<close> by (auto simp: group_edges_def)
  qed (auto simp: group_edges_def)
  then show ?thesis by (auto simp: edges_def)
qed

lemma search_acyclic:
  assumes "distinct (map grID gs)" "\<And>m. nmKind ns m = Some ''group'' \<longleftrightarrow> m \<in> grID ` set gs"
  shows "(\<exists>c. each (dfs_group (groupAdj ns gs)) gs (\<lambda>_. Unseen) = Inr c) \<longleftrightarrow> acyclic (group_edges gs)"
proof -
  let ?E = "group_edges gs"
  have r: "case each (dfs_group (groupAdj ns gs)) gs (\<lambda>_. Unseen) of
      Inl _ \<Rightarrow> \<exists>x. (x, x) \<in> ?E\<^sup>+
    | Inr c \<Rightarrow> finished ?E c \<and> (\<forall>g\<in>set gs. c (grID g) = Done) \<and> (\<forall>k. Unseen = Done \<longrightarrow> c k = Done)"
    using dfs_groups[of "groupAdj ns gs" "\<lambda>_. Unseen" gs] unfolding adj_groups[OF assms] by (simp add: finished_def)
  show ?thesis
  proof (cases "each (dfs_group (groupAdj ns gs)) gs (\<lambda>_. Unseen)")
    case (Inl e)
    then show ?thesis using r by (auto simp: acyclic_def)
  next
    case (Inr c)
    have "(x, x) \<notin> ?E\<^sup>+" for x
    proof
      assume x: "(x, x) \<in> ?E\<^sup>+"
      then obtain g where "g \<in> set gs" "x = grID g" by (auto simp: group_edges_def dest!: tranclD)
      then show False using r Inr x by (auto simp: finished_def)
    qed
    then show ?thesis using Inr by (auto simp: acyclic_def)
  qed
qed

section \<open>Well-formed profiles\<close>

definition live :: "Profile \<Rightarrow> id \<Rightarrow> bool" where
  "live p t \<longleftrightarrow> (\<exists>e\<in>set (prEndpoints p). epID e = t \<and> epEnabled e) \<or> t \<in> grID ` set (prGroups p)"

definition ids_of :: "Profile \<Rightarrow> id list" where
  "ids_of p = OutboundDirect # OutboundBlock # map epID (prEndpoints p) @ map grID (prGroups p) @ map ruID (prRules p)
     @ map dgID (prDeviceGroups p) @ map rlID (prRoutingLists p)"

definition members_ok :: "Profile \<Rightarrow> bool" where
  "members_ok p \<longleftrightarrow> (\<forall>g\<in>set (prGroups p). \<forall>m\<in>set (grMembers g). m = OutboundDirect \<or> live p m)"

definition one_default :: "Profile \<Rightarrow> bool" where
  "one_default p \<longleftrightarrow> length (filter (\<lambda>r. ruDefault r \<and> \<not> ruDisabled r) (prRules p)) \<le> 1"

definition objects_wf :: "Checks \<Rightarrow> Profile \<Rightarrow> bool" where
  "objects_wf ck p \<longleftrightarrow> distinct (ids_of p) \<and> (\<forall>e\<in>set (prEndpoints p). endpoint_ok ck e) \<and> (\<forall>g\<in>set (prGroups p). group_ok g)
     \<and> members_ok p \<and> acyclic (group_edges (prGroups p)) \<and> (\<forall>r\<in>set (prRules p). rule_ok (live p) r) \<and> one_default p
     \<and> (\<forall>g\<in>set (prDeviceGroups p). device_group_ok g) \<and> (\<forall>l\<in>set (prRoutingLists p). list_ok (live p) (map dgID (prDeviceGroups p)) l)"

text \<open>The map of names after all loops.\<close>

definition base_names :: "Profile \<Rightarrow> Names" where
  "base_names p = foldl add_group (foldl add_endpoint names0 (prEndpoints p)) (prGroups p)"

definition all_names :: "Profile \<Rightarrow> Names" where
  "all_names p = foldl (\<lambda>ns l. add_id ''routing list'' (rlID l) ns)
     (foldl (\<lambda>ns g. add_id ''device group'' (dgID g) ns) (fst (foldl add_rule (base_names p, 0) (prRules p))) (prDeviceGroups p))
     (prRoutingLists p)"

lemma kind_endpoints: "nmKind (foldl add_endpoint ns es) m = (if m \<in> epID ` set es then Some ''endpoint'' else nmKind ns m)"
  by (induction es arbitrary: ns) (auto simp: add_endpoint_def add_id_def)

lemma kind_groups: "nmKind (foldl add_group ns gs) m = (if m \<in> grID ` set gs then Some ''group'' else nmKind ns m)"
  by (induction gs arbitrary: ns) (auto simp: add_group_def add_id_def)

lemma on_endpoints:
  "distinct (map epID es) \<Longrightarrow> nmOn (foldl add_endpoint ns es) t \<longleftrightarrow> (\<exists>e\<in>set es. epID e = t \<and> epEnabled e) \<or> t \<notin> epID ` set es \<and> nmOn ns t"
  by (induction es arbitrary: ns) (auto simp: add_endpoint_def set_on_def add_id_def)

lemma on_groups: "nmOn (foldl add_group ns gs) t \<longleftrightarrow> t \<in> grID ` set gs \<or> nmOn ns t"
  by (induction gs arbitrary: ns) (auto simp: add_group_def set_on_def add_id_def)

lemma kind_rules: "nmKind (fst (foldl add_rule (ns, n) rs)) m = (if m \<in> ruID ` set rs then Some ''rule'' else nmKind ns m)"
  by (induction rs arbitrary: ns n) (auto simp: add_rule_def add_id_def)

lemma kind_ids: "nmKind (foldl (\<lambda>ns x. add_id kind (f x) ns) ns xs) m = (if m \<in> f ` set xs then Some kind else nmKind ns m)"
  by (induction xs arbitrary: ns) (auto simp: add_id_def)

lemma defaults_rules: "snd (foldl add_rule (ns, n) rs) = n + length (filter (\<lambda>r. ruDefault r \<and> \<not> ruDisabled r) rs)"
  by (induction rs arbitrary: ns n) (auto simp: add_rule_def)

lemma base_live:
  assumes "distinct (map epID (prEndpoints p))"
  shows "names_ok (live p) (base_names p)"
proof -
  have "nmOn (base_names p) = live p"
    using assms by (auto simp: fun_eq_iff base_names_def on_groups on_endpoints live_def names0_def)
  moreover have "t \<in> taken_ids (base_names p)" if "live p t" for t
    using that by (auto simp: taken_ids_def base_names_def dom_def kind_groups kind_endpoints live_def)
  ultimately show ?thesis by (simp add: names_ok_def)
qed

lemma taken_names0 [simp]: "taken_ids names0 = {OutboundDirect, OutboundBlock}"
  by (auto simp: taken_ids_def names0_def)

lemma members_loop:
  "(\<exists>u. each (validate_members ns) gs () = Inr u) \<longleftrightarrow> (\<forall>g\<in>set gs. \<forall>m\<in>set (grMembers g). member_problem ns g m = None)"
  by (simp add: each_unit validate_members_def checks)

lemma no_self_member:
  assumes "acyclic (group_edges gs)" "g \<in> set gs" "grID g \<in> set (grMembers g)"
  shows False
proof -
  have "(grID g, grID g) \<in> group_edges gs" using assms(2,3) by (auto simp: group_edges_def)
  then show False using assms(1) by (auto simp: acyclic_def)
qed

lemma groups_stage:
  assumes "distinct (map epID (prEndpoints p))" "set (map epID (prEndpoints p)) \<inter> {OutboundDirect, OutboundBlock} = {}"
    and "ns1 = foldl add_endpoint names0 (prEndpoints p)"
  shows "validate_groups p ns1 = Inr ns \<longleftrightarrow> distinct (map grID (prGroups p)) \<and> set (map grID (prGroups p)) \<inter> taken_ids ns1 = {}
    \<and> (\<forall>g\<in>set (prGroups p). group_ok g) \<and> members_ok p \<and> acyclic (group_edges (prGroups p)) \<and> ns = base_names p"
proof (cases "distinct (map grID (prGroups p)) \<and> set (map grID (prGroups p)) \<inter> taken_ids ns1 = {}")
  case False
  then show ?thesis using group_loop.loop[OF TrueI, of "prGroups p" ns1] by (auto simp: validate_groups_def checks)
next
  case True
  let ?ns = "base_names p"
  have on: "nmOn ?ns = live p" "\<And>t. live p t \<Longrightarrow> nmKind ?ns t \<noteq> None"
    using base_live[OF assms(1)] by (auto simp: names_ok_def taken_ids_def)
  have kind: "nmKind ?ns m = Some ''group'' \<longleftrightarrow> m \<in> grID ` set (prGroups p)" for m
    by (auto simp: base_names_def kind_groups kind_endpoints names0_def split: if_splits)
  have "OutboundBlock \<notin> grID ` set (prGroups p)"
    using True assms(3) by (auto simp: endpoint_loop.taken_foldl)
  then have nb: "m \<noteq> OutboundBlock" if "live p m" for m
    using that assms(2) by (auto simp: live_def image_iff)
  have "member_problem ?ns g m = None \<longleftrightarrow> m = OutboundDirect \<or> live p m \<and> m \<noteq> grID g" for g m
    using on(1) on(2)[of m] nb[of m] by (auto simp: member_problem_def)
  then have mem: "(\<forall>g\<in>set (prGroups p). \<forall>m\<in>set (grMembers g). member_problem ?ns g m = None) \<and> acyclic (group_edges (prGroups p))
      \<longleftrightarrow> members_ok p \<and> acyclic (group_edges (prGroups p))"
    unfolding members_ok_def using no_self_member by metis
  have grp: "each validate_group (prGroups p) ns1 = Inr n \<longleftrightarrow> (\<forall>g\<in>set (prGroups p). group_ok g) \<and> n = ?ns" for n
    using True group_loop.loop[OF TrueI, of "prGroups p" ns1] assms(3) by (auto simp: base_names_def)
  show ?thesis
    using True mem members_loop[of ?ns "prGroups p"] search_acyclic[OF _ kind]
    by (auto simp: validate_groups_def checks grp)
qed

lemma rules_stage:
  assumes "names_ok (live p) ns"
  shows "validate_rules p ns = Inr n \<longleftrightarrow> distinct (map ruID (prRules p)) \<and> set (map ruID (prRules p)) \<inter> taken_ids ns = {}
    \<and> (\<forall>r\<in>set (prRules p). rule_ok (live p) r) \<and> one_default p \<and> n = fst (foldl add_rule (ns, 0) (prRules p))"
proof -
  obtain m d where f: "foldl add_rule (ns, 0) (prRules p) = (m, d)" by fastforce
  have d: "d = length (filter (\<lambda>r. ruDefault r \<and> \<not> ruDisabled r) (prRules p))"
    using defaults_rules[of ns 0 "prRules p"] f by simp
  have s: "(\<exists>st. each validate_rule (prRules p) (ns, 0) = Inr st \<and> P st) \<longleftrightarrow> distinct (map ruID (prRules p))
      \<and> set (map ruID (prRules p)) \<inter> taken_ids ns = {} \<and> (\<forall>r\<in>set (prRules p). rule_ok (live p) r) \<and> P (m, d)" for P
    using rule_loop.loop[of "live p" "(ns, 0)" "prRules p"] assms f by auto
  show ?thesis unfolding validate_rules_def sum_case_Inr s by (auto simp: checks f d one_default_def)
qed

lemma distinct_parts:
  assumes "a \<noteq> b" "distinct es" "set es \<inter> {a, b} = {}"
  shows "distinct (a # b # es @ gs @ rs @ ds @ ls) \<longleftrightarrow> distinct gs \<and> set gs \<inter> ({a, b} \<union> set es) = {}
     \<and> distinct rs \<and> set rs \<inter> ({a, b} \<union> set es \<union> set gs) = {} \<and> distinct ds \<and> set ds \<inter> ({a, b} \<union> set es \<union> set gs \<union> set rs) = {}
     \<and> distinct ls \<and> set ls \<inter> ({a, b} \<union> set es \<union> set gs \<union> set rs \<union> set ds) = {}"
proof -
  have "set gs \<inter> ({a, b} \<union> set es) = {} \<longleftrightarrow> a \<notin> set gs \<and> b \<notin> set gs \<and> set es \<inter> set gs = {}" by blast
  moreover have "set rs \<inter> ({a, b} \<union> set es \<union> set gs) = {} \<longleftrightarrow> a \<notin> set rs \<and> b \<notin> set rs \<and> set es \<inter> set rs = {} \<and> set gs \<inter> set rs = {}" by blast
  moreover have "set ds \<inter> ({a, b} \<union> set es \<union> set gs \<union> set rs) = {} \<longleftrightarrow> a \<notin> set ds \<and> b \<notin> set ds \<and> set es \<inter> set ds = {} \<and> set gs \<inter> set ds = {}
      \<and> set rs \<inter> set ds = {}" by blast
  moreover have "set ls \<inter> ({a, b} \<union> set es \<union> set gs \<union> set rs \<union> set ds) = {} \<longleftrightarrow> a \<notin> set ls \<and> b \<notin> set ls \<and> set es \<inter> set ls = {}
      \<and> set gs \<inter> set ls = {} \<and> set rs \<inter> set ls = {} \<and> set ds \<inter> set ls = {}" by blast
  ultimately show ?thesis using assms by (simp add: Int_Un_distrib conj_ac)
qed

lemma validate_names_Inr: "validate_names ck p = Inr ns \<longleftrightarrow> objects_wf ck p \<and> ns = all_names p"
proof -
  let ?es = "prEndpoints p" and ?gs = "prGroups p" and ?rs = "prRules p" and ?ds = "prDeviceGroups p" and ?ls = "prRoutingLists p"
  let ?n1 = "foldl add_endpoint names0 ?es"
  let ?n3 = "fst (foldl add_rule (base_names p, 0) ?rs)"
  let ?n4 = "foldl (\<lambda>ns g. add_id ''device group'' (dgID g) ns) ?n3 ?ds"
  have s1: "each (validate_endpoint ck) ?es names0 = Inr n \<longleftrightarrow> distinct (map epID ?es) \<and> set (map epID ?es) \<inter> {OutboundDirect, OutboundBlock} = {}
      \<and> (\<forall>e\<in>set ?es. endpoint_ok ck e) \<and> n = ?n1" for n
    by (simp add: endpoint_loop.loop)
  have t1: "taken_ids ?n1 = {OutboundDirect, OutboundBlock} \<union> set (map epID ?es)"
    and t2: "taken_ids (base_names p) = {OutboundDirect, OutboundBlock} \<union> set (map epID ?es) \<union> set (map grID ?gs)"
    by (simp_all add: endpoint_loop.taken_foldl group_loop.taken_foldl base_names_def)
  show ?thesis
  proof (cases "distinct (map epID ?es) \<and> set (map epID ?es) \<inter> {OutboundDirect, OutboundBlock} = {}")
    case False
    then show ?thesis using s1 by (auto simp: validate_names_def checks objects_wf_def ids_of_def)
  next
    case True
    have nb: "names_ok (live p) (base_names p)" using True base_live by blast
    have s3: "validate_rules p (base_names p) = Inr n \<longleftrightarrow> distinct (map ruID ?rs) \<and> set (map ruID ?rs) \<inter> taken_ids (base_names p) = {}
        \<and> (\<forall>r\<in>set ?rs. rule_ok (live p) r) \<and> one_default p \<and> n = ?n3" for n
      using rules_stage[OF nb] by simp
    have n3: "names_ok (live p) ?n3" using rule_loop.inv_foldl[of "live p" "(base_names p, 0)"] nb by simp
    have s4: "each validate_device_group ?ds ?n3 = Inr n \<longleftrightarrow> distinct (map dgID ?ds) \<and> set (map dgID ?ds) \<inter> taken_ids ?n3 = {}
        \<and> (\<forall>g\<in>set ?ds. device_group_ok g) \<and> n = ?n4" for n
      using device_loop.loop[OF n3] by simp
    have n4: "names_ok (live p) ?n4" using device_loop.inv_foldl[OF n3] by simp
    have s5: "each (validate_list (map dgID ?ds)) ?ls ?n4 = Inr n \<longleftrightarrow> distinct (map rlID ?ls) \<and> set (map rlID ?ls) \<inter> taken_ids ?n4 = {}
        \<and> (\<forall>l\<in>set ?ls. list_ok (live p) (map dgID ?ds) l) \<and> n = all_names p" for n
      using list_loop.loop[OF n4] by (simp add: all_names_def)
    have t3: "taken_ids ?n3 = taken_ids (base_names p) \<union> set (map ruID ?rs)"
      using rule_loop.taken_foldl[of "(base_names p, 0)"] by simp
    have t4: "taken_ids ?n4 = taken_ids ?n3 \<union> set (map dgID ?ds)" by (simp add: device_loop.taken_foldl)
    have s2: "validate_groups p ?n1 = Inr n \<longleftrightarrow> distinct (map grID ?gs) \<and> set (map grID ?gs) \<inter> taken_ids ?n1 = {}
        \<and> (\<forall>g\<in>set ?gs. group_ok g) \<and> members_ok p \<and> acyclic (group_edges ?gs) \<and> n = base_names p" for n
      using groups_stage[of p ?n1] True by simp
    have d: "distinct (ids_of p) \<longleftrightarrow> distinct (map grID ?gs) \<and> set (map grID ?gs) \<inter> taken_ids ?n1 = {}
        \<and> distinct (map ruID ?rs) \<and> set (map ruID ?rs) \<inter> taken_ids (base_names p) = {}
        \<and> distinct (map dgID ?ds) \<and> set (map dgID ?ds) \<inter> taken_ids ?n3 = {}
        \<and> distinct (map rlID ?ls) \<and> set (map rlID ?ls) \<inter> taken_ids ?n4 = {}"
    proof -
      have "OutboundDirect \<noteq> OutboundBlock" by (simp add: OutboundDirect_def OutboundBlock_def)
      then show ?thesis unfolding ids_of_def t4 t3 t2 t1 using True by (intro distinct_parts) simp_all
    qed
    show ?thesis
      unfolding validate_names_def then_check_Inr s1 objects_wf_def d using True
      by (auto simp: s2 s3 s4 s5)
  qed
qed

end
