(* ===== verification/Profile_DNS.thy ===== *)
theory Profile_DNS
  imports Profile_Wellformed
begin

text \<open>
  Well-formed DNS planes, and the main result on validation: \<open>Validate\<close> accepts exactly the well-formed
  profiles, and the narrower \<open>ValidateDNS\<close> of the DNS page agrees with it.
\<close>

section \<open>Servers\<close>

definition vpn_user :: "DNSServer \<Rightarrow> bool" where
  "vpn_user s \<longleftrightarrow> dsType s \<in> set vpnDNSTypes \<and> dsEnabled s"

definition vpn_conn :: "DNSServer \<Rightarrow> id" where
  "vpn_conn s = TrimSpace (dsEndpoint s)"

definition network_ok :: "(id \<Rightarrow> bool) \<Rightarrow> DNSServer \<Rightarrow> bool" where
  "network_ok on s \<longleftrightarrow> TrimSpace (dsServer s) \<noteq> ''''
     \<and> (dsType s \<in> set encryptedDNSTypes \<longrightarrow> ParseIP (TrimSpace (dsServer s)) \<or> TrimSpace (dsDomainResolver s) \<noteq> '''')
     \<and> (dsServerPort s = 0 \<or> 1 \<le> dsServerPort s \<and> dsServerPort s \<le> 65535)
     \<and> (dsDetour s = '''' \<or> dsDetour s \<noteq> OutboundBlock \<and> usable on (dsDetour s))"

definition server_ok :: "(id \<Rightarrow> bool) \<Rightarrow> Endpoint list \<Rightarrow> bool \<Rightarrow> DNSServer \<Rightarrow> bool" where
  "server_ok on eps leak s \<longleftrightarrow> TrimSpace (dsTag s) \<noteq> '''' \<and> dsType s \<in> set validDNSServerTypes \<and> \<not> (leak \<and> dsType s \<in> set plaintextDNSTypes)
     \<and> (vpn_user s \<longrightarrow> vpn_conn s \<noteq> '''' \<and> vpnResolverFault (dsType s) (vpn_conn s) eps = vpnFaultNone)
     \<and> (dsType s \<in> set networkDNSTypes \<longrightarrow> network_ok on s) \<and> fakeip_problem s = None"

definition add_server :: "DTags \<Rightarrow> DNSServer \<Rightarrow> DTags" where
  "add_server st s = \<lparr>dtTags = (dtTags st)(dsTag s \<mapsto> (dsEnabled s, dsType s)),
     dtVPN = (if vpn_user s then (dtVPN st)(vpn_conn s \<mapsto> dsTag s) else dtVPN st)\<rparr>"

lemma add_server_sel [simp]:
  "dtTags (add_server st s) = (dtTags st)(dsTag s \<mapsto> (dsEnabled s, dsType s))"
  "dtVPN (add_server st s) = (if vpn_user s then (dtVPN st)(vpn_conn s \<mapsto> dsTag s) else dtVPN st)"
  by (simp_all add: add_server_def)

lemma network_problem_None:
  assumes "names_ok on ns"
  shows "network_problem ns s = None \<longleftrightarrow> (dsType s \<in> set networkDNSTypes \<longrightarrow> network_ok on s)"
proof -
  have "isResolvable t ns \<and> (isBuiltin t \<or> nmOn ns t) \<longleftrightarrow> usable on t" for t
    using assms by (auto simp: names_ok_def usable_def isResolvable_def taken_ids_def)
  then have "detour_problem ns s = None \<longleftrightarrow> dsDetour s = '''' \<or> dsDetour s \<noteq> OutboundBlock \<and> usable on (dsDetour s)"
    by (simp add: detour_problem_def) blast
  then show ?thesis by (auto simp: network_problem_def network_ok_def checks first_fail_None)
qed

lemma vpn_server_Inr:
  "validateVPNDNSServer s eps st = Inr st' \<longleftrightarrow> vpn_conn s \<noteq> '''' \<and> vpnResolverFault (dsType s) (vpn_conn s) eps = vpnFaultNone
     \<and> dtVPN st (vpn_conn s) = None \<and> st' = st\<lparr>dtVPN := (dtVPN st)(vpn_conn s \<mapsto> dsTag s)\<rparr>"
  by (cases "vpnResolverFault (dsType s) (vpn_conn s) eps"; cases "dtVPN st (vpn_conn s)")
    (auto simp: validateVPNDNSServer_def Let_def vpn_conn_def)

lemma validate_server_Inr:
  assumes "names_ok on ns"
  shows "validate_server dns ns eps st s = Inr st' \<longleftrightarrow> dtTags st (dsTag s) = None \<and> (vpn_user s \<longrightarrow> dtVPN st (vpn_conn s) = None)
     \<and> server_ok on eps (dnLeakProof dns) s \<and> st' = add_server st s"
proof (cases "vpn_user s")
  case True
  then show ?thesis
    by (cases "dtTags st (dsTag s)") (auto simp: validate_server_def checks first_fail_None Let_def vpn_user_def vpn_server_Inr server_ok_def add_server_def network_problem_None[OF assms])
next
  case False
  then show ?thesis
    by (cases "dtTags st (dsTag s)") (auto simp: validate_server_def checks first_fail_None Let_def vpn_user_def server_ok_def add_server_def network_problem_None[OF assms])
qed

lemma servers_loop:
  assumes "names_ok on ns"
  shows "each (validate_server dns ns eps) ss st = Inr st' \<longleftrightarrow> distinct (map dsTag ss) \<and> (\<forall>s\<in>set ss. dtTags st (dsTag s) = None)
     \<and> distinct (map vpn_conn (filter vpn_user ss)) \<and> (\<forall>s\<in>set ss. vpn_user s \<longrightarrow> dtVPN st (vpn_conn s) = None)
     \<and> (\<forall>s\<in>set ss. server_ok on eps (dnLeakProof dns) s) \<and> st' = foldl add_server st ss"
proof (induction ss arbitrary: st)
  case Nil
  then show ?case by auto
next
  case (Cons s ss)
  have "each (validate_server dns ns eps) (s # ss) st = Inr st' \<longleftrightarrow> dtTags st (dsTag s) = None \<and> (vpn_user s \<longrightarrow> dtVPN st (vpn_conn s) = None)
     \<and> server_ok on eps (dnLeakProof dns) s \<and> each (validate_server dns ns eps) ss (add_server st s) = Inr st'"
    by (auto simp: checks validate_server_Inr[OF assms])
  moreover have "(\<forall>x\<in>set ss. dtTags (add_server st s) (dsTag x) = None) \<longleftrightarrow> dsTag s \<notin> dsTag ` set ss \<and> (\<forall>x\<in>set ss. dtTags st (dsTag x) = None)"
    by (auto simp: image_iff)
  moreover have "(\<forall>x\<in>set ss. vpn_user x \<longrightarrow> dtVPN (add_server st s) (vpn_conn x) = None) \<longleftrightarrow>
      (vpn_user s \<longrightarrow> vpn_conn s \<notin> vpn_conn ` set (filter vpn_user ss)) \<and> (\<forall>x\<in>set ss. vpn_user x \<longrightarrow> dtVPN st (vpn_conn x) = None)"
    by (cases "vpn_user s") (auto simp: image_iff)
  ultimately show ?case unfolding Cons by (cases "vpn_user s") (simp_all add: conj_ac)
qed

definition tag_of :: "DNSServer list \<Rightarrow> string \<Rightarrow> (bool \<times> string) option" where
  "tag_of ss t = map_option (\<lambda>s. (dsEnabled s, dsType s)) (find (\<lambda>s. dsTag s = t) ss)"

lemma tag_of_simps [simp]:
  "tag_of [] t = None" "tag_of (s # ss) t = (if dsTag s = t then Some (dsEnabled s, dsType s) else tag_of ss t)"
  by (simp_all add: tag_of_def)

lemma tag_of_None: "tag_of ss t = None \<longleftrightarrow> t \<notin> dsTag ` set ss"
  by (induction ss) auto

lemma tags_after: "distinct (map dsTag ss) \<Longrightarrow> dtTags (foldl add_server st ss) t = (case tag_of ss t of Some v \<Rightarrow> Some v | None \<Rightarrow> dtTags st t)"
proof (induction ss arbitrary: st)
  case Nil
  then show ?case by simp
next
  case (Cons s ss)
  then have "tag_of ss (dsTag s) = None" by (simp add: tag_of_None)
  then show ?case using Cons by (cases "dsTag s = t") (simp_all split: option.split)
qed

lemma tag_of_Some: "distinct (map dsTag ss) \<Longrightarrow> tag_of ss t = Some (b, ty) \<longleftrightarrow> (\<exists>s\<in>set ss. dsTag s = t \<and> dsEnabled s = b \<and> dsType s = ty)"
proof (induction ss)
  case Nil
  then show ?case by simp
next
  case (Cons x ss)
  then have "tag_of ss (dsTag x) = None" by (simp add: tag_of_None)
  then show ?case using Cons by (auto simp: image_iff)
qed

section \<open>Default resolver, bootstrap and rules\<close>

definition bootstrap_ok :: "DNSServer list \<Rightarrow> DNSServer \<Rightarrow> bool" where
  "bootstrap_ok ss s \<longleftrightarrow> dsEnabled s \<and> dsType s \<in> set networkDNSTypes \<and> TrimSpace (dsDomainResolver s) \<noteq> '''' \<longrightarrow>
     (\<exists>b\<in>set ss. dsTag b = TrimSpace (dsDomainResolver s) \<and> dsEnabled b \<and> dsType b \<in> set networkDNSTypes)"

definition default_ok :: "DNSSettings \<Rightarrow> bool" where
  "default_ok d \<longleftrightarrow> (\<forall>tun s. DefaultServer d tun = Some s \<longrightarrow> dsType s \<notin> set vpnDNSTypes)
     \<and> (dnFinal d = '''' \<and> dnLeakProof d \<longrightarrow> (\<forall>s. DefaultServer d False = Some s \<longrightarrow> dsType s \<in> set encryptedDNSTypes))
     \<and> (dnFinal d \<noteq> '''' \<longrightarrow> (\<exists>s\<in>set (dnServers d). dsTag s = dnFinal d \<and> dsEnabled s \<and> dsType s \<notin> set vpnDNSTypes
            \<and> (dnLeakProof d \<longrightarrow> dsType s \<in> set encryptedDNSTypes)))"

definition dns_rule_ok :: "DNSServer list \<Rightarrow> id set \<Rightarrow> DNSRule \<Rightarrow> bool" where
  "dns_rule_ok ss lids r \<longleftrightarrow> TrimSpace (drID r) \<noteq> '''' \<and> (drDisabled r \<or>
     (drServer r = ''reject'' \<or> (\<exists>s\<in>set ss. dsTag s = drServer r \<and> dsEnabled s))
     \<and> (\<forall>l\<in>set (drRuleSets r). TrimSpace l = '''' \<or> l \<in> lids) \<and> \<not> dnsRuleHasNoMatcher r)"

definition subnet_ok :: "string \<Rightarrow> bool" where
  "subnet_ok cs \<longleftrightarrow> TrimSpace cs = '''' \<or> ParseCIDR (TrimSpace cs) \<or> ParseIP (TrimSpace cs)"

definition dns_wf :: "(id \<Rightarrow> bool) \<Rightarrow> Endpoint list \<Rightarrow> id set \<Rightarrow> DNSSettings \<Rightarrow> bool" where
  "dns_wf on eps lids d \<longleftrightarrow> dnStrategy d \<in> {'''', ''prefer_ipv4'', ''prefer_ipv6'', ''ipv4_only'', ''ipv6_only''} \<and> (dnFakeIP d \<longrightarrow> dnIndependentCache d)
     \<and> distinct (map dsTag (dnServers d)) \<and> distinct (map vpn_conn (filter vpn_user (dnServers d)))
     \<and> (\<forall>s\<in>set (dnServers d). server_ok on eps (dnLeakProof d) s \<and> bootstrap_ok (dnServers d) s)
     \<and> subnet_ok (dnClientSubnet d) \<and> default_ok d \<and> (\<forall>r\<in>set (dnRules d). dns_rule_ok (dnServers d) lids r)"

lemma vpn_type: "t \<in> set validDNSServerTypes \<Longrightarrow> IsVPNDNSType t \<longleftrightarrow> t \<in> set vpnDNSTypes"
proof -
  have "list_all (\<lambda>t. IsVPNDNSType t \<longleftrightarrow> t \<in> set vpnDNSTypes) validDNSServerTypes" by code_simp
  then show "t \<in> set validDNSServerTypes \<Longrightarrow> IsVPNDNSType t \<longleftrightarrow> t \<in> set vpnDNSTypes" by (simp add: list_all_iff)
qed

lemma vpn_type_empty: "\<not> IsVPNDNSType ''''"
  by code_simp

lemma net_type: "t \<in> set validDNSServerTypes \<Longrightarrow> t \<in> set networkDNSTypes \<longleftrightarrow> \<not> (t = ''fakeip'' \<or> t = ''local'' \<or> IsVPNDNSType t)"
proof -
  have "list_all (\<lambda>t. t \<in> set networkDNSTypes \<longleftrightarrow> \<not> (t = ''fakeip'' \<or> t = ''local'' \<or> t \<in> set vpnDNSTypes)) validDNSServerTypes" by code_simp
  then show "t \<in> set validDNSServerTypes \<Longrightarrow> t \<in> set networkDNSTypes \<longleftrightarrow> \<not> (t = ''fakeip'' \<or> t = ''local'' \<or> IsVPNDNSType t)"
    unfolding list_all_iff using vpn_type by blast
qed

lemma bootstrap_None:
  assumes "dtTags st = tag_of ss" "distinct (map dsTag ss)" "\<And>s. s \<in> set ss \<Longrightarrow> dsType s \<in> set validDNSServerTypes"
  shows "bootstrap_problem st s = None \<longleftrightarrow> bootstrap_ok ss s"
proof -
  let ?dr = "TrimSpace (dsDomainResolver s)"
  have net: "dsType b \<in> set networkDNSTypes \<longleftrightarrow> \<not> (dsType b = ''fakeip'' \<or> dsType b = ''local'' \<or> IsVPNDNSType (dsType b))" if "b \<in> set ss" for b
    by (rule net_type[OF assms(3)[OF that]])
  show ?thesis
  proof (cases "tag_of ss ?dr")
    case None
    then have "\<not> (\<exists>b\<in>set ss. dsTag b = ?dr)" by (auto simp: tag_of_None image_iff)
    then show ?thesis using None assms(1) by (auto simp: bootstrap_problem_def bootstrap_ok_def Let_def)
  next
    case (Some v)
    obtain on ty where v: "v = (on, ty)" by fastforce
    obtain b where b: "b \<in> set ss" "dsTag b = ?dr" "dsEnabled b = on" "dsType b = ty" using Some v tag_of_Some[OF assms(2)] by blast
    have "c = b" if "c \<in> set ss" "dsTag c = ?dr" for c using that b(1,2) assms(2) by (metis distinct_map inj_onD)
    then have "bootstrap_ok ss s \<longleftrightarrow> (dsEnabled s \<and> dsType s \<in> set networkDNSTypes \<and> ?dr \<noteq> '''' \<longrightarrow> on \<and> ty \<in> set networkDNSTypes)"
      using b unfolding bootstrap_ok_def by metis
    then show ?thesis using Some v assms(1) net[OF b(1)] b(4) by (auto simp: bootstrap_problem_def Let_def)
  qed
qed

lemma default_is_None:
  "\<not> default_is P d tun \<longleftrightarrow> (\<forall>s. DefaultServer d tun = Some s \<longrightarrow> \<not> P (dsType s))"
  by (auto simp: default_is_def split: option.splits)

lemma DefaultServer_in: "DefaultServer d tun = Some s \<Longrightarrow> s \<in> set (dnServers d)"
  by (auto simp: DefaultServer_def find_Some_iff split: option.splits if_splits)

lemma default_None:
  assumes "dtTags st = tag_of (dnServers d)" "distinct (map dsTag (dnServers d))" "\<And>s. s \<in> set (dnServers d) \<Longrightarrow> dsType s \<in> set validDNSServerTypes"
    and "\<And>s. s \<in> set (dnServers d) \<Longrightarrow> TrimSpace (dsTag s) \<noteq> ''''"
  shows "default_problem d st = None \<longleftrightarrow> subnet_ok (dnClientSubnet d) \<and> default_ok d"
proof -
  have vpn: "(\<forall>s. DefaultServer d tun = Some s \<longrightarrow> dsType s \<notin> set vpnDNSTypes) \<longleftrightarrow> \<not> default_is IsVPNDNSType d tun" for tun
    unfolding default_is_None using vpn_type assms(3) DefaultServer_in by blast
  have enc: "(\<forall>s. DefaultServer d False = Some s \<longrightarrow> dsType s \<in> set encryptedDNSTypes) \<longleftrightarrow> \<not> default_is (\<lambda>t. t \<notin> set encryptedDNSTypes) d False"
    unfolding default_is_None by simp
  have fin: "(dtTags st (dnFinal d) \<noteq> None \<and> \<not> IsVPNDNSType (final_type st (dnFinal d))
      \<and> (dnLeakProof d \<longrightarrow> \<not> list_ex (\<lambda>s. dsTag s = dnFinal d \<and> dsType s \<notin> set encryptedDNSTypes) (dnServers d)) \<and> final_on st (dnFinal d))
    \<longleftrightarrow> (\<exists>s\<in>set (dnServers d). dsTag s = dnFinal d \<and> dsEnabled s \<and> dsType s \<notin> set vpnDNSTypes \<and> (dnLeakProof d \<longrightarrow> dsType s \<in> set encryptedDNSTypes))"
  proof (cases "tag_of (dnServers d) (dnFinal d)")
    case None
    then have "\<not> (\<exists>s\<in>set (dnServers d). dsTag s = dnFinal d)" by (auto simp: tag_of_None image_iff)
    then show ?thesis using None assms(1) by auto
  next
    case (Some v)
    obtain on ty where v: "v = (on, ty)" by fastforce
    obtain b where b: "b \<in> set (dnServers d)" "dsTag b = dnFinal d" "dsEnabled b = on" "dsType b = ty"
      using Some v tag_of_Some[OF assms(2)] by blast
    have u: "c = b" if "c \<in> set (dnServers d)" "dsTag c = dnFinal d" for c using that b(1,2) assms(2) by (metis distinct_map inj_onD)
    have "list_ex (\<lambda>s. dsTag s = dnFinal d \<and> dsType s \<notin> set encryptedDNSTypes) (dnServers d) \<longleftrightarrow> ty \<notin> set encryptedDNSTypes"
      unfolding list_ex_iff using b u by metis
    moreover have "(\<exists>s\<in>set (dnServers d). dsTag s = dnFinal d \<and> dsEnabled s \<and> dsType s \<notin> set vpnDNSTypes \<and> (dnLeakProof d \<longrightarrow> dsType s \<in> set encryptedDNSTypes))
        \<longleftrightarrow> on \<and> ty \<notin> set vpnDNSTypes \<and> (dnLeakProof d \<longrightarrow> ty \<in> set encryptedDNSTypes)"
      using b u by metis
    moreover have "IsVPNDNSType ty \<longleftrightarrow> ty \<in> set vpnDNSTypes" using vpn_type[OF assms(3)[OF b(1)]] b(4) by simp
    ultimately show ?thesis using Some v assms(1) by (auto simp: final_type_def final_on_def)
  qed
  have all: "(\<forall>tun. Q tun) \<longleftrightarrow> Q False \<and> Q True" for Q :: "bool \<Rightarrow> bool" by (metis (full_types))
  have "default_problem d st = None \<longleftrightarrow> subnet_ok (dnClientSubnet d)
      \<and> (\<forall>tun s. DefaultServer d tun = Some s \<longrightarrow> dsType s \<notin> set vpnDNSTypes)
      \<and> (dnFinal d = '''' \<and> dnLeakProof d \<longrightarrow> (\<forall>s. DefaultServer d False = Some s \<longrightarrow> dsType s \<in> set encryptedDNSTypes))
      \<and> \<not> IsVPNDNSType (final_type st (dnFinal d))
      \<and> (dnFinal d \<noteq> '''' \<longrightarrow> dtTags st (dnFinal d) \<noteq> None \<and> (dnLeakProof d \<longrightarrow> \<not> list_ex (\<lambda>s. dsTag s = dnFinal d \<and> dsType s \<notin> set encryptedDNSTypes) (dnServers d))
           \<and> final_on st (dnFinal d))"
    unfolding all vpn enc default_problem_def first_fail_None
    by (auto simp: subnet_ok_def Let_def)
  moreover have "\<not> IsVPNDNSType (final_type st (dnFinal d))" if "dnFinal d = ''''"
  proof -
    have "TrimSpace '''' = ''''" by code_simp
    then have "find (\<lambda>s. dsTag s = '''') (dnServers d) = None" using assms(4) unfolding find_None_iff by metis
    then have "tag_of (dnServers d) (dnFinal d) = None" using that by (simp add: tag_of_def)
    then show ?thesis using assms(1) vpn_type_empty by (simp add: final_type_def)
  qed
  ultimately show ?thesis using fin unfolding default_ok_def by (cases "dnFinal d = ''''") (simp_all, argo)
qed

lemma dns_rule_None:
  assumes "dtTags st = tag_of ss" "distinct (map dsTag ss)" "\<And>l. nmKind ns l = Some ''routing list'' \<longleftrightarrow> l \<in> lids"
  shows "dns_rule_problem ns st r = None \<longleftrightarrow> dns_rule_ok ss lids r"
proof -
  have on: "final_on st t \<longleftrightarrow> (\<exists>s\<in>set ss. dsTag s = t \<and> dsEnabled s)" for t
  proof (cases "tag_of ss t")
    case None
    then have "\<not> (\<exists>s\<in>set ss. dsTag s = t)" by (auto simp: tag_of_None image_iff)
    then show ?thesis using None assms(1) by (auto simp: final_on_def)
  next
    case (Some v)
    obtain b ty where "v = (b, ty)" by fastforce
    moreover from this have "(\<exists>s\<in>set ss. dsTag s = t \<and> dsEnabled s = b)" using Some tag_of_Some[OF assms(2)] by blast
    moreover have "c = d" if "c \<in> set ss" "dsTag c = t" "d \<in> set ss" "dsTag d = t" for c d using that assms(2) by (metis distinct_map inj_onD)
    ultimately show ?thesis using Some assms(1) unfolding final_on_def by (metis (no_types, lifting) case_prod_conv option.simps(5))
  qed
  have known: "final_on st t \<Longrightarrow> dtTags st t \<noteq> None" for t by (auto simp: final_on_def split: option.splits)
  show ?thesis
    unfolding dns_rule_problem_def dns_rule_ok_def by (auto simp: first_fail_None checks list_ex_iff assms(3) dest: known simp flip: on)
qed

lemma validateDNS_None:
  assumes "names_ok on ns" "\<And>l. nmKind ns l = Some ''routing list'' \<longleftrightarrow> l \<in> lids"
  shows "validateDNS d ns eps = None \<longleftrightarrow> dns_wf on eps lids d"
proof -
  let ?st = "foldl add_server \<lparr>dtTags = Map.empty, dtVPN = Map.empty\<rparr> (dnServers d)"
  have loop: "each (validate_server d ns eps) (dnServers d) \<lparr>dtTags = Map.empty, dtVPN = Map.empty\<rparr> = Inr st \<longleftrightarrow>
      distinct (map dsTag (dnServers d)) \<and> distinct (map vpn_conn (filter vpn_user (dnServers d)))
      \<and> (\<forall>s\<in>set (dnServers d). server_ok on eps (dnLeakProof d) s) \<and> st = ?st" for st
    by (auto simp: servers_loop[OF assms(1)])
  show ?thesis
  proof (cases "each (validate_server d ns eps) (dnServers d) \<lparr>dtTags = Map.empty, dtVPN = Map.empty\<rparr>")
    case (Inl e)
    then show ?thesis using loop by (auto simp: validateDNS_def checks dns_wf_def)
  next
    case (Inr st)
    have s: "distinct (map dsTag (dnServers d))" "\<And>s. s \<in> set (dnServers d) \<Longrightarrow> server_ok on eps (dnLeakProof d) s" "st = ?st"
      using Inr loop by auto
    have v: "distinct (map vpn_conn (filter vpn_user (dnServers d)))" using Inr loop by auto
    have t: "dtTags st = tag_of (dnServers d)" using tags_after[OF s(1)] s(3) by (auto simp: fun_eq_iff split: option.splits)
    have ok: "\<And>s. s \<in> set (dnServers d) \<Longrightarrow> dsType s \<in> set validDNSServerTypes" "\<And>s. s \<in> set (dnServers d) \<Longrightarrow> TrimSpace (dsTag s) \<noteq> ''''"
      using s(2) by (auto simp: server_ok_def)
    show ?thesis
      by (auto simp: validateDNS_def Inr checks dns_wf_def s(1,2) v bootstrap_None[OF t s(1) ok(1)] default_None[OF t s(1) ok]
          dns_rule_None[OF t s(1) assms(2)])
  qed
qed

section \<open>What Validate accepts\<close>

definition well_formed :: "Checks \<Rightarrow> Profile \<Rightarrow> bool" where
  "well_formed ck p \<longleftrightarrow> objects_wf ck p
     \<and> (case prDNS p of None \<Rightarrow> True | Some d \<Rightarrow> dns_wf (live p) (prEndpoints p) (rlID ` set (prRoutingLists p)) d)"

lemma nmOn_ids [simp]: "nmOn (foldl (\<lambda>ns x. add_id kind (f x) ns) ns xs) = nmOn ns"
  by (induction xs arbitrary: ns) auto

lemma all_names_kind:
  assumes "distinct (ids_of p)"
  shows "nmKind (all_names p) l = Some ''routing list'' \<longleftrightarrow> l \<in> rlID ` set (prRoutingLists p)"
  by (auto simp: all_names_def kind_ids kind_rules base_names_def kind_groups kind_endpoints names0_def split: if_splits)

lemma all_names_ok:
  assumes "distinct (ids_of p)"
  shows "names_ok (live p) (all_names p)"
proof -
  have "names_ok (live p) (base_names p)" using assms by (intro base_live) (simp add: ids_of_def)
  then have "names_ok (live p) (fst (foldl add_rule (base_names p, 0) (prRules p)))"
    using rule_loop.inv_foldl[of "live p" "(base_names p, 0)"] by simp
  then show ?thesis unfolding all_names_def by (intro list_loop.inv_foldl device_loop.inv_foldl)
qed

lemma Validate_None: "Validate ck p = None \<longleftrightarrow> well_formed ck p"
proof (cases "objects_wf ck p")
  case False
  then have "\<exists>e. validate_names ck p = Inl e" using validate_names_Inr[of ck p] by (cases "validate_names ck p") auto
  then show ?thesis using False by (auto simp: Validate_def well_formed_def)
next
  case True
  then have d: "distinct (ids_of p)" by (simp add: objects_wf_def)
  have "validate_names ck p = Inr (all_names p)" using True validate_names_Inr by blast
  then show ?thesis
    using True validateDNS_None[OF all_names_ok[OF d] all_names_kind[OF d]]
    by (auto simp: Validate_def well_formed_def dns_part_def split: option.splits)
qed

text \<open>C3. Validation accepts exactly the well-formed profiles. Although it is a chain of loops over changing maps
  that stops at the first problem, \<open>Validate\<close> returns no error if and only if: the ids of endpoints, groups,
  rules, device groups and lists are pairwise distinct and distinct from the builtin tags; every endpoint,
  group, rule, device group and list is acceptable on its own; every member, rule outbound, list outbound,
  download path and DNS detour names a builtin or an endpoint or group that exists and is switched on; no
  group contains itself through any chain of groups; at most one active rule is the default; and the DNS
  plane has distinct tags, usable VPN resolvers asked once each, bootstrap resolvers that can bootstrap, a
  usable default resolver and rules with live targets.\<close>

theorem validate_accepts_well_formed: "Validate ck p = None \<longleftrightarrow> well_formed ck p"
  by (rule Validate_None)

lemma namespace_on: "nmOn (foldl (\<lambda>ns i. if i \<noteq> '''' then ns\<lparr>nmKind := (nmKind ns)(i \<mapsto> kind)\<rparr> else ns) ns xs) = nmOn ns"
  by (induction xs arbitrary: ns) auto

lemma namespace_kind:
  "nmKind (foldl (\<lambda>ns i. if i \<noteq> '''' then ns\<lparr>nmKind := (nmKind ns)(i \<mapsto> kind)\<rparr> else ns) ns xs) m
     = (if m \<noteq> '''' \<and> m \<in> set xs then Some kind else nmKind ns m)"
  by (induction xs arbitrary: ns) auto

lemma namespace_endpoints:
  "\<forall>e\<in>set es. epID e \<noteq> '''' \<Longrightarrow> foldl (\<lambda>ns e. if epID e \<noteq> '''' then set_on (epID e) (epEnabled e) (if epID e \<noteq> '''' then ns\<lparr>nmKind := (nmKind ns)(epID e \<mapsto> ''endpoint'')\<rparr> else ns) else ns) ns es
     = foldl add_endpoint ns es"
  by (induction es arbitrary: ns) (auto simp: add_endpoint_def add_id_def)

lemma namespace_groups:
  "\<forall>g\<in>set gs. grID g \<noteq> '''' \<Longrightarrow> foldl (\<lambda>ns g. if grID g \<noteq> '''' then set_on (grID g) True (if grID g \<noteq> '''' then ns\<lparr>nmKind := (nmKind ns)(grID g \<mapsto> ''group'')\<rparr> else ns) else ns) ns gs
     = foldl add_group ns gs"
  by (induction gs arbitrary: ns) (auto simp: add_group_def add_id_def)

lemma dnsNamespace_ok:
  assumes "objects_wf ck p"
  shows "names_ok (live p) (dnsNamespace p)"
    and "nmKind (dnsNamespace p) l = Some ''routing list'' \<longleftrightarrow> l \<in> rlID ` set (prRoutingLists p)"
proof -
  let ?n0 = "\<lparr>nmKind = Map.empty, nmOn = (\<lambda>_. False)\<rparr>"
  let ?claim = "\<lambda>kind ns i. if i \<noteq> '''' then ns\<lparr>nmKind := (nmKind ns)(i \<mapsto> kind)\<rparr> else ns"
  let ?n2 = "foldl add_group (foldl add_endpoint ?n0 (prEndpoints p)) (prGroups p)"
  have ids: "\<forall>e\<in>set (prEndpoints p). epID e \<noteq> ''''" "\<forall>g\<in>set (prGroups p). grID g \<noteq> ''''" "\<forall>x\<in>set (prRoutingLists p). rlID x \<noteq> ''''"
    "distinct (map epID (prEndpoints p))"
    using assms by (auto simp: objects_wf_def endpoint_ok_def group_ok_def list_ok_def ids_of_def)
  have ns: "dnsNamespace p = foldl (?claim ''routing list'') (foldl (?claim ''rule'') ?n2 (map ruID (prRules p))) (map rlID (prRoutingLists p))"
    unfolding dnsNamespace_def Let_def using namespace_endpoints[OF ids(1)] namespace_groups[OF ids(2)] by simp
  have "nmOn (dnsNamespace p) = live p"
    unfolding ns namespace_on using ids(4) by (auto simp: fun_eq_iff on_groups on_endpoints live_def)
  moreover have "t \<in> taken_ids (dnsNamespace p)" if "live p t" for t
    using that ids(1,2) unfolding ns taken_ids_def by (auto simp: namespace_kind kind_groups kind_endpoints live_def image_iff)
  ultimately show "names_ok (live p) (dnsNamespace p)" by (simp add: names_ok_def)
  show "nmKind (dnsNamespace p) l = Some ''routing list'' \<longleftrightarrow> l \<in> rlID ` set (prRoutingLists p)"
    unfolding ns namespace_kind using ids(3) by (auto simp: namespace_kind kind_groups kind_endpoints)
qed

text \<open>C17. The DNS page and Apply agree. The check that guards a save of the DNS page builds its own, smaller map of
  names; a profile passes \<open>Validate\<close> exactly when it passes without its DNS plane and its DNS plane passes
  \<open>ValidateDNS\<close>. So a DNS plane the page accepted never blocks a later Apply of an otherwise valid profile.\<close>

theorem dns_page_agrees: "Validate ck p = None \<longleftrightarrow> Validate ck (p\<lparr>prDNS := None\<rparr>) = None \<and> ValidateDNS p = None"
proof -
  have o: "objects_wf ck (p\<lparr>prDNS := None\<rparr>) = objects_wf ck p"
    by (simp add: objects_wf_def ids_of_def live_def[abs_def] members_ok_def one_default_def)
  show ?thesis
  proof (cases "objects_wf ck p")
    case True
    show ?thesis
      using True o validateDNS_None[OF dnsNamespace_ok[OF True]]
      by (auto simp: Validate_None well_formed_def ValidateDNS_def dns_part_def split: option.splits)
  qed (simp add: Validate_None well_formed_def o)
qed

end
