(* ===== verification/Profile_Store.thy ===== *)
theory Profile_Store
  imports Profile_DNS
begin

text \<open>
  The profile store, \<open>internal/store/store.go\<close> and \<open>internal/store/rev.go\<close>: the published profile with its
  generation, the file behind it, and every operation that writes it. A writer takes the write lock, edits a
  private copy of the published profile and hands it to \<open>publish\<close>; the edit is a function of the profile that
  may refuse, so an operation is an edit followed by \<open>publish\<close>. What the world decides for one write is an
  argument: whether the durable write of the file succeeded, the clock, and the hash behind revisions.
\<close>

section \<open>State\<close>

record Env =
  enChecks :: Checks \<comment> \<open>the checks of protocol parameters\<close>
  enWrite :: "string option" \<comment> \<open>the error of the durable write, if it failed\<close>
  enNow :: int \<comment> \<open>unix seconds\<close>
  enRevE :: "Endpoint \<Rightarrow> string" \<comment> \<open>objectRev: the hash of the stored form\<close>
  enRevG :: "Group \<Rightarrow> string"
  enRevL :: "RoutingList \<Rightarrow> string"

record StrandedVPNResolver =
  svTag :: string
  svEndpoint :: id
  svWhy :: vpnFault

datatype serr = Refused string "arg list" | Unappliable verr | Invalid verr
  | StrandedResolver "StrandedVPNResolver list" | ErrStaleGen "64 word" "64 word" | ErrStale string | WriteFailed string

text \<open>What the file holds when it is read: the last profile written durably, or something the daemon did not
  write.\<close>

datatype stored = Missing | Blank | Unreadable | Corrupt | Holds Profile

record Store =
  stCur :: "(Profile \<times> 64 word) option" \<comment> \<open>the published pair; none before Open\<close>
  stDisk :: stored

definition empty_profile :: Profile where
  "empty_profile = \<lparr>prEndpoints = [], prGroups = [], prRules = [], prRoutingLists = [], prDeviceGroups = [], prDNS = None\<rparr>"

definition Snapshot :: "Store \<Rightarrow> Profile \<times> 64 word" where
  "Snapshot s = (case stCur s of None \<Rightarrow> (empty_profile, 0) | Some pg \<Rightarrow> pg)"

definition profile_of :: "Store \<Rightarrow> Profile" where
  "profile_of s = fst (Snapshot s)"

definition Gen :: "Store \<Rightarrow> 64 word" where
  "Gen s = (case stCur s of None \<Rightarrow> 0 | Some (p, g) \<Rightarrow> g)"

section \<open>Publishing\<close>

definition StrandedVPNResolvers :: "Profile \<Rightarrow> StrandedVPNResolver list" where
  "StrandedVPNResolvers p =
    (case prDNS p of
       None \<Rightarrow> []
     | Some d \<Rightarrow>
        concat (map (\<lambda>s. let i = TrimSpace (dsEndpoint s); fault = vpnResolverFault (dsType s) i (prEndpoints p)
                         in if dsType s \<notin> set vpnDNSTypes \<or> \<not> dsEnabled s \<or> i = '''' \<or> fault = vpnFaultNone then []
                            else [\<lparr>svTag = dsTag s, svEndpoint = i, svWhy = fault\<rparr>]) (dnServers d)))"

text \<open>The key of a stranded resolver: its tag, a zero byte, its connection.\<close>

definition sv_key :: "StrandedVPNResolver \<Rightarrow> string" where
  "sv_key r = svTag r @ [CHR 0x00] @ svEndpoint r"

definition newlyStrandedResolvers :: "Profile option \<Rightarrow> Profile \<Rightarrow> serr option" where
  "newlyStrandedResolvers prev next =
    (let before = (case prev of None \<Rightarrow> [] | Some q \<Rightarrow> map sv_key (StrandedVPNResolvers q));
         fresh = filter (\<lambda>r. sv_key r \<notin> set before) (StrandedVPNResolvers next)
     in if fresh = [] then None else Some (StrandedResolver fresh))"

definition unappliable :: "Checks \<Rightarrow> Profile option \<Rightarrow> Profile \<Rightarrow> serr option" where
  "unappliable ck prev p =
    (case Validate ck p of
       Some err \<Rightarrow>
         (case err of
            DisabledRef _ _ _ _ \<Rightarrow>
              (case prev of
                 Some q \<Rightarrow> if Validate ck q = None then Some (Unappliable err) else None
               | None \<Rightarrow> None)
          | _ \<Rightarrow> None)
     | None \<Rightarrow> None)"

definition publish :: "Env \<Rightarrow> Profile \<Rightarrow> Store \<Rightarrow> Store \<times> serr option" where
  "publish env p s =
    (let prev = map_option fst (stCur s)
     in case unappliable (enChecks env) prev p of
          Some e \<Rightarrow> (s, Some e)
        | None \<Rightarrow>
           (case newlyStrandedResolvers prev p of
              Some e \<Rightarrow> (s, Some e)
            | None \<Rightarrow>
               (case enWrite env of
                  Some m \<Rightarrow> (s, Some (WriteFailed m))
                | None \<Rightarrow> (s\<lparr>stCur := Some (p, (case stCur s of None \<Rightarrow> 0 | Some (q, g) \<Rightarrow> g) + 1), stDisk := Holds p\<rparr>, None))))"

text \<open>A writer: edit a copy of the published profile under the lock, publish it unless the edit refuses.\<close>

definition commit_edit :: "Env \<Rightarrow> (Profile \<Rightarrow> serr + Profile) \<Rightarrow> Store \<Rightarrow> Store \<times> serr option" where
  "commit_edit env edit s = (case edit (profile_of s) of Inl e \<Rightarrow> (s, Some e) | Inr p \<Rightarrow> publish env p s)"

text \<open>\<open>Open\<close>: the random word of \<open>startGen\<close> is an argument. A missing or blank file is replaced by an empty
  profile; the store exists even when that write fails.\<close>

definition startGen :: "64 word \<Rightarrow> 64 word" where
  "startGen r = drop_bit 12 r"

definition Open_store :: "Env \<Rightarrow> 64 word \<Rightarrow> stored \<Rightarrow> Store option \<times> serr option" where
  "Open_store env r f =
    (case f of
       Unreadable \<Rightarrow> (None, Some (Refused ''read profile'' []))
     | Corrupt \<Rightarrow> (None, Some (Refused ''parse profile'' []))
     | Holds p \<Rightarrow> (Some \<lparr>stCur = Some (p, startGen r), stDisk = f\<rparr>, None)
     | _ \<Rightarrow> (case enWrite env of
              None \<Rightarrow> (Some \<lparr>stCur = Some (empty_profile, startGen r), stDisk = Holds empty_profile\<rparr>, None)
            | Some m \<Rightarrow> (Some \<lparr>stCur = Some (empty_profile, startGen r), stDisk = f\<rparr>, Some (WriteFailed m))))"

definition Replace :: "Env \<Rightarrow> Profile \<Rightarrow> Store \<Rightarrow> Store \<times> serr option" where
  "Replace env p s =
    (case Validate (enChecks env) p of
       Some e \<Rightarrow> (s, Some (Invalid e))
     | None \<Rightarrow> publish env (p\<lparr>prEndpoints := map (\<lambda>e. e\<lparr>epImport := ''''\<rparr>) (prEndpoints p)\<rparr>) s)"

text \<open>\<open>Reconcile\<close>: the function returns the edited copy, or none when it reports no change.\<close>

definition Reconcile :: "Env \<Rightarrow> (Profile \<Rightarrow> Profile option) \<Rightarrow> Store \<Rightarrow> Store \<times> serr option" where
  "Reconcile env fn s = (case fn (profile_of s) of None \<Rightarrow> (s, None) | Some p \<Rightarrow> publish env p s)"

section \<open>Revisions\<close>

datatype Rev = AnyRev | At string

record Saved =
  svdWas :: string
  svdRev :: string

definition checkRev :: "Rev \<Rightarrow> string option \<Rightarrow> serr option" where
  "checkRev rv cur =
    (case rv of
       AnyRev \<Rightarrow> None
     | At tag \<Rightarrow> (case cur of
                   None \<Rightarrow> Some (ErrStale ''it no longer exists'')
                 | Some c \<Rightarrow> if c \<noteq> tag then Some (ErrStale ''another revision'') else None))"

definition RoutingListRev :: "Env \<Rightarrow> RoutingList \<Rightarrow> string" where
  "RoutingListRev env rl = enRevL env (rl\<lparr>rlCIDRCache := [], rlCIDRRefreshed := 0, rlDomainCache := [], rlDomainRefreshed := 0\<rparr>)"

text \<open>A write made at a revision: refused when the stored object is not at it; what it reports is the stored
  object's revision before and, when it committed, after. An edit that refuses says whether the revision is
  reported with the refusal.\<close>

definition commit_at :: "Env \<Rightarrow> Rev \<Rightarrow> (Profile \<Rightarrow> string option) \<Rightarrow> (Profile \<Rightarrow> (bool \<times> serr) + (Profile \<times> string)) \<Rightarrow> Store \<Rightarrow> Store \<times> Saved \<times> serr option" where
  "commit_at env rv cur edit s =
    (let was = cur (profile_of s); saved = \<lparr>svdWas = (case was of None \<Rightarrow> '''' | Some w \<Rightarrow> w), svdRev = ''''\<rparr>
     in case checkRev rv was of
          Some e \<Rightarrow> (s, saved, Some e)
        | None \<Rightarrow>
           (case edit (profile_of s) of
              Inl (report, e) \<Rightarrow> (s, if report then saved else \<lparr>svdWas = '''', svdRev = ''''\<rparr>, Some e)
            | Inr (p, new) \<Rightarrow>
               (case publish env p s of
                  (s', Some e) \<Rightarrow> (s', saved, Some e)
                | (s', None) \<Rightarrow> (s', saved\<lparr>svdRev := new\<rparr>, None))))"

section \<open>Connections, groups, rules and device groups\<close>

text \<open>Replace the first entry with the same id, or append.\<close>

fun put :: "('a \<Rightarrow> id) \<Rightarrow> 'a \<Rightarrow> 'a list \<Rightarrow> 'a list" where
  "put key x [] = [x]"
| "put key x (y # ys) = (if key y = key x then x # ys else y # put key x ys)"

definition UpsertEndpointAt :: "Env \<Rightarrow> Endpoint \<Rightarrow> Rev \<Rightarrow> Store \<Rightarrow> Store \<times> Saved \<times> serr option" where
  "UpsertEndpointAt env e0 rv s =
    (if epID e0 = '''' then (s, \<lparr>svdWas = '''', svdRev = ''''\<rparr>, Some (Refused ''endpoint id is required'' []))
     else let e = e0\<lparr>epImport := ''''\<rparr>
          in commit_at env rv (\<lambda>p. map_option (enRevE env) (EndpointByID p (epID e)))
               (\<lambda>p. Inr (p\<lparr>prEndpoints := put epID e (prEndpoints p)\<rparr>, enRevE env e)) s)"

text \<open>The batch form: \<open>idx\<close> maps an id to the index of the last endpoint carrying it.\<close>

record Batch =
  btEps :: "Endpoint list"
  btIdx :: "id \<Rightarrow> nat option"
  btSkipped :: "nat list"

definition batch_step :: "Batch \<Rightarrow> nat \<times> Endpoint \<Rightarrow> Batch" where
  "batch_step b ke =
    (let e = (snd ke)\<lparr>epImport := ''''\<rparr>
     in if epID e = '''' then b\<lparr>btSkipped := btSkipped b @ [fst ke]\<rparr>
        else (case btIdx b (epID e) of
                Some i \<Rightarrow> b\<lparr>btEps := (btEps b)[i := e]\<rparr>
              | None \<Rightarrow> b\<lparr>btIdx := (btIdx b)(epID e \<mapsto> length (btEps b)), btEps := btEps b @ [e]\<rparr>))"

definition last_index :: "('a \<Rightarrow> id) \<Rightarrow> 'a list \<Rightarrow> id \<Rightarrow> nat option" where
  "last_index key xs = foldl (\<lambda>m ix. m(key (snd ix) \<mapsto> fst ix)) Map.empty (enumerate 0 xs)"

definition batch :: "Endpoint list \<Rightarrow> Profile \<Rightarrow> Batch" where
  "batch eps p = foldl batch_step \<lparr>btEps = prEndpoints p, btIdx = last_index epID (prEndpoints p), btSkipped = []\<rparr> (enumerate 0 eps)"

definition upsertEndpoints :: "Env \<Rightarrow> Endpoint list \<Rightarrow> 64 word option \<Rightarrow> Store \<Rightarrow> Store \<times> nat list \<times> serr option" where
  "upsertEndpoints env eps wantGen s =
    (if eps = [] then (s, [], None)
     else if wantGen \<noteq> None \<and> wantGen \<noteq> Some (Gen s) then (s, [], Some (ErrStaleGen (the wantGen) (Gen s)))
     else let b = batch eps (profile_of s)
          in case publish env ((profile_of s)\<lparr>prEndpoints := btEps b\<rparr>) s of (s', r) \<Rightarrow> (s', btSkipped b, r))"

definition onlyMember :: "id list \<Rightarrow> id \<Rightarrow> bool" where
  "onlyMember members i \<longleftrightarrow> members \<noteq> [] \<and> list_all (\<lambda>m. m = i) members"

definition removeString :: "id list \<Rightarrow> id \<Rightarrow> id list" where
  "removeString ss target = filter (\<lambda>s. s \<noteq> target) ss"

definition usesVPNResolvers :: "DNSServer \<Rightarrow> id \<Rightarrow> bool" where
  "usesVPNResolvers ds i \<longleftrightarrow> dsEnabled ds \<and> IsVPNDNSType (dsType ds) \<and> TrimSpace (dsEndpoint ds) = i"

definition servers_of :: "Profile \<Rightarrow> DNSServer list" where
  "servers_of p = (case prDNS p of None \<Rightarrow> [] | Some d \<Rightarrow> dnServers d)"

definition dns_rules_of :: "Profile \<Rightarrow> DNSRule list" where
  "dns_rules_of p = (case prDNS p of None \<Rightarrow> [] | Some d \<Rightarrow> dnRules d)"

text \<open>A loop that refuses at the first entry satisfying a condition; the first refusal of a sequence.\<close>

definition hit :: "('a \<Rightarrow> bool) \<Rightarrow> 'a list \<Rightarrow> ('a \<Rightarrow> serr) \<Rightarrow> serr option" where
  "hit P xs err = map_option err (find P xs)"

fun refuse :: "serr option list \<Rightarrow> Profile \<Rightarrow> serr + Profile" where
  "refuse [] p = Inr p"
| "refuse (Some e # rs) p = Inl e"
| "refuse (None # rs) p = refuse rs p"

text \<open>Drop the object with an id, or report that it is not there.\<close>

definition prune_members :: "id \<Rightarrow> Group list \<Rightarrow> Group list" where
  "prune_members i = map (\<lambda>g. g\<lparr>grMembers := removeString (grMembers g) i\<rparr>)"

definition missing :: "('a \<Rightarrow> id) \<Rightarrow> 'a list \<Rightarrow> id \<Rightarrow> string \<Rightarrow> serr option" where
  "missing key xs i fmt = (if list_all (\<lambda>x. key x \<noteq> i) xs then Some (Refused fmt [AS i]) else None)"

definition delete_endpoint :: "id \<Rightarrow> Profile \<Rightarrow> serr + Profile" where
  "delete_endpoint i p = refuse
    [hit (\<lambda>r. ruOutbound r = i) (prRules p) (\<lambda>r. Refused ''endpoint %q is used by rule %q; repoint it first'' [AS i, AS (ruID r)]),
     hit (\<lambda>g. onlyMember (grMembers g) i) (prGroups p)
       (\<lambda>g. Refused ''endpoint %q is the only member of group %q; remove or repoint that group first'' [AS i, AS (grID g)]),
     hit (\<lambda>rl. rlOutbound rl = i \<or> rlDownloadVia rl = i) (prRoutingLists p)
       (\<lambda>rl. Refused ''endpoint %q is used by routing list %q (route/download via); repoint it first'' [AS i, AS (rlID rl)]),
     hit (\<lambda>ds. dsDetour ds = i \<or> usesVPNResolvers ds i) (servers_of p)
       (\<lambda>ds. if dsDetour ds = i then Refused ''endpoint %q is used by DNS server %q (detour); repoint it first'' [AS i, AS (dsTag ds)]
             else Refused ''endpoint %q is used by DNS server %q (its pushed resolvers)'' [AS i, AS (dsTag ds), AS (dsType ds)]),
     missing epID (prEndpoints p) i ''endpoint %q not found'']
    (p\<lparr>prEndpoints := filter (\<lambda>e. epID e \<noteq> i) (prEndpoints p), prGroups := prune_members i (prGroups p)\<rparr>)"

definition DeleteEndpoint :: "Env \<Rightarrow> id \<Rightarrow> Store \<Rightarrow> Store \<times> serr option" where
  "DeleteEndpoint env i = commit_edit env (delete_endpoint i)"

definition UpsertGroupAt :: "Env \<Rightarrow> Group \<Rightarrow> Rev \<Rightarrow> Store \<Rightarrow> Store \<times> Saved \<times> serr option" where
  "UpsertGroupAt env g rv s =
    (if grID g = '''' then (s, \<lparr>svdWas = '''', svdRev = ''''\<rparr>, Some (Refused ''group id is required'' []))
     else commit_at env rv (\<lambda>p. map_option (enRevG env) (GroupByID p (grID g)))
            (\<lambda>p. Inr (p\<lparr>prGroups := put grID g (prGroups p)\<rparr>, enRevG env g)) s)"

definition delete_group :: "id \<Rightarrow> Profile \<Rightarrow> serr + Profile" where
  "delete_group i p = refuse
    [hit (\<lambda>r. ruOutbound r = i) (prRules p) (\<lambda>r. Refused ''group %q is used by rule %q; repoint it first'' [AS i, AS (ruID r)]),
     hit (\<lambda>g. grID g \<noteq> i \<and> onlyMember (grMembers g) i) (prGroups p)
       (\<lambda>g. Refused ''group %q is the only member of group %q; remove or repoint that group first'' [AS i, AS (grID g)]),
     hit (\<lambda>rl. rlOutbound rl = i \<or> rlDownloadVia rl = i) (prRoutingLists p)
       (\<lambda>rl. Refused ''group %q is used by routing list %q (route/download via); repoint it first'' [AS i, AS (rlID rl)]),
     hit (\<lambda>ds. dsDetour ds = i) (servers_of p)
       (\<lambda>ds. Refused ''group %q is used by DNS server %q (detour); repoint it first'' [AS i, AS (dsTag ds)]),
     missing grID (prGroups p) i ''group %q not found'']
    (p\<lparr>prGroups := prune_members i (filter (\<lambda>g. grID g \<noteq> i) (prGroups p))\<rparr>)"

definition DeleteGroup :: "Env \<Rightarrow> id \<Rightarrow> Store \<Rightarrow> Store \<times> serr option" where
  "DeleteGroup env i = commit_edit env (delete_group i)"

definition UpsertRule :: "Env \<Rightarrow> Rule \<Rightarrow> Store \<Rightarrow> Store \<times> serr option" where
  "UpsertRule env r s =
    (if ruID r = '''' then (s, Some (Refused ''rule id is required'' []))
     else commit_edit env (\<lambda>p. Inr (p\<lparr>prRules := put ruID r (prRules p)\<rparr>)) s)"

definition delete_rule :: "id \<Rightarrow> Profile \<Rightarrow> serr + Profile" where
  "delete_rule i p = refuse [missing ruID (prRules p) i ''rule %q not found''] (p\<lparr>prRules := filter (\<lambda>r. ruID r \<noteq> i) (prRules p)\<rparr>)"

definition DeleteRule :: "Env \<Rightarrow> id \<Rightarrow> Store \<Rightarrow> Store \<times> serr option" where
  "DeleteRule env i = commit_edit env (delete_rule i)"

definition UpsertDeviceGroup :: "Env \<Rightarrow> DeviceGroup \<Rightarrow> Store \<Rightarrow> Store \<times> serr option" where
  "UpsertDeviceGroup env g s =
    (if dgID g = '''' then (s, Some (Refused ''device group id is required'' []))
     else commit_edit env (\<lambda>p. Inr (p\<lparr>prDeviceGroups := put dgID g (prDeviceGroups p)\<rparr>)) s)"

definition prune_scope :: "id \<Rightarrow> RoutingList \<Rightarrow> RoutingList" where
  "prune_scope i rl =
    (let pruned = filter (\<lambda>g. g \<noteq> i) (rlScopeGroups rl)
     in if rlScopeGroups rl = [] \<or> length pruned = length (rlScopeGroups rl) then rl
        else if pruned = [] then rl\<lparr>rlScopeMode := '''', rlScopeGroups := []\<rparr>
        else rl\<lparr>rlScopeGroups := pruned\<rparr>)"

definition delete_device_group :: "id \<Rightarrow> Profile \<Rightarrow> serr + Profile" where
  "delete_device_group i p = refuse [missing dgID (prDeviceGroups p) i ''device group %q not found'']
    (p\<lparr>prDeviceGroups := filter (\<lambda>g. dgID g \<noteq> i) (prDeviceGroups p), prRoutingLists := map (prune_scope i) (prRoutingLists p)\<rparr>)"

definition DeleteDeviceGroup :: "Env \<Rightarrow> id \<Rightarrow> Store \<Rightarrow> Store \<times> serr option" where
  "DeleteDeviceGroup env i = commit_edit env (delete_device_group i)"

section \<open>Routing lists\<close>

text \<open>\<open>strings.EqualFold\<close> with a lower-case ASCII string: besides its capital, \<open>s\<close> folds with U+017F and \<open>k\<close>
  with U+212A.\<close>

fun fold_is :: "string \<Rightarrow> string \<Rightarrow> bool" where
  "fold_is s [] \<longleftrightarrow> s = []"
| "fold_is s (c # t) \<longleftrightarrow>
     (case s of [] \<Rightarrow> False | x # xs \<Rightarrow>
        (lower_char x = c \<and> fold_is xs t)
        \<or> (c = CHR ''s'' \<and> prefix [CHR 0xC5, CHR 0xBF] s \<and> fold_is (drop 2 s) t)
        \<or> (c = CHR ''k'' \<and> prefix [CHR 0xE2, CHR 0x84, CHR 0xAA] s \<and> fold_is (drop 3 s) t))"

text \<open>What follows the first occurrence of a separator, if it occurs.\<close>

fun after_sub :: "string \<Rightarrow> string \<Rightarrow> string option" where
  "after_sub sep [] = (if sep = [] then Some [] else None)"
| "after_sub sep (x # xs) = (if prefix sep (x # xs) then Some (drop (length sep) (x # xs)) else after_sub sep xs)"

definition last_segment :: "char \<Rightarrow> string \<Rightarrow> string" where
  "last_segment c s = rev (takeWhile (\<lambda>x. x \<noteq> c) (rev s))"

definition RuleSetURLKind :: "string \<Rightarrow> string" where
  "RuleSetURLKind source =
    (let path = takeWhile (\<lambda>c. c \<notin> {CHR ''?'', CHR ''#''}) source;
         path = (case after_sub ''://'' path of None \<Rightarrow> path | Some rest \<Rightarrow> dropWhile (\<lambda>c. c \<noteq> CHR ''/'') rest);
         name = last_segment (CHR ''/'') path
     in if \<not> contains_char (CHR ''.'') name then ''''
        else if fold_is (CHR ''.'' # last_segment (CHR ''.'') name) ''.srs'' then ''binary''
        else if fold_is (CHR ''.'' # last_segment (CHR ''.'') name) ''.json'' then ''source''
        else ''text'')"

definition CarriedRuleSetFormat :: "string \<Rightarrow> string \<Rightarrow> bool" where
  "CarriedRuleSetFormat format newSource \<longleftrightarrow> RuleSetURLKind newSource = '''' \<or> RuleSetURLKind newSource = format"

definition carry_format :: "RoutingList \<Rightarrow> RoutingList \<Rightarrow> RoutingList" where
  "carry_format old rl =
    (if rlSource rl \<noteq> rlSource old \<and> rlFormat rl \<noteq> '''' \<and> rlFormat rl = rlFormat old \<and> \<not> CarriedRuleSetFormat (rlFormat rl) (rlSource rl)
     then rl\<lparr>rlFormat := ''''\<rparr> else rl)"

definition carry_cidrs :: "RoutingList \<Rightarrow> RoutingList \<Rightarrow> RoutingList" where
  "carry_cidrs old rl =
    (if rlCIDRSource rl \<noteq> rlCIDRSource old then rl\<lparr>rlCIDRCache := [], rlCIDRRefreshed := 0\<rparr>
     else if rlCIDRCache rl = [] then
       rl\<lparr>rlCIDRCache := rlCIDRCache old, rlCIDRRefreshed := (if rlCIDRRefreshed rl = 0 then rlCIDRRefreshed old else rlCIDRRefreshed rl)\<rparr>
     else rl)"

definition carry_domains :: "RoutingList \<Rightarrow> RoutingList \<Rightarrow> RoutingList" where
  "carry_domains old rl =
    (if rlDomainSource rl \<noteq> rlDomainSource old then rl\<lparr>rlDomainCache := [], rlDomainRefreshed := 0\<rparr>
     else if rlDomainCache rl = [] then
       rl\<lparr>rlDomainCache := rlDomainCache old, rlDomainRefreshed := (if rlDomainRefreshed rl = 0 then rlDomainRefreshed old else rlDomainRefreshed rl)\<rparr>
     else rl)"

definition merged_list :: "Profile \<Rightarrow> RoutingList \<Rightarrow> RoutingList" where
  "merged_list p rl =
    (case RoutingListByID p (rlID rl) of
       None \<Rightarrow> rl
     | Some old \<Rightarrow> carry_domains old (carry_cidrs old (carry_format old rl)))"

definition UpsertRoutingListAt :: "Env \<Rightarrow> RoutingList \<Rightarrow> Rev \<Rightarrow> Store \<Rightarrow> Store \<times> Saved \<times> serr option" where
  "UpsertRoutingListAt env rl rv s =
    (if rlID rl = '''' then (s, \<lparr>svdWas = '''', svdRev = ''''\<rparr>, Some (Refused ''routing list id is required'' []))
     else commit_at env rv (\<lambda>p. map_option (RoutingListRev env) (RoutingListByID p (rlID rl)))
            (\<lambda>p. Inr (p\<lparr>prRoutingLists := put rlID (merged_list p rl) (prRoutingLists p)\<rparr>, RoutingListRev env (merged_list p rl))) s)"

text \<open>Change the first entry that carries an id.\<close>

fun update_first :: "('a \<Rightarrow> bool) \<Rightarrow> ('a \<Rightarrow> 'a) \<Rightarrow> 'a list \<Rightarrow> 'a list" where
  "update_first P f [] = []"
| "update_first P f (x # xs) = (if P x then f x # xs else x # update_first P f xs)"

definition set_cache :: "int \<Rightarrow> id \<Rightarrow> string list \<Rightarrow> Profile \<Rightarrow> serr + Profile" where
  "set_cache now i cidrs p = refuse [missing rlID (prRoutingLists p) i ''routing list %q not found'']
    (p\<lparr>prRoutingLists := update_first (\<lambda>l. rlID l = i) (\<lambda>l. l\<lparr>rlCIDRCache := cidrs, rlCIDRRefreshed := now\<rparr>) (prRoutingLists p)\<rparr>)"

definition SetRoutingListCache :: "Env \<Rightarrow> id \<Rightarrow> string list \<Rightarrow> Store \<Rightarrow> Store \<times> serr option" where
  "SetRoutingListCache env i cidrs = commit_edit env (set_cache (enNow env) i cidrs)"

record CacheUpdate =
  cuSource :: string
  cuCIDRs :: "string list"
  cuDomainSource :: string
  cuDomains :: "string list"

definition cidr_hit :: "CacheUpdate \<Rightarrow> RoutingList \<Rightarrow> bool" where
  "cidr_hit up l \<longleftrightarrow> cuSource up \<noteq> '''' \<and> rlCIDRSource l = cuSource up"

definition domain_hit :: "CacheUpdate \<Rightarrow> RoutingList \<Rightarrow> bool" where
  "domain_hit up l \<longleftrightarrow> cuDomainSource up \<noteq> '''' \<and> rlDomainSource l = cuDomainSource up"

definition apply_update :: "int \<Rightarrow> CacheUpdate \<Rightarrow> RoutingList \<Rightarrow> RoutingList" where
  "apply_update now up l =
    (let l1 = (if cidr_hit up l then l\<lparr>rlCIDRCache := cuCIDRs up, rlCIDRRefreshed := now\<rparr> else l)
     in if domain_hit up l then l1\<lparr>rlDomainCache := cuDomains up, rlDomainRefreshed := now\<rparr> else l1)"

definition update_caches :: "int \<Rightarrow> (id \<rightharpoonup> CacheUpdate) \<Rightarrow> RoutingList list \<Rightarrow> RoutingList list" where
  "update_caches now caches = map (\<lambda>l. case caches (rlID l) of None \<Rightarrow> l | Some up \<Rightarrow> apply_update now up l)"

definition matched :: "(id \<rightharpoonup> CacheUpdate) \<Rightarrow> RoutingList list \<Rightarrow> nat" where
  "matched caches ls = length (filter (\<lambda>l. case caches (rlID l) of None \<Rightarrow> False | Some up \<Rightarrow> cidr_hit up l \<or> domain_hit up l) ls)"

definition SetRoutingListCaches :: "Env \<Rightarrow> (id \<times> CacheUpdate) list \<Rightarrow> Store \<Rightarrow> Store \<times> nat \<times> serr option" where
  "SetRoutingListCaches env caches s =
    (let p = profile_of s; m = matched (map_of caches) (prRoutingLists p)
     in if caches = [] \<or> m = 0 then (s, 0, None)
        else case publish env (p\<lparr>prRoutingLists := update_caches (enNow env) (map_of caches) (prRoutingLists p)\<rparr>) s of (s', r) \<Rightarrow> (s', m, r))"

definition delete_list :: "id \<Rightarrow> Profile \<Rightarrow> serr + Profile" where
  "delete_list i p = refuse
    [hit (\<lambda>r. \<not> drDisabled r \<and> i \<in> set (drRuleSets r)) (dns_rules_of p)
       (\<lambda>r. Refused ''routing list %q is used by DNS rule %q (rule_set); remove or repoint that DNS rule first'' [AS i, AS (drID r)]),
     missing rlID (prRoutingLists p) i ''routing list %q not found'']
    (p\<lparr>prRoutingLists := filter (\<lambda>l. rlID l \<noteq> i) (prRoutingLists p)\<rparr>)"

definition DeleteRoutingList :: "Env \<Rightarrow> id \<Rightarrow> Store \<Rightarrow> Store \<times> serr option" where
  "DeleteRoutingList env i = commit_edit env (delete_list i)"

text \<open>\<open>ReorderRoutingLists\<close>: the loop over the requested ids, with the ids seen and the lists gathered.\<close>

fun reorder :: "(id \<Rightarrow> nat option) \<Rightarrow> RoutingList list \<Rightarrow> id list \<Rightarrow> id set \<Rightarrow> RoutingList list \<Rightarrow> serr + RoutingList list" where
  "reorder byID ls [] seen out = Inr out"
| "reorder byID ls (i # ids) seen out =
     (case byID i of
        None \<Rightarrow> Inl (Refused ''reorder names unknown routing list %q'' [AS i])
      | Some k \<Rightarrow> if i \<in> seen then Inl (Refused ''reorder names routing list %q twice'' [AS i])
                  else reorder byID ls ids (insert i seen) (out @ [ls ! k]))"

definition reorder_lists :: "id list \<Rightarrow> Profile \<Rightarrow> serr + Profile" where
  "reorder_lists ids p =
    (if length ids \<noteq> length (prRoutingLists p)
     then Inl (Refused ''reorder must list every routing list exactly once: got %d, have %d'' [AI (int (length ids)), AI (int (length (prRoutingLists p)))])
     else (case reorder (last_index rlID (prRoutingLists p)) (prRoutingLists p) ids {} [] of
             Inl e \<Rightarrow> Inl e | Inr out \<Rightarrow> Inr (p\<lparr>prRoutingLists := out\<rparr>)))"

definition ReorderRoutingLists :: "Env \<Rightarrow> id list \<Rightarrow> Store \<Rightarrow> Store \<times> serr option" where
  "ReorderRoutingLists env ids = commit_edit env (reorder_lists ids)"

section \<open>The DNS plane\<close>

definition SetDNS :: "Env \<Rightarrow> DNSSettings option \<Rightarrow> Store \<Rightarrow> Store \<times> serr option" where
  "SetDNS env dns = commit_edit env (\<lambda>p. Inr (p\<lparr>prDNS := dns\<rparr>))"

definition SetDNSIfGen :: "Env \<Rightarrow> DNSSettings option \<Rightarrow> 64 word \<Rightarrow> Store \<Rightarrow> Store \<times> 64 word \<times> serr option" where
  "SetDNSIfGen env dns wantGen s =
    (if Gen s \<noteq> wantGen then (s, Gen s, Some (ErrStaleGen wantGen (Gen s)))
     else case SetDNS env dns s of (s', r) \<Rightarrow> (s', Gen s', r))"

section \<open>What stands in the way\<close>

record EndpointDependent =
  edKind :: string
  edID :: id
  edName :: string

definition dependent :: "string \<Rightarrow> id \<Rightarrow> string \<Rightarrow> EndpointDependent" where
  "dependent kind i name = \<lparr>edKind = kind, edID = i, edName = name\<rparr>"

definition GroupDeleteBlockers :: "id \<Rightarrow> Profile \<Rightarrow> EndpointDependent list" where
  "GroupDeleteBlockers i p =
     map (\<lambda>r. dependent ''rule'' (ruID r) (ruID r)) (filter (\<lambda>r. ruOutbound r = i) (prRules p))
   @ map (\<lambda>g. dependent ''sole_member_of'' (grID g) (grName g)) (filter (\<lambda>g. grID g \<noteq> i \<and> onlyMember (grMembers g) i) (prGroups p))
   @ map (\<lambda>l. dependent ''routing_list'' (rlID l) (rlName l)) (filter (\<lambda>l. rlOutbound l = i \<or> rlDownloadVia l = i) (prRoutingLists p))
   @ map (\<lambda>ds. dependent ''dns_detour'' (dsTag ds) (dsTag ds)) (filter (\<lambda>ds. dsDetour ds = i) (servers_of p))"

definition EndpointDependents :: "id \<Rightarrow> Profile \<Rightarrow> EndpointDependent list" where
  "EndpointDependents i p =
     map (\<lambda>r. dependent ''rule'' (ruID r) (ruID r)) (filter (\<lambda>r. ruOutbound r = i) (prRules p))
   @ concat (map (\<lambda>l. (if rlOutbound l = i then [dependent ''routing_list'' (rlID l) (rlName l)] else [])
                    @ (if rlDownloadVia l = i then [dependent ''download_via'' (rlID l) (rlName l)] else [])) (prRoutingLists p))
   @ concat (map (\<lambda>ds. (if dsDetour ds = i then [dependent ''dns_detour'' (dsTag ds) (dsTag ds)] else [])
                     @ (if usesVPNResolvers ds i then [dependent ''dns_server'' (dsTag ds) (dsTag ds)] else [])) (servers_of p))
   @ map (\<lambda>g. dependent ''group_member'' (grID g) (grName g)) (filter (\<lambda>g. onlyMember (grMembers g) i) (prGroups p))"

definition EndpointReplacements :: "id \<Rightarrow> Profile \<Rightarrow> id list" where
  "EndpointReplacements i p = [OutboundDirect, OutboundBlock] @ filter (\<lambda>e. e \<noteq> i) (map epID (prEndpoints p))
     @ map grID (filter (\<lambda>g. \<not> onlyMember (grMembers g) i) (prGroups p))"

definition EndpointDisableBlockers :: "id \<Rightarrow> Profile \<Rightarrow> EndpointDependent list" where
  "EndpointDisableBlockers i p = EndpointDependents i p
     @ map (\<lambda>g. dependent ''group_member'' (grID g) (grName g)) (filter (\<lambda>g. i \<in> set (grMembers g) \<and> \<not> onlyMember (grMembers g) i) (prGroups p))"

section \<open>Moving and parking dependents\<close>

definition outboundExists :: "Profile \<Rightarrow> id \<Rightarrow> bool" where
  "outboundExists p tag \<longleftrightarrow> tag = OutboundDirect \<or> tag = OutboundBlock \<or> EndpointByID p tag \<noteq> None \<or> GroupByID p tag \<noteq> None"

definition parkVPNResolver :: "string \<Rightarrow> DNSSettings \<Rightarrow> DNSSettings" where
  "parkVPNResolver tag d = d\<lparr>dnServers := map (\<lambda>s. if dsTag s = tag then s\<lparr>dsEnabled := False\<rparr> else s) (dnServers d),
     dnRules := map (\<lambda>r. if drServer r = tag then r\<lparr>drDisabled := True\<rparr> else r) (dnRules d)\<rparr>"

definition vpnResolverTarget :: "Profile \<Rightarrow> DNSServer list \<Rightarrow> string \<Rightarrow> id \<Rightarrow> bool" where
  "vpnResolverTarget p servers typ i \<longleftrightarrow>
    (case EndpointByID p i of
       None \<Rightarrow> False
     | Some e \<Rightarrow> epEnabled e \<and> epEngine e = EngineSingBox \<and> epProtocol e = typ \<and> \<not> list_ex (\<lambda>ds. usesVPNResolvers ds i) servers)"

text \<open>The loops over the servers change the slice they run over: the state is the DNS plane, the range its
  indices.\<close>

definition repoint_server :: "Profile \<Rightarrow> id \<Rightarrow> id \<Rightarrow> DNSSettings \<Rightarrow> nat \<Rightarrow> DNSSettings" where
  "repoint_server p i repl d k =
    (let ds = dnServers d ! k
     in if \<not> usesVPNResolvers ds i then d
        else if vpnResolverTarget p (dnServers d) (dsType ds) repl then d\<lparr>dnServers := (dnServers d)[k := ds\<lparr>dsEndpoint := repl\<rparr>]\<rparr>
        else parkVPNResolver (dsTag ds) d)"

definition move_detour :: "id \<Rightarrow> id \<Rightarrow> DNSServer \<Rightarrow> DNSServer" where
  "move_detour i repl s = (if dsDetour s = i then s\<lparr>dsDetour := repl\<rparr> else s)"

definition repoint_dns :: "Profile \<Rightarrow> id \<Rightarrow> id \<Rightarrow> DNSSettings \<Rightarrow> DNSSettings" where
  "repoint_dns p i repl d =
    (let d1 = d\<lparr>dnServers := map (move_detour i repl) (dnServers d)\<rparr>
     in foldl (repoint_server p i repl) d1 [0..<length (dnServers d1)])"

definition move_rule :: "id \<Rightarrow> id \<Rightarrow> Rule \<Rightarrow> Rule" where
  "move_rule i repl r = (if ruOutbound r = i then r\<lparr>ruOutbound := repl\<rparr> else r)"

definition move_list :: "id \<Rightarrow> id \<Rightarrow> RoutingList \<Rightarrow> RoutingList" where
  "move_list i repl l =
    (let l1 = (if rlOutbound l = i then l\<lparr>rlOutbound := repl\<rparr> else l)
     in if rlDownloadVia l1 = i then l1\<lparr>rlDownloadVia := repl\<rparr> else l1)"

definition repointDependents :: "id \<Rightarrow> id \<Rightarrow> Profile \<Rightarrow> Profile" where
  "repointDependents i repl p = p\<lparr>prRules := map (move_rule i repl) (prRules p), prRoutingLists := map (move_list i repl) (prRoutingLists p),
     prDNS := map_option (repoint_dns p i repl) (prDNS p)\<rparr>"

definition park_rule :: "id \<Rightarrow> Rule \<Rightarrow> Rule" where
  "park_rule i r = (if ruOutbound r = i then r\<lparr>ruOutbound := OutboundDirect, ruDisabled := True\<rparr> else r)"

definition park_list :: "id \<Rightarrow> RoutingList \<Rightarrow> RoutingList" where
  "park_list i l =
    (let l1 = (if rlOutbound l = i then l\<lparr>rlOutbound := OutboundDirect, rlEnabled := False\<rparr> else l)
     in if rlDownloadVia l1 = i then l1\<lparr>rlDownloadVia := ''''\<rparr> else l1)"

definition park_server :: "id \<Rightarrow> DNSSettings \<Rightarrow> nat \<Rightarrow> DNSSettings" where
  "park_server i d k =
    (let d1 = d\<lparr>dnServers := (dnServers d)[k := move_detour i '''' (dnServers d ! k)]\<rparr>
     in if usesVPNResolvers (dnServers d1 ! k) i then parkVPNResolver (dsTag (dnServers d1 ! k)) d1 else d1)"

definition park_dns :: "id \<Rightarrow> DNSSettings \<Rightarrow> DNSSettings" where
  "park_dns i d = foldl (park_server i) d [0..<length (dnServers d)]"

definition parkDependents :: "id \<Rightarrow> Profile \<Rightarrow> Profile" where
  "parkDependents i p = p\<lparr>prRules := map (park_rule i) (prRules p), prRoutingLists := map (park_list i) (prRoutingLists p),
     prDNS := map_option (park_dns i) (prDNS p)\<rparr>"

section \<open>Deleting with a replacement or a detach\<close>

definition refill :: "id \<Rightarrow> id \<Rightarrow> bool \<Rightarrow> Group \<Rightarrow> Group" where
  "refill i repl isEndpoint g =
    (let ms = removeString (grMembers g) i in g\<lparr>grMembers := (if ms = [] \<and> isEndpoint then [repl] else ms)\<rparr>)"

definition delete_replacing :: "id \<Rightarrow> id \<Rightarrow> Profile \<Rightarrow> serr + Profile" where
  "delete_replacing i repl p =
    (let isEndpoint = EndpointByID p repl \<noteq> None; p1 = repointDependents i repl p
     in refuse
       [if outboundExists p repl then None else Some (Refused ''replacement outbound %q does not exist'' [AS repl]),
        hit (\<lambda>g. onlyMember (grMembers g) i \<and> \<not> isEndpoint) (prGroups p)
          (\<lambda>g. Refused ''group %q would be left with no members; choose a connection, not %q'' [AS (grID g), AS repl]),
        missing epID (prEndpoints p1) i ''endpoint %q not found'']
       (p1\<lparr>prEndpoints := filter (\<lambda>e. epID e \<noteq> i) (prEndpoints p1), prGroups := map (refill i repl isEndpoint) (prGroups p1)\<rparr>))"

definition DeleteEndpointReplacing :: "Env \<Rightarrow> id \<Rightarrow> id \<Rightarrow> Store \<Rightarrow> Store \<times> serr option" where
  "DeleteEndpointReplacing env i repl s =
    (if repl = '''' then DeleteEndpoint env i s
     else if repl = i then (s, Some (Refused ''endpoint %q cannot replace itself'' [AS i]))
     else commit_edit env (delete_replacing i repl) s)"

definition detach_endpoint :: "id \<Rightarrow> Profile \<Rightarrow> serr + Profile" where
  "detach_endpoint i p =
    (let p1 = parkDependents i p
     in refuse
       [hit (\<lambda>g. onlyMember (grMembers g) i) (prGroups p)
          (\<lambda>g. Refused ''group %q has no other members; delete that group or pick a replacement connection'' [AS (grID g)]),
        missing epID (prEndpoints p1) i ''endpoint %q not found'']
       (p1\<lparr>prEndpoints := filter (\<lambda>e. epID e \<noteq> i) (prEndpoints p1), prGroups := prune_members i (prGroups p1)\<rparr>))"

definition DetachEndpointDependents :: "Env \<Rightarrow> id \<Rightarrow> Store \<Rightarrow> Store \<times> serr option" where
  "DetachEndpointDependents env i = commit_edit env (detach_endpoint i)"

section \<open>Switching a connection off\<close>

text \<open>\<open>replaceString\<close>: the names seen so far guard against duplicates.\<close>

definition replaceString :: "id list \<Rightarrow> id \<Rightarrow> id \<Rightarrow> id list" where
  "replaceString ss old repl = foldl (\<lambda>out s. let t = (if s = old then repl else s) in if t \<in> set out then out else out @ [t]) [] ss"

definition putEndpoint :: "Endpoint \<Rightarrow> Profile \<Rightarrow> Profile" where
  "putEndpoint e p = p\<lparr>prEndpoints := update_first (\<lambda>x. epID x = epID e) (\<lambda>_. e\<lparr>epImport := ''''\<rparr>) (prEndpoints p)\<rparr>"

text \<open>\<open>groupReaches\<close>: the walk over one node's members, with the shared set of nodes seen.\<close>

function reach_members :: "Profile \<Rightarrow> id \<Rightarrow> id list \<Rightarrow> id list \<Rightarrow> bool \<times> id list" where
  "reach_members p target [] seen = (False, seen)"
| "reach_members p target (m # ms) seen =
     (if m = target then (True, seen)
      else case (if m \<in> set seen then (False, seen)
                 else (case GroupByID p m of
                         None \<Rightarrow> (False, m # seen)
                       | Some g \<Rightarrow> reach_members p target (grMembers g) (m # seen))) of
             (True, seen') \<Rightarrow> (True, seen')
           | (False, seen') \<Rightarrow> reach_members p target ms seen')"
  by pat_completeness auto

definition unvisited :: "Profile \<Rightarrow> id list \<Rightarrow> nat" where
  "unvisited p seen = card (grID ` set (prGroups p) - set seen)"

lemma unvisited_mono: "set seen \<subseteq> set seen' \<Longrightarrow> unvisited p seen' \<le> unvisited p seen"
  unfolding unvisited_def by (rule card_mono) auto

lemma unvisited_less: "GroupByID p m = Some g \<Longrightarrow> m \<notin> set seen \<Longrightarrow> unvisited p (m # seen) < unvisited p seen"
  unfolding unvisited_def by (rule psubset_card_mono) (auto dest: GroupByID_Some)

lemma reach_dom_keeps: "reach_members_dom (p, target, ms, seen) \<Longrightarrow> set seen \<subseteq> set (snd (reach_members p target ms seen))"
proof (induction p target ms seen rule: reach_members.pinduct)
  case (1 p target seen)
  then show ?case by (simp add: reach_members.psimps)
next
  case (2 p target m ms seen)
  let ?r = "if m \<in> set seen then (False, seen)
                 else (case GroupByID p m of None \<Rightarrow> (False, m # seen) | Some g \<Rightarrow> reach_members p target (grMembers g) (m # seen))"
  have sub: "set seen \<subseteq> set (snd ?r)" if "m \<noteq> target" using 2(2)[OF that] by (auto split: option.split)
  show ?case
  proof (cases "m = target")
    case True
    then show ?thesis using 2(1) by (simp add: reach_members.psimps)
  next
    case False
    obtain b seen' where r: "?r = (b, seen')" by fastforce
    then have "set seen \<subseteq> set seen'" using sub[OF False] by simp
    moreover have "set seen' \<subseteq> set (snd (reach_members p target ms seen'))" if "\<not> b" using 2(3)[OF False r[symmetric]] that by simp
    ultimately show ?thesis using 2(1) False r by (cases b) (auto simp: reach_members.psimps)
  qed
qed

termination reach_members
proof (relation "(\<lambda>(p, target, ms, seen). unvisited p seen) <*mlex*> measure (\<lambda>(p, target, ms, seen). length ms)", goal_cases)
  case 1
  show ?case by (simp add: wf_mlex)
next
  case (2 p target m ms seen g)
  then show ?case by (intro mlex_less) (simp add: unvisited_less)
next
  case (3 p target m ms seen b seen')
  have "set seen \<subseteq> set seen'"
  proof (cases "m \<in> set seen \<or> GroupByID p m = None")
    case True
    then show ?thesis using 3 by (auto split: if_splits option.splits)
  next
    case False
    then obtain g where "GroupByID p m = Some g" "m \<notin> set seen" by auto
    then have "reach_members_dom (p, target, grMembers g, m # seen)" "reach_members p target (grMembers g) (m # seen) = (b, seen')"
      using 3 by auto
    then show ?thesis using reach_dom_keeps[of p target "grMembers g" "m # seen"] by simp
  qed
  then show ?case by (intro mlex_leq) (simp_all add: unvisited_mono)
qed

definition groupReaches :: "Profile \<Rightarrow> id \<Rightarrow> id \<Rightarrow> bool" where
  "groupReaches p from target = (case GroupByID p from of None \<Rightarrow> False | Some g \<Rightarrow> fst (reach_members p target (grMembers g) [from]))"

definition EndpointDisableReplacements :: "id \<Rightarrow> Profile \<Rightarrow> id list" where
  "EndpointDisableReplacements i p =
    (if list_ex (\<lambda>g. i \<in> set (grMembers g)) (prGroups p)
     then filter (\<lambda>t. t \<noteq> OutboundDirect \<and> t \<noteq> OutboundBlock \<and> \<not> groupReaches p t i) (EndpointReplacements i p)
     else EndpointReplacements i p)"

definition swap_member :: "id \<Rightarrow> id \<Rightarrow> Group \<Rightarrow> Group" where
  "swap_member i repl g = (if i \<in> set (grMembers g) then g\<lparr>grMembers := replaceString (grMembers g) i repl\<rparr> else g)"

definition disable_replacing :: "Env \<Rightarrow> Endpoint \<Rightarrow> id \<Rightarrow> Profile \<Rightarrow> (bool \<times> serr) + (Profile \<times> string)" where
  "disable_replacing env e repl p =
    (let i = epID e; p1 = putEndpoint e p; memberable = EndpointByID p1 repl \<noteq> None \<or> GroupByID p1 repl \<noteq> None
     in if \<not> outboundExists p repl then Inl (True, Refused ''replacement outbound %q does not exist'' [AS repl])
        else if EndpointByID p i = None then Inl (True, Refused ''endpoint %q not found'' [AS i])
        else if groupReaches p1 repl i then Inl (False, Refused ''group %q holds this connection, so it cannot take its place'' [AS repl])
        else case find (\<lambda>g. i \<in> set (grMembers g) \<and> \<not> memberable) (prGroups p1) of
               Some g \<Rightarrow> Inl (False, Refused ''group %q holds this connection; %q cannot be a member'' [AS (grID g), AS repl])
             | None \<Rightarrow> Inr (repointDependents i repl (p1\<lparr>prGroups := map (swap_member i repl) (prGroups p1)\<rparr>), enRevE env e))"

definition SetEndpointDisabledReplacingAt :: "Env \<Rightarrow> Endpoint \<Rightarrow> id \<Rightarrow> Rev \<Rightarrow> Store \<Rightarrow> Store \<times> Saved \<times> serr option" where
  "SetEndpointDisabledReplacingAt env e repl rv s =
    (let saved0 = \<lparr>svdWas = '''', svdRev = ''''\<rparr>
     in if epID e = '''' then (s, saved0, Some (Refused ''endpoint id is required'' []))
        else if repl = '''' then (s, saved0, Some (Refused ''a replacement outbound is required'' []))
        else if repl = epID e then (s, saved0, Some (Refused ''endpoint %q cannot replace itself'' [AS (epID e)]))
        else commit_at env rv (\<lambda>p. map_option (enRevE env) (EndpointByID p (epID e))) (disable_replacing env e repl) s)"

definition disable_detaching :: "Env \<Rightarrow> Endpoint \<Rightarrow> Profile \<Rightarrow> (bool \<times> serr) + (Profile \<times> string)" where
  "disable_detaching env e p =
    (let i = epID e
     in case find (\<lambda>g. onlyMember (grMembers g) i) (prGroups p) of
          Some g \<Rightarrow> Inl (False, Refused ''group %q has no other members; delete that group or pick a replacement connection'' [AS (grID g)])
        | None \<Rightarrow>
           if EndpointByID p i = None then Inl (True, Refused ''endpoint %q not found'' [AS i])
           else let p1 = parkDependents i (putEndpoint e p)
                in Inr (p1\<lparr>prGroups := prune_members i (prGroups p1)\<rparr>, enRevE env e))"

definition SetEndpointDisabledDetachingAt :: "Env \<Rightarrow> Endpoint \<Rightarrow> Rev \<Rightarrow> Store \<Rightarrow> Store \<times> Saved \<times> serr option" where
  "SetEndpointDisabledDetachingAt env e rv s =
    (if epID e = '''' then (s, \<lparr>svdWas = '''', svdRev = ''''\<rparr>, Some (Refused ''endpoint id is required'' []))
     else commit_at env rv (\<lambda>p. map_option (enRevE env) (EndpointByID p (epID e))) (disable_detaching env e) s)"

end
