(* ===== verification/Store_Run.thy ===== *)
theory Store_Run
  imports Profile_Store "HOL-Library.Multiset"
begin

text \<open>
  The store as a state machine: one write at a time, as the write lock orders them. Every write either leaves
  the store as it was or publishes and persists one new profile under the next generation, so the file and the
  published profile never diverge, a generation identifies one profile, and a conditional write cannot
  overwrite a change its author has not seen.
\<close>

datatype Op = OpReplace Profile | OpReconcile "Profile \<Rightarrow> Profile option"
  | OpUpsertEndpoint Endpoint Rev | OpUpsertEndpoints "Endpoint list" "64 word option" | OpDeleteEndpoint id
  | OpDeleteEndpointReplacing id id | OpDetachEndpoint id | OpDisableReplacing Endpoint id Rev | OpDisableDetaching Endpoint Rev
  | OpUpsertGroup Group Rev | OpDeleteGroup id | OpUpsertRule Rule | OpDeleteRule id
  | OpUpsertDeviceGroup DeviceGroup | OpDeleteDeviceGroup id
  | OpUpsertList RoutingList Rev | OpSetCache id "string list" | OpSetCaches "(id \<times> CacheUpdate) list" | OpDeleteList id | OpReorder "id list"
  | OpSetDNS "DNSSettings option" | OpSetDNSIfGen "DNSSettings option" "64 word"

definition outcome :: "'s \<times> 'r \<times> serr option \<Rightarrow> 's \<times> serr option" where
  "outcome x = (fst x, snd (snd x))"

fun exec :: "Env \<Rightarrow> Op \<Rightarrow> Store \<Rightarrow> Store \<times> serr option" where
  "exec env (OpReplace p) s = Replace env p s"
| "exec env (OpReconcile fn) s = Reconcile env fn s"
| "exec env (OpUpsertEndpoint e rv) s = outcome (UpsertEndpointAt env e rv s)"
| "exec env (OpUpsertEndpoints es g) s = outcome (upsertEndpoints env es g s)"
| "exec env (OpDeleteEndpoint i) s = DeleteEndpoint env i s"
| "exec env (OpDeleteEndpointReplacing i repl) s = DeleteEndpointReplacing env i repl s"
| "exec env (OpDetachEndpoint i) s = DetachEndpointDependents env i s"
| "exec env (OpDisableReplacing e repl rv) s = outcome (SetEndpointDisabledReplacingAt env e repl rv s)"
| "exec env (OpDisableDetaching e rv) s = outcome (SetEndpointDisabledDetachingAt env e rv s)"
| "exec env (OpUpsertGroup g rv) s = outcome (UpsertGroupAt env g rv s)"
| "exec env (OpDeleteGroup i) s = DeleteGroup env i s"
| "exec env (OpUpsertRule r) s = UpsertRule env r s"
| "exec env (OpDeleteRule i) s = DeleteRule env i s"
| "exec env (OpUpsertDeviceGroup g) s = UpsertDeviceGroup env g s"
| "exec env (OpDeleteDeviceGroup i) s = DeleteDeviceGroup env i s"
| "exec env (OpUpsertList l rv) s = outcome (UpsertRoutingListAt env l rv s)"
| "exec env (OpSetCache i cidrs) s = SetRoutingListCache env i cidrs s"
| "exec env (OpSetCaches cs) s = outcome (SetRoutingListCaches env cs s)"
| "exec env (OpDeleteList i) s = DeleteRoutingList env i s"
| "exec env (OpReorder ids) s = ReorderRoutingLists env ids s"
| "exec env (OpSetDNS d) s = SetDNS env d s"
| "exec env (OpSetDNSIfGen d g) s = outcome (SetDNSIfGen env d g s)"

definition store_step :: "Store \<Rightarrow> Env \<times> Op \<Rightarrow> Store" where
  "store_step s eo = fst (exec (fst eo) (snd eo) s)"

text \<open>A concrete environment: nothing is wrong with protocol parameters, the disk works or not, and the
  revision of an object is its name.\<close>

definition demo_env :: "string option \<Rightarrow> Env" where
  "demo_env w = \<lparr>enChecks = \<lparr>ckQUIC = (\<lambda>_. ''''), ckByeDPI = (\<lambda>_. None), ckRealm = (\<lambda>_. False), ckLoad = (\<lambda>_. '''')\<rparr>, enWrite = w,
     enNow = 0, enRevE = epName, enRevG = grName, enRevL = rlName\<rparr>"

definition demo_endpoint :: "id \<Rightarrow> string \<Rightarrow> Endpoint" where
  "demo_endpoint i name = \<lparr>epID = i, epName = name, epEngine = EngineSingBox, epProtocol = ''vless'', epOwner = '''', epServer = ''h'', epPort = 443,
     epParams = [], epTransport = None, epTLS = None, epMultiplex = None, epHealth = None, epEnabled = True, epMTU = 0, epPersistentKeepalive = 0, epAWGUserspace = False, epImport = ''''\<rparr>"

definition demo_store :: Store where
  "demo_store = \<lparr>stCur = Some (empty_profile\<lparr>prEndpoints := [demo_endpoint ''a'' ''v1'', demo_endpoint ''b'' ''w'']\<rparr>, 7),
     stDisk = Holds (empty_profile\<lparr>prEndpoints := [demo_endpoint ''a'' ''v1'', demo_endpoint ''b'' ''w'']\<rparr>)\<rparr>"

section \<open>All or nothing\<close>

definition committed :: "Store \<Rightarrow> Store \<Rightarrow> bool" where
  "committed s s' \<longleftrightarrow> (\<exists>p. stCur s' = Some (p, Gen s + 1) \<and> stDisk s' = Holds p)"

definition atomic :: "Store \<Rightarrow> Store \<times> serr option \<Rightarrow> bool" where
  "atomic s r \<longleftrightarrow> fst r = s \<or> snd r = None \<and> committed s (fst r)"

named_theorems atomic_intros \<open>a write is atomic\<close>

lemma atomic_same [atomic_intros]: "atomic s (s, r)"
  by (simp add: atomic_def)

lemma atomic_publish [atomic_intros]: "atomic s (publish env p s)"
  by (auto simp: atomic_def publish_def committed_def Gen_def Let_def split: option.split)

lemma atomic_commit [atomic_intros]: "atomic s (commit_edit env edit s)"
  by (auto simp: commit_edit_def intro: atomic_intros split: sum.split)

lemma outcome_simps [simp]: "outcome (s, x, r) = (s, r)"
  by (simp add: outcome_def)

lemma outcome_if: "outcome (if b then x else y) = (if b then outcome x else outcome y)"
  by simp

lemma outcome_publish [atomic_intros]: "atomic s (outcome (case publish env p s of (s', r) \<Rightarrow> (s', x, r)))"
  using atomic_publish[of s env p] by (cases "publish env p s") simp

lemma atomic_at [atomic_intros]: "atomic s (outcome (commit_at env rv cur edit s))"
proof -
  have "atomic s (outcome (case publish env p s of (s', Some e) \<Rightarrow> (s', x, Some e) | (s', None) \<Rightarrow> (s', y, None)))" for p x y
    using atomic_publish[of s env p] by (auto split: prod.split option.split)
  then show ?thesis by (auto simp: commit_at_def Let_def intro: atomic_intros split: option.split sum.split)
qed

lemma atomic_exec: "atomic s (exec env op s)"
proof (cases op)
  case (OpSetDNSIfGen d g)
  show ?thesis using atomic_commit[of s env "\<lambda>p. Inr (p\<lparr>prDNS := d\<rparr>)"]
    by (auto simp: OpSetDNSIfGen SetDNSIfGen_def SetDNS_def intro: atomic_intros split: prod.split)
next
  case (OpSetCaches cs)
  then show ?thesis by (simp add: SetRoutingListCaches_def Let_def atomic_intros)
qed (auto simp: Replace_def Reconcile_def UpsertEndpointAt_def upsertEndpoints_def DeleteEndpoint_def DeleteEndpointReplacing_def
    DetachEndpointDependents_def SetEndpointDisabledReplacingAt_def SetEndpointDisabledDetachingAt_def UpsertGroupAt_def DeleteGroup_def
    UpsertRule_def DeleteRule_def UpsertDeviceGroup_def DeleteDeviceGroup_def UpsertRoutingListAt_def SetRoutingListCache_def
    DeleteRoutingList_def ReorderRoutingLists_def SetDNS_def Let_def intro: atomic_intros split: option.split)

text \<open>C11. A write is all or nothing. Whatever the operation, whatever the durable write does: if it reports an
  error, the store and its file are exactly as before; if it changed anything, it published one new profile,
  with the generation advanced by one and the file holding that very profile.\<close>

theorem write_all_or_nothing:
  assumes "exec env op s = (s', r)"
  shows "(r \<noteq> None \<longrightarrow> s' = s) \<and> (s' \<noteq> s \<longrightarrow> Gen s' = Gen s + 1 \<and> stDisk s' = Holds (profile_of s'))"
  using atomic_exec[of s env op] assms by (auto simp: atomic_def committed_def Gen_def profile_of_def Snapshot_def)

theorem write_all_or_nothing_witness:
  "\<exists>s'. exec (demo_env None) (OpDeleteEndpoint ''a'') demo_store = (s', None) \<and> s' \<noteq> demo_store \<and> Gen s' = Gen demo_store + 1"
proof -
  let ?x = "exec (demo_env None) (OpDeleteEndpoint ''a'') demo_store"
  have d: "fst ?x \<noteq> demo_store \<and> snd ?x = None" by code_simp
  then obtain s' where r: "?x = (s', None)" by (metis prod.collapse)
  then show ?thesis using write_all_or_nothing[OF r] d by auto
qed

section \<open>Runs\<close>

definition durable :: "Store \<Rightarrow> bool" where
  "durable s \<longleftrightarrow> stCur s \<noteq> None \<and> stDisk s = Holds (profile_of s)"

lemma step_cases: "store_step s eo = s \<or> committed s (store_step s eo)"
  using atomic_exec[of s "fst eo" "snd eo"] by (auto simp: store_step_def atomic_def)

lemma committed_durable: "committed s s' \<Longrightarrow> durable s'"
  by (auto simp: durable_def committed_def profile_of_def Snapshot_def)

interpretation store: invariant_machine store_step durable
proof
  show "durable (store_step s e)" if "durable s" for s e
    using step_cases[of s e] that committed_durable by metis
qed

text \<open>The generation counts the commits of a run, modulo the width of the counter.\<close>

lemma run_gen:
  "\<exists>n \<le> length es. Gen (foldl store_step s es) = Gen s + of_nat n \<and> (n = 0 \<longrightarrow> foldl store_step s es = s)"
proof (induction es arbitrary: s)
  case Nil
  then show ?case by simp
next
  case (Cons e es)
  obtain n where n: "n \<le> length es" "Gen (foldl store_step (store_step s e) es) = Gen (store_step s e) + of_nat n"
    "n = 0 \<longrightarrow> foldl store_step (store_step s e) es = store_step s e" using Cons by blast
  show ?case
  proof (cases "store_step s e = s")
    case True
    then show ?thesis using n by (intro exI[of _ n]) auto
  next
    case False
    then have "Gen (store_step s e) = Gen s + 1" using step_cases[of s e] by (auto simp: committed_def Gen_def)
    then show ?thesis using n by (intro exI[of _ "Suc n"]) auto
  qed
qed

lemma same_gen_same_store:
  assumes "length es < 2 ^ 64" "Gen (foldl store_step s es) = Gen s"
  shows "foldl store_step s es = s"
proof -
  obtain n where n: "n \<le> length es" "Gen (foldl store_step s es) = Gen s + of_nat n" "n = 0 \<longrightarrow> foldl store_step s es = s"
    using run_gen by blast
  then have "(of_nat n :: 64 word) = 0" using assms(2) by simp
  moreover have "n < 2 ^ 64" using n(1) assms(1) by simp
  ultimately have "n = 0" using of_nat_inverse[where 'a = 64, of n 0] by simp
  then show ?thesis using n(3) by simp
qed

text \<open>C31. The file never falls behind. A store that was opened without an error keeps, after any sequence of
  writes with any mixture of failures, a file that holds exactly the published profile: what a restart would
  load is what readers see.\<close>

theorem file_holds_published:
  assumes "Open_store env r f = (Some s, None)"
  shows "stDisk (foldl store_step s es) = Holds (profile_of (foldl store_step s es))"
proof -
  have "durable s" using assms
    by (cases f) (auto simp: Open_store_def durable_def profile_of_def Snapshot_def split: option.splits)
  then show ?thesis using store.run_inv[of s es] by (simp add: durable_def)
qed

theorem file_holds_published_witness:
  "\<exists>s. Open_store (demo_env None) 0 Blank = (Some s, None)
     \<and> stDisk (foldl store_step s [(demo_env None, OpSetDNS None), (demo_env (Some ''EIO''), OpSetDNS None)])
       = Holds (profile_of (foldl store_step s [(demo_env None, OpSetDNS None), (demo_env (Some ''EIO''), OpSetDNS None)]))"
proof -
  obtain s where s: "Open_store (demo_env None) 0 Blank = (Some s, None)" by (simp add: Open_store_def demo_env_def)
  show ?thesis using file_holds_published[OF s] s by blast
qed

text \<open>C29. A generation identifies a profile. Between two moments of one process with the same generation
  nothing was published (as long as fewer than \<open>2^64\<close> writes happened), so a value cached under a generation
  is never stale; and a reader gets the pair from one load.\<close>

theorem same_generation_same_profile:
  assumes "length es < 2 ^ 64" "Gen (foldl store_step s es) = Gen s"
  shows "Snapshot (foldl store_step s es) = Snapshot s"
  using same_gen_same_store[OF assms] by simp

theorem same_generation_same_profile_witness:
  "Snapshot (foldl store_step demo_store [(demo_env (Some ''EIO''), OpSetDNS None)]) = Snapshot demo_store"
proof (rule same_generation_same_profile)
  show "Gen (foldl store_step demo_store [(demo_env (Some ''EIO''), OpSetDNS None)]) = Gen demo_store" by code_simp
qed simp

lemma publish_ok: "publish env p s = (s', None) \<Longrightarrow> stCur s' = Some (p, Gen s + 1) \<and> stDisk s' = Holds p"
  by (auto simp: publish_def Gen_def Let_def split: option.splits)

lemma commit_edit_ok: "commit_edit env edit s = (s', None) \<Longrightarrow> \<exists>p. edit (profile_of s) = Inr p \<and> stCur s' = Some (p, Gen s + 1)"
  by (auto simp: commit_edit_def split: sum.splits dest: publish_ok)

text \<open>C4. A save of the DNS page loses nothing. A client reads the profile and its generation, other writers
  run, and the client submits an edited DNS plane under the generation it read. If the save is accepted, the
  profile it is applied to is the very profile the client read: no write of anybody was discarded; and the
  generation it reports is that of the profile it stored.\<close>

theorem dns_save_loses_nothing:
  assumes "Snapshot s = (p, g)" "length es < 2 ^ 64" "SetDNSIfGen env dns g (foldl store_step s es) = (s', g', None)"
  shows "Snapshot s' = (p\<lparr>prDNS := dns\<rparr>, g') \<and> g' = g + 1"
proof -
  let ?t = "foldl store_step s es"
  have gs: "Gen s = g" using assms(1) by (auto simp: Snapshot_def Gen_def split: option.splits)
  have gt: "Gen ?t = g" "SetDNS env dns ?t = (s', None)" "g' = Gen s'"
    using assms(3) by (auto simp: SetDNSIfGen_def split: if_splits prod.splits)
  then have "?t = s" using same_gen_same_store[OF assms(2)] gs by simp
  then have "stCur s' = Some (p\<lparr>prDNS := dns\<rparr>, g + 1)"
    using gt(2) gs assms(1) commit_edit_ok[of env "\<lambda>p. Inr (p\<lparr>prDNS := dns\<rparr>)" s s'] by (simp add: SetDNS_def profile_of_def)
  then show ?thesis using gt(3) by (simp add: Snapshot_def Gen_def)
qed

theorem dns_save_loses_nothing_witness:
  "\<exists>p s' g'. Snapshot demo_store = (p, 7)
     \<and> SetDNSIfGen (demo_env None) None 7 (foldl store_step demo_store [(demo_env (Some ''EIO''), OpDeleteEndpoint ''a'')]) = (s', g', None)
     \<and> Snapshot s' = (p\<lparr>prDNS := None\<rparr>, g') \<and> g' = 7 + 1"
proof -
  let ?t = "foldl store_step demo_store [(demo_env (Some ''EIO''), OpDeleteEndpoint ''a'')]"
  obtain p where p: "Snapshot demo_store = (p, 7)" by (simp add: Snapshot_def demo_store_def)
  have "snd (snd (SetDNSIfGen (demo_env None) None 7 ?t)) = None" by code_simp
  then obtain s' g' where r: "SetDNSIfGen (demo_env None) None 7 ?t = (s', g', None)" by (metis prod.collapse)
  show ?thesis using dns_save_loses_nothing[OF p _ r] p r by auto
qed

section \<open>The generation as a number\<close>

lemma startGen_bound: "unat (startGen r) < 2 ^ 52"
proof -
  have "unat r < 2 ^ 64" using unsigned_less[of r] by simp
  then show ?thesis by (simp add: startGen_def drop_bit_eq_div unat_div less_mult_imp_div_less)
qed

text \<open>C39. Generations stay exact in the panel. The generation travels as a JSON number, which a browser keeps
  exactly only up to \<open>2^53\<close>. Whatever the random start, a store that has made at most \<open>2^52\<close> writes since it was
  opened hands out a generation below that bound, and the generation is the start plus the number of commits
  without any wrap-around.\<close>

theorem generation_is_exact:
  assumes "Open_store env r f = (Some s, x)" "length es \<le> 2 ^ 52"
  shows "unat (Gen (foldl store_step s es)) < 2 ^ 53 \<and> unat (Gen s) \<le> unat (Gen (foldl store_step s es))"
proof -
  have g: "Gen s = startGen r" using assms(1) by (auto simp: Open_store_def Gen_def split: stored.splits option.splits)
  obtain n where n: "n \<le> length es" "Gen (foldl store_step s es) = Gen s + of_nat n" using run_gen by blast
  have b: "unat (Gen s) < 2 ^ 52" unfolding g by (rule startGen_bound)
  then have "unat (Gen s) + n < 2 ^ 53" using n(1) assms(2) by simp
  moreover from this have "unat (Gen s + of_nat n) = unat (Gen s) + n"
    by (simp add: unat_word_ariths unat_of_nat)
  ultimately show ?thesis using n(2) by simp
qed

theorem generation_is_exact_witness:
  "\<exists>s. Open_store (demo_env None) (- 1) Missing = (Some s, None)
     \<and> unat (Gen (foldl store_step s [(demo_env None, OpSetDNS None)])) < 2 ^ 53
     \<and> unat (Gen s) \<le> unat (Gen (foldl store_step s [(demo_env None, OpSetDNS None)]))"
proof -
  obtain s where s: "Open_store (demo_env None) (- 1) Missing = (Some s, None)" by (simp add: Open_store_def demo_env_def)
  show ?thesis using generation_is_exact[OF s, of "[(demo_env None, OpSetDNS None)]"] s by auto
qed

section \<open>Writes at a revision\<close>

lemma find_put: "find (\<lambda>y. key y = j) (put key x xs) = (if j = key x then Some x else find (\<lambda>y. key y = j) xs)"
  by (induction xs) auto

lemma commit_at_ok:
  assumes "commit_at env rv cur edit s = (s', sv, None)"
  shows "\<exists>p new. edit (profile_of s) = Inr (p, new) \<and> publish env p s = (s', None) \<and> checkRev rv (cur (profile_of s)) = None
     \<and> sv = \<lparr>svdWas = (case cur (profile_of s) of None \<Rightarrow> '''' | Some w \<Rightarrow> w), svdRev = new\<rparr>"
  using assms by (auto simp: commit_at_def Let_def split: option.splits sum.splits prod.splits)

lemma checkRev_At: "checkRev (At tag) cur = None \<longleftrightarrow> cur = Some tag"
  by (auto simp: checkRev_def split: option.splits)

lemma publish_profile: "publish env p s = (s', None) \<Longrightarrow> profile_of s' = p"
  by (auto simp: profile_of_def Snapshot_def dest: publish_ok)

text \<open>C30. A save made at a revision overwrites only what its author saw. When a save of a connection at a
  revision commits, the stored connection existed and had that revision; the store then holds the submitted
  connection under its id, reports its revision, and every other connection and every other part of the
  profile is unchanged.\<close>

theorem endpoint_save_at_revision:
  assumes "UpsertEndpointAt env e (At tag) s = (s', sv, None)"
  shows "\<exists>old. EndpointByID (profile_of s) (epID e) = Some old \<and> enRevE env old = tag \<and> svdWas sv = tag
     \<and> EndpointByID (profile_of s') (epID e) = Some (e\<lparr>epImport := ''''\<rparr>) \<and> svdRev sv = enRevE env (e\<lparr>epImport := ''''\<rparr>)
     \<and> (\<forall>j. j \<noteq> epID e \<longrightarrow> EndpointByID (profile_of s') j = EndpointByID (profile_of s) j)
     \<and> (profile_of s')\<lparr>prEndpoints := []\<rparr> = (profile_of s)\<lparr>prEndpoints := []\<rparr>"
proof -
  let ?e = "e\<lparr>epImport := ''''\<rparr>"
  have "commit_at env (At tag) (\<lambda>p. map_option (enRevE env) (EndpointByID p (epID e)))
      (\<lambda>p. Inr (p\<lparr>prEndpoints := put epID ?e (prEndpoints p)\<rparr>, enRevE env ?e)) s = (s', sv, None)"
    using assms by (auto simp: UpsertEndpointAt_def Let_def split: if_splits)
  from commit_at_ok[OF this]
  have p: "publish env ((profile_of s)\<lparr>prEndpoints := put epID ?e (prEndpoints (profile_of s))\<rparr>) s = (s', None)"
    and c: "map_option (enRevE env) (EndpointByID (profile_of s) (epID e)) = Some tag"
    and sv: "svdWas sv = tag" "svdRev sv = enRevE env ?e"
    by (auto simp: checkRev_At)
  have n: "find (\<lambda>y. epID y = j) (put epID ?e xs) = (if j = epID e then Some ?e else find (\<lambda>y. epID y = j) xs)" for j xs
    using find_put[of epID j ?e] by simp
  show ?thesis using c sv publish_profile[OF p] by (auto simp: EndpointByID_def n)
qed

theorem endpoint_save_at_revision_witness:
  "\<exists>s' sv. UpsertEndpointAt (demo_env None) (demo_endpoint ''a'' ''v2'') (At ''v1'') demo_store = (s', sv, None) \<and> svdWas sv = ''v1''"
proof -
  have "snd (snd (UpsertEndpointAt (demo_env None) (demo_endpoint ''a'' ''v2'') (At ''v1'') demo_store)) = None" by code_simp
  then obtain s' sv where r: "UpsertEndpointAt (demo_env None) (demo_endpoint ''a'' ''v2'') (At ''v1'') demo_store = (s', sv, None)"
    by (metis prod.collapse)
  then show ?thesis using endpoint_save_at_revision[OF r] by blast
qed

section \<open>Reordering lists\<close>

lemma last_index_snoc: "last_index key (xs @ [x]) = (last_index key xs)(key x \<mapsto> length xs)"
  by (simp add: last_index_def enumerate_append_eq)

lemma last_index_Some: "last_index key xs i = Some k \<Longrightarrow> k < length xs \<and> key (xs ! k) = i"
proof (induction xs arbitrary: k rule: rev_induct)
  case Nil
  then show ?case by (simp add: last_index_def)
next
  case (snoc x xs)
  then show ?case by (fastforce simp: last_index_snoc nth_append split: if_splits)
qed

lemma last_index_None: "last_index key xs i = None \<longleftrightarrow> i \<notin> key ` set xs"
  by (induction xs rule: rev_induct) (auto simp: last_index_snoc, auto simp: last_index_def)

lemma reorder_Inr:
  "reorder byID ls ids seen out = Inr res \<longleftrightarrow> distinct ids \<and> set ids \<inter> seen = {} \<and> (\<forall>i\<in>set ids. byID i \<noteq> None)
     \<and> res = out @ map (\<lambda>i. ls ! the (byID i)) ids"
proof (induction ids arbitrary: seen out)
  case Nil
  then show ?case by auto
next
  case (Cons i ids)
  then show ?case by (cases "byID i") auto
qed

lemma gathered_key: "i \<in> rlID ` set ls \<Longrightarrow> rlID (ls ! the (last_index rlID ls i)) = i \<and> ls ! the (last_index rlID ls i) \<in> set ls"
  using last_index_None[of rlID ls i] last_index_Some[of rlID ls i] by (cases "last_index rlID ls i") auto

lemma reorder_gathers:
  assumes "distinct ids" "length ids = length ls" "\<forall>i\<in>set ids. i \<in> rlID ` set ls"
  defines "out \<equiv> map (\<lambda>i. ls ! the (last_index rlID ls i)) ids"
  shows "map rlID out = ids" "mset out = mset ls" "mset (map rlID ls) = mset ids"
proof -
  show o: "map rlID out = ids" unfolding out_def map_map using gathered_key[of _ ls] assms(3) by (intro map_idI) simp
  then have "distinct out" using assms(1) by (metis distinct_map)
  moreover have "set out \<subseteq> set ls" using gathered_key[of _ ls] assms(3) by (auto simp: out_def simp del: nth_mem)
  moreover have "length out = length ls" using assms(2) by (simp add: out_def)
  ultimately have "set out = set ls \<and> distinct ls"
    by (metis List.finite_set card_distinct card_length card_subset_eq distinct_card le_antisym card_mono)
  then show m: "mset out = mset ls" using \<open>distinct out\<close> by (metis set_eq_iff_mset_eq_distinct)
  show "mset (map rlID ls) = mset ids" using m o by (metis mset_map)
qed

lemma reorder_unique:
  assumes "distinct (map rlID qs)" "mset qs = mset ls"
  shows "qs = map (\<lambda>i. ls ! the (last_index rlID ls i)) (map rlID qs)"
proof -
  have s: "set qs = set ls" using assms(2) by (metis set_mset_mset)
  have "ls ! the (last_index rlID ls (rlID x)) = x" if "x \<in> set qs" for x
    using gathered_key[of "rlID x" ls] that s assms(1) by (auto simp: distinct_map inj_on_def)
  then show ?thesis by (simp add: map_idI)
qed

text \<open>Reordering never loses or duplicates a routing list. A reorder request is accepted exactly when it
  names the stored lists once each; and then the new slice holds the same lists in exactly the requested
  order.\<close>

theorem reorder_is_permutation:
  "reorder_lists ids p = Inr q \<longleftrightarrow> distinct ids \<and> mset (map rlID (prRoutingLists p)) = mset ids
     \<and> map rlID (prRoutingLists q) = ids \<and> mset (prRoutingLists q) = mset (prRoutingLists p)
     \<and> q\<lparr>prRoutingLists := []\<rparr> = p\<lparr>prRoutingLists := []\<rparr>"
proof
  assume "reorder_lists ids p = Inr q"
  then have l: "length ids = length (prRoutingLists p)" and d: "distinct ids" and k: "\<forall>i\<in>set ids. i \<in> rlID ` set (prRoutingLists p)"
    and q: "q = p\<lparr>prRoutingLists := map (\<lambda>i. prRoutingLists p ! the (last_index rlID (prRoutingLists p) i)) ids\<rparr>"
    by (auto simp: reorder_lists_def reorder_Inr last_index_None split: if_splits sum.splits)
  then show "distinct ids \<and> mset (map rlID (prRoutingLists p)) = mset ids
     \<and> map rlID (prRoutingLists q) = ids \<and> mset (prRoutingLists q) = mset (prRoutingLists p) \<and> q\<lparr>prRoutingLists := []\<rparr> = p\<lparr>prRoutingLists := []\<rparr>"
    using reorder_gathers[OF d l k] by simp
next
  assume a: "distinct ids \<and> mset (map rlID (prRoutingLists p)) = mset ids
     \<and> map rlID (prRoutingLists q) = ids \<and> mset (prRoutingLists q) = mset (prRoutingLists p) \<and> q\<lparr>prRoutingLists := []\<rparr> = p\<lparr>prRoutingLists := []\<rparr>"
  then have "length ids = length (prRoutingLists p)" "set ids = rlID ` set (prRoutingLists p)"
    by (metis length_map size_mset, metis image_set set_mset_mset)
  moreover have "prRoutingLists q = map (\<lambda>i. prRoutingLists p ! the (last_index rlID (prRoutingLists p) i)) ids"
    using a reorder_unique[of "prRoutingLists q" "prRoutingLists p"] by metis
  moreover have "q = p\<lparr>prRoutingLists := prRoutingLists q\<rparr>" using a by (cases p; cases q) simp
  moreover from calculation have "reorder (last_index rlID (prRoutingLists p)) (prRoutingLists p) ids {} [] = Inr (prRoutingLists q)"
    using a by (simp add: reorder_Inr last_index_None)
  ultimately show "reorder_lists ids p = Inr q" by (simp add: reorder_lists_def)
qed

end
