(* ===== verification/Store_Valid.thy ===== *)
theory Store_Valid
  imports Store_Run
begin

text \<open>
  Which writes of the store keep a valid profile valid. Validity is the well-formedness of
  \<open>Profile_Wellformed\<close> and \<open>Profile_DNS\<close>, so each edit is followed through ids, references, groups and the DNS
  plane. Deletes, detaches, reorders and feed refreshes never break a valid profile; moving dependents onto
  a usable replacement does not either.
\<close>

section \<open>Refusals\<close>

lemma refuse_Inr: "refuse rs p = Inr q \<longleftrightarrow> (\<forall>r\<in>set rs. r = None) \<and> q = p"
  by (induction rs p rule: refuse.induct) auto

lemma hit_None: "hit P xs err = None \<longleftrightarrow> (\<forall>x\<in>set xs. \<not> P x)"
  by (auto simp: hit_def find_None_iff)

lemma missing_None: "missing key xs i fmt = None \<longleftrightarrow> i \<in> key ` set xs"
  by (auto simp: missing_def list_all_iff)

lemmas refusals = refuse_Inr hit_None missing_None

lemma find_in: "find P xs = Some x \<Longrightarrow> x \<in> set xs \<and> P x"
  by (auto simp: find_Some_iff)

text \<open>Dropping objects cannot make ids collide.\<close>

lemma subseq_distinct: "subseq xs ys \<Longrightarrow> distinct ys \<Longrightarrow> distinct xs"
proof (induction rule: list_emb.induct)
  case (list_emb_Cons2 x y xs ys)
  then show ?case using list_emb_set[OF list_emb_Cons2.hyps(2)] by force
qed auto

lemma ids_fewer:
  assumes "distinct (ids_of p)"
    and "subseq (map epID (prEndpoints q)) (map epID (prEndpoints p))" "subseq (map grID (prGroups q)) (map grID (prGroups p))"
    and "subseq (map ruID (prRules q)) (map ruID (prRules p))" "subseq (map dgID (prDeviceGroups q)) (map dgID (prDeviceGroups p))"
    and "subseq (map rlID (prRoutingLists q)) (map rlID (prRoutingLists p))"
  shows "distinct (ids_of q)"
proof (rule subseq_distinct[OF _ assms(1)])
  show "subseq (ids_of q) (ids_of p)" unfolding ids_of_def using assms(2-) by (intro subseq_Cons2 list_emb_append_mono)
qed

lemma subseq_map_filter [simp]: "subseq (map f (filter P xs)) (map f xs)"
  by (intro subseq_map subseq_filter_left)

section \<open>References that survive\<close>

text \<open>A change that takes at most the id \<open>i\<close> out of service.\<close>

definition spares :: "id \<Rightarrow> (id \<Rightarrow> bool) \<Rightarrow> (id \<Rightarrow> bool) \<Rightarrow> bool" where
  "spares i on on' \<longleftrightarrow> (\<forall>t. on t \<longrightarrow> t \<noteq> i \<longrightarrow> on' t)"

lemma usable_spares: "spares i on on' \<Longrightarrow> usable on t \<Longrightarrow> t \<noteq> i \<Longrightarrow> usable on' t"
  by (auto simp: spares_def usable_def)

lemma rule_spares: "spares i on on' \<Longrightarrow> rule_ok on r \<Longrightarrow> ruOutbound r \<noteq> i \<Longrightarrow> rule_ok on' r"
  by (auto simp: rule_ok_def dest: usable_spares)

lemma list_spares: "spares i on on' \<Longrightarrow> list_ok on devs l \<Longrightarrow> rlOutbound l \<noteq> i \<Longrightarrow> rlDownloadVia l \<noteq> i \<Longrightarrow> list_ok on' devs l"
  by (auto simp: list_ok_def dest: usable_spares split: option.splits)

lemma network_spares: "spares i on on' \<Longrightarrow> network_ok on s \<Longrightarrow> dsDetour s \<noteq> i \<Longrightarrow> network_ok on' s"
  by (auto simp: network_ok_def dest: usable_spares)

definition same_lookup :: "id \<Rightarrow> Endpoint list \<Rightarrow> Endpoint list \<Rightarrow> bool" where
  "same_lookup i eps eps' \<longleftrightarrow> (\<forall>j. j \<noteq> i \<longrightarrow> find (\<lambda>e. epID e = j) eps' = find (\<lambda>e. epID e = j) eps)"

lemma server_spares:
  "spares i on on' \<Longrightarrow> same_lookup i eps eps' \<Longrightarrow> server_ok on eps leak s \<Longrightarrow> dsDetour s \<noteq> i \<Longrightarrow> (vpn_user s \<Longrightarrow> vpn_conn s \<noteq> i)
   \<Longrightarrow> server_ok on' eps' leak s"
  by (auto simp: server_ok_def same_lookup_def vpnResolverFault_def dest: network_spares)

lemma live_find: "distinct (map epID (prEndpoints p)) \<Longrightarrow> live p t \<longleftrightarrow> (\<exists>e. find (\<lambda>e. epID e = t) (prEndpoints p) = Some e \<and> epEnabled e) \<or> t \<in> grID ` set (prGroups p)"
proof -
  assume d: "distinct (map epID (prEndpoints p))"
  have "find (\<lambda>e. epID e = t) es = Some e \<longleftrightarrow> e \<in> set es \<and> epID e = t" if "distinct (map epID es)" for es e
    using that by (induction es) (auto simp: image_iff)
  from this[OF d] show ?thesis unfolding live_def by auto
qed

lemma spares_live:
  assumes "distinct (map epID (prEndpoints p))" "distinct (map epID (prEndpoints q))"
    and "same_lookup i (prEndpoints p) (prEndpoints q)" "grID ` set (prGroups p) - {i} \<subseteq> grID ` set (prGroups q)"
  shows "spares i (live p) (live q)"
  unfolding spares_def live_find[OF assms(1)] live_find[OF assms(2)] using assms(3,4) by (auto simp: same_lookup_def)

lemma same_lookup_refl [simp]: "same_lookup i eps eps"
  by (simp add: same_lookup_def)

lemma same_lookup_filter: "same_lookup i eps (filter (\<lambda>e. epID e \<noteq> i) eps)"
proof -
  have "find (\<lambda>e. epID e = j) (filter (\<lambda>e. epID e \<noteq> i) eps) = find (\<lambda>e. epID e = j) eps" if "j \<noteq> i" for j
    using that by (induction eps) auto
  then show ?thesis by (simp add: same_lookup_def)
qed

lemma same_lookup_put: "same_lookup (epID e) eps (update_first (\<lambda>x. epID x = epID e) (\<lambda>_. e\<lparr>epImport := ''''\<rparr>) eps)"
proof -
  have "find (\<lambda>x. epID x = j) (update_first (\<lambda>x. epID x = epID e) (\<lambda>_. e\<lparr>epImport := ''''\<rparr>) eps) = find (\<lambda>x. epID x = j) eps" if "j \<noteq> epID e" for j
    using that by (induction eps) auto
  then show ?thesis by (simp add: same_lookup_def)
qed

section \<open>Changes to the DNS plane\<close>

definition switch_off :: "string set \<Rightarrow> DNSRule \<Rightarrow> DNSRule" where
  "switch_off T r = (if drServer r \<in> T then r\<lparr>drDisabled := True\<rparr> else r)"

lemma find_map_keep:
  "(\<forall>x\<in>set xs. Q (f x) \<longrightarrow> P x) \<Longrightarrow> (\<forall>x. find P xs = Some x \<longrightarrow> Q (f x)) \<Longrightarrow> find Q (map f xs) = map_option f (find P xs)"
proof (induction xs)
  case (Cons x xs)
  then show ?case by (cases "P x") auto
qed simp

text \<open>Servers may change anything but tag, type and bootstrap resolver, and VPN resolvers may be switched off
  together with the rules that name them.\<close>

definition dns_change :: "DNSSettings \<Rightarrow> (DNSServer \<Rightarrow> DNSServer) \<Rightarrow> string set \<Rightarrow> bool" where
  "dns_change d f T \<longleftrightarrow> distinct (map dsTag (dnServers d)) \<and> default_ok d \<and> (\<forall>s\<in>set (dnServers d).
     dsTag (f s) = dsTag s \<and> dsType (f s) = dsType s \<and> dsDomainResolver (f s) = dsDomainResolver s
     \<and> (dsEnabled (f s) \<longleftrightarrow> dsEnabled s \<and> dsTag s \<notin> T) \<and> (dsTag s \<in> T \<longrightarrow> dsType s \<in> set vpnDNSTypes))"

lemma net_vpn: "t \<in> set networkDNSTypes \<Longrightarrow> t \<notin> set vpnDNSTypes"
  by (auto simp: networkDNSTypes_def encryptedDNSTypes_def plaintextDNSTypes_def vpnDNSTypes_def)

lemma same_tag:
  "distinct (map dsTag ss) \<Longrightarrow> s \<in> set ss \<Longrightarrow> t \<in> set ss \<Longrightarrow> dsTag s = dsTag t \<Longrightarrow> s = t"
  by (auto simp: distinct_map dest: inj_onD)

lemma bootstrap_change:
  assumes "dns_change d f T" "s \<in> set (dnServers d)" "bootstrap_ok (dnServers d) s"
  shows "bootstrap_ok (map f (dnServers d)) (f s)"
proof (cases "dsEnabled s \<and> dsType s \<in> set networkDNSTypes \<and> TrimSpace (dsDomainResolver s) \<noteq> ''''")
  case True
  then obtain b where b: "b \<in> set (dnServers d)" "dsTag b = TrimSpace (dsDomainResolver s)" "dsEnabled b" "dsType b \<in> set networkDNSTypes"
    using assms(3) by (auto simp: bootstrap_ok_def)
  then have "dsTag b \<notin> T" using assms(1) net_vpn by (auto simp: dns_change_def)
  then have "f b \<in> set (map f (dnServers d))" "dsTag (f b) = TrimSpace (dsDomainResolver (f s))" "dsEnabled (f b)" "dsType (f b) \<in> set networkDNSTypes"
    using assms(1,2) b by (auto simp: dns_change_def)
  then show ?thesis unfolding bootstrap_ok_def by blast
next
  case False
  then show ?thesis using assms(1,2) by (auto simp: bootstrap_ok_def dns_change_def)
qed

lemma final_kept:
  assumes "dns_change d f T" "dnFinal d \<noteq> ''''" "x \<in> set (dnServers d)" "dsTag x = dnFinal d"
  shows "dsTag x \<notin> T"
proof -
  obtain s where "s \<in> set (dnServers d)" "dsTag s = dnFinal d" "dsType s \<notin> set vpnDNSTypes"
    using assms(1,2) unfolding dns_change_def default_ok_def by blast
  then have "dsType x \<notin> set vpnDNSTypes" using assms same_tag[of "dnServers d" x s] by (simp add: dns_change_def)
  then show ?thesis using assms(1,3) by (auto simp: dns_change_def)
qed

lemma default_change:
  assumes "dns_change d f T"
  shows "DefaultServer (d\<lparr>dnServers := map f (dnServers d), dnRules := rs\<rparr>) tun = map_option f (DefaultServer d tun)"
proof -
  let ?ss = "dnServers d" and ?em = "emitted_server tun" and ?fin = "\<lambda>s. dsTag s = dnFinal d \<and> emitted_server tun s"
  have e: "?em (f s) \<longleftrightarrow> ?em s \<and> dsTag s \<notin> T" "dsTag (f s) = dsTag s" if "s \<in> set ?ss" for s
    using that assms by (auto simp: emitted_server_def dns_change_def)
  have a: "find ?fin (map f ?ss) = map_option f (find ?fin ?ss)" if "dnFinal d \<noteq> ''''"
  proof (rule find_map_keep)
    show "\<forall>x. find ?fin ?ss = Some x \<longrightarrow> ?fin (f x)"
    proof (intro allI impI)
      fix x assume "find ?fin ?ss = Some x"
      then have "x \<in> set ?ss" "?fin x" by (auto simp: find_Some_iff)
      then show "?fin (f x)" using e final_kept[OF assms that] by simp
    qed
  qed (use e in auto)
  have b: "find ?em (map f ?ss) = map_option f (find ?em ?ss)" if "DefaultServer d tun = find ?em ?ss"
  proof (rule find_map_keep)
    show "\<forall>x. find ?em ?ss = Some x \<longrightarrow> ?em (f x)"
    proof (intro allI impI)
      fix x assume f: "find ?em ?ss = Some x"
      then have x: "x \<in> set ?ss" "?em x" by (auto simp: find_Some_iff)
      have "dsType x \<notin> set vpnDNSTypes" using assms that f by (auto simp: dns_change_def default_ok_def)
      then show "?em (f x)" using e(1)[OF x(1)] x assms by (auto simp: dns_change_def)
    qed
  qed (use e in auto)
  show ?thesis
  proof (cases "dnFinal d = '''' \<or> find ?fin ?ss = None")
    case True
    then have "DefaultServer d tun = find ?em ?ss" by (auto simp: DefaultServer_def)
    then show ?thesis using b a True by (auto simp: DefaultServer_def)
  next
    case False
    then show ?thesis using a by (auto simp: DefaultServer_def)
  qed
qed

lemma default_ok_change:
  assumes "dns_change d f T"
  shows "default_ok (d\<lparr>dnServers := map f (dnServers d), dnRules := rs\<rparr>)"
proof -
  have ok: "default_ok d" and same: "\<And>s. s \<in> set (dnServers d) \<Longrightarrow> dsType (f s) = dsType s" using assms by (auto simp: dns_change_def)
  have "\<exists>s\<in>set (map f (dnServers d)). dsTag s = dnFinal d \<and> dsEnabled s \<and> dsType s \<notin> set vpnDNSTypes \<and> (dnLeakProof d \<longrightarrow> dsType s \<in> set encryptedDNSTypes)"
    if n: "dnFinal d \<noteq> ''''"
  proof -
    obtain s where s: "s \<in> set (dnServers d)" "dsTag s = dnFinal d" "dsEnabled s" "dsType s \<notin> set vpnDNSTypes" "dnLeakProof d \<longrightarrow> dsType s \<in> set encryptedDNSTypes"
      using ok n unfolding default_ok_def by blast
    then have "f s \<in> set (map f (dnServers d)) \<and> dsTag (f s) = dnFinal d \<and> dsEnabled (f s) \<and> dsType (f s) = dsType s"
      using assms final_kept[OF assms n s(1,2)] by (auto simp: dns_change_def)
    then show ?thesis using s by metis
  qed
  moreover have "dsType s \<notin> set vpnDNSTypes" if "map_option f (DefaultServer d tun) = Some s" for tun s
    using that ok same DefaultServer_in by (fastforce simp: default_ok_def)
  moreover have "dsType s \<in> set encryptedDNSTypes" if "map_option f (DefaultServer d False) = Some s" "dnFinal d = ''''" "dnLeakProof d" for s
    using that ok same DefaultServer_in by (fastforce simp: default_ok_def)
  ultimately show ?thesis unfolding default_ok_def default_change[OF assms] by simp
qed

lemma dns_rule_change:
  assumes "dns_change d f T" "dns_rule_ok (dnServers d) lids r"
  shows "dns_rule_ok (map f (dnServers d)) lids (switch_off T r)"
proof (cases "drServer r \<in> T \<or> drDisabled r \<or> drServer r = ''reject''")
  case True
  then show ?thesis using assms(2) by (auto simp: dns_rule_ok_def switch_off_def dnsRuleHasNoMatcher_def)
next
  case False
  then obtain s where "s \<in> set (dnServers d)" "dsTag s = drServer r" "dsEnabled s" using assms(2) by (auto simp: dns_rule_ok_def)
  then have "f s \<in> set (map f (dnServers d)) \<and> dsTag (f s) = drServer r \<and> dsEnabled (f s)" using assms(1) False by (auto simp: dns_change_def)
  then have "\<exists>s\<in>set (map f (dnServers d)). dsTag s = drServer r \<and> dsEnabled s" by blast
  then show ?thesis using False assms(2) by (auto simp: dns_rule_ok_def switch_off_def)
qed

lemma dns_wf_change:
  assumes "dns_wf on eps lids d" "dns_change d f T"
    and "\<And>s. s \<in> set (dnServers d) \<Longrightarrow> server_ok on' eps' (dnLeakProof d) (f s)"
    and "distinct (map vpn_conn (filter vpn_user (map f (dnServers d))))"
  shows "dns_wf on' eps' lids (d\<lparr>dnServers := map f (dnServers d), dnRules := map (switch_off T) (dnRules d)\<rparr>)"
proof -
  have "map (dsTag \<circ> f) (dnServers d) = map dsTag (dnServers d)" using assms(2) by (auto simp: dns_change_def)
  then have "distinct (map (dsTag \<circ> f) (dnServers d))" using assms(1) by (simp only: dns_wf_def)
  then show ?thesis
    using assms(1,3,4) bootstrap_change[OF assms(2)] default_ok_change[OF assms(2)] dns_rule_change[OF assms(2)]
    by (simp add: dns_wf_def)
qed

lemma switch_off_empty [simp]: "switch_off {} = (\<lambda>r. r)"
  by (simp add: switch_off_def fun_eq_iff)

text \<open>A plane no server of which depends on the id.\<close>

lemma dns_wf_spares:
  assumes "dns_wf on eps lids d" "spares i on on'" "same_lookup i eps eps'"
    and "\<forall>s\<in>set (dnServers d). dsDetour s \<noteq> i \<and> (vpn_user s \<longrightarrow> vpn_conn s \<noteq> i)"
  shows "dns_wf on' eps' lids d"
proof -
  have "dns_change d (\<lambda>s. s) {}" using assms(1) by (simp add: dns_change_def dns_wf_def)
  then have "dns_wf on' eps' lids (d\<lparr>dnServers := map (\<lambda>s. s) (dnServers d), dnRules := map (switch_off {}) (dnRules d)\<rparr>)"
    using assms server_spares[OF assms(2,3)] by (intro dns_wf_change) (auto simp: dns_wf_def)
  then show ?thesis by simp
qed

lemma vpn_user_uses: "vpn_user s \<Longrightarrow> vpn_conn s = i \<Longrightarrow> usesVPNResolvers s i"
  using vpn_type[of "dsType s"] by (auto simp: vpn_user_def vpn_conn_def usesVPNResolvers_def validDNSServerTypes_def)

section \<open>Deletes\<close>

lemma fewer_edges:
  assumes "\<And>g'. g' \<in> set gs' \<Longrightarrow> \<exists>g\<in>set gs. grID g' = grID g \<and> set (grMembers g') \<subseteq> set (grMembers g)"
  shows "acyclic (group_edges gs) \<Longrightarrow> acyclic (group_edges gs')"
proof -
  have "group_edges gs' \<subseteq> group_edges gs"
  proof
    fix x assume "x \<in> group_edges gs'"
    then obtain g' m where x: "x = (grID g', m)" "g' \<in> set gs'" "m \<in> set (grMembers g')" "m \<in> grID ` set gs'" by (auto simp: group_edges_def)
    obtain g where "g \<in> set gs" "grID g' = grID g" "m \<in> set (grMembers g)" using assms[OF x(2)] x(3) by blast
    moreover have "m \<in> grID ` set gs"
    proof -
      obtain h where h: "h \<in> set gs'" "m = grID h" using x(4) by blast
      then show ?thesis using assms[OF h(1)] by auto
    qed
    ultimately show "x \<in> group_edges gs" using x(1) by (auto simp: group_edges_def)
  qed
  then show "acyclic (group_edges gs) \<Longrightarrow> acyclic (group_edges gs')" using acyclic_subset by blast
qed

lemma prune_sel [simp]:
  "map grID (prune_members i gs) = map grID gs" "grID ` set (prune_members i gs) = grID ` set gs"
  by (auto simp: prune_members_def image_image)

lemma prune_edges: "acyclic (group_edges gs) \<Longrightarrow> acyclic (group_edges (prune_members i gs))"
  by (rule fewer_edges) (auto simp: prune_members_def removeString_def)

lemma prune_ok: "\<forall>g\<in>set gs. group_ok g \<and> \<not> onlyMember (grMembers g) i \<Longrightarrow> \<forall>g\<in>set (prune_members i gs). group_ok g"
  by (auto simp: prune_members_def removeString_def group_ok_def onlyMember_def list_all_iff filter_empty_conv)

lemma prune_members_live:
  assumes "members_ok p" "spares i (live p) (live q)" "set gs \<subseteq> set (prGroups p)" "prGroups q = prune_members i gs"
  shows "members_ok q"
  using assms by (auto simp: members_ok_def prune_members_def removeString_def spares_def)

lemma delete_endpoint_wf:
  assumes "well_formed ck p" "delete_endpoint i p = Inr q"
  shows "well_formed ck q"
proof -
  have o: "objects_wf ck p" using assms(1) by (simp add: well_formed_def)
  have q: "q = p\<lparr>prEndpoints := filter (\<lambda>e. epID e \<noteq> i) (prEndpoints p), prGroups := prune_members i (prGroups p)\<rparr>"
    and g: "\<forall>r\<in>set (prRules p). ruOutbound r \<noteq> i" "\<forall>g\<in>set (prGroups p). \<not> onlyMember (grMembers g) i"
      "\<forall>l\<in>set (prRoutingLists p). rlOutbound l \<noteq> i \<and> rlDownloadVia l \<noteq> i" "\<forall>s\<in>set (servers_of p). dsDetour s \<noteq> i \<and> \<not> usesVPNResolvers s i"
    using assms(2) by (auto simp: delete_endpoint_def refusals)
  have d: "distinct (map epID (prEndpoints p))" "distinct (map epID (prEndpoints q))"
    using o q by (auto simp: objects_wf_def ids_of_def distinct_map_filter)
  have sp: "spares i (live p) (live q)" using spares_live[OF d] q same_lookup_filter by auto
  have "distinct (ids_of q)" using o q by (intro ids_fewer[of p q]) (simp_all add: objects_wf_def)
  moreover have "members_ok q" using o sp q by (intro prune_members_live[of p i q "prGroups p"]) (auto simp: objects_wf_def)
  ultimately have "objects_wf ck q"
    using o q g prune_ok[of "prGroups p" i] prune_edges[of "prGroups p" i] rule_spares[OF sp] list_spares[OF sp]
    by (auto simp: objects_wf_def one_default_def)
  moreover have "dns_wf (live q) (prEndpoints q) (rlID ` set (prRoutingLists q)) dns" if "prDNS p = Some dns" for dns
  proof (rule dns_wf_spares[OF _ sp])
    show "dns_wf (live p) (prEndpoints p) (rlID ` set (prRoutingLists q)) dns" using assms(1) that q by (simp add: well_formed_def)
    show "same_lookup i (prEndpoints p) (prEndpoints q)" using q same_lookup_filter by simp
    show "\<forall>s\<in>set (dnServers dns). dsDetour s \<noteq> i \<and> (vpn_user s \<longrightarrow> vpn_conn s \<noteq> i)"
      using g(4) that vpn_user_uses by (auto simp: servers_of_def)
  qed
  ultimately show ?thesis using q by (auto simp: well_formed_def split: option.split)
qed

lemma delete_group_wf:
  assumes "well_formed ck p" "delete_group i p = Inr q"
  shows "well_formed ck q"
proof -
  let ?gs = "filter (\<lambda>g. grID g \<noteq> i) (prGroups p)"
  have o: "objects_wf ck p" using assms(1) by (simp add: well_formed_def)
  have q: "q = p\<lparr>prGroups := prune_members i ?gs\<rparr>"
    and g: "\<forall>r\<in>set (prRules p). ruOutbound r \<noteq> i" "\<forall>g\<in>set ?gs. \<not> onlyMember (grMembers g) i"
      "\<forall>l\<in>set (prRoutingLists p). rlOutbound l \<noteq> i \<and> rlDownloadVia l \<noteq> i" "\<forall>s\<in>set (servers_of p). dsDetour s \<noteq> i"
      "i \<in> grID ` set (prGroups p)"
    using assms(2) by (auto simp: delete_group_def refusals)
  have d: "distinct (map epID (prEndpoints p))" using o by (auto simp: objects_wf_def ids_of_def)
  have sp: "spares i (live p) (live q)" using spares_live[OF d, of q] d q by auto
  have di: "distinct (ids_of p)" using o by (simp add: objects_wf_def)
  then have "distinct (ids_of q)" using q by (intro ids_fewer[of p q]) simp_all
  moreover have "members_ok q" using o sp q by (intro prune_members_live[of p i q ?gs]) (auto simp: objects_wf_def)
  moreover have "acyclic (group_edges (prune_members i ?gs))" using o by (intro prune_edges fewer_edges[of ?gs "prGroups p"]) (auto simp: objects_wf_def)
  moreover have "\<forall>g\<in>set (prune_members i ?gs). group_ok g" using o g(2) by (intro prune_ok) (simp add: objects_wf_def)
  moreover have "\<forall>r\<in>set (prRules p). rule_ok (live q) r" using o g(1) rule_spares[OF sp] by (simp add: objects_wf_def)
  moreover have "\<forall>l\<in>set (prRoutingLists p). list_ok (live q) (map dgID (prDeviceGroups p)) l" using o g(3) list_spares[OF sp] by (simp add: objects_wf_def)
  ultimately have "objects_wf ck q" using o q by (simp add: objects_wf_def one_default_def)
  moreover have "dns_wf (live q) (prEndpoints q) (rlID ` set (prRoutingLists q)) dns" if p: "prDNS p = Some dns" for dns
  proof (rule dns_wf_spares[OF _ sp])
    have w: "dns_wf (live p) (prEndpoints p) (rlID ` set (prRoutingLists p)) dns" using assms(1) p by (simp add: well_formed_def)
    then show "dns_wf (live p) (prEndpoints p) (rlID ` set (prRoutingLists q)) dns" using q by simp
    have "i \<notin> epID ` set (prEndpoints p)" using di g(5) by (auto simp: ids_of_def)
    moreover have "vpn_conn s \<in> epID ` set (prEndpoints p)" if "vpn_user s" "s \<in> set (dnServers dns)" for s
    proof -
      have "vpnResolverFault (dsType s) (vpn_conn s) (prEndpoints p) = vpnFaultNone" using that w by (auto simp: dns_wf_def server_ok_def)
      then show ?thesis by (auto simp: vpnResolverFault_def dest!: find_in intro: rev_image_eqI[OF _ sym] split: option.splits)
    qed
    ultimately show "\<forall>s\<in>set (dnServers dns). dsDetour s \<noteq> i \<and> (vpn_user s \<longrightarrow> vpn_conn s \<noteq> i)"
      using g(4) p by (auto simp: servers_of_def)
  qed (simp add: q)
  ultimately show ?thesis using q by (auto simp: well_formed_def split: option.split)
qed

lemma well_formed_lists:
  assumes "well_formed ck p" "q = p\<lparr>prRoutingLists := ls\<rparr>" "distinct (ids_of q)"
    and "\<forall>l\<in>set ls. list_ok (live p) (map dgID (prDeviceGroups p)) l"
    and "\<And>d. prDNS p = Some d \<Longrightarrow> \<forall>r\<in>set (dnRules d). dns_rule_ok (dnServers d) (rlID ` set (prRoutingLists p)) r
           \<longrightarrow> dns_rule_ok (dnServers d) (rlID ` set ls) r"
  shows "well_formed ck q"
proof -
  have "live q = live p" using assms(2) by (simp add: live_def fun_eq_iff)
  then show ?thesis using assms by (auto simp: well_formed_def objects_wf_def members_ok_def one_default_def dns_wf_def split: option.splits)
qed

lemma delete_list_wf:
  assumes "well_formed ck p" "delete_list i p = Inr q"
  shows "well_formed ck q"
proof (rule well_formed_lists[OF assms(1)])
  let ?ls = "filter (\<lambda>l. rlID l \<noteq> i) (prRoutingLists p)"
  have o: "objects_wf ck p" using assms(1) by (simp add: well_formed_def)
  show q: "q = p\<lparr>prRoutingLists := ?ls\<rparr>" using assms(2) by (simp add: delete_list_def refusals)
  have "distinct (ids_of p)" using o by (simp add: objects_wf_def)
  then show "distinct (ids_of q)" using q by (intro ids_fewer[of p q]) simp_all
  show "\<forall>l\<in>set ?ls. list_ok (live p) (map dgID (prDeviceGroups p)) l" using o by (simp add: objects_wf_def)
  show "\<forall>r\<in>set (dnRules d). dns_rule_ok (dnServers d) (rlID ` set (prRoutingLists p)) r \<longrightarrow> dns_rule_ok (dnServers d) (rlID ` set ?ls) r"
    if "prDNS p = Some d" for d
  proof -
    have "drDisabled r \<or> i \<notin> set (drRuleSets r)" if "r \<in> set (dnRules d)" for r
      using assms(2) that \<open>prDNS p = Some d\<close> by (auto simp: delete_list_def refusals dns_rules_of_def)
    then show ?thesis by (auto simp: dns_rule_ok_def image_iff)
  qed
qed

lemma reorder_wf:
  assumes "well_formed ck p" "reorder_lists ids p = Inr q"
  shows "well_formed ck q"
proof (rule well_formed_lists[OF assms(1)])
  let ?ls = "map (\<lambda>i. prRoutingLists p ! the (last_index rlID (prRoutingLists p) i)) ids"
  have o: "objects_wf ck p" using assms(1) by (simp add: well_formed_def)
  have l: "length ids = length (prRoutingLists p)" and d: "distinct ids" and k: "\<forall>i\<in>set ids. i \<in> rlID ` set (prRoutingLists p)"
    and q: "q = p\<lparr>prRoutingLists := ?ls\<rparr>"
    using assms(2) by (auto simp: reorder_lists_def reorder_Inr last_index_None split: if_splits sum.splits)
  show "q = p\<lparr>prRoutingLists := ?ls\<rparr>" by (rule q)
  have m: "mset ?ls = mset (prRoutingLists p)" "map rlID ?ls = ids" using reorder_gathers[OF d l k] by simp_all
  then have s: "set ?ls = set (prRoutingLists p)" by (metis set_mset_mset)
  have "distinct (ids_of p)" using o by (simp add: objects_wf_def)
  moreover have "rlID ` set (prRoutingLists p) = set ids" using s m(2) by (metis image_set)
  ultimately show "distinct (ids_of q)" using q m(2) d by (auto simp: ids_of_def)
  show "\<forall>l\<in>set ?ls. list_ok (live p) (map dgID (prDeviceGroups p)) l" using o s by (simp add: objects_wf_def)
  show "\<forall>r\<in>set (dnRules dns). dns_rule_ok (dnServers dns) (rlID ` set (prRoutingLists p)) r \<longrightarrow> dns_rule_ok (dnServers dns) (rlID ` set ?ls) r"
    for dns using s by simp
qed

lemma map_lists_wf:
  assumes "well_formed ck p" "\<And>l. l \<in> set (prRoutingLists p) \<Longrightarrow> rlID (f l) = rlID l \<and> (\<forall>on devs. list_ok on devs l \<longrightarrow> list_ok on devs (f l))"
  shows "well_formed ck (p\<lparr>prRoutingLists := map f (prRoutingLists p)\<rparr>)"
proof (rule well_formed_lists[OF assms(1) refl])
  have o: "objects_wf ck p" using assms(1) by (simp add: well_formed_def)
  have ids: "map (rlID \<circ> f) (prRoutingLists p) = map rlID (prRoutingLists p)" using assms(2) by simp
  then have "ids_of (p\<lparr>prRoutingLists := map f (prRoutingLists p)\<rparr>) = ids_of p" by (simp add: ids_of_def)
  then show "distinct (ids_of (p\<lparr>prRoutingLists := map f (prRoutingLists p)\<rparr>))" using o by (simp add: objects_wf_def)
  show "\<forall>l\<in>set (map f (prRoutingLists p)). list_ok (live p) (map dgID (prDeviceGroups p)) l" using o assms(2) by (auto simp: objects_wf_def)
  show "\<forall>r\<in>set (dnRules d). dns_rule_ok (dnServers d) (rlID ` set (prRoutingLists p)) r
      \<longrightarrow> dns_rule_ok (dnServers d) (rlID ` set (map f (prRoutingLists p))) r" for d
    using ids by (metis list.map_comp list.set_map)
qed

text \<open>A refresh of a list that has a source keeps the list acceptable, even with an empty result.\<close>

lemma list_ok_cidrs: "list_ok on devs l \<Longrightarrow> rlCIDRSource l \<noteq> '''' \<or> cs \<noteq> [] \<Longrightarrow> list_ok on devs (l\<lparr>rlCIDRCache := cs, rlCIDRRefreshed := t\<rparr>)"
  unfolding list_ok_def source_problem_def first_fail_None by (cases "NDMPolicyName (rlOutbound l)") (simp_all, blast+)

lemma list_ok_domains: "list_ok on devs l \<Longrightarrow> rlDomainSource l \<noteq> '''' \<Longrightarrow> list_ok on devs (l\<lparr>rlDomainCache := cs, rlDomainRefreshed := t\<rparr>)"
  unfolding list_ok_def source_problem_def first_fail_None by (cases "NDMPolicyName (rlOutbound l)") simp_all

lemma update_caches_wf:
  assumes "well_formed ck p"
  shows "well_formed ck (p\<lparr>prRoutingLists := update_caches now caches (prRoutingLists p)\<rparr>)"
  unfolding update_caches_def using assms
proof (rule map_lists_wf)
  show "rlID (case caches (rlID l) of None \<Rightarrow> l | Some up \<Rightarrow> apply_update now up l) = rlID l
      \<and> (\<forall>on devs. list_ok on devs l \<longrightarrow> list_ok on devs (case caches (rlID l) of None \<Rightarrow> l | Some up \<Rightarrow> apply_update now up l))" for l
    by (cases "caches (rlID l)") (auto simp: apply_update_def cidr_hit_def domain_hit_def Let_def list_ok_cidrs list_ok_domains)
qed

lemma update_first_map:
  "distinct (map key xs) \<Longrightarrow> update_first (\<lambda>x. key x = i) f xs = map (\<lambda>x. if key x = i then f x else x) xs"
  by (induction xs) (auto simp: image_iff intro!: map_idI[symmetric])

lemma set_cache_wf:
  assumes "well_formed ck p" "set_cache now i cidrs p = Inr q" "cidrs \<noteq> []"
  shows "well_formed ck q"
proof -
  have "distinct (ids_of p)" using assms(1) by (simp add: well_formed_def objects_wf_def)
  then have "distinct (map rlID (prRoutingLists p))" by (simp add: ids_of_def)
  then have "q = p\<lparr>prRoutingLists := map (\<lambda>l. if rlID l = i then l\<lparr>rlCIDRCache := cidrs, rlCIDRRefreshed := now\<rparr> else l) (prRoutingLists p)\<rparr>"
    using assms(2) by (simp add: set_cache_def refusals update_first_map)
  also have "well_formed ck \<dots>" using assms(1,3)
    by (intro map_lists_wf) (simp_all add: list_ok_cidrs)
  finally show ?thesis .
qed

lemma delete_rule_wf:
  assumes "well_formed ck p" "delete_rule i p = Inr q"
  shows "well_formed ck q"
proof -
  have q: "q = p\<lparr>prRules := filter (\<lambda>r. ruID r \<noteq> i) (prRules p)\<rparr>" using assms(2) by (simp add: delete_rule_def refusals)
  have l: "live q = live p" using q by (simp add: live_def fun_eq_iff)
  have "distinct (ids_of p)" using assms(1) by (simp add: well_formed_def objects_wf_def)
  then have "distinct (ids_of q)" using q by (intro ids_fewer[of p q]) simp_all
  moreover have "length (filter (\<lambda>r. ruDefault r \<and> \<not> ruDisabled r) (filter (\<lambda>r. ruID r \<noteq> i) rs)) \<le> length (filter (\<lambda>r. ruDefault r \<and> \<not> ruDisabled r) rs)" for rs
    by (induction rs) auto
  then have "one_default p \<longrightarrow> one_default q" using q unfolding one_default_def by (auto intro: le_trans)
  ultimately show ?thesis using assms(1) q l by (cases "prDNS p") (auto simp: well_formed_def objects_wf_def members_ok_def)
qed

lemma source_problem_scope [simp]:
  "source_problem (x\<lparr>rlScopeGroups := gs\<rparr>) = source_problem x" "source_problem (x\<lparr>rlScopeMode := m\<rparr>) = source_problem x"
  by (simp_all add: source_problem_def del: first_fail_simps)

lemma delete_device_group_wf:
  assumes "well_formed ck p" "delete_device_group i p = Inr q"
  shows "well_formed ck q"
proof -
  let ?ds = "filter (\<lambda>g. dgID g \<noteq> i) (prDeviceGroups p)" and ?ls = "map (prune_scope i) (prRoutingLists p)"
  have q: "q = p\<lparr>prDeviceGroups := ?ds, prRoutingLists := ?ls\<rparr>" using assms(2) by (simp add: delete_device_group_def refusals)
  have l: "live q = live p" using q by (simp add: live_def fun_eq_iff)
  have ids: "rlID (prune_scope i x) = rlID x" for x by (simp add: prune_scope_def Let_def)
  then have m: "map (rlID \<circ> prune_scope i) xs = map rlID xs" for xs by simp
  have "distinct (ids_of p)" using assms(1) by (simp add: well_formed_def objects_wf_def)
  then have "distinct (ids_of q)" using q by (intro ids_fewer[of p q]) (simp_all add: m del: map_eq_conv)
  moreover have "list_ok on (map dgID ?ds) (prune_scope i x)" if "list_ok on (map dgID (prDeviceGroups p)) x" for on x
  proof -
    let ?pr = "filter (\<lambda>g. g \<noteq> i) (rlScopeGroups x)"
    have "g \<noteq> i" if "length ?pr = length (rlScopeGroups x)" "g \<in> set (rlScopeGroups x)" for g
      using length_filter_less[OF that(2), of "\<lambda>g. g \<noteq> i"] that(1) by auto
    then have pr: "?pr = rlScopeGroups x" if "length ?pr = length (rlScopeGroups x)" using that by (simp add: filter_id_conv)
    have sp: "set ?pr \<subseteq> dgID ` set ?ds" using that by (auto simp: list_ok_def)

    show ?thesis
    proof (cases "rlScopeGroups x = [] \<or> length ?pr = length (rlScopeGroups x)")
      case True
      then have "?pr = rlScopeGroups x" "prune_scope i x = x" using pr by (auto simp: prune_scope_def)
      then show ?thesis using that sp by (simp add: list_ok_def)
    next
      case False
      then have "prune_scope i x = (if ?pr = [] then x\<lparr>rlScopeMode := '''', rlScopeGroups := []\<rparr> else x\<lparr>rlScopeGroups := ?pr\<rparr>)"
        by (simp only: prune_scope_def Let_def if_False)
      then show ?thesis using that sp by (cases "NDMPolicyName (rlOutbound x)"; cases "?pr = []") (simp_all add: list_ok_def)
    qed
  qed
  moreover have "rlID ` set ?ls = rlID ` set (prRoutingLists p)" using ids by (auto simp: image_iff)
  ultimately show ?thesis using assms(1) q l by (cases "prDNS p") (simp_all add: well_formed_def objects_wf_def members_ok_def one_default_def)
qed

end
