(* ===== verification/Store_Moves.thy ===== *)
theory Store_Moves
  imports Store_Valid
begin

text \<open>
  The four ways out of a connection that something depends on: delete it or switch it off, parking its
  dependents or moving them to a replacement. The in-place loops over the DNS servers are given closed forms,
  and the walk that looks for a group inside another is shown to decide reachability.
\<close>

section \<open>Parking\<close>

definition switched :: "string set \<Rightarrow> DNSServer \<Rightarrow> DNSServer" where
  "switched T s = (if dsTag s \<in> T then s\<lparr>dsEnabled := False\<rparr> else s)"

lemma switched_sel [simp]:
  "dsTag (switched T s) = dsTag s" "dsType (switched T s) = dsType s" "dsDomainResolver (switched T s) = dsDomainResolver s"
  "dsEnabled (switched T s) \<longleftrightarrow> dsEnabled s \<and> dsTag s \<notin> T" "dsEndpoint (switched T s) = dsEndpoint s" "dsDetour (switched T s) = dsDetour s"
  "dsServer (switched T s) = dsServer s" "dsServerPort (switched T s) = dsServerPort s" "dsInet4Range (switched T s) = dsInet4Range s"
  "dsInet6Range (switched T s) = dsInet6Range s" "switched {} s = s"
  by (simp_all add: switched_def)

lemma move_sel [simp]:
  "dsTag (move_detour i r s) = dsTag s" "dsType (move_detour i r s) = dsType s" "dsDomainResolver (move_detour i r s) = dsDomainResolver s"
  "dsEnabled (move_detour i r s) = dsEnabled s" "dsEndpoint (move_detour i r s) = dsEndpoint s"
  "dsServer (move_detour i r s) = dsServer s" "dsServerPort (move_detour i r s) = dsServerPort s" "dsInet4Range (move_detour i r s) = dsInet4Range s"
  "dsInet6Range (move_detour i r s) = dsInet6Range s" "dsDetour (move_detour i r s) = (if dsDetour s = i then r else dsDetour s)"
  by (simp_all add: move_detour_def)

lemma uses_sel [simp]:
  "usesVPNResolvers (switched T s) i \<longleftrightarrow> usesVPNResolvers s i \<and> dsTag s \<notin> T"
  "usesVPNResolvers (move_detour j r s) i \<longleftrightarrow> usesVPNResolvers s i"
  by (auto simp: usesVPNResolvers_def)

lemma move_switched: "move_detour i r (switched T s) = switched T (move_detour i r s)"
  by (simp add: switched_def move_detour_def)

lemma park_switched:
  "parkVPNResolver t (d\<lparr>dnServers := map (switched T) ss, dnRules := map (switch_off T) rs\<rparr>)
     = d\<lparr>dnServers := map (switched (insert t T)) ss, dnRules := map (switch_off (insert t T)) rs\<rparr>"
  by (auto simp: parkVPNResolver_def switched_def switch_off_def)

definition users :: "id \<Rightarrow> DNSServer list \<Rightarrow> string set" where
  "users i ss = dsTag ` {s \<in> set ss. usesVPNResolvers s i}"

lemma users_snoc: "users i (ss @ [s]) = (if usesVPNResolvers s i then insert (dsTag s) (users i ss) else users i ss)"
  by (auto simp: users_def)

definition park_stage :: "id \<Rightarrow> DNSSettings \<Rightarrow> nat \<Rightarrow> DNSSettings" where
  "park_stage i d k = d\<lparr>dnServers := map (switched (users i (take k (dnServers d)))) (map (move_detour i '''') (take k (dnServers d)) @ drop k (dnServers d)),
     dnRules := map (switch_off (users i (take k (dnServers d)))) (dnRules d)\<rparr>"

lemma park_stage_step:
  assumes "k < length (dnServers d)"
  shows "park_server i (park_stage i d k) k = park_stage i d (Suc k)"
proof -
  let ?ss = "dnServers d" and ?T = "users i (take k (dnServers d))"
  let ?s = "?ss ! k" and ?mv = "move_detour i ''''"
  have split: "take (Suc k) ?ss = take k ?ss @ [?s]" "drop k ?ss = ?s # drop (Suc k) ?ss"
    using assms by (simp_all add: take_Suc_conv_app_nth Cons_nth_drop_Suc)
  have at: "dnServers (park_stage i d k) ! k = switched ?T ?s"
    using assms by (simp add: park_stage_def nth_append split(2))
  have moved: "(park_stage i d k)\<lparr>dnServers := (dnServers (park_stage i d k))[k := ?mv (dnServers (park_stage i d k) ! k)]\<rparr>
      = d\<lparr>dnServers := map (switched ?T) (map ?mv (take (Suc k) ?ss) @ drop (Suc k) ?ss), dnRules := map (switch_off ?T) (dnRules d)\<rparr>"
    using assms unfolding at move_switched by (simp add: park_stage_def split list_update_append)
  have nth: "(map (switched ?T) (map ?mv (take (Suc k) ?ss) @ drop (Suc k) ?ss)) ! k = switched ?T (?mv ?s)"
    using assms by (simp add: nth_append)
  have T: "users i (take (Suc k) ?ss) = (if usesVPNResolvers (switched ?T (?mv ?s)) i then insert (dsTag ?s) ?T else ?T)"
    unfolding split(1) users_snoc by auto
  show ?thesis unfolding park_server_def Let_def moved
    using park_switched[where t = "dsTag ?s" and d = d and T = ?T and ss = "map ?mv (take (Suc k) ?ss) @ drop (Suc k) ?ss" and rs = "dnRules d"] nth T
    by (simp add: park_stage_def del: uses_sel)
qed

lemma park_dns_eq:
  "park_dns i d = d\<lparr>dnServers := map (\<lambda>s. switched (users i (dnServers d)) (move_detour i '''' s)) (dnServers d),
     dnRules := map (switch_off (users i (dnServers d))) (dnRules d)\<rparr>"
proof -
  have "foldl (park_server i) d [0..<k] = park_stage i d k" if "k \<le> length (dnServers d)" for k
    using that
  proof (induction k)
    case 0
    have "map (switched {}) (dnServers d) = dnServers d" by (intro map_idI) simp
    then show ?case by (simp add: park_stage_def users_def)
  next
    case (Suc k)
    then show ?case using park_stage_step[of k d i] by simp
  qed
  then show ?thesis by (simp add: park_dns_def park_stage_def o_def)
qed

section \<open>Dependents that moved are still fine\<close>

lemma direct_ok [simp]: "NDMPolicyName OutboundDirect = None" "usable on OutboundDirect" "OutboundDirect \<noteq> OutboundBlock"
proof -
  have "NDMPolicyName OutboundDirect = None \<and> isBuiltin OutboundDirect \<and> OutboundDirect \<noteq> OutboundBlock" by code_simp
  then show "NDMPolicyName OutboundDirect = None" "usable on OutboundDirect" "OutboundDirect \<noteq> OutboundBlock" by (simp_all add: usable_def)
qed

lemma list_ok_targets:
  assumes "list_ok on devs l" "case NDMPolicyName t of Some name \<Rightarrow> ValidNDMPolicyName name | None \<Rightarrow> usable on' t"
    and "dl = '''' \<or> NDMPolicyName dl = None \<and> usable on' dl"
  shows "list_ok on' devs (l\<lparr>rlOutbound := t, rlEnabled := b, rlDownloadVia := dl\<rparr>)"
proof -
  have "source_problem (l\<lparr>rlOutbound := x, rlEnabled := y, rlDownloadVia := z\<rparr>) = source_problem l" for x y z
    by (simp add: source_problem_def del: first_fail_simps)
  then show ?thesis using assms by (cases "NDMPolicyName t") (simp_all add: list_ok_def)
qed

lemma list_ok_move:
  assumes "spares i on on'" "list_ok on devs l" "NDMPolicyName r = None \<and> usable on' r" "dl = '''' \<or> NDMPolicyName dl = None \<and> usable on' dl"
  shows "list_ok on' devs (l\<lparr>rlOutbound := (if rlOutbound l = i then r else rlOutbound l), rlEnabled := b,
    rlDownloadVia := (if rlDownloadVia l = i then dl else rlDownloadVia l)\<rparr>)"
proof (rule list_ok_targets[OF assms(2)])
  show "(if rlDownloadVia l = i then dl else rlDownloadVia l) = '''' \<or>
      NDMPolicyName (if rlDownloadVia l = i then dl else rlDownloadVia l) = None \<and> usable on' (if rlDownloadVia l = i then dl else rlDownloadVia l)"
    using assms(2,4) usable_spares[OF assms(1), of "rlDownloadVia l"] by (cases "rlDownloadVia l = i") (auto simp: list_ok_def)
  show "case NDMPolicyName (if rlOutbound l = i then r else rlOutbound l) of
      Some name \<Rightarrow> ValidNDMPolicyName name | None \<Rightarrow> usable on' (if rlOutbound l = i then r else rlOutbound l)"
    using assms(2,3) usable_spares[OF assms(1), of "rlOutbound l"] by (cases "NDMPolicyName (rlOutbound l)") (simp_all add: list_ok_def)
qed

lemma park_list_eq:
  "park_list i l = l\<lparr>rlOutbound := (if rlOutbound l = i then OutboundDirect else rlOutbound l), rlEnabled := (if rlOutbound l = i then False else rlEnabled l),
     rlDownloadVia := (if rlDownloadVia l = i then '''' else rlDownloadVia l)\<rparr>"
  by (simp add: park_list_def Let_def)

lemma move_list_eq:
  "move_list i r l = l\<lparr>rlOutbound := (if rlOutbound l = i then r else rlOutbound l), rlEnabled := rlEnabled l,
     rlDownloadVia := (if rlDownloadVia l = i then r else rlDownloadVia l)\<rparr>"
  by (simp add: move_list_def Let_def)

lemma move_list_ok:
  "spares i on on' \<Longrightarrow> list_ok on devs l \<Longrightarrow> NDMPolicyName t = None \<and> usable on' t \<Longrightarrow> list_ok on' devs (move_list i t l)"
  unfolding move_list_eq by (rule list_ok_move) simp_all

lemma refill_id [simp]: "grID (refill i repl b g) = grID g"
  by (simp add: refill_def Let_def)

lemma move_rule_ok:
  "spares i on on' \<Longrightarrow> rule_ok on r \<Longrightarrow> NDMPolicyName t = None \<and> usable on' t \<Longrightarrow> rule_ok on' (move_rule i t r)"
  using rule_spares[of i on on' r] by (auto simp: move_rule_def rule_ok_def matchers_ok_def ruleHasNoMatcher_def)

lemma park_rule_ok: "spares i on on' \<Longrightarrow> rule_ok on r \<Longrightarrow> rule_ok on' (park_rule i r)"
  using rule_spares[of i on on' r] by (auto simp: park_rule_def rule_ok_def)

lemma filter_map_le: "(\<And>x. P (f x) \<Longrightarrow> P x) \<Longrightarrow> length (filter P (map f xs)) \<le> length (filter P xs)"
  by (induction xs) auto

lemma fewer_defaults:
  assumes "\<And>r. ruDefault (f r) \<and> \<not> ruDisabled (f r) \<Longrightarrow> ruDefault r \<and> \<not> ruDisabled r" "one_default p" "prRules q = map f (prRules p)"
  shows "one_default q"
proof -
  have "length (filter (\<lambda>r. ruDefault r \<and> \<not> ruDisabled r) (map f rs)) \<le> length (filter (\<lambda>r. ruDefault r \<and> \<not> ruDisabled r) rs)" for rs
    by (rule filter_map_le) (rule assms(1))
  from this[of "prRules p"] show ?thesis using assms(2,3) unfolding one_default_def by simp
qed

lemma server_ok_move:
  assumes "spares i on on'" "same_lookup i eps eps'" "server_ok on eps leak s" "vpn_user s \<Longrightarrow> vpn_conn s \<noteq> i"
    and "dsType s \<in> set networkDNSTypes \<Longrightarrow> dsDetour s = i \<Longrightarrow> r = '''' \<or> r \<noteq> OutboundBlock \<and> usable on' r"
  shows "server_ok on' eps' leak (move_detour i r s)"
proof -
  have "network_ok on' (move_detour i r s)" if "network_ok on s" "dsType s \<in> set networkDNSTypes"
    using that assms(5) usable_spares[OF assms(1)] by (auto simp: network_ok_def)
  moreover have "fakeip_problem (move_detour i r s) = fakeip_problem s" by (simp add: fakeip_problem_def del: first_fail_simps)
  ultimately show ?thesis using assms(2-4)
    by (auto simp: server_ok_def vpn_user_def vpn_conn_def same_lookup_def vpnResolverFault_def)
qed

lemma server_ok_off:
  assumes "server_ok on eps leak s" "dsType s \<in> set vpnDNSTypes" "dsTag s' = dsTag s" "dsType s' = dsType s" "\<not> dsEnabled s'"
  shows "server_ok on' eps' leak s'"
proof -
  have "list_all (\<lambda>t. t \<noteq> ''fakeip'' \<and> t \<notin> set networkDNSTypes) vpnDNSTypes" by code_simp
  then show ?thesis using assms by (auto simp: server_ok_def vpn_user_def fakeip_problem_def list_all_iff)
qed

lemma conns_fewer:
  assumes "distinct (map vpn_conn (filter vpn_user ss))" "\<And>s. s \<in> set ss \<Longrightarrow> vpn_user (f s) \<Longrightarrow> vpn_user s \<and> vpn_conn (f s) = vpn_conn s"
  shows "distinct (map vpn_conn (filter vpn_user (map f ss)))"
proof (rule subseq_distinct[OF _ assms(1)])
  show "subseq (map vpn_conn (filter vpn_user (map f ss))) (map vpn_conn (filter vpn_user ss))"
    using assms(2) by (induction ss) (auto simp: subseq_Cons2)
qed

lemma users_vpn:
  assumes "dns_wf on eps lids d" "s \<in> set (dnServers d)" "dsTag s \<in> users i (dnServers d)"
  shows "usesVPNResolvers s i \<and> dsType s \<in> set vpnDNSTypes"
proof -
  obtain u where u: "u \<in> set (dnServers d)" "usesVPNResolvers u i" "dsTag s = dsTag u" using assms(3) by (auto simp: users_def)
  then have "s = u" using assms(1,2) same_tag[of "dnServers d"] by (simp add: dns_wf_def)
  moreover have "dsType u \<in> set validDNSServerTypes" using assms(1) u(1) by (auto simp: dns_wf_def server_ok_def)
  ultimately show ?thesis using u(2) vpn_type by (auto simp: usesVPNResolvers_def)
qed

text \<open>A server with an address of its own that is reached through the connection: validation looks at its
  detour.\<close>

definition detours :: "id \<Rightarrow> DNSServer list \<Rightarrow> bool" where
  "detours i ss \<longleftrightarrow> (\<exists>s\<in>set ss. dsType s \<in> set networkDNSTypes \<and> dsDetour s = i)"

text \<open>Moving detours and switching off every resolver of the connection, together.\<close>

lemma dns_wf_parked:
  assumes "dns_wf on eps lids d" "spares i on on'" "same_lookup i eps eps'"
    and "detours i (dnServers d) \<Longrightarrow> r = '''' \<or> r \<noteq> OutboundBlock \<and> usable on' r"
  shows "dns_wf on' eps' lids (d\<lparr>dnServers := map (\<lambda>s. switched (users i (dnServers d)) (move_detour i r s)) (dnServers d),
     dnRules := map (switch_off (users i (dnServers d))) (dnRules d)\<rparr>)"
proof (rule dns_wf_change[OF assms(1)])
  let ?T = "users i (dnServers d)"
  show "dns_change d (\<lambda>s. switched ?T (move_detour i r s)) ?T"
    using assms(1) users_vpn[OF assms(1)] by (auto simp: dns_change_def dns_wf_def)
  show "server_ok on' eps' (dnLeakProof d) (switched ?T (move_detour i r s))" if s: "s \<in> set (dnServers d)" for s
  proof -
    have ok: "server_ok on eps (dnLeakProof d) s" using assms(1) s by (simp add: dns_wf_def)
    show ?thesis
    proof (cases "dsTag s \<in> ?T")
      case True
      have v: "dsType s \<in> set vpnDNSTypes" using users_vpn[OF assms(1) s True] by simp
      show ?thesis using True by (intro server_ok_off[OF ok v]) simp_all
    next
      case False
      then have "\<not> usesVPNResolvers s i" using s by (auto simp: users_def)
      then have "server_ok on' eps' (dnLeakProof d) (move_detour i r s)"
        using vpn_user_uses s assms(4) by (intro server_ok_move[OF assms(2,3) ok]) (auto simp: detours_def)
      then show ?thesis using False by (simp add: switched_def)
    qed
  qed
  show "distinct (map vpn_conn (filter vpn_user (map (\<lambda>s. switched ?T (move_detour i r s)) (dnServers d))))"
    using assms(1) by (intro conns_fewer) (auto simp: dns_wf_def vpn_user_def vpn_conn_def)
qed

lemma parked_wf:
  assumes "well_formed ck p" "subseq (map epID eps') (map epID (prEndpoints p))" "same_lookup i (prEndpoints p) eps'"
    and "\<forall>e\<in>set eps'. endpoint_ok ck e" "\<forall>g\<in>set (prGroups p). \<not> onlyMember (grMembers g) i"
    and q: "q = (parkDependents i p)\<lparr>prEndpoints := eps', prGroups := prune_members i (prGroups p)\<rparr>"
  shows "well_formed ck q"
proof -
  have o: "objects_wf ck p" using assms(1) by (simp add: well_formed_def)
  have di: "distinct (ids_of p)" using o by (simp add: objects_wf_def)
  then have d: "distinct (map epID (prEndpoints p))" by (simp add: ids_of_def)
  then have d': "distinct (map epID (prEndpoints q))" using assms(2) q subseq_distinct by simp
  have sp: "spares i (live p) (live q)" using spares_live[OF d d'] assms(3) q by (simp add: parkDependents_def)
  have ids: "map (ruID \<circ> park_rule i) rs = map ruID rs" "map (rlID \<circ> park_list i) ls = map rlID ls" for rs ls
    by (simp_all add: park_rule_def park_list_eq)
  have "distinct (ids_of q)"
    using di assms(2) q ids by (intro ids_fewer[of p q]) (simp_all add: parkDependents_def del: map_eq_conv)
  moreover have "\<forall>g\<in>set (prGroups q). group_ok g" using o assms(5) prune_ok[of "prGroups p" i] q by (simp add: objects_wf_def)
  moreover have "members_ok q" using o sp q by (intro prune_members_live[of p i q "prGroups p"]) (simp_all add: objects_wf_def)
  moreover have "acyclic (group_edges (prGroups q))" using o q prune_edges by (simp add: objects_wf_def)
  moreover have "\<forall>r\<in>set (prRules q). rule_ok (live q) r" using o park_rule_ok[OF sp] q by (simp add: objects_wf_def parkDependents_def)
  moreover have "one_default q"
  proof (rule fewer_defaults[of "park_rule i" p])
    show "ruDefault (park_rule i r) \<and> \<not> ruDisabled (park_rule i r) \<Longrightarrow> ruDefault r \<and> \<not> ruDisabled r" for r
      by (simp add: park_rule_def split: if_splits)
    show "one_default p" using o by (simp add: objects_wf_def)
    show "prRules q = map (park_rule i) (prRules p)" using q by (simp add: parkDependents_def)
  qed
  moreover have "\<forall>l\<in>set (prRoutingLists q). list_ok (live q) (map dgID (prDeviceGroups q)) l"
    using o q list_ok_move[OF sp] by (simp add: objects_wf_def parkDependents_def park_list_eq)
  ultimately have "objects_wf ck q" using o q assms(4) by (simp add: objects_wf_def parkDependents_def)
  moreover have "dns_wf (live q) (prEndpoints q) (rlID ` set (prRoutingLists q)) (park_dns i dns)" if "prDNS p = Some dns" for dns
  proof -
    have "rlID ` set (prRoutingLists q) = rlID ` set (prRoutingLists p)" using q by (auto simp: parkDependents_def park_list_eq image_iff)
    then show ?thesis unfolding park_dns_eq
      using assms(1,3) that q by (intro dns_wf_parked[OF _ sp]) (simp_all add: well_formed_def)
  qed
  ultimately show ?thesis using q by (cases "prDNS p") (simp_all add: well_formed_def parkDependents_def)
qed

lemma update_first_ids: "(\<And>x. P x \<Longrightarrow> key (f x) = key x) \<Longrightarrow> map key (update_first P f xs) = map key xs"
  by (induction xs) auto

lemma update_first_in: "x \<in> set (update_first P f xs) \<Longrightarrow> x \<in> set xs \<or> (\<exists>y. x = f y)"
  by (induction xs) (auto split: if_splits)

lemma put_endpoint_ids: "map epID (update_first (\<lambda>x. epID x = epID e) (\<lambda>_. e\<lparr>epImport := ''''\<rparr>) eps) = map epID eps"
  by (rule update_first_ids) simp

lemma put_endpoint_ok:
  assumes "\<forall>e\<in>set eps. endpoint_ok ck e" "endpoint_ok ck (e\<lparr>epImport := ''''\<rparr>)"
  shows "\<forall>x\<in>set (update_first (\<lambda>x. epID x = epID e) (\<lambda>_. e\<lparr>epImport := ''''\<rparr>) eps). endpoint_ok ck x"
  using assms update_first_in[of _ "\<lambda>x. epID x = epID e" "\<lambda>_. e\<lparr>epImport := ''''\<rparr>" eps] by blast

lemma detach_endpoint_wf:
  assumes "well_formed ck p" "detach_endpoint i p = Inr q"
  shows "well_formed ck q"
proof (rule parked_wf[OF assms(1)])
  show "q = (parkDependents i p)\<lparr>prEndpoints := filter (\<lambda>e. epID e \<noteq> i) (prEndpoints p), prGroups := prune_members i (prGroups p)\<rparr>"
    and "\<forall>g\<in>set (prGroups p). \<not> onlyMember (grMembers g) i"
    using assms(2) by (auto simp: detach_endpoint_def refusals Let_def parkDependents_def)
  show "\<forall>e\<in>set (filter (\<lambda>e. epID e \<noteq> i) (prEndpoints p)). endpoint_ok ck e" using assms(1) by (simp add: well_formed_def objects_wf_def)
qed (simp_all add: same_lookup_filter)

lemma disable_detaching_wf:
  assumes "well_formed ck p" "disable_detaching env e p = Inr (q, new)" "endpoint_ok ck (e\<lparr>epImport := ''''\<rparr>)"
  shows "well_formed ck q"
proof (rule parked_wf[OF assms(1)])
  let ?eps = "update_first (\<lambda>x. epID x = epID e) (\<lambda>_. e\<lparr>epImport := ''''\<rparr>) (prEndpoints p)"
  show "q = (parkDependents (epID e) p)\<lparr>prEndpoints := ?eps, prGroups := prune_members (epID e) (prGroups p)\<rparr>"
    and "\<forall>g\<in>set (prGroups p). \<not> onlyMember (grMembers g) (epID e)"
    using assms(2) by (auto simp: disable_detaching_def find_None_iff Let_def parkDependents_def putEndpoint_def split: option.splits if_splits)
  show "\<forall>e\<in>set ?eps. endpoint_ok ck e" using assms(1,3) by (intro put_endpoint_ok) (simp_all add: well_formed_def objects_wf_def)
  show "subseq (map epID ?eps) (map epID (prEndpoints p))" by (simp only: put_endpoint_ids subseq_order.order_refl)
  show "same_lookup (epID e) (prEndpoints p) ?eps" by (rule same_lookup_put)
qed

section \<open>Groups inside groups\<close>

definition member_of :: "Profile \<Rightarrow> (id \<times> id) set" where
  "member_of p = {(a, m) | a m g. GroupByID p a = Some g \<and> m \<in> set (grMembers g)}"

lemma reach_found: "reach_members p t ms seen = (True, seen') \<Longrightarrow> \<exists>m\<in>set ms. m = t \<or> (m, t) \<in> (member_of p)\<^sup>+"
proof (induction p t ms seen arbitrary: seen' rule: reach_members.induct)
  case (1 p target seen)
  then show ?case by simp
next
  case (2 p target m ms seen)
  show ?case
  proof (cases "m = target")
    case False
    consider g s where "GroupByID p m = Some g" "m \<notin> set seen" "reach_members p target (grMembers g) (m # seen) = (True, s)"
      | s where "reach_members p target ms s = (True, seen')"
          "(if m \<in> set seen then (False, seen) else (case GroupByID p m of None \<Rightarrow> (False, m # seen) | Some g \<Rightarrow> reach_members p target (grMembers g) (m # seen))) = (False, s)"
      using 2(3) False by (auto split: if_splits option.splits prod.splits bool.splits)
    then show ?thesis
    proof cases
      case 1
      then obtain x where "x \<in> set (grMembers g)" "x = target \<or> (x, target) \<in> (member_of p)\<^sup>+" using 2(1)[OF False _ 1(1) ] by auto
      moreover from this have "(m, x) \<in> member_of p" using 1(1) by (auto simp: member_of_def)
      ultimately have "(m, target) \<in> (member_of p)\<^sup>+" by (auto intro: trancl_into_trancl2)
      then show ?thesis by auto
    next
      case 2
      then show ?thesis using "2.IH"(2)[OF False 2(2)[symmetric]] by auto
    qed
  qed auto
qed

text \<open>Everything new was searched, its members are known, and none is the target.\<close>

definition explored :: "Profile \<Rightarrow> id \<Rightarrow> id set \<Rightarrow> id set \<Rightarrow> bool" where
  "explored p t A B \<longleftrightarrow> A \<subseteq> B \<and> (\<forall>x\<in>B - A. \<forall>y. (x, y) \<in> member_of p \<longrightarrow> y \<in> B \<and> y \<noteq> t)"

lemma explored_refl: "explored p t A A"
  by (simp add: explored_def)

lemma explored_chain: "explored p t A B \<Longrightarrow> explored p t B C \<Longrightarrow> explored p t A C"
  unfolding explored_def by blast

lemma explored_node:
  "explored p t (insert m A) B \<Longrightarrow> (\<And>y. (m, y) \<in> member_of p \<Longrightarrow> y \<in> B \<and> y \<noteq> t) \<Longrightarrow> explored p t A B \<and> m \<in> B"
  unfolding explored_def by blast

lemma reach_missed:
  "reach_members p t ms seen = (False, seen') \<Longrightarrow> explored p t (set seen) (set seen') \<and> set ms \<subseteq> set seen' \<and> t \<notin> set ms"
proof (induction p t ms seen arbitrary: seen' rule: reach_members.induct)
  case (1 p target seen)
  then show ?case by (simp add: explored_refl)
next
  case (2 p target m ms seen)
  let ?r = "if m \<in> set seen then (False, seen) else (case GroupByID p m of None \<Rightarrow> (False, m # seen) | Some g \<Rightarrow> reach_members p target (grMembers g) (m # seen))"
  have ne: "m \<noteq> target" using 2(3) by auto
  then obtain s where s: "?r = (False, s)" "reach_members p target ms s = (False, seen')"
    using 2(3) by (auto split: prod.splits bool.splits if_splits)
  note ms = "2.IH"(2)[OF ne s(1)[symmetric] refl s(2)]
  have m: "explored p target (set seen) (set s) \<and> m \<in> set s"
  proof (cases "m \<in> set seen \<or> GroupByID p m = None")
    case True
    then show ?thesis using s(1) by (auto simp: member_of_def explored_def split: if_splits option.splits)
  next
    case False
    then obtain g where g: "m \<notin> set seen" "GroupByID p m = Some g" by auto
    then have "reach_members p target (grMembers g) (m # seen) = (False, s)" using s(1) by simp
    note ih = "2.IH"(1)[OF ne g this]
    have "y \<in> set s \<and> y \<noteq> target" if "(m, y) \<in> member_of p" for y
    proof -
      have "y \<in> set (grMembers g)" using that g(2) by (simp add: member_of_def)
      then show ?thesis using ih by blast
    qed
    then show ?thesis using ih by (intro explored_node) simp_all
  qed
  have "m \<in> set seen'" using m ms unfolding explored_def by blast
  then show ?case using m ms ne explored_chain[of p target "set seen" "set s" "set seen'"] by simp
qed

lemma explored_closed:
  assumes "explored p t {a} B" "a \<in> B" "\<And>y. (a, y) \<in> member_of p \<Longrightarrow> y \<in> B \<and> y \<noteq> t"
  shows "(a, t) \<notin> (member_of p)\<^sup>+"
proof -
  have closed: "y \<in> B \<and> y \<noteq> t" if "x \<in> B" "(x, y) \<in> member_of p" for x y
  proof (cases "x = a")
    case True
    then show ?thesis using assms(3) that(2) by blast
  next
    case False
    then show ?thesis using assms(1) that unfolding explored_def by blast
  qed
  have "y \<in> B \<and> y \<noteq> t" if "(a, y) \<in> (member_of p)\<^sup>+" for y
    using that
  proof (induction rule: trancl_induct)
    case (base y)
    then show ?case using closed[OF assms(2)] by simp
  next
    case (step y z)
    then show ?case using closed[of y z] by simp
  qed
  then show ?thesis by blast
qed

text \<open>The walk decides whether a group holds an id, directly or through nested groups, and it terminates on every
  profile, cyclic ones included.\<close>

lemma groupReaches_iff: "groupReaches p a t \<longleftrightarrow> (a, t) \<in> (member_of p)\<^sup>+"
proof (cases "GroupByID p a")
  case None
  then have "(a, t) \<notin> (member_of p)\<^sup>+" by (auto simp: member_of_def dest!: tranclD)
  then show ?thesis using None by (simp add: groupReaches_def)
next
  case (Some g)
  obtain b seen where r: "reach_members p t (grMembers g) [a] = (b, seen)" by fastforce
  show ?thesis
  proof (cases b)
    case True
    then obtain m where "m \<in> set (grMembers g)" "m = t \<or> (m, t) \<in> (member_of p)\<^sup>+" using reach_found[of p t "grMembers g" "[a]" seen] r by auto
    moreover from this have "(a, m) \<in> member_of p" using Some by (auto simp: member_of_def)
    ultimately have "(a, t) \<in> (member_of p)\<^sup>+" by (auto intro: trancl_into_trancl2)
    then show ?thesis using Some r True by (simp add: groupReaches_def)
  next
    case False
    then have m: "explored p t {a} (set seen)" "set (grMembers g) \<subseteq> set seen" "t \<notin> set (grMembers g)"
      using reach_missed[of p t "grMembers g" "[a]" seen] r by simp_all
    have "(a, t) \<notin> (member_of p)\<^sup>+"
    proof (rule explored_closed[OF m(1)])
      show "a \<in> set seen" using m(1) by (simp add: explored_def)
      show "y \<in> set seen \<and> y \<noteq> t" if "(a, y) \<in> member_of p" for y
      proof -
        have "y \<in> set (grMembers g)" using that Some by (simp add: member_of_def)
        then show ?thesis using m(2,3) by blast
      qed
    qed
    then show ?thesis using Some r False by (simp add: groupReaches_def)
  qed
qed

section \<open>Moving dependents\<close>

lemma fold_skip: "(\<And>j. j \<in> set xs \<Longrightarrow> step d j = d) \<Longrightarrow> foldl step d xs = d"
  by (induction xs) auto

lemma fold_at:
  assumes "k < n" "\<And>j. j < k \<Longrightarrow> step d j = d" "step d k = d'" "\<And>j. k < j \<Longrightarrow> j < n \<Longrightarrow> step d' j = d'"
  shows "foldl step d [0..<n] = d'"
proof -
  have "[0..<n] = [0..<k] @ k # [Suc k..<n]" using assms(1) by (metis less_imp_le_nat upt_add_eq_append upt_conv_Cons zero_le le_add_diff_inverse)
  moreover have "foldl step d [0..<k] = d" using assms(2) by (intro fold_skip) simp
  moreover have "foldl step d' [Suc k..<n] = d'" using assms(4) by (intro fold_skip) simp
  ultimately show ?thesis using assms(3) by simp
qed

lemma uses_vpn_user:
  assumes "dns_wf on eps lids d" "s \<in> set (dnServers d)" "usesVPNResolvers s i"
  shows "vpn_user s" "vpn_conn s = i"
proof -
  have "dsType s \<in> set validDNSServerTypes" using assms(1,2) by (auto simp: dns_wf_def server_ok_def)
  then show "vpn_user s" "vpn_conn s = i" using assms(3) vpn_type by (auto simp: usesVPNResolvers_def vpn_user_def vpn_conn_def)
qed

lemma distinct_on: "distinct xs \<Longrightarrow> distinct (map h (filter P xs)) \<longleftrightarrow> inj_on h {x \<in> set xs. P x}"
  by (simp add: distinct_map)

lemma one_user:
  assumes "dns_wf on eps lids d" "s \<in> set (dnServers d)" "t \<in> set (dnServers d)" "usesVPNResolvers s i" "usesVPNResolvers t i"
  shows "s = t"
proof -
  have "distinct (dnServers d)" "distinct (map vpn_conn (filter vpn_user (dnServers d)))" using assms(1) by (auto simp: dns_wf_def distinct_map)
  then have "inj_on vpn_conn {x \<in> set (dnServers d). vpn_user x}" using distinct_on by blast
  moreover have "s \<in> {x \<in> set (dnServers d). vpn_user x}" "t \<in> {x \<in> set (dnServers d). vpn_user x}" "vpn_conn s = vpn_conn t"
    using assms uses_vpn_user[OF assms(1)] by auto
  ultimately show ?thesis by (meson inj_onD)
qed

definition rehomed :: "string \<Rightarrow> id \<Rightarrow> DNSServer \<Rightarrow> DNSServer" where
  "rehomed t repl s = (if dsTag s = t then s\<lparr>dsEndpoint := repl\<rparr> else s)"

text \<open>The fold over the servers, in closed form: without a server asking the connection only detours move; one
  that does is given the replacement, or parked when the replacement cannot serve it.\<close>

lemma repoint_dns_cases:
  assumes "dns_wf on eps lids d" "repl \<noteq> i" "TrimSpace repl = repl"
  defines "ss1 \<equiv> map (move_detour i repl) (dnServers d)"
  shows "(\<forall>s\<in>set (dnServers d). \<not> usesVPNResolvers s i) \<and> repoint_dns p i repl d = d\<lparr>dnServers := ss1\<rparr>
    \<or> (\<exists>u\<in>set (dnServers d). usesVPNResolvers u i \<and>
        (if vpnResolverTarget p ss1 (dsType u) repl then repoint_dns p i repl d = d\<lparr>dnServers := map (rehomed (dsTag u) repl) ss1\<rparr>
         else repoint_dns p i repl d = d\<lparr>dnServers := map (switched {dsTag u}) ss1, dnRules := map (switch_off {dsTag u}) (dnRules d)\<rparr>))"
proof -
  let ?d1 = "d\<lparr>dnServers := ss1\<rparr>"
  have n: "length ss1 = length (dnServers d)" by (simp add: ss1_def)
  have u1: "usesVPNResolvers (ss1 ! j) i \<longleftrightarrow> usesVPNResolvers (dnServers d ! j) i" if "j < length (dnServers d)" for j
    using that by (simp add: ss1_def)
  show ?thesis
  proof (cases "\<exists>k<length (dnServers d). usesVPNResolvers (dnServers d ! k) i")
    case False
    then have "foldl (repoint_server p i repl) ?d1 [0..<length ss1] = ?d1" using u1 n by (intro fold_skip) (simp add: repoint_server_def)
    then have "repoint_dns p i repl d = ?d1" by (simp add: repoint_dns_def ss1_def[symmetric])
    then show ?thesis using False by (auto simp: in_set_conv_nth)
  next
    case True
    then obtain k where k: "k < length (dnServers d)" "usesVPNResolvers (dnServers d ! k) i" by blast
    let ?u = "dnServers d ! k"
    have tags: "distinct (map dsTag (dnServers d))" using assms(1) by (simp add: dns_wf_def)
    have same: "dsTag (dnServers d ! j) = dsTag ?u \<longleftrightarrow> j = k" if "j < length (dnServers d)" for j
      using nth_eq_iff_index_eq[OF tags, of j k] that k(1) by simp
    have other: "\<not> usesVPNResolvers (dnServers d ! j) i" if "j < length (dnServers d)" "j \<noteq> k" for j
      using one_user[OF assms(1) nth_mem[OF that(1)] nth_mem[OF k(1)] _ k(2)] same[OF that(1)] that(2) by metis
    have skip: "repoint_server p i repl d' j = d'" if "j < length (dnServers d)" "j \<noteq> k" "\<not> usesVPNResolvers (dnServers d' ! j) i" for j d'
      using that by (simp add: repoint_server_def)
    define d' where "d' = repoint_server p i repl ?d1 k"
    have tag: "dsTag (ss1 ! k) = dsTag ?u" "dsType (ss1 ! k) = dsType ?u" "usesVPNResolvers (ss1 ! k) i" using k u1 by (simp_all add: ss1_def)
    have home: "ss1[k := (ss1 ! k)\<lparr>dsEndpoint := repl\<rparr>] = map (rehomed (dsTag ?u) repl) ss1"
      using k(1) same by (intro nth_equalityI) (auto simp: nth_list_update ss1_def rehomed_def)
    have d': "d' = (if vpnResolverTarget p ss1 (dsType ?u) repl then d\<lparr>dnServers := map (rehomed (dsTag ?u) repl) ss1\<rparr>
        else d\<lparr>dnServers := map (switched {dsTag ?u}) ss1, dnRules := map (switch_off {dsTag ?u}) (dnRules d)\<rparr>)"
      using tag home by (simp add: d'_def repoint_server_def Let_def parkVPNResolver_def switched_def[abs_def] switch_off_def[abs_def])
    have "\<not> usesVPNResolvers (dnServers d' ! j) i" if "j < length (dnServers d)" "j \<noteq> k" for j
      unfolding d' using that other same[OF that(1)] n by (simp add: ss1_def rehomed_def)
    then have "foldl (repoint_server p i repl) ?d1 [0..<length ss1] = d'"
      using k(1) n u1 other by (intro fold_at[of k]) (auto intro: skip simp: d'_def[symmetric])
    then have "repoint_dns p i repl d = d'" by (simp add: repoint_dns_def ss1_def[symmetric])
    then show ?thesis using d' k nth_mem[OF k(1)] by (intro disjI2 bexI[of _ ?u]) auto
  qed
qed

lemma vpn_not_network: "t \<in> set vpnDNSTypes \<Longrightarrow> t \<noteq> ''fakeip'' \<and> t \<notin> set networkDNSTypes"
proof -
  have "list_all (\<lambda>t. t \<noteq> ''fakeip'' \<and> t \<notin> set networkDNSTypes) vpnDNSTypes" by code_simp
  then show "t \<in> set vpnDNSTypes \<Longrightarrow> t \<noteq> ''fakeip'' \<and> t \<notin> set networkDNSTypes" by (simp add: list_all_iff)
qed

lemma dns_wf_rehomed:
  assumes w: "dns_wf on eps lids d" and sp: "spares i on on'" and sl: "same_lookup i eps eps'"
    and r: "TrimSpace repl = repl" "repl \<noteq> ''''" "repl \<noteq> OutboundBlock \<and> usable on' repl"
    and e: "EndpointByID p repl = find (\<lambda>e. epID e = repl) eps'"
    and u: "u \<in> set (dnServers d)" "usesVPNResolvers u i" "vpnResolverTarget p (map (move_detour i repl) (dnServers d)) (dsType u) repl"
  shows "dns_wf on' eps' lids (d\<lparr>dnServers := map (rehomed (dsTag u) repl) (map (move_detour i repl) (dnServers d))\<rparr>)"
proof -
  let ?g = "\<lambda>s. rehomed (dsTag u) repl (move_detour i repl s)"
  have tags: "distinct (map dsTag (dnServers d))" using w by (simp add: dns_wf_def)
  have vpn: "vpn_user u" "vpn_conn u = i" using uses_vpn_user[OF w u(1,2)] by simp_all
  then have ty: "dsType u \<in> set vpnDNSTypes" "dsEnabled u" by (simp_all add: vpn_user_def)
  have is_u: "s = u" if "s \<in> set (dnServers d)" "dsTag s = dsTag u" for s using same_tag[OF tags that(1) u(1) that(2)] .
  obtain c where c: "find (\<lambda>e. epID e = repl) eps' = Some c" "epEnabled c" "epEngine c = EngineSingBox" "epProtocol c = dsType u"
      and free: "\<And>s. s \<in> set (dnServers d) \<Longrightarrow> \<not> usesVPNResolvers s repl"
    using u(3) e by (auto simp: vpnResolverTarget_def list_ex_iff split: option.splits)
  have ch: "dns_change d ?g {}" using w tags by (auto simp: dns_change_def dns_wf_def rehomed_def)
  have ok: "server_ok on' eps' (dnLeakProof d) (?g s)" if s: "s \<in> set (dnServers d)" for s
  proof (cases "dsTag s = dsTag u")
    case True
    then have su: "s = u" using is_u s by blast
    have "server_ok on eps (dnLeakProof d) u" using w u(1) by (simp add: dns_wf_def)
    then show ?thesis using ty c r(1,2) vpn_not_network[OF ty(1)]
      by (simp add: su rehomed_def server_ok_def vpn_user_def vpn_conn_def vpnResolverFault_def fakeip_problem_def)
  next
    case False
    have "\<not> usesVPNResolvers s i" using one_user[OF w s u(1) _ u(2)] False by metis
    moreover have "server_ok on eps (dnLeakProof d) s" using w s by (simp add: dns_wf_def)
    ultimately have "server_ok on' eps' (dnLeakProof d) (move_detour i repl s)"
      using vpn_user_uses r(3) by (intro server_ok_move[OF sp sl]) blast+
    then show ?thesis using False by (simp add: rehomed_def)
  qed
  have dist: "distinct (map ?g (dnServers d))"
  proof -
    have "map (dsTag \<circ> ?g) (dnServers d) = map dsTag (dnServers d)" by (simp add: rehomed_def)
    then have "distinct (map dsTag (map ?g (dnServers d)))" using tags by (simp only: map_map)
    then show ?thesis by (metis distinct_map)
  qed
  have "inj_on vpn_conn {x \<in> set (map ?g (dnServers d)). vpn_user x}"
  proof (rule inj_onI)
    fix x y assume "x \<in> {x \<in> set (map ?g (dnServers d)). vpn_user x}" "y \<in> {x \<in> set (map ?g (dnServers d)). vpn_user x}" and xy: "vpn_conn x = vpn_conn y"
    then obtain s t where st: "s \<in> set (dnServers d)" "x = ?g s" "vpn_user s" "t \<in> set (dnServers d)" "y = ?g t" "vpn_user t"
      by (auto simp: vpn_user_def rehomed_def split: if_splits)
    have conn: "vpn_conn (?g s) = (if dsTag s = dsTag u then repl else vpn_conn s)" for s using r(1) by (simp add: vpn_conn_def rehomed_def)
    have nr: "vpn_conn s \<noteq> repl" if "s \<in> set (dnServers d)" "vpn_user s" for s
      using free[OF that(1)] vpn_user_uses[OF that(2)] by blast
    have inj: "s = t" if "vpn_conn s = vpn_conn t"
      using one_user[OF w st(1,4), of "vpn_conn s"] vpn_user_uses[OF st(3)] vpn_user_uses[OF st(6)] that by simp
    show "x = y"
      using xy inj nr[OF st(1,3)] nr[OF st(4,6)] is_u[OF st(1)] is_u[OF st(4)] st(2,5) conn[of s] conn[of t]
      by (cases "dsTag s = dsTag u"; cases "dsTag t = dsTag u") auto
  qed
  then have "distinct (map vpn_conn (filter vpn_user (map ?g (dnServers d))))" using distinct_on[OF dist] by blast
  from dns_wf_change[OF w ch ok this] show ?thesis by (simp add: o_def)
qed

lemma dns_wf_repointed:
  assumes w: "dns_wf on eps lids d" and sp: "spares i on on'" and sl: "same_lookup i eps eps'"
    and r: "repl \<noteq> i" "TrimSpace repl = repl" "repl \<noteq> ''''" "usable on' repl" "repl = OutboundBlock \<Longrightarrow> \<not> detours i (dnServers d) \<and> EndpointByID p repl = None"
    and e: "EndpointByID p repl = find (\<lambda>e. epID e = repl) eps'"
  shows "dns_wf on' eps' lids (repoint_dns p i repl d)"
proof -
  let ?ss1 = "map (move_detour i repl) (dnServers d)"
  have parked: "dns_wf on' eps' lids (d\<lparr>dnServers := map (switched (users i (dnServers d))) ?ss1, dnRules := map (switch_off (users i (dnServers d))) (dnRules d)\<rparr>)"
    using dns_wf_parked[OF w sp sl, of repl] r(4,5) by (auto simp: o_def)
  consider "\<forall>s\<in>set (dnServers d). \<not> usesVPNResolvers s i" "repoint_dns p i repl d = d\<lparr>dnServers := ?ss1\<rparr>"
    | u where "u \<in> set (dnServers d)" "usesVPNResolvers u i" "vpnResolverTarget p ?ss1 (dsType u) repl"
        "repoint_dns p i repl d = d\<lparr>dnServers := map (rehomed (dsTag u) repl) ?ss1\<rparr>"
    | u where "u \<in> set (dnServers d)" "usesVPNResolvers u i"
        "repoint_dns p i repl d = d\<lparr>dnServers := map (switched {dsTag u}) ?ss1, dnRules := map (switch_off {dsTag u}) (dnRules d)\<rparr>"
    using repoint_dns_cases[OF w r(1,2), of p] by (auto split: if_splits)
  then show ?thesis
  proof cases
    case 1
    then have "users i (dnServers d) = {}" by (auto simp: users_def)
    moreover have "switched {} = (\<lambda>s. s)" by (simp add: fun_eq_iff)
    ultimately show ?thesis using parked 1(2) by (simp add: o_def)
  next
    case (2 u)
    then have "repl \<noteq> OutboundBlock" using r(5) by (auto simp: vpnResolverTarget_def split: option.splits)
    then show ?thesis using 2 dns_wf_rehomed[OF w sp sl r(2,3) _ e] r(4) by simp
  next
    case (3 u)
    then have "users i (dnServers d) = {dsTag u}" using one_user[OF w] by (auto simp: users_def)
    then show ?thesis using parked 3(3) by simp
  qed
qed

text \<open>An outbound that a dependent may be moved to: \<open>direct\<close>, a switched-on endpoint or a group, with an id
  that is no access policy and carries no surrounding blanks, or \<open>block\<close> as long as no DNS server is reached
  through the connection.\<close>

definition dns_detours :: "Profile \<Rightarrow> id \<Rightarrow> bool" where
  "dns_detours p i \<longleftrightarrow> (case prDNS p of None \<Rightarrow> False | Some d \<Rightarrow> detours i (dnServers d))"

definition good_target :: "Profile \<Rightarrow> id \<Rightarrow> id \<Rightarrow> bool" where
  "good_target p i repl \<longleftrightarrow> repl \<noteq> i \<and> (repl = OutboundDirect \<or> live p repl \<or> repl = OutboundBlock \<and> \<not> dns_detours p i)
     \<and> NDMPolicyName repl = None \<and> TrimSpace repl = repl"

lemma block_ok [simp]: "NDMPolicyName OutboundBlock = None" "TrimSpace OutboundBlock = OutboundBlock" "usable on OutboundBlock"
proof -
  have "NDMPolicyName OutboundBlock = None \<and> TrimSpace OutboundBlock = OutboundBlock \<and> isBuiltin OutboundBlock" by code_simp
  then show "NDMPolicyName OutboundBlock = None" "TrimSpace OutboundBlock = OutboundBlock" "usable on OutboundBlock" by (simp_all add: usable_def)
qed

lemma repointed_wf:
  assumes "well_formed ck p" "good_target p i repl"
    and "subseq (map epID eps') (map epID (prEndpoints p))" "same_lookup i (prEndpoints p) eps'" "\<forall>e\<in>set eps'. endpoint_ok ck e"
    and gs: "map grID gs' = map grID (prGroups p)" "\<forall>g\<in>set gs'. group_ok g" "acyclic (group_edges gs')"
      "\<forall>g\<in>set gs'. \<forall>m\<in>set (grMembers g). m \<noteq> i \<and> (m = OutboundDirect \<or> live p m)"
    and q: "q = p\<lparr>prEndpoints := eps', prGroups := gs', prRules := map (move_rule i repl) (prRules p),
      prRoutingLists := map (move_list i repl) (prRoutingLists p), prDNS := map_option (repoint_dns p2 i repl) (prDNS p)\<rparr>"
    and p2: "EndpointByID p2 repl = EndpointByID p repl"
  shows "well_formed ck q"
proof -
  have o: "objects_wf ck p" using assms(1) by (simp add: well_formed_def)
  have di: "distinct (ids_of p)" using o by (simp add: objects_wf_def)
  then have d: "distinct (map epID (prEndpoints p))" by (simp add: ids_of_def)
  then have d': "distinct (map epID (prEndpoints q))" using assms(3) q subseq_distinct by simp
  have gid: "grID ` set gs' = grID ` set (prGroups p)" using gs(1) by (metis image_set)
  have sp: "spares i (live p) (live q)" using spares_live[OF d d'] assms(4) q gid by simp
  have r: "repl \<noteq> i" "NDMPolicyName repl = None" "TrimSpace repl = repl" "usable (live q) repl" "repl \<noteq> ''''"
    "repl = OutboundBlock \<Longrightarrow> \<not> dns_detours p i \<and> EndpointByID p repl = None"
  proof -
    show "repl \<noteq> i" "NDMPolicyName repl = None" "TrimSpace repl = repl" using assms(2) by (simp_all add: good_target_def)
    have l: "repl = OutboundDirect \<or> live p repl \<or> repl = OutboundBlock \<and> \<not> dns_detours p i" using assms(2) by (simp add: good_target_def)
    show "usable (live q) repl"
    proof (cases "repl = OutboundDirect \<or> repl = OutboundBlock")
      case False
      then have "live q repl" using l sp \<open>repl \<noteq> i\<close> by (simp add: spares_def)
      then show ?thesis by (simp add: usable_def)
    qed auto
    have b: "OutboundBlock \<notin> epID ` set (prEndpoints p)" "OutboundBlock \<notin> grID ` set (prGroups p)" using di by (simp_all add: ids_of_def)
    moreover have "\<forall>e\<in>set (prEndpoints p). epID e \<noteq> ''''" "\<forall>g\<in>set (prGroups p). grID g \<noteq> ''''"
      using o by (simp_all add: objects_wf_def endpoint_ok_def group_ok_def)
    ultimately have "\<not> live p ''''" "\<not> live p OutboundBlock" by (auto simp: live_def image_iff)
    then show "repl \<noteq> ''''" "repl = OutboundBlock \<Longrightarrow> \<not> dns_detours p i \<and> EndpointByID p repl = None"
      using l b by (auto simp: OutboundDirect_def OutboundBlock_def EndpointByID_def find_None_iff image_iff)
  qed
  have ids: "map (ruID \<circ> move_rule i repl) rs = map ruID rs" "map (rlID \<circ> move_list i repl) ls = map rlID ls" for rs ls
    by (simp_all add: move_rule_def move_list_eq)
  have "distinct (ids_of q)"
    using di assms(3) q ids gs(1) by (intro ids_fewer[of p q]) (simp_all del: map_eq_conv)
  moreover have "members_ok q" using gs(4) sp q by (auto simp: members_ok_def spares_def)
  moreover have "\<forall>x\<in>set (prRules q). rule_ok (live q) x" using o move_rule_ok[OF sp] r(2,4) q by (simp add: objects_wf_def)
  moreover have "one_default q"
  proof (rule fewer_defaults[of "move_rule i repl" p])
    show "ruDefault (move_rule i repl x) \<and> \<not> ruDisabled (move_rule i repl x) \<Longrightarrow> ruDefault x \<and> \<not> ruDisabled x" for x
      by (simp add: move_rule_def split: if_splits)
    show "one_default p" using o by (simp add: objects_wf_def)
  qed (simp add: q)
  moreover have "\<forall>l\<in>set (prRoutingLists q). list_ok (live q) (map dgID (prDeviceGroups q)) l"
    using o q move_list_ok[OF sp] r(2,4) by (simp add: objects_wf_def)
  ultimately have "objects_wf ck q" using o q assms(5) gs(2,3) by (simp add: objects_wf_def)
  moreover have "dns_wf (live q) (prEndpoints q) (rlID ` set (prRoutingLists q)) (repoint_dns p2 i repl dns)" if "prDNS p = Some dns" for dns
  proof -
    have "rlID ` set (prRoutingLists q) = rlID ` set (prRoutingLists p)" using q by (auto simp: move_list_eq image_iff)
    moreover have "EndpointByID p2 repl = find (\<lambda>e. epID e = repl) eps'"
      using p2 assms(4) r(1) by (simp add: EndpointByID_def same_lookup_def)
    ultimately show ?thesis using assms(1,4) that q r p2 by (intro dns_wf_repointed[OF _ sp]) (simp_all add: well_formed_def dns_detours_def)
  qed
  ultimately show ?thesis using q by (cases "prDNS p") (simp_all add: well_formed_def)
qed

lemma replacement_live:
  assumes "good_target p i repl" "EndpointByID p repl \<noteq> None \<or> GroupByID p repl \<noteq> None" "distinct (ids_of p)"
  shows "live p repl"
proof -
  have "repl \<in> epID ` set (prEndpoints p) \<union> grID ` set (prGroups p)"
    using assms(2) by (auto dest!: EndpointByID_Some GroupByID_Some)
  moreover have "OutboundDirect \<notin> epID ` set (prEndpoints p) \<union> grID ` set (prGroups p)" "OutboundBlock \<notin> epID ` set (prEndpoints p) \<union> grID ` set (prGroups p)"
    using assms(3) by (simp_all add: ids_of_def)
  ultimately have "repl \<noteq> OutboundDirect" "repl \<noteq> OutboundBlock" by metis+
  then show ?thesis using assms(1) by (simp add: good_target_def)
qed

lemma delete_replacing_wf:
  assumes "well_formed ck p" "delete_replacing i repl p = Inr q" "good_target p i repl"
  shows "well_formed ck q"
proof -
  let ?ep = "EndpointByID p repl \<noteq> None"
  let ?gs = "map (refill i repl ?ep) (prGroups p)"
  have o: "objects_wf ck p" using assms(1) by (simp add: well_formed_def)
  have di: "distinct (ids_of p)" using o by (simp add: objects_wf_def)
  have q: "q = p\<lparr>prEndpoints := filter (\<lambda>e. epID e \<noteq> i) (prEndpoints p), prGroups := ?gs, prRules := map (move_rule i repl) (prRules p),
      prRoutingLists := map (move_list i repl) (prRoutingLists p), prDNS := map_option (repoint_dns p i repl) (prDNS p)\<rparr>"
    and only: "\<forall>g\<in>set (prGroups p). onlyMember (grMembers g) i \<longrightarrow> ?ep"
    using assms(2) by (auto simp: delete_replacing_def refusals Let_def repointDependents_def)
  have ne: "repl \<noteq> i" using assms(3) by (simp add: good_target_def)
  have lr: "?ep \<longrightarrow> live p repl" using replacement_live[OF assms(3)] di by blast
  have nogroup: "?ep \<longrightarrow> repl \<notin> grID ` set (prGroups p)" using di by (auto simp: ids_of_def dest!: EndpointByID_Some)
  have mem: "set (grMembers (refill i repl ?ep g)) = (if removeString (grMembers g) i = [] \<and> ?ep then {repl} else set (grMembers g) - {i})" for g
    by (auto simp: refill_def removeString_def Let_def)
  show ?thesis
  proof (rule repointed_wf[OF assms(1,3) _ same_lookup_filter _ _ _ _ _ q refl])
    show "\<forall>e\<in>set (filter (\<lambda>e. epID e \<noteq> i) (prEndpoints p)). endpoint_ok ck e" using o by (simp add: objects_wf_def)
    show "map grID ?gs = map grID (prGroups p)" by simp
    show "\<forall>g\<in>set ?gs. group_ok g"
      using o only by (auto simp: refill_def group_ok_def objects_wf_def removeString_def filter_empty_conv onlyMember_def list_all_iff Let_def)
    have "group_edges ?gs \<subseteq> group_edges (prGroups p)"
    proof
      fix x assume "x \<in> group_edges ?gs"
      then obtain g m where g: "g \<in> set (prGroups p)" "x = (grID g, m)" "m \<in> set (grMembers (refill i repl ?ep g))" "m \<in> grID ` set (prGroups p)"
        by (auto simp: group_edges_def image_image)
      then have "m \<in> set (grMembers g)" using nogroup mem[of g] by (auto split: if_splits)
      then show "x \<in> group_edges (prGroups p)" using g by (auto simp: group_edges_def)
    qed
    then show "acyclic (group_edges ?gs)" using o acyclic_subset by (auto simp: objects_wf_def)
    show "\<forall>g\<in>set ?gs. \<forall>m\<in>set (grMembers g). m \<noteq> i \<and> (m = OutboundDirect \<or> live p m)"
      using o ne lr mem by (auto simp: objects_wf_def members_ok_def split: if_splits)
  qed simp
qed

text \<open>New edges into one node close a cycle only if that node already reaches their source.\<close>

lemma acyclic_add_edges:
  assumes "acyclic r" "\<And>a. a \<in> A \<Longrightarrow> (y, a) \<notin> r\<^sup>*"
  shows "acyclic (r \<union> A \<times> {y})"
proof -
  let ?R = "r \<union> A \<times> {y}"
  have from_y: "(y, z) \<in> r\<^sup>*" if "(y, z) \<in> ?R\<^sup>*" for z
    using that by (induction rule: rtrancl_induct) (use assms(2) in \<open>auto intro: rtrancl_into_rtrancl\<close>)
  have path: "(x, z) \<in> r\<^sup>+ \<or> (\<exists>a\<in>A. (x, a) \<in> ?R\<^sup>* \<and> (y, z) \<in> ?R\<^sup>*)" if "(x, z) \<in> ?R\<^sup>+" for x z
    using that
  proof (induction rule: trancl_induct)
    case (step u v)
    then show ?case
    proof (cases "(u, v) \<in> r")
      case True
      then show ?thesis using step(3) by (auto intro: trancl_into_trancl rtrancl_into_rtrancl)
    next
      case False
      then show ?thesis using step(1,2) by (auto intro: trancl_into_rtrancl)
    qed
  qed auto
  have "(x, x) \<notin> ?R\<^sup>+" for x
  proof
    assume "(x, x) \<in> ?R\<^sup>+"
    then obtain a where "a \<in> A" "(x, a) \<in> ?R\<^sup>*" "(y, x) \<in> ?R\<^sup>*" using path[of x x] assms(1) unfolding acyclic_def by blast
    then show False using from_y[of a] assms(2)[of a] by (auto intro: rtrancl_trans)
  qed
  then show ?thesis by (simp add: acyclic_def)
qed

lemma set_replaceString: "set (replaceString ss old repl) = (\<lambda>s. if s = old then repl else s) ` set ss"
proof -
  let ?f = "\<lambda>out s. let t = (if s = old then repl else s) in if t \<in> set out then out else out @ [t]"
  have "set (foldl ?f out ss) = set out \<union> (\<lambda>s. if s = old then repl else s) ` set ss" for out
    by (induction ss arbitrary: out) (auto simp: Let_def)
  then show ?thesis by (simp add: replaceString_def)
qed

lemma swap_members:
  "grID (swap_member i repl g) = grID g" "set (grMembers (swap_member i repl g)) = (\<lambda>s. if s = i then repl else s) ` set (grMembers g)"
proof -
  show "grID (swap_member i repl g) = grID g" by (simp add: swap_member_def)
  show "set (grMembers (swap_member i repl g)) = (\<lambda>s. if s = i then repl else s) ` set (grMembers g)"
  proof (cases "i \<in> set (grMembers g)")
    case False
    then have "(\<lambda>s. if s = i then repl else s) ` set (grMembers g) = set (grMembers g)" by (intro set_eqI) (auto simp: image_iff)
    then show ?thesis using False by (simp add: swap_member_def)
  qed (simp add: swap_member_def set_replaceString)
qed

lemma group_edges_member: "distinct (map grID (prGroups p)) \<Longrightarrow> g \<in> set (prGroups p) \<Longrightarrow> m \<in> set (grMembers g) \<Longrightarrow> (grID g, m) \<in> member_of p"
proof -
  assume d: "distinct (map grID (prGroups p))" and g: "g \<in> set (prGroups p)" and m: "m \<in> set (grMembers g)"
  have "find (\<lambda>x. grID x = grID g) gs = Some g" if "distinct (map grID gs)" "g \<in> set gs" for gs
    using that by (induction gs) (auto simp: image_iff)
  then have "GroupByID p (grID g) = Some g" using d g by (simp add: GroupByID_def)
  then show ?thesis using m by (auto simp: member_of_def)
qed

lemma swap_acyclic:
  assumes "distinct (map grID (prGroups p))" "acyclic (group_edges (prGroups p))" "\<not> groupReaches p repl i"
  shows "acyclic (group_edges (map (swap_member i repl) (prGroups p)))"
proof -
  let ?E = "group_edges (prGroups p)" and ?A = "{grID g | g. g \<in> set (prGroups p) \<and> i \<in> set (grMembers g)}"
  have "group_edges (map (swap_member i repl) (prGroups p)) \<subseteq> ?E \<union> ?A \<times> {repl}"
    by (auto simp: group_edges_def swap_members image_image split: if_splits)
  moreover have "acyclic (?E \<union> ?A \<times> {repl})"
  proof (rule acyclic_add_edges[OF assms(2)])
    fix a assume "a \<in> ?A"
    then have a: "(a, i) \<in> member_of p" using group_edges_member[OF assms(1)] by auto
    have "?E \<subseteq> member_of p" using group_edges_member[OF assms(1)] by (auto simp: group_edges_def)
    then have "?E\<^sup>* \<subseteq> (member_of p)\<^sup>*" by (rule rtrancl_mono)
    then show "(repl, a) \<notin> ?E\<^sup>*" using a assms(3) unfolding groupReaches_iff by (auto intro: rtrancl_into_trancl1)
  qed
  ultimately show ?thesis by (rule acyclic_subset[rotated])
qed

lemma member_of_put: "groupReaches (putEndpoint e p) a t = groupReaches p a t"
  by (simp add: groupReaches_iff member_of_def GroupByID_def putEndpoint_def)

lemma disable_replacing_wf:
  assumes "well_formed ck p" "disable_replacing env e repl p = Inr (q, new)" "endpoint_ok ck (e\<lparr>epImport := ''''\<rparr>)" "good_target p (epID e) repl"
  shows "well_formed ck q"
proof -
  let ?i = "epID e" and ?p1 = "putEndpoint e p"
  let ?eps = "update_first (\<lambda>x. epID x = epID e) (\<lambda>_. e\<lparr>epImport := ''''\<rparr>) (prEndpoints p)" and ?gs = "map (swap_member ?i repl) (prGroups p)"
  have o: "objects_wf ck p" using assms(1) by (simp add: well_formed_def)
  have di: "distinct (ids_of p)" using o by (simp add: objects_wf_def)
  have ne: "repl \<noteq> ?i" using assms(4) by (simp add: good_target_def)
  have groups: "prGroups ?p1 = prGroups p" by (simp add: putEndpoint_def)
  have look: "EndpointByID ?p1 repl = EndpointByID p repl" "GroupByID ?p1 repl = GroupByID p repl"
    using same_lookup_put[of e "prEndpoints p"] ne by (simp_all add: EndpointByID_def GroupByID_def putEndpoint_def same_lookup_def)
  have nr: "\<not> groupReaches p repl ?i"
    and mem: "\<forall>g\<in>set (prGroups p). ?i \<in> set (grMembers g) \<longrightarrow> EndpointByID p repl \<noteq> None \<or> GroupByID p repl \<noteq> None"
    and q: "q = repointDependents ?i repl (?p1\<lparr>prGroups := ?gs\<rparr>)"
    using assms(2) by (auto simp: disable_replacing_def Let_def find_None_iff look groups member_of_put split: if_splits option.splits)
  have q': "q = p\<lparr>prEndpoints := ?eps, prGroups := ?gs, prRules := map (move_rule ?i repl) (prRules p),
      prRoutingLists := map (move_list ?i repl) (prRoutingLists p), prDNS := map_option (repoint_dns (?p1\<lparr>prGroups := ?gs\<rparr>) ?i repl) (prDNS p)\<rparr>"
    unfolding q repointDependents_def by (simp add: putEndpoint_def)
  show ?thesis
  proof (rule repointed_wf[OF assms(1,4) _ same_lookup_put _ _ _ _ _ q'])
    show "subseq (map epID ?eps) (map epID (prEndpoints p))" by (simp only: put_endpoint_ids subseq_order.order_refl)
    show "\<forall>e\<in>set ?eps. endpoint_ok ck e" using o assms(3) by (intro put_endpoint_ok) (simp_all add: objects_wf_def)
    show "map grID ?gs = map grID (prGroups p)" by (simp add: swap_members)
    show "EndpointByID (?p1\<lparr>prGroups := ?gs\<rparr>) repl = EndpointByID p repl" using look(1) by (simp add: EndpointByID_def)
    show "acyclic (group_edges ?gs)" using o di by (intro swap_acyclic[OF _ _ nr]) (simp_all add: objects_wf_def ids_of_def)
    show "\<forall>g\<in>set ?gs. group_ok g"
    proof
      fix g' assume "g' \<in> set ?gs"
      then have "g' \<in> swap_member ?i repl ` set (prGroups p)" by (simp only: set_map)
      then obtain g where g: "g \<in> set (prGroups p)" "g' = swap_member ?i repl g" by (rule imageE)
      then have "group_ok g" using o by (simp add: objects_wf_def)
      moreover have "grMembers g' = [] \<longleftrightarrow> grMembers g = []" unfolding g(2) by (simp only: swap_members image_is_empty flip: set_empty)
      ultimately show "group_ok g'" using g(2) by (simp add: group_ok_def swap_members)
    qed
    show "\<forall>g\<in>set ?gs. \<forall>m\<in>set (grMembers g). m \<noteq> ?i \<and> (m = OutboundDirect \<or> live p m)"
    proof (intro ballI)
      fix g' m assume "g' \<in> set ?gs" "m \<in> set (grMembers g')"
      then obtain g s where g: "g \<in> set (prGroups p)" "s \<in> set (grMembers g)" "m = (if s = ?i then repl else s)"
        unfolding set_map using swap_members(2)[of ?i repl] by blast
      show "m \<noteq> ?i \<and> (m = OutboundDirect \<or> live p m)"
      proof (cases "s = ?i")
        case True
        then have "EndpointByID p repl \<noteq> None \<or> GroupByID p repl \<noteq> None" using g mem by blast
        then show ?thesis using True g(3) ne replacement_live[OF assms(4) _ di] by simp
      next
        case False
        then show ?thesis using g o by (auto simp: objects_wf_def members_ok_def)
      qed
    qed
  qed
qed

end
