(* ===== verification/Store_Safety.thy ===== *)
theory Store_Safety
  imports Store_Moves
begin

text \<open>
  What the writes of the store do to a valid profile: the deletes, detaches, reorders and feed refreshes keep it
  valid, so do moves onto a suitable outbound, and the guard of \<open>publish\<close> keeps stranded VPN resolvers out of
  every run of writes. The lists the panel shows before a delete agree with the refusals. Last, the two accepted
  writes that a DNS detour turns into an invalid profile.
\<close>

section \<open>Valid stores\<close>

definition valid_store :: "Checks \<Rightarrow> Store \<Rightarrow> bool" where
  "valid_store ck s \<longleftrightarrow> well_formed ck (profile_of s)"

lemma publish_keeps: "valid_store ck s \<Longrightarrow> well_formed ck q \<Longrightarrow> valid_store ck (fst (publish env q s))"
  by (auto simp: valid_store_def publish_def profile_of_def Snapshot_def Let_def split: option.split)

lemma edit_keeps:
  "valid_store ck s \<Longrightarrow> (\<And>q. edit (profile_of s) = Inr q \<Longrightarrow> well_formed ck q) \<Longrightarrow> valid_store ck (fst (commit_edit env edit s))"
  by (auto simp: commit_edit_def publish_keeps split: sum.split)

lemma outcome_fst [simp]: "fst (outcome x) = fst x"
  by (simp add: outcome_def)

lemma publish_reported: "fst (case publish env q s of (s', Some e) \<Rightarrow> (s', a, Some e) | (s', None) \<Rightarrow> (s', b, None)) = fst (publish env q s)"
  by (simp split: prod.split option.split)

lemma at_keeps:
  assumes "valid_store ck s" "\<And>q new. edit (profile_of s) = Inr (q, new) \<Longrightarrow> well_formed ck q"
  shows "valid_store ck (fst (commit_at env rv cur edit s))"
proof (cases "edit (profile_of s)")
  case (Inr x)
  obtain q new where x: "x = (q, new)" by (cases x)
  then show ?thesis using publish_keeps[OF assms(1)] assms(2)[of q new] assms(1) Inr
    by (simp add: commit_at_def Let_def publish_reported split: option.split)
qed (use assms(1) in \<open>auto simp: commit_at_def Let_def split: option.split\<close>)

definition safe_op :: "Checks \<Rightarrow> Profile \<Rightarrow> Op \<Rightarrow> bool" where
  "safe_op ck p op =
    (case op of
       OpDeleteEndpoint i \<Rightarrow> True
     | OpDeleteEndpointReplacing i repl \<Rightarrow> repl = '''' \<or> good_target p i repl
     | OpDetachEndpoint i \<Rightarrow> True
     | OpDisableReplacing e repl rv \<Rightarrow> endpoint_ok ck (e\<lparr>epImport := ''''\<rparr>) \<and> good_target p (epID e) repl
     | OpDisableDetaching e rv \<Rightarrow> endpoint_ok ck (e\<lparr>epImport := ''''\<rparr>)
     | OpDeleteGroup i \<Rightarrow> True
     | OpDeleteRule i \<Rightarrow> True
     | OpDeleteDeviceGroup i \<Rightarrow> True
     | OpSetCache i cidrs \<Rightarrow> cidrs \<noteq> []
     | OpSetCaches cs \<Rightarrow> True
     | OpDeleteList i \<Rightarrow> True
     | OpReorder ids \<Rightarrow> True
     | OpSetDNS d \<Rightarrow> ValidateDNS (p\<lparr>prDNS := d\<rparr>) = None
     | OpSetDNSIfGen d g \<Rightarrow> ValidateDNS (p\<lparr>prDNS := d\<rparr>) = None
     | _ \<Rightarrow> False)"

lemma set_dns_wf:
  assumes "well_formed ck p" "ValidateDNS (p\<lparr>prDNS := d\<rparr>) = None"
  shows "well_formed ck (p\<lparr>prDNS := d\<rparr>)"
proof -
  have o: "objects_wf ck (p\<lparr>prDNS := d\<rparr>)"
    using assms(1) by (simp add: well_formed_def objects_wf_def ids_of_def live_def[abs_def] members_ok_def one_default_def)
  show ?thesis using assms(2) o validateDNS_None[OF dnsNamespace_ok[OF o]]
    by (auto simp: well_formed_def ValidateDNS_def dns_part_def split: option.splits)
qed

lemma safe_keeps:
  assumes "valid_store ck s" "safe_op ck (profile_of s) op"
  shows "valid_store ck (fst (exec env op s))"
proof -
  have w: "well_formed ck (profile_of s)" using assms(1) by (simp add: valid_store_def)
  note keeps = edit_keeps[OF assms(1)] at_keeps[OF assms(1)]
  show ?thesis
  proof (cases op)
    case (OpDeleteEndpoint i)
    show ?thesis using keeps(1) delete_endpoint_wf[OF w] by (simp add: OpDeleteEndpoint DeleteEndpoint_def)
  next
    case (OpDeleteEndpointReplacing i repl)
    have "valid_store ck (fst (DeleteEndpoint env i s))" using keeps(1) delete_endpoint_wf[OF w] by (simp add: DeleteEndpoint_def)
    moreover have "valid_store ck (fst (commit_edit env (delete_replacing i repl) s))" if "good_target (profile_of s) i repl"
      by (rule keeps(1), rule delete_replacing_wf[OF w _ that])
    ultimately show ?thesis using assms OpDeleteEndpointReplacing by (auto simp: DeleteEndpointReplacing_def safe_op_def)
  next
    case (OpDetachEndpoint i)
    show ?thesis using keeps(1) detach_endpoint_wf[OF w] by (simp add: OpDetachEndpoint DetachEndpointDependents_def)
  next
    case (OpDisableReplacing e repl rv)
    then have c: "endpoint_ok ck (e\<lparr>epImport := ''''\<rparr>)" "good_target (profile_of s) (epID e) repl" using assms(2) by (simp_all add: safe_op_def)
    have "valid_store ck (fst (commit_at env rv cur (disable_replacing env e repl) s))" for cur
      by (rule keeps(2), rule disable_replacing_wf[OF w _ c])
    then show ?thesis using assms(1) by (simp add: OpDisableReplacing SetEndpointDisabledReplacingAt_def Let_def)
  next
    case (OpDisableDetaching e rv)
    then have c: "endpoint_ok ck (e\<lparr>epImport := ''''\<rparr>)" using assms(2) by (simp add: safe_op_def)
    have "valid_store ck (fst (commit_at env rv cur (disable_detaching env e) s))" for cur
      by (rule keeps(2), rule disable_detaching_wf[OF w _ c])
    then show ?thesis using assms(1) by (simp add: OpDisableDetaching SetEndpointDisabledDetachingAt_def Let_def)
  next
    case (OpDeleteGroup i)
    show ?thesis using keeps(1) delete_group_wf[OF w] by (simp add: OpDeleteGroup DeleteGroup_def)
  next
    case (OpDeleteRule i)
    show ?thesis using keeps(1) delete_rule_wf[OF w] by (simp add: OpDeleteRule DeleteRule_def)
  next
    case (OpDeleteDeviceGroup i)
    show ?thesis using keeps(1) delete_device_group_wf[OF w] by (simp add: OpDeleteDeviceGroup DeleteDeviceGroup_def)
  next
    case (OpSetCache i cidrs)
    then have "cidrs \<noteq> []" using assms(2) by (simp add: safe_op_def)
    then show ?thesis using keeps(1) set_cache_wf[OF w] by (simp add: OpSetCache SetRoutingListCache_def)
  next
    case (OpSetCaches cs)
    have "fst (case publish env q s of (s', r) \<Rightarrow> (s', n, r)) = fst (publish env q s)" for q and n :: nat by (simp split: prod.split)
    then show ?thesis using assms(1) publish_keeps[OF assms(1) update_caches_wf[OF w]]
      by (simp add: OpSetCaches SetRoutingListCaches_def Let_def)
  next
    case (OpDeleteList i)
    show ?thesis using keeps(1) delete_list_wf[OF w] by (simp add: OpDeleteList DeleteRoutingList_def)
  next
    case (OpReorder ids)
    show ?thesis using keeps(1) reorder_wf[OF w] by (simp add: OpReorder ReorderRoutingLists_def)
  next
    case (OpSetDNS d)
    then have "well_formed ck ((profile_of s)\<lparr>prDNS := d\<rparr>)" using set_dns_wf[OF w] assms(2) by (simp add: safe_op_def)
    then show ?thesis using keeps(1)[of "\<lambda>p. Inr (p\<lparr>prDNS := d\<rparr>)"] by (simp add: OpSetDNS SetDNS_def)
  next
    case (OpSetDNSIfGen d g)
    then have "well_formed ck ((profile_of s)\<lparr>prDNS := d\<rparr>)" using set_dns_wf[OF w] assms(2) by (simp add: safe_op_def)
    then have "valid_store ck (fst (SetDNS env d s))" using keeps(1)[of "\<lambda>p. Inr (p\<lparr>prDNS := d\<rparr>)"] by (simp add: SetDNS_def)
    then show ?thesis using assms(1) by (auto simp: OpSetDNSIfGen SetDNSIfGen_def split: prod.split)
  qed (use assms(2) in \<open>simp_all add: safe_op_def\<close>)
qed


text \<open>C15. Deletes, detaches, moves, feed refreshes and DNS saves keep a valid profile valid. On a store whose
  profile passes \<open>Validate\<close>, whatever one of these writes stores passes \<open>Validate\<close> again, so none of them can leave a
  state that blocks the next Apply: a plain delete of a connection, group, rule, device group or routing list; a detach;
  a reorder; a batch refresh of the downloaded caches, or of one list with a non-empty download; a save of a DNS plane
  that passed the page's own check; a save that switches a connection off and parks its dependents, when the
  connection as saved passes the checks \<open>Validate\<close> makes of a connection alone; and a delete, or such a save, that moves
  the dependents to a replacement, when that is not the connection itself and is \<open>direct\<close>, or a switched-on connection
  or a group whose id is not an access-policy name and has no blanks around it, or \<open>block\<close> while no DNS server with an
  address is reached through the connection.\<close>

theorem safe_writes_keep_valid:
  assumes "Validate ck (profile_of s) = None" "safe_op ck (profile_of s) op"
  shows "Validate ck (profile_of (fst (exec env op s))) = None"
  using safe_keeps[of ck s op env] assms by (simp add: valid_store_def Validate_None)

theorem safe_writes_keep_valid_witness:
  "Validate (enChecks (demo_env None)) (profile_of (fst (exec (demo_env None) (OpDeleteEndpointReplacing ''a'' ''b'') demo_store))) = None"
proof (rule safe_writes_keep_valid)
  show "Validate (enChecks (demo_env None)) (profile_of demo_store) = None" by code_simp
  have "NDMPolicyName ''b'' = None" "TrimSpace ''b'' = ''b''" by code_simp+
  then show "safe_op (enChecks (demo_env None)) (profile_of demo_store) (OpDeleteEndpointReplacing ''a'' ''b'')"
    by (auto simp: safe_op_def good_target_def live_def profile_of_def Snapshot_def demo_store_def demo_endpoint_def)
qed

section \<open>Which groups reach a connection\<close>

text \<open>C27. The walk that keeps a switch-off from closing a cycle of groups is exact. \<open>groupReaches\<close>, a depth-first
  search with a visited set, returns on every profile, also on one whose groups already form a cycle, and
  answers yes exactly when the target is a member of the start, or of a member, or of a member's member, down
  any chain of groups.\<close>

theorem group_reach_is_exact: "groupReaches p a t \<longleftrightarrow> (a, t) \<in> (member_of p)\<^sup>+"
  by (rule groupReaches_iff)

section \<open>What the panel says before a delete\<close>

lemma hits_none: "hit P xs err = None \<longleftrightarrow> filter P xs = []"
  by (auto simp: hit_None filter_empty_conv)

lemma concat_none: "concat (map f xs) = [] \<longleftrightarrow> (\<forall>x\<in>set xs. f x = [])"
  by auto

text \<open>C26. The blockers shown before a delete are the reasons it refuses. A delete of a connection is accepted
  exactly when the connection exists and \<open>EndpointDependents\<close> lists nothing, and a delete of a group exactly
  when the group exists and \<open>GroupDeleteBlockers\<close> lists nothing: the panel never promises a delete that is then
  refused, and never blocks one that would go through.\<close>

theorem blockers_are_refusals:
  "((\<exists>q. delete_endpoint i p = Inr q) \<longleftrightarrow> EndpointByID p i \<noteq> None \<and> EndpointDependents i p = [])
     \<and> ((\<exists>q. delete_group i p = Inr q) \<longleftrightarrow> GroupByID p i \<noteq> None \<and> GroupDeleteBlockers i p = [])"
proof
  have e: "EndpointByID p i \<noteq> None \<longleftrightarrow> i \<in> epID ` set (prEndpoints p)" by (auto simp: EndpointByID_def find_None_iff)
  show "(\<exists>q. delete_endpoint i p = Inr q) \<longleftrightarrow> EndpointByID p i \<noteq> None \<and> EndpointDependents i p = []"
    unfolding e by (auto simp: delete_endpoint_def refusals EndpointDependents_def filter_empty_conv split: if_splits)
  have g: "GroupByID p i \<noteq> None \<longleftrightarrow> i \<in> grID ` set (prGroups p)" by (auto simp: GroupByID_def find_None_iff)
  show "(\<exists>q. delete_group i p = Inr q) \<longleftrightarrow> GroupByID p i \<noteq> None \<and> GroupDeleteBlockers i p = []"
    unfolding g by (auto simp: delete_group_def refusals GroupDeleteBlockers_def filter_empty_conv)
qed

section \<open>The guard of publish\<close>

definition published :: "Env \<Rightarrow> Store \<Rightarrow> Store \<Rightarrow> bool" where
  "published env s s' \<longleftrightarrow> s' = s \<or> (\<exists>p. publish env p s = (s', None))"

lemma published_same [intro]: "published env s s"
  by (simp add: published_def)

lemma published_publish [intro]: "published env s (fst (publish env p s))"
  by (auto simp: published_def publish_def Let_def split: option.split)

lemma published_edit [intro]: "published env s (fst (commit_edit env edit s))"
  by (auto simp: commit_edit_def split: sum.split)

lemma published_at [intro]: "published env s (fst (commit_at env rv cur edit s))"
  by (auto simp: commit_at_def Let_def publish_reported split: option.split sum.split)

lemma publish_plain: "fst (case publish env q s of (s', r) \<Rightarrow> (s', n, r)) = fst (publish env q s)"
  by (simp split: prod.split)

lemma published_exec: "published env s (fst (exec env op s))"
proof (cases op)
  case (OpSetDNSIfGen d g)
  have "published env s (fst (SetDNS env d s))" by (auto simp: SetDNS_def)
  then show ?thesis by (auto simp: OpSetDNSIfGen SetDNSIfGen_def split: prod.split)
next
  case (OpSetCaches cs)
  then show ?thesis by (auto simp: SetRoutingListCaches_def Let_def publish_plain)
next
  case (OpUpsertEndpoints es g)
  then show ?thesis by (auto simp: upsertEndpoints_def Let_def publish_plain)
qed (auto simp: Replace_def Reconcile_def UpsertEndpointAt_def DeleteEndpoint_def DeleteEndpointReplacing_def
    DetachEndpointDependents_def SetEndpointDisabledReplacingAt_def SetEndpointDisabledDetachingAt_def UpsertGroupAt_def DeleteGroup_def
    UpsertRule_def DeleteRule_def UpsertDeviceGroup_def DeleteDeviceGroup_def UpsertRoutingListAt_def SetRoutingListCache_def
    DeleteRoutingList_def ReorderRoutingLists_def SetDNS_def Let_def split: option.split)

lemma valid_no_stranded:
  assumes "well_formed ck p"
  shows "StrandedVPNResolvers p = []"
proof (cases "prDNS p")
  case (Some d)
  then have "\<forall>s\<in>set (dnServers d). vpn_user s \<longrightarrow> vpnResolverFault (dsType s) (vpn_conn s) (prEndpoints p) = vpnFaultNone"
    using assms by (auto simp: well_formed_def dns_wf_def server_ok_def)
  then show ?thesis using Some by (auto simp: StrandedVPNResolvers_def Let_def vpn_user_def vpn_conn_def)
qed (simp add: StrandedVPNResolvers_def)

text \<open>What the check stands for: each switched-on server of a VPN type that names a connection finds it, switched
  on, with the server's protocol, and run by sing-box.\<close>

definition resolvers_served :: "Profile \<Rightarrow> bool" where
  "resolvers_served p \<longleftrightarrow> (\<forall>d s. prDNS p = Some d \<longrightarrow> s \<in> set (dnServers d) \<longrightarrow> vpn_user s \<longrightarrow> vpn_conn s \<noteq> '''' \<longrightarrow>
     (\<exists>e\<in>set (prEndpoints p). epID e = vpn_conn s \<and> epEnabled e \<and> epProtocol e = dsType s \<and> epEngine e = EngineSingBox))"

lemma none_stranded_served:
  assumes "StrandedVPNResolvers p = []"
  shows "resolvers_served p"
  unfolding resolvers_served_def
proof (intro allI impI)
  fix d s assume d: "prDNS p = Some d" "s \<in> set (dnServers d)" "vpn_user s" "vpn_conn s \<noteq> ''''"
  then have "vpnResolverFault (dsType s) (vpn_conn s) (prEndpoints p) = vpnFaultNone"
    using assms by (auto simp: StrandedVPNResolvers_def Let_def vpn_user_def vpn_conn_def split: if_splits)
  then obtain e where "find (\<lambda>e. epID e = vpn_conn s) (prEndpoints p) = Some e" "epProtocol e = dsType s" "epEngine e = EngineSingBox" "epEnabled e"
    by (auto simp: vpnResolverFault_def split: option.splits if_splits)
  then show "\<exists>e\<in>set (prEndpoints p). epID e = vpn_conn s \<and> epEnabled e \<and> epProtocol e = dsType s \<and> epEngine e = EngineSingBox"
    by (auto simp: find_Some_iff)
qed

interpretation served: invariant_machine store_step "\<lambda>s. StrandedVPNResolvers (profile_of s) = []"
proof
  fix s :: Store and eo :: "Env \<times> Op" assume old: "StrandedVPNResolvers (profile_of s) = []"
  consider "store_step s eo = s" | q where "publish (fst eo) q s = (store_step s eo, None)"
    using published_exec[of "fst eo" s "snd eo"] by (auto simp: published_def store_step_def)
  then show "StrandedVPNResolvers (profile_of (store_step s eo)) = []"
  proof cases
    case 2
    then have "newlyStrandedResolvers (map_option fst (stCur s)) q = None" by (auto simp: publish_def Let_def split: option.splits)
    then have "StrandedVPNResolvers q = []"
      using old by (auto simp: newlyStrandedResolvers_def profile_of_def Snapshot_def Let_def split: if_splits option.splits)
    then show ?thesis using publish_profile[OF 2] by simp
  qed (use old in simp)
qed

text \<open>C16. No sequence of writes strands a VPN DNS resolver. Start from a store whose profile passes \<open>Validate\<close> and let
  any writes follow, of any kind, imports and external reconciles included, each accepted, refused or failing on
  the disk, and whether or not the profiles they store are valid. After them every switched-on DNS server that asks
  the resolvers a VPN connection pushed, and names one, still finds that connection: it exists, is switched on, has
  the server's protocol and runs on sing-box.\<close>

theorem resolvers_never_stranded:
  assumes "Validate ck (profile_of s) = None"
  shows "resolvers_served (profile_of (foldl store_step s writes))"
proof -
  have "StrandedVPNResolvers (profile_of s) = []" using valid_no_stranded assms by (simp add: Validate_None)
  then show ?thesis using served.run_inv none_stranded_served by blast
qed

definition dns_server :: "string \<Rightarrow> string \<Rightarrow> string \<Rightarrow> id \<Rightarrow> id \<Rightarrow> DNSServer" where
  "dns_server tag ty addr detour conn = \<lparr>dsTag = tag, dsType = ty, dsServer = addr, dsServerPort = 0, dsPath = '''', dsSNI = '''', dsDetour = detour,
     dsDomainResolver = '''', dsInet4Range = '''', dsInet6Range = '''', dsEndpoint = conn, dsAcceptDefaultResolvers = False, dsAcceptSearchDomain = False, dsEnabled = True\<rparr>"

definition dns_of :: "DNSServer list \<Rightarrow> DNSSettings" where
  "dns_of ss = \<lparr>dnEnabled = True, dnServers = ss, dnRules = [], dnFinal = '''', dnStrategy = '''', dnLeakProof = False, dnIntercept = False,
     dnInterceptRejectEncrypted = False, dnFakeIP = False, dnDisableCache = False, dnIndependentCache = False, dnClientSubnet = '''', dnReverseMapping = False\<rparr>"

definition vpn_dns :: DNSSettings where
  "vpn_dns = dns_of [dns_server ''u'' ''udp'' ''9.9.9.9'' '''' '''', dns_server ''d'' ''openvpn'' '''' '''' ''a'']"

definition vpn_store :: Store where
  "vpn_store = \<lparr>stCur = Some (empty_profile\<lparr>prEndpoints := [(demo_endpoint ''a'' ''v1'')\<lparr>epProtocol := ''openvpn''\<rparr>], prDNS := Some vpn_dns\<rparr>, 7), stDisk = Missing\<rparr>"

theorem resolvers_never_stranded_witness:
  "\<exists>e\<in>set (prEndpoints (profile_of (foldl store_step vpn_store
       [(demo_env None, OpReplace (empty_profile\<lparr>prDNS := Some vpn_dns\<rparr>)), (demo_env None, OpReorder [])]))). epID e = ''a'' \<and> epEnabled e"
proof -
  let ?p = "profile_of (foldl store_step vpn_store [(demo_env None, OpReplace (empty_profile\<lparr>prDNS := Some vpn_dns\<rparr>)), (demo_env None, OpReorder [])])"
  have "Validate (enChecks (demo_env None)) (profile_of vpn_store) = None" by code_simp
  then have r: "resolvers_served ?p" by (rule resolvers_never_stranded)
  have "(case prDNS ?p of None \<Rightarrow> False | Some d \<Rightarrow> list_ex (\<lambda>s. vpn_user s \<and> vpn_conn s = ''a'') (dnServers d))" by code_simp
  then obtain d s where "prDNS ?p = Some d" "s \<in> set (dnServers d)" "vpn_user s" "vpn_conn s = ''a''" by (auto simp: list_ex_iff split: option.splits)
  then show ?thesis using r unfolding resolvers_served_def by fastforce
qed

section \<open>Where the guard has a gap\<close>

text \<open>A detour is moved with the connection it goes through, whatever else happens to its server.\<close>

lemma repointed_detour:
  assumes "dns_wf on eps lids d" "repl \<noteq> i" "TrimSpace repl = repl" "detours i (dnServers d)"
  shows "detours repl (dnServers (repoint_dns p i repl d))"
proof -
  obtain s where s: "s \<in> set (dnServers d)" "dsType s \<in> set networkDNSTypes" "dsDetour s = i" using assms(4) by (auto simp: detours_def)
  have "\<exists>h. dnServers (repoint_dns p i repl d) = map h (map (move_detour i repl) (dnServers d)) \<and> (\<forall>x. dsType (h x) = dsType x \<and> dsDetour (h x) = dsDetour x)"
    using repoint_dns_cases[OF assms(1-3), of p]
  proof (elim disjE conjE bexE)
    fix u
    assume "if vpnResolverTarget p (map (move_detour i repl) (dnServers d)) (dsType u) repl
        then repoint_dns p i repl d = d\<lparr>dnServers := map (rehomed (dsTag u) repl) (map (move_detour i repl) (dnServers d))\<rparr>
        else repoint_dns p i repl d = d\<lparr>dnServers := map (switched {dsTag u}) (map (move_detour i repl) (dnServers d)), dnRules := map (switch_off {dsTag u}) (dnRules d)\<rparr>"
    then have "dnServers (repoint_dns p i repl d) = map (rehomed (dsTag u) repl) (map (move_detour i repl) (dnServers d))
      \<or> dnServers (repoint_dns p i repl d) = map (switched {dsTag u}) (map (move_detour i repl) (dnServers d))" by (simp split: if_splits)
    then show ?thesis by (elim disjE) (intro exI conjI, assumption, simp add: rehomed_def switched_def)+
  qed (intro exI[of _ "\<lambda>x. x"], simp)
  then show ?thesis using s by (auto simp: detours_def)
qed

lemma detour_unusable:
  assumes "dns_detours p i" "i = OutboundBlock \<or> \<not> usable (live p) i" "i \<noteq> ''''"
  shows "\<not> well_formed ck p"
proof
  assume "well_formed ck p"
  then have "\<forall>s\<in>set (dnServers d). server_ok (live p) (prEndpoints p) (dnLeakProof d) s" if "prDNS p = Some d" for d
    using that by (simp add: well_formed_def dns_wf_def)
  then show False using assms by (auto simp: dns_detours_def detours_def server_ok_def network_ok_def split: option.splits)
qed

lemma block_delete:
  assumes "well_formed ck p" "delete_replacing i OutboundBlock p = Inr q" "i \<noteq> OutboundBlock"
  shows "well_formed ck q \<longleftrightarrow> \<not> dns_detours p i"
proof
  assume "\<not> dns_detours p i"
  then have "good_target p i OutboundBlock" using assms(3) by (auto simp: good_target_def)
  then show "well_formed ck q" by (rule delete_replacing_wf[OF assms(1,2)])
next
  assume q: "well_formed ck q"
  show "\<not> dns_detours p i"
  proof
    assume "dns_detours p i"
    then obtain d where d: "prDNS p = Some d" "detours i (dnServers d)" by (auto simp: dns_detours_def split: option.splits)
    have "prDNS q = Some (repoint_dns p i OutboundBlock d)"
      using assms(2) d(1) by (auto simp: delete_replacing_def refusals Let_def repointDependents_def)
    moreover have "dns_wf (live p) (prEndpoints p) (rlID ` set (prRoutingLists p)) d" using assms(1) d(1) by (simp add: well_formed_def)
    ultimately have "dns_detours q OutboundBlock" using repointed_detour[OF _ _ block_ok(2) d(2)] assms(3) by (auto simp: dns_detours_def)
    then show False using detour_unusable[of q OutboundBlock ck] q by (simp add: OutboundBlock_def)
  qed
qed

lemma put_unique:
  assumes "distinct (map epID eps)" "x \<in> set (put epID e eps)" "epID x = epID e"
  shows "x = e"
  using assms by (induction eps) (auto simp: image_iff split: if_splits)

lemma switched_off_detour:
  assumes "well_formed ck p" "dns_detours p (epID e)" "\<not> epEnabled e" "\<not> isBuiltin (epID e)" "epID e \<noteq> ''''" "epID e \<in> epID ` set (prEndpoints p)"
  shows "\<not> well_formed ck (p\<lparr>prEndpoints := put epID (e\<lparr>epImport := ''''\<rparr>) (prEndpoints p)\<rparr>)"
proof (rule detour_unusable)
  have "distinct (ids_of p)" using assms(1) by (simp add: well_formed_def objects_wf_def)
  then have "distinct (map epID (prEndpoints p))" "epID e \<notin> grID ` set (prGroups p)" using assms(6) by (auto simp: ids_of_def)
  moreover from this have "\<not> epEnabled x" if "x \<in> set (put epID (e\<lparr>epImport := ''''\<rparr>) (prEndpoints p))" "epID x = epID e" for x
    using assms(3) put_unique[of "prEndpoints p" x "e\<lparr>epImport := ''''\<rparr>"] that by simp
  ultimately have "\<not> live (p\<lparr>prEndpoints := put epID (e\<lparr>epImport := ''''\<rparr>) (prEndpoints p)\<rparr>) (epID e)" by (auto simp: live_def)
  then show "epID e = OutboundBlock \<or> \<not> usable (live (p\<lparr>prEndpoints := put epID (e\<lparr>epImport := ''''\<rparr>) (prEndpoints p)\<rparr>)) (epID e)"
    using assms(4) by (simp add: usable_def)
qed (use assms in \<open>simp_all add: dns_detours_def\<close>)

lemma block_named: "OutboundBlock \<noteq> ''''"
  by (simp add: OutboundBlock_def)

text \<open>C28. What a DNS detour decides. On a store whose profile passes \<open>Validate\<close>, an accepted delete of a connection that
  moves its dependents to \<open>block\<close>, which the panel always offers, leaves a profile that passes \<open>Validate\<close> exactly when no
  DNS server with an address of its own is reached through the connection. And an accepted save that switches off a
  connection, other than one named like a builtin outbound, through which such a server is reached always leaves one that
  fails: the fault is not reported as a reference to a switched-off object, so the guard of \<open>publish\<close> does not see it.\<close>

theorem detour_decides:
  assumes "Validate (enChecks env) (profile_of s) = None"
  shows "OutboundBlock \<in> set (EndpointReplacements i (profile_of s))
   \<and> (\<forall>s'. exec env (OpDeleteEndpointReplacing i OutboundBlock) s = (s', None) \<longrightarrow>
        (Validate (enChecks env) (profile_of s') = None \<longleftrightarrow> \<not> dns_detours (profile_of s) i))
   \<and> (\<forall>e rv s'. exec env (OpUpsertEndpoint e rv) s = (s', None) \<and> epID e \<in> epID ` set (prEndpoints (profile_of s)) \<and> \<not> isBuiltin (epID e)
        \<and> \<not> epEnabled e \<and> dns_detours (profile_of s) (epID e) \<longrightarrow> Validate (enChecks env) (profile_of s') \<noteq> None)"
proof (intro conjI allI impI)
  have w: "well_formed (enChecks env) (profile_of s)" using assms by (simp add: Validate_None)
  show "OutboundBlock \<in> set (EndpointReplacements i (profile_of s))" by (simp add: EndpointReplacements_def)
  show "Validate (enChecks env) (profile_of s') = None \<longleftrightarrow> \<not> dns_detours (profile_of s) i"
    if acc: "exec env (OpDeleteEndpointReplacing i OutboundBlock) s = (s', None)" for s'
  proof -
    obtain q where q: "delete_replacing i OutboundBlock (profile_of s) = Inr q" "publish env q s = (s', None)" "i \<noteq> OutboundBlock"
      using acc by (cases "delete_replacing i OutboundBlock (profile_of s)")
        (simp_all add: DeleteEndpointReplacing_def commit_edit_def block_named split: if_splits)
    then show ?thesis using block_delete[OF w q(1,3)] publish_profile[OF q(2)] by (simp add: Validate_None)
  qed
  show "Validate (enChecks env) (profile_of s') \<noteq> None"
    if e: "exec env (OpUpsertEndpoint e rv) s = (s', None) \<and> epID e \<in> epID ` set (prEndpoints (profile_of s)) \<and> \<not> isBuiltin (epID e)
      \<and> \<not> epEnabled e \<and> dns_detours (profile_of s) (epID e)" for e rv s'
  proof -
    let ?q = "(profile_of s)\<lparr>prEndpoints := put epID (e\<lparr>epImport := ''''\<rparr>) (prEndpoints (profile_of s))\<rparr>"
    have "epID e \<noteq> ''''" "publish env ?q s = (s', None)"
      using e by (auto simp: UpsertEndpointAt_def commit_at_def outcome_def Let_def split: if_splits option.splits prod.splits)
    then show ?thesis using switched_off_detour[OF w] e publish_profile[of env ?q s s'] by (simp add: Validate_None)
  qed
qed

text \<open>A store with one DNS server that is reached through connection \<open>a\<close>, on which both writes are accepted.\<close>

definition detour_store :: Store where
  "detour_store = \<lparr>stCur = Some (empty_profile\<lparr>prEndpoints := [demo_endpoint ''a'' ''v1''], prDNS := Some (dns_of [dns_server ''d'' ''udp'' ''9.9.9.9'' ''a'' ''''])\<rparr>, 7),
     stDisk = Missing\<rparr>"

theorem detour_decides_witness:
  "\<exists>s1 s2. exec (demo_env None) (OpDeleteEndpointReplacing ''a'' OutboundBlock) detour_store = (s1, None)
     \<and> Validate (enChecks (demo_env None)) (profile_of s1) \<noteq> None
     \<and> exec (demo_env None) (OpUpsertEndpoint ((demo_endpoint ''a'' ''v1'')\<lparr>epEnabled := False\<rparr>) AnyRev) detour_store = (s2, None)
     \<and> Validate (enChecks (demo_env None)) (profile_of s2) \<noteq> None"
proof -
  let ?off = "(demo_endpoint ''a'' ''v1'')\<lparr>epEnabled := False\<rparr>"
  have ok: "snd (exec (demo_env None) (OpDeleteEndpointReplacing ''a'' OutboundBlock) detour_store) = None"
    "snd (exec (demo_env None) (OpUpsertEndpoint ?off AnyRev) detour_store) = None" by code_simp+
  then obtain s1 s2 where x: "exec (demo_env None) (OpDeleteEndpointReplacing ''a'' OutboundBlock) detour_store = (s1, None)"
    "exec (demo_env None) (OpUpsertEndpoint ?off AnyRev) detour_store = (s2, None)" by (metis prod.collapse)
  have v: "Validate (enChecks (demo_env None)) (profile_of detour_store) = None" by code_simp
  have d: "dns_detours (profile_of detour_store) ''a''" "\<not> isBuiltin ''a''" by code_simp+
  moreover have "epID ?off = ''a''" "\<not> epEnabled ?off" "''a'' \<in> epID ` set (prEndpoints (profile_of detour_store))"
    by (simp_all add: demo_endpoint_def detour_store_def profile_of_def Snapshot_def)
  ultimately show ?thesis using detour_decides[OF v, of "''a''"] x by metis
qed

end
