(* ===== verification/Change_Words.thy ===== *)
theory Change_Words
  imports PBR_Compile
begin

text \<open>
  The change review, \<open>internal/changeset\<close>, first part: the shape of a reviewable change, and how values are
  put into words. The digest of an ECH config, the Unicode tables behind \<open>strings.ToLower\<close> and the key list
  of a core override are arguments.
\<close>

section \<open>Changes\<close>

datatype ChangeAction = ActionAdded | ActionModified | ActionRemoved | ActionReordered | ActionExternal

abbreviation SubConnections :: string where "SubConnections \<equiv> ''connections''"
abbreviation SubNativeVPN :: string where "SubNativeVPN \<equiv> ''native_vpn''"
abbreviation SubRouting :: string where "SubRouting \<equiv> ''routing''"
abbreviation SubDeviceRules :: string where "SubDeviceRules \<equiv> ''device_rules''"
abbreviation SubGroups :: string where "SubGroups \<equiv> ''groups''"
abbreviation SubDNS :: string where "SubDNS \<equiv> ''dns''"
abbreviation SubFirewallPBR :: string where "SubFirewallPBR \<equiv> ''firewall_pbr''"
abbreviation SubOffload :: string where "SubOffload \<equiv> ''offload''"
abbreviation SubGeneral :: string where "SubGeneral \<equiv> ''general''"

abbreviation SecretSet :: string where "SecretSet \<equiv> ''Set''"
abbreviation SecretNotSet :: string where "SecretNotSet \<equiv> ''Not set''"
abbreviation SecretChanged :: string where "SecretChanged \<equiv> ''Changed''"
abbreviation SecretRemoved :: string where "SecretRemoved \<equiv> ''Removed''"

record Change =
  chID :: id
  chType :: string
  chName :: string
  chAction :: ChangeAction
  chField :: string
  chBefore :: string
  chAfter :: string
  chSource :: string
  chSubsystem :: string
  chImpact :: string
  chApply :: bool
  chRestart :: bool
  chReboot :: bool
  chInterrupt :: bool
  chRollback :: bool
  chSecret :: bool
  chWarnings :: "string list"

text \<open>The literal every row starts from: made by the user, takes effect on Apply with a restart, and is covered
  by the fail-safe window.\<close>

definition change :: "id \<Rightarrow> string \<Rightarrow> string \<Rightarrow> ChangeAction \<Rightarrow> string \<Rightarrow> string \<Rightarrow> Change" where
  "change i typ name act sub impact = \<lparr>chID = i, chType = typ, chName = name, chAction = act, chField = '''', chBefore = '''',
     chAfter = '''', chSource = ''user'', chSubsystem = sub, chImpact = impact, chApply = True, chRestart = True, chReboot = False,
     chInterrupt = False, chRollback = True, chSecret = False, chWarnings = []\<rparr>"

definition field :: "Change \<Rightarrow> string \<Rightarrow> string \<Rightarrow> string \<Rightarrow> Change" where
  "field c f before after = c\<lparr>chField := f, chBefore := before, chAfter := after\<rparr>"

record ChangeSet =
  csBaselineRev :: string
  csDesiredRev :: string
  csChanges :: "Change list"

text \<open>The daemon's settings: the four that are reviewed; the rest of the configuration is the record's extension.\<close>

record ReviewConfig =
  cfRoutingMode :: string
  cfOffload :: string
  cfRuleSetDetour :: string
  cfCoreOverride :: string

record Deps =
  dpUnicode :: "string \<Rightarrow> string"
  dpDigest :: "string \<Rightarrow> string"
  dpKeys :: "string \<Rightarrow> string list option"

section \<open>Words\<close>

fun join :: "string \<Rightarrow> string list \<Rightarrow> string" where
  "join sep [] = ''''"
| "join sep [s] = s"
| "join sep (s # ss) = s @ sep @ join sep ss"

definition itoa :: "int \<Rightarrow> string" where
  "itoa n = (if n < 0 then ''-'' @ dec (nat (- n)) else dec (nat n))"

definition nameOr :: "string \<Rightarrow> string \<Rightarrow> string" where
  "nameOr s fallback = (if TrimSpace s = '''' then fallback else s)"

definition boolWord :: "bool \<Rightarrow> string" where
  "boolWord b = (if b then ''On'' else ''Off'')"

definition itoaOmitZero :: "int \<Rightarrow> string" where
  "itoaOmitZero n = (if n = 0 then '''' else itoa n)"

definition countWord :: "nat \<Rightarrow> string \<Rightarrow> string \<Rightarrow> string" where
  "countWord n one many = (if n = 1 then ''1 '' @ one else dec n @ '' '' @ many)"

definition sourceOrNone :: "string \<Rightarrow> string" where
  "sourceOrNone s = (if TrimSpace s = '''' then ''none'' else s)"

definition outboundOrDefault :: "string \<Rightarrow> string" where
  "outboundOrDefault s = (if TrimSpace s = '''' then ''direct'' else s)"

definition refreshWord :: "int \<Rightarrow> string" where
  "refreshWord h =
    (if h \<le> 0 then ''default''
     else if h mod 24 = 0 \<and> h > 24 then ''every '' @ itoa (h div 24) @ '' days''
     else if h = 24 then ''daily''
     else if h = 1 then ''every hour''
     else ''every '' @ itoa h @ '' hours'')"

definition scopeWord :: "string \<Rightarrow> id list \<Rightarrow> string" where
  "scopeWord mode groups =
    (if mode = ''only'' then ''only '' @ countWord (length groups) ''device group'' ''device groups''
     else if mode = ''except'' then ''all except '' @ countWord (length groups) ''device group'' ''device groups''
     else ''all devices'')"

definition sameStrings :: "string list \<Rightarrow> string list \<Rightarrow> bool" where
  "sameStrings xs ys \<longleftrightarrow> xs = ys"

text \<open>\<open>json.Marshal\<close> is injective on the plain structs it is applied to (the model has no nil slices).\<close>

definition sameJSON :: "'a \<Rightarrow> 'a \<Rightarrow> bool" where
  "sameJSON a b \<longleftrightarrow> a = b"

definition describeHealth :: "Health_check option \<Rightarrow> string" where
  "describeHealth h =
    (case h of
       None \<Rightarrow> ''default''
     | Some h \<Rightarrow>
        let parts = (if hcURL h \<noteq> '''' then [hcURL h] else [])
              @ (if hcInterval h > 0 then [''every '' @ itoa (hcInterval h) @ ''s''] else [])
              @ (if hcTolerance h > 0 then [''tolerance '' @ itoa (hcTolerance h) @ ''ms''] else [])
        in if parts = [] then ''default'' else join '', '' parts)"

section \<open>Certificate pins\<close>

definition isHexDigits :: "string \<Rightarrow> bool" where
  "isHexDigits s \<longleftrightarrow> s \<noteq> '''' \<and> list_all (\<lambda>c. hex_val c \<noteq> None) s"

fun hex_bytes :: "string \<Rightarrow> nat list" where
  "hex_bytes (a # b # s) = (the (hex_val a) * 16 + the (hex_val b)) # hex_bytes s"
| "hex_bytes _ = []"

text \<open>Standard base64: the value of a digit, a group of four, and the strict decoding with padding.\<close>

definition b64 :: "char \<Rightarrow> nat option" where
  "b64 c = (let n = of_char c in
     if 65 \<le> n \<and> n \<le> 90 then Some (n - 65) else if 97 \<le> n \<and> n \<le> 122 then Some (n - 71)
     else if 48 \<le> n \<and> n \<le> 57 then Some (n + 4) else if c = CHR ''+'' then Some 62 else if c = CHR ''/'' then Some 63 else None)"

fun b64_decode :: "string \<Rightarrow> nat list option" where
  "b64_decode [] = Some []"
| "b64_decode [a, b, c, d] =
    (case (b64 a, b64 b, b64 c, b64 d) of
       (Some v, Some w, Some x, Some y) \<Rightarrow> Some [v * 4 + w div 16, w mod 16 * 16 + x div 4, x mod 4 * 64 + y]
     | (Some v, Some w, Some x, None) \<Rightarrow>
         if d = CHR ''='' \<and> x mod 4 = 0 then Some [v * 4 + w div 16, w mod 16 * 16 + x div 4] else None
     | (Some v, Some w, None, None) \<Rightarrow>
         if c = CHR ''='' \<and> d = CHR ''='' \<and> w mod 16 = 0 then Some [v * 4 + w div 16] else None
     | _ \<Rightarrow> None)"
| "b64_decode (a # b # c # d # s) =
    (case (b64 a, b64 b, b64 c, b64 d) of
       (Some v, Some w, Some x, Some y) \<Rightarrow>
         map_option ((@) [v * 4 + w div 16, w mod 16 * 16 + x div 4, x mod 4 * 64 + y]) (b64_decode s)
     | _ \<Rightarrow> None)"
| "b64_decode _ = None"

definition pinSize :: nat where "pinSize = 32"

definition ParsePinSHA256 :: "string \<Rightarrow> nat list option" where
  "ParsePinSHA256 s0 =
    (let s = TrimSpace s0; h = filter (\<lambda>c. c \<noteq> CHR '':'' \<and> c \<noteq> CHR ''-'') s
     in if s = '''' then None
        else if isHexDigits h then (if length h \<noteq> 2 * pinSize then None else Some (hex_bytes h))
        else case b64_decode s of None \<Rightarrow> None | Some b \<Rightarrow> if length b \<noteq> pinSize then None else Some b)"

definition hex_encode :: "nat list \<Rightarrow> string" where
  "hex_encode bs = concat (map (\<lambda>b. [hex_digit (b div 16), hex_digit (b mod 16)]) bs)"

section \<open>Connection settings\<close>

definition describeTLS :: "Deps \<Rightarrow> TLS option \<Rightarrow> string" where
  "describeTLS dp t =
    (case t of
       None \<Rightarrow> ''off''
     | Some t \<Rightarrow>
        if \<not> tlEnabled t then ''off''
        else let pin = (\<lambda>kind p. case ParsePinSHA256 p of
                          None \<Rightarrow> kind @ '' pin '' @ TrimSpace p
                        | Some b \<Rightarrow> kind @ '' pin '' @ hex_encode (take 4 b))
             in join '', '' ([nameOr (tlType t) ''tls'']
                @ (if tlSNI t \<noteq> '''' then [''SNI '' @ tlSNI t] else [])
                @ (if tlInsecure t then [''insecure''] else [])
                @ (if tlFragment t \<or> tlRecordFragment t then [''fragmented''] else [])
                @ (case tlECH t of
                     None \<Rightarrow> []
                   | Some e \<Rightarrow> if \<not> ecEnabled e then []
                               else if ecConfig e \<noteq> '''' then [''ECH (config '' @ dpDigest dp (ecConfig e) @ '')'']
                               else if ecQueryServerName e \<noteq> '''' then [''ECH (DNS, '' @ ecQueryServerName e @ '')'']
                               else [''ECH (DNS)''])
                @ map (pin ''certificate'') (tlPinCertSHA256 t) @ map (pin ''public-key'') (tlPinPubKeySHA256 t)))"

definition describeTransport :: "Transport option \<Rightarrow> string" where
  "describeTransport t =
    (case t of
       None \<Rightarrow> ''tcp''
     | Some t \<Rightarrow> if trType t = '''' then ''tcp'' else if trHost t \<noteq> '''' then trType t @ '' (host '' @ trHost t @ '')'' else trType t)"

definition describeMultiplex :: "Multiplex option \<Rightarrow> string" where
  "describeMultiplex m =
    (case m of
       None \<Rightarrow> ''off''
     | Some m \<Rightarrow>
        if \<not> mxEnabled m then ''off''
        else let proto = (if mxProtocol m = '''' then ''h2mux'' else mxProtocol m);
                 pool = (if mxMaxConnections m > 0 then [itoa (mxMaxConnections m) @ '' connections''] else [])
                   @ (if mxMinStreams m > 0 then [''min '' @ itoa (mxMinStreams m) @ '' streams''] else [])
                   @ (if mxMaxStreams m > 0 then [''max '' @ itoa (mxMaxStreams m) @ '' streams''] else []);
                 brutal = (case mxBrutal m of Some b \<Rightarrow> if brEnabled b then Some b else None | None \<Rightarrow> None)
             in join '', '' ([proto]
                @ (case brutal of
                     Some b \<Rightarrow> [''TCP Brutal '' @ itoa (brUpMbps b) @ ''/'' @ itoa (brDownMbps b) @ '' Mbps'']
                       @ (if pool \<noteq> [] then [''pool unused ('' @ join '', '' pool @ '')''] else [])
                   | None \<Rightarrow> pool)
                @ (if mxPadding m then [''padding''] else [])))"

section \<open>Parameters\<close>

text \<open>\<open>fmt.Sprint\<close>.\<close>

fun sprint :: "param \<Rightarrow> string" where
  "sprint PNil = ''<nil>''"
| "sprint (PStr s) = s"
| "sprint (PNum t) = t"
| "sprint (PBool b) = (if b then ''true'' else ''false'')"
| "sprint (PStrs ss) = ''['' @ join '' '' ss @ '']''"
| "sprint (PAny xs) = ''['' @ join '' '' (map sprint xs) @ '']''"
| "sprint (PMap kvs) = ''map['' @ join '' '' (map (\<lambda>(k, v). k @ '':'' @ sprint v) kvs) @ '']''"

definition pget :: "(string \<times> param) list \<Rightarrow> string \<Rightarrow> param" where
  "pget m k = (case map_of m k of None \<Rightarrow> PNil | Some v \<Rightarrow> v)"

definition secretParamKeys :: "string list" where
  "secretParamKeys = [''private_key'', ''pre_shared_key'', ''password'', ''uuid'', ''token'', ''obfs_password'', ''auth'', ''auth_str'', ''secret'',
     ''short_id'', ''api_key'', ''subscription'', ''private_key_passphrase'', ''psk'', ''totp_secret'', ''key'', ''control_key'', ''static_key'',
     ''userkey'', ''realm'']"

definition IsSecretField :: "Deps \<Rightarrow> string \<Rightarrow> bool" where
  "IsSecretField dp key \<longleftrightarrow> ToLower (dpUnicode dp) (TrimSpace key) \<in> set secretParamKeys"

definition isEmptyParam :: "param \<Rightarrow> bool" where
  "isEmptyParam v \<longleftrightarrow> v = PNil \<or> v = PStr ''''"

definition secretTransition :: "param \<Rightarrow> param \<Rightarrow> string \<times> string" where
  "secretTransition before after =
    (let hadBefore = (\<not> isEmptyParam before \<and> sprint before \<noteq> ''<nil>''); hasAfter = (\<not> isEmptyParam after \<and> sprint after \<noteq> ''<nil>'')
     in if \<not> hadBefore \<and> hasAfter then (SecretNotSet, SecretSet)
        else if hadBefore \<and> \<not> hasAfter then (SecretSet, SecretRemoved)
        else (SecretSet, SecretChanged))"

fun isScalar :: "param \<Rightarrow> bool" where
  "isScalar (PStr s) = True"
| "isScalar (PBool b) = True"
| "isScalar (PNum t) = True"
| "isScalar _ = False"

definition structuredValue :: string where "structuredValue = ''(structured value)''"

definition valueWord :: "param \<Rightarrow> string" where
  "valueWord v =
    (if v = PNil then ''''
     else if \<not> isScalar v then structuredValue
     else if sprint v = ''<nil>'' then '''' else sprint v)"

definition upper_char :: "char \<Rightarrow> char" where
  "upper_char c = (let n = of_char c :: nat in if 97 \<le> n \<and> n \<le> 122 then char_of (n - 32) else c)"

text \<open>\<open>strings.ToUpper(s[:1]) + s[1:]\<close>: a lone byte of a longer encoding becomes the replacement character.\<close>

definition fieldLabel :: "string \<Rightarrow> string" where
  "fieldLabel k =
    (case map (\<lambda>c. if c = CHR ''_'' then CHR '' '' else c) (TrimSpace k) of
       [] \<Rightarrow> k
     | c # s \<Rightarrow> (if of_char c < (128 :: nat) then [upper_char c] else [CHR 0xEF, CHR 0xBF, CHR 0xBD]) @ s)"

definition paramKeyFromLabel :: "Deps \<Rightarrow> string \<Rightarrow> string" where
  "paramKeyFromLabel dp label =
    (let s = TrimSpace label
     in if s = '''' then '''' else ToLower (dpUnicode dp) (map (\<lambda>c. if c = CHR '' '' then CHR ''_'' else c) s))"

end
