(* ===== verification/Change_Diff.thy ===== *)
theory Change_Diff
  imports Change_Words
begin

text \<open>
  \<open>changeset.go\<close>: \<open>Diff\<close>, the list of reviewable changes between the applied baseline and the saved state.
  Every collection is compared by id, in the order of the desired state, with the removed objects last.
\<close>

section \<open>The loop over a collection\<close>

text \<open>The map from ids to baseline objects: a later object with the same id overwrites an earlier one.\<close>

definition by_id :: "('a \<Rightarrow> id) \<Rightarrow> 'a list \<Rightarrow> id \<Rightarrow> 'a option" where
  "by_id key xs = map_of (rev (map (\<lambda>x. (key x, x)) xs))"

definition diff_objects :: "('a \<Rightarrow> id) \<Rightarrow> ('a \<Rightarrow> Change) \<Rightarrow> ('a \<Rightarrow> 'a \<Rightarrow> Change list) \<Rightarrow> ('a \<Rightarrow> Change) \<Rightarrow> 'a list \<Rightarrow> 'a list \<Rightarrow> Change list" where
  "diff_objects key added changed removed base desired =
     concat (map (\<lambda>d. case by_id key base (key d) of None \<Rightarrow> [added d] | Some b \<Rightarrow> changed b d) desired)
     @ map removed (filter (\<lambda>b. key b \<notin> key ` set desired) base)"

section \<open>Connections\<close>

definition engine_name :: "Engine \<Rightarrow> string" where
  "engine_name en = (case en of EngineSingBox \<Rightarrow> ''singbox'' | EngineAmneziaWG \<Rightarrow> ''amneziawg'' | EngineOpenVPN \<Rightarrow> ''openvpn''
     | EngineXray \<Rightarrow> ''xray'' | EngineMihomo \<Rightarrow> ''mihomo'' | EngineOlcRTC \<Rightarrow> ''olcrtc'' | EngineExternal \<Rightarrow> ''external''
     | EngineNfqws \<Rightarrow> ''nfqws'' | EngineByeDPI \<Rightarrow> ''byedpi'' | EngineOther s \<Rightarrow> s)"

definition endpointSubsystem :: "Endpoint \<Rightarrow> string" where
  "endpointSubsystem e = (if epEngine e = EngineExternal then SubNativeVPN else SubConnections)"

definition endpointName :: "Endpoint \<Rightarrow> string" where
  "endpointName e = (if TrimSpace (epName e) \<noteq> '''' then epName e else epID e)"

definition fieldAWGEngine :: string where "fieldAWGEngine = ''AmneziaWG engine''"

definition endpointScalarFields :: "Endpoint \<Rightarrow> (string \<times> string) list" where
  "endpointScalarFields e =
     [(''Name'', epName e), (''Server'', epServer e), (''Port'', itoaOmitZero (epPort e)), (''Protocol'', epProtocol e),
      (''Engine'', engine_name (epEngine e)), (''Enabled'', boolWord (epEnabled e)), (''MTU'', itoaOmitZero (epMTU e)),
      (''Keepalive'', itoaOmitZero (epPersistentKeepalive e))]
     @ (if epOwner e \<noteq> '''' then [(''Owner'', epOwner e)] else [])
     @ (if epAWGUserspace e then [(fieldAWGEngine, ''amneziawg-go'')]
        else if epEngine e = EngineAmneziaWG then [(fieldAWGEngine, ''automatic'')] else [])"

definition endpoint_row :: "Endpoint \<Rightarrow> string \<Rightarrow> string \<Rightarrow> string \<Rightarrow> bool \<Rightarrow> Change" where
  "endpoint_row d f before after secret =
    (let c = (field (change (epID d) ''endpoint'' (endpointName d) ActionModified (endpointSubsystem d) '''') f before after)\<lparr>chSecret := secret\<rparr>
     in if f = ''Enabled'' then c\<lparr>chInterrupt := True, chImpact := ''turns this egress on/off; traffic using it will move''\<rparr>
        else if f = fieldAWGEngine then c\<lparr>chInterrupt := True,
          chImpact := ''moves this connection between the router's own AmneziaWG and amneziawg-go; its tunnel restarts''\<rparr>
        else if f = ''Server'' \<or> f = ''Port'' then c\<lparr>chInterrupt := True, chImpact := ''reconnects this egress to a different address''\<rparr>
        else c\<lparr>chImpact := ''the egress is reconfigured and reconnects''\<rparr>)"

definition sget :: "(string \<times> string) list \<Rightarrow> string \<Rightarrow> string" where
  "sget m k = (case map_of m k of None \<Rightarrow> '''' | Some v \<Rightarrow> v)"

definition scalar_rows :: "Endpoint \<Rightarrow> Endpoint \<Rightarrow> Change list" where
  "scalar_rows b d =
    (let bs = endpointScalarFields b; ds = endpointScalarFields d;
         keys = sort (map fst ds @ filter (\<lambda>k. k \<notin> set (map fst ds)) (map fst bs))
     in map (\<lambda>k. endpoint_row d k (sget bs k) (sget ds k) False) (filter (\<lambda>k. sget bs k \<noteq> sget ds k) keys))"

definition struct_rows :: "Deps \<Rightarrow> Endpoint \<Rightarrow> Endpoint \<Rightarrow> Change list" where
  "struct_rows dp b d =
     (if sameJSON (epTLS b) (epTLS d) then [] else [endpoint_row d ''TLS settings'' (describeTLS dp (epTLS b)) (describeTLS dp (epTLS d)) False])
   @ (if sameJSON (epTransport b) (epTransport d) then []
      else [endpoint_row d ''Transport'' (describeTransport (epTransport b)) (describeTransport (epTransport d)) False])
   @ (if sameJSON (epMultiplex b) (epMultiplex d) then []
      else [endpoint_row d ''Multiplex'' (describeMultiplex (epMultiplex b)) (describeMultiplex (epMultiplex d)) False])
   @ (if sameJSON (epHealth b) (epHealth d) then []
      else [endpoint_row d ''Health test'' (describeHealth (epHealth b)) (describeHealth (epHealth d)) False])"

definition param_row :: "Deps \<Rightarrow> Endpoint \<Rightarrow> string \<Rightarrow> param \<Rightarrow> param \<Rightarrow> Change list" where
  "param_row dp d k bv dv =
    (if sprint bv = sprint dv then []
     else if isEmptyParam bv \<and> isEmptyParam dv then []
     else if IsSecretField dp k then [endpoint_row d (fieldLabel k) (fst (secretTransition bv dv)) (snd (secretTransition bv dv)) True]
     else [endpoint_row d (fieldLabel k) (valueWord bv) (valueWord dv) False])"

definition param_rows :: "Deps \<Rightarrow> Endpoint \<Rightarrow> Endpoint \<Rightarrow> Change list" where
  "param_rows dp b d =
     concat (map (\<lambda>k. param_row dp d k (pget (epParams b) k) (pget (epParams d) k))
       (sort (remdups (map fst (epParams b) @ map fst (epParams d)))))"

definition diffEndpointFields :: "Deps \<Rightarrow> Endpoint \<Rightarrow> Endpoint \<Rightarrow> Change list" where
  "diffEndpointFields dp b d = scalar_rows b d @ struct_rows dp b d @ param_rows dp b d"

definition endpoint_added :: "Endpoint \<Rightarrow> Change" where
  "endpoint_added d = change (epID d) ''endpoint'' (endpointName d) ActionAdded (endpointSubsystem d) ''a new egress becomes available to routing rules''"

definition endpoint_removed :: "Endpoint \<Rightarrow> Change" where
  "endpoint_removed b =
    (let c = (change (epID b) ''endpoint'' (endpointName b) ActionRemoved (endpointSubsystem b) ''traffic routed through this egress must move elsewhere'')\<lparr>chInterrupt := True\<rparr>
     in if epEngine b = EngineExternal
        then c\<lparr>chImpact := ''WayHop stops routing through this native tunnel; the tunnel itself is left running (it is owned by the router, not WayHop)''\<rparr>
        else c)"

definition diffEndpoints :: "Deps \<Rightarrow> Endpoint list \<Rightarrow> Endpoint list \<Rightarrow> Change list" where
  "diffEndpoints dp = diff_objects epID endpoint_added (diffEndpointFields dp) endpoint_removed"

section \<open>Groups\<close>

definition group_type_name :: "GroupType \<Rightarrow> string" where
  "group_type_name t = (case t of GroupURLTest \<Rightarrow> ''urltest'' | GroupSelector \<Rightarrow> ''selector'' | GroupFallback \<Rightarrow> ''fallback'' | GroupTypeOther s \<Rightarrow> s)"

definition group_row :: "Group \<Rightarrow> string \<Rightarrow> string \<Rightarrow> string \<Rightarrow> Change" where
  "group_row d f before after =
     (field (change (grID d) ''group'' (nameOr (grName d) (grID d)) ActionModified SubGroups ''changes which egress this group selects'') f before after)
       \<lparr>chInterrupt := True\<rparr>"

definition only_if :: "bool \<Rightarrow> Change \<Rightarrow> Change list" where
  "only_if b c = (if b then [c] else [])"

definition diffGroupFields :: "Group \<Rightarrow> Group \<Rightarrow> Change list" where
  "diffGroupFields b d =
     only_if (grName b \<noteq> grName d) (group_row d ''Name'' (grName b) (grName d))
   @ only_if (group_type_name (grType b) \<noteq> group_type_name (grType d)) (group_row d ''Type'' (group_type_name (grType b)) (group_type_name (grType d)))
   @ only_if (join '', '' (grMembers b) \<noteq> join '', '' (grMembers d)) (group_row d ''Members'' (join '', '' (grMembers b)) (join '', '' (grMembers d)))
   @ only_if (\<not> sameJSON (grTest b) (grTest d)) (group_row d ''Health test'' (describeHealth (grTest b)) (describeHealth (grTest d)))
   @ only_if (grKillSwitch b \<noteq> grKillSwitch d) ((group_row d ''Kill switch'' (boolWord (grKillSwitch b)) (boolWord (grKillSwitch d)))
       \<lparr>chImpact := ''when every member is down, traffic is dropped instead of leaking to the provider''\<rparr>)
   @ only_if (grInterruptOnSwitch b \<noteq> grInterruptOnSwitch d)
       (group_row d ''Interrupt on switch'' (boolWord (grInterruptOnSwitch b)) (boolWord (grInterruptOnSwitch d)))
   @ only_if (grManaged b \<noteq> grManaged d) (group_row d ''Managed by WayHop'' (boolWord (grManaged b)) (boolWord (grManaged d)))"

definition diffGroups :: "Group list \<Rightarrow> Group list \<Rightarrow> Change list" where
  "diffGroups = diff_objects grID
     (\<lambda>d. change (grID d) ''group'' (nameOr (grName d) (grID d)) ActionAdded SubGroups ''a new failover/selection group becomes available'')
     diffGroupFields
     (\<lambda>b. (change (grID b) ''group'' (nameOr (grName b) (grID b)) ActionRemoved SubGroups ''rules pointing at this group must be repointed'')\<lparr>chInterrupt := True\<rparr>)"

section \<open>Rules and device groups\<close>

definition summariseRule :: "Rule \<Rightarrow> string" where
  "summariseRule r = [CHR 0xE2, CHR 0x86, CHR 0x92, CHR '' ''] @ nameOr (ruOutbound r) ''(no outbound)'' @ (if ruDisabled r then '' (disabled)'' else '''')"

definition rule_change :: "Rule \<Rightarrow> ChangeAction \<Rightarrow> Change" where
  "rule_change r a = change (ruID r) ''rule'' (ruID r) a SubDeviceRules ''changes which traffic this rule sends where''"

definition diffRules :: "Rule list \<Rightarrow> Rule list \<Rightarrow> Change list" where
  "diffRules = diff_objects ruID (\<lambda>d. rule_change d ActionAdded)
     (\<lambda>b d. only_if (\<not> sameJSON b d) (field (rule_change d ActionModified) ''Rule definition'' (summariseRule b) (summariseRule d)))
     (\<lambda>b. (rule_change b ActionRemoved)\<lparr>chInterrupt := True\<rparr>)"

definition device_change :: "DeviceGroup \<Rightarrow> ChangeAction \<Rightarrow> Change" where
  "device_change g a = change (dgID g) ''device_group'' (nameOr (dgName g) (dgID g)) a SubDeviceRules ''changes which devices the rules using this group apply to''"

definition diffDeviceGroups :: "DeviceGroup list \<Rightarrow> DeviceGroup list \<Rightarrow> Change list" where
  "diffDeviceGroups = diff_objects dgID (\<lambda>d. device_change d ActionAdded)
     (\<lambda>b d. only_if (\<not> sameJSON b d) (field (device_change d ActionModified) ''Members''
        (countWord (length (dgMembers b)) ''device'' ''devices'') (countWord (length (dgMembers d)) ''device'' ''devices'')))
     (\<lambda>b. device_change b ActionRemoved)"

section \<open>The DNS plane\<close>

definition dns_row :: "string \<Rightarrow> string \<Rightarrow> string \<Rightarrow> Change" where
  "dns_row f before after = field (change ''dns'' ''dns'' ''DNS plane'' ActionModified SubDNS ''changes how names are resolved for routed traffic'') f before after"

definition onOff :: "bool \<Rightarrow> string \<Rightarrow> bool \<Rightarrow> bool \<Rightarrow> Change list" where
  "onOff interrupt f b d = only_if (b \<noteq> d) ((dns_row f (boolWord b) (boolWord d))\<lparr>chInterrupt := interrupt\<rparr>)"

definition diffDNSFields :: "DNSSettings \<Rightarrow> DNSSettings \<Rightarrow> Change list" where
  "diffDNSFields b d =
     onOff True ''DNS management'' (dnEnabled b) (dnEnabled d)
   @ onOff False ''Leak protection'' (dnLeakProof b) (dnLeakProof d)
   @ onOff False ''FakeIP'' (dnFakeIP b) (dnFakeIP d)
   @ only_if (dnStrategy b \<noteq> dnStrategy d) (dns_row ''Strategy'' (nameOr (dnStrategy b) ''default'') (nameOr (dnStrategy d) ''default''))
   @ (if length (dnServers b) \<noteq> length (dnServers d)
      then [dns_row ''Resolvers'' (countWord (length (dnServers b)) ''resolver'' ''resolvers'') (countWord (length (dnServers d)) ''resolver'' ''resolvers'')]
      else only_if (\<not> sameJSON (dnServers b) (dnServers d)) (dns_row ''Resolvers'' SecretSet SecretChanged))
   @ only_if (length (dnRules b) \<noteq> length (dnRules d) \<or> \<not> sameJSON (dnRules b) (dnRules d))
       (dns_row ''DNS rules'' (countWord (length (dnRules b)) ''rule'' ''rules'') (countWord (length (dnRules d)) ''rule'' ''rules''))
   @ only_if (dnFinal b \<noteq> dnFinal d) (dns_row ''Default resolver'' (nameOr (dnFinal b) ''none'') (nameOr (dnFinal d) ''none''))
   @ onOff True ''Intercept DNS'' (dnIntercept b) (dnIntercept d)
   @ onOff False ''Reject encrypted DNS'' (dnInterceptRejectEncrypted b) (dnInterceptRejectEncrypted d)
   @ onOff False ''DNS cache'' (\<not> dnDisableCache b) (\<not> dnDisableCache d)
   @ onOff False ''Independent cache'' (dnIndependentCache b) (dnIndependentCache d)
   @ only_if (dnClientSubnet b \<noteq> dnClientSubnet d) (dns_row ''Client subnet'' (nameOr (dnClientSubnet b) ''none'') (nameOr (dnClientSubnet d) ''none''))
   @ onOff False ''Reverse mapping'' (dnReverseMapping b) (dnReverseMapping d)"

definition diffDNSPlane :: "DNSSettings option \<Rightarrow> DNSSettings option \<Rightarrow> Change list" where
  "diffDNSPlane base desired =
    (case (base, desired) of
       (None, None) \<Rightarrow> []
     | (None, Some d) \<Rightarrow> [change ''dns'' ''dns'' ''DNS plane'' ActionAdded SubDNS ''WayHop starts managing DNS resolution'']
     | (Some b, None) \<Rightarrow> [(change ''dns'' ''dns'' ''DNS plane'' ActionRemoved SubDNS
          ''WayHop stops managing DNS; the core falls back to its default resolver'')\<lparr>chInterrupt := True\<rparr>]
     | (Some b, Some d) \<Rightarrow> diffDNSFields b d)"

section \<open>Routing lists\<close>

text \<open>The rank of each list among those present in both states.\<close>

definition relativeOrder :: "RoutingList list \<Rightarrow> RoutingList list \<Rightarrow> id \<Rightarrow> nat option" where
  "relativeOrder ss other =
    (let ids = filter (\<lambda>i. i \<in> rlID ` set other) (map rlID ss) in map_of (rev (zip ids [0..<length ids])))"

definition list_change :: "RoutingList \<Rightarrow> ChangeAction \<Rightarrow> string \<Rightarrow> Change" where
  "list_change l a impact = change (rlID l) ''routing_list'' (nameOr (rlName l) (rlID l)) a SubRouting impact"

definition list_row :: "RoutingList \<Rightarrow> string \<Rightarrow> string \<Rightarrow> string \<Rightarrow> Change" where
  "list_row d f before after = field (list_change d ActionModified ''changes where matching traffic is sent'') f before after"

definition feed_row :: "RoutingList \<Rightarrow> string \<Rightarrow> string \<Rightarrow> string \<Rightarrow> Change" where
  "feed_row d f before after = (list_row d f before after)\<lparr>chSource := ''external'', chImpact := ''the set of destinations this list matches changes''\<rparr>"

definition diffListFields :: "RoutingList \<Rightarrow> RoutingList \<Rightarrow> Change list" where
  "diffListFields b d =
     only_if (rlName b \<noteq> rlName d) (list_row d ''Name'' (rlName b) (rlName d))
   @ only_if (rlOutbound b \<noteq> rlOutbound d) ((list_row d ''Outbound'' (rlOutbound b) (rlOutbound d))\<lparr>chInterrupt := True\<rparr>)
   @ only_if (rlEnabled b \<noteq> rlEnabled d) ((list_row d ''Enabled'' (boolWord (rlEnabled b)) (boolWord (rlEnabled d)))\<lparr>chInterrupt := True\<rparr>)
   @ only_if (rlSource b \<noteq> rlSource d) (list_row d ''Source URL'' (rlSource b) (rlSource d))
   @ only_if (rlFormat b \<noteq> rlFormat d) (list_row d ''Feed format'' (sourceOrNone (rlFormat b)) (sourceOrNone (rlFormat d)))
   @ only_if (length (rlManual b) \<noteq> length (rlManual d) \<or> join '','' (rlManual b) \<noteq> join '','' (rlManual d))
       (list_row d ''Entries'' (countWord (length (rlManual b)) ''entry'' ''entries'') (countWord (length (rlManual d)) ''entry'' ''entries''))
   @ only_if (\<not> sameStrings (rlCIDRCache b) (rlCIDRCache d))
       (feed_row d ''IP feed'' (countWord (length (rlCIDRCache b)) ''prefix'' ''prefixes'') (countWord (length (rlCIDRCache d)) ''prefix'' ''prefixes''))
   @ only_if (\<not> sameStrings (rlDomainCache b) (rlDomainCache d))
       (feed_row d ''Name feed'' (countWord (length (rlDomainCache b)) ''name'' ''names'') (countWord (length (rlDomainCache d)) ''name'' ''names''))
   @ only_if (rlCIDRSource b \<noteq> rlCIDRSource d) (list_row d ''IP feed source'' (sourceOrNone (rlCIDRSource b)) (sourceOrNone (rlCIDRSource d)))
   @ only_if (rlDomainSource b \<noteq> rlDomainSource d) (list_row d ''Name feed source'' (sourceOrNone (rlDomainSource b)) (sourceOrNone (rlDomainSource d)))
   @ only_if (rlDownloadVia b \<noteq> rlDownloadVia d) (list_row d ''Download via'' (outboundOrDefault (rlDownloadVia b)) (outboundOrDefault (rlDownloadVia d)))
   @ only_if (rlRefreshHours b \<noteq> rlRefreshHours d) ((list_row d ''Auto-update'' (refreshWord (rlRefreshHours b)) (refreshWord (rlRefreshHours d)))
       \<lparr>chImpact := ''changes how often this list re-fetches'', chRestart := False\<rparr>)
   @ only_if (rlScopeMode b \<noteq> rlScopeMode d \<or> \<not> sameStrings (rlScopeGroups b) (rlScopeGroups d))
       ((list_row d ''Applies to'' (scopeWord (rlScopeMode b) (rlScopeGroups b)) (scopeWord (rlScopeMode d) (rlScopeGroups d)))\<lparr>chInterrupt := True\<rparr>)
   @ only_if (rlTLSFragment b \<noteq> rlTLSFragment d) ((list_row d ''TLS fragmentation'' (nameOr (rlTLSFragment b) ''off'') (nameOr (rlTLSFragment d) ''off''))
       \<lparr>chImpact := ''changes how this list's direct TLS connections start''\<rparr>)"

definition position_row :: "RoutingList \<Rightarrow> nat \<Rightarrow> nat \<Rightarrow> Change" where
  "position_row d op np = field (list_change d ActionReordered ''rules are evaluated in order, so this changes which rule wins for overlapping destinations'')
     ''Position'' (''#'' @ dec (op + 1)) (''#'' @ dec (np + 1))"

definition position_rows :: "(id \<Rightarrow> nat option) \<Rightarrow> (id \<Rightarrow> nat option) \<Rightarrow> RoutingList \<Rightarrow> Change list" where
  "position_rows relBase relDesired d =
    (case relBase (rlID d) of
       None \<Rightarrow> []
     | Some op \<Rightarrow> let np = (case relDesired (rlID d) of None \<Rightarrow> 0 | Some n \<Rightarrow> n) in only_if (op \<noteq> np) (position_row d op np))"

definition diffRoutingLists :: "RoutingList list \<Rightarrow> RoutingList list \<Rightarrow> Change list" where
  "diffRoutingLists base desired =
     diff_objects rlID (\<lambda>d. list_change d ActionAdded ''new destinations start being routed by this rule'')
       (\<lambda>b d. diffListFields b d @ position_rows (relativeOrder base desired) (relativeOrder desired base) d)
       (\<lambda>b. (list_change b ActionRemoved ''these destinations fall back to the default route'')\<lparr>chInterrupt := True\<rparr>)
       base desired"

section \<open>Settings\<close>

definition setting_row :: "string \<Rightarrow> string \<Rightarrow> string \<Rightarrow> string \<Rightarrow> string \<Rightarrow> bool \<Rightarrow> Change" where
  "setting_row f before after sub impact interrupt =
     (field (change ''settings'' ''setting'' f ActionModified sub impact) f before after)\<lparr>chInterrupt := interrupt\<rparr>"

definition overrideWord :: "Deps \<Rightarrow> string \<Rightarrow> string" where
  "overrideWord dp text =
    (if TrimSpace text = '''' then ''none''
     else case dpKeys dp text of
            None \<Rightarrow> ''set''
          | Some ks \<Rightarrow> if ks = [] then ''set'' else ''touches '' @ join '', '' ks)"

definition diffSettings :: "Deps \<Rightarrow> 'c ReviewConfig_scheme \<Rightarrow> 'c ReviewConfig_scheme \<Rightarrow> Change list" where
  "diffSettings dp b d =
     only_if (cfRoutingMode b \<noteq> cfRoutingMode d) ((setting_row ''Routing mode'' (nameOr (cfRoutingMode b) ''default'') (nameOr (cfRoutingMode d) ''default'')
       SubFirewallPBR ''changes how ALL traffic is captured and routed'' True)
       \<lparr>chWarnings := [''switching routing mode rebuilds the datapath; verify connectivity inside the fail-safe window'']\<rparr>)
   @ only_if (cfOffload b \<noteq> cfOffload d) (setting_row ''Flow offload'' (nameOr (cfOffload b) ''off'') (nameOr (cfOffload d) ''off'')
       SubOffload ''changes whether flows are accelerated in software/hardware'' False)
   @ only_if (cfRuleSetDetour b \<noteq> cfRuleSetDetour d) (setting_row ''Rule-set download route'' (nameOr (cfRuleSetDetour b) ''direct'') (nameOr (cfRuleSetDetour d) ''direct'')
       SubRouting ''changes which path routing-list downloads use (direct downloads fail on a censored network)'' False)
   @ only_if (cfCoreOverride b \<noteq> cfCoreOverride d)
       (let before = overrideWord dp (cfCoreOverride b); after = overrideWord dp (cfCoreOverride d)
        in setting_row ''Core override'' before (if before = after then after @ '' (edited)'' else after)
             SubGeneral ''changes the sing-box config WayHop generates, after it is generated'' True)"

section \<open>Diff\<close>

definition changes :: "Deps \<Rightarrow> Profile \<Rightarrow> Profile \<Rightarrow> 'c ReviewConfig_scheme \<Rightarrow> 'c ReviewConfig_scheme \<Rightarrow> Change list" where
  "changes dp base desired baseCfg desiredCfg =
     diffEndpoints dp (prEndpoints base) (prEndpoints desired)
   @ diffGroups (prGroups base) (prGroups desired)
   @ diffRoutingLists (prRoutingLists base) (prRoutingLists desired)
   @ diffRules (prRules base) (prRules desired)
   @ diffDeviceGroups (prDeviceGroups base) (prDeviceGroups desired)
   @ diffDNSPlane (prDNS base) (prDNS desired)
   @ diffSettings dp baseCfg desiredCfg"

definition Diff :: "Deps \<Rightarrow> string \<Rightarrow> string \<Rightarrow> Profile \<Rightarrow> Profile \<Rightarrow> 'c ReviewConfig_scheme \<Rightarrow> 'c ReviewConfig_scheme \<Rightarrow> ChangeSet" where
  "Diff dp baseRev desiredRev base desired baseCfg desiredCfg =
     \<lparr>csBaselineRev = baseRev, csDesiredRev = desiredRev, csChanges = changes dp base desired baseCfg desiredCfg\<rparr>"

definition Count :: "ChangeSet \<Rightarrow> nat" where
  "Count cs = length (csChanges cs)"

definition BySubsystem :: "ChangeSet \<Rightarrow> string \<Rightarrow> Change list" where
  "BySubsystem cs sub = filter (\<lambda>c. chSubsystem c = sub) (csChanges cs)"

definition RequiresApply :: "ChangeSet \<Rightarrow> bool" where
  "RequiresApply cs \<longleftrightarrow> list_ex chApply (csChanges cs)"

definition MayInterrupt :: "ChangeSet \<Rightarrow> bool" where
  "MayInterrupt cs \<longleftrightarrow> list_ex chInterrupt (csChanges cs)"

end
