(* ===== verification/Change_Undo.thy ===== *)
theory Change_Undo
  imports Change_Diff
begin

text \<open>
  \<open>undo.go\<close>: reverting a field, an object, a subsystem or everything, and the slot an object of an ordered
  collection goes back to; and \<open>lifecycle.go\<close>, the state shown to the operator.
\<close>

section \<open>Slots\<close>

definition insertAt :: "'a list \<Rightarrow> 'a \<Rightarrow> nat \<Rightarrow> 'a list" where
  "insertAt ss v i = (let i = (if i > length ss then length ss else i) in take i ss @ [v] @ drop i ss)"

fun indexByID :: "('a \<Rightarrow> id) \<Rightarrow> 'a list \<Rightarrow> id \<Rightarrow> nat option" where
  "indexByID key [] i = None"
| "indexByID key (x # xs) i = (if key x = i then Some 0 else map_option Suc (indexByID key xs i))"

text \<open>The loop that takes an id out of a list of ids and remembers where it stood.\<close>

definition split_out :: "id list \<Rightarrow> id \<Rightarrow> id list \<times> nat option" where
  "split_out ids i = foldl (\<lambda>(rest, cur) x. if x = i then (rest, Some (length rest)) else (rest @ [x], cur)) ([], None) ids"

text \<open>\<open>restoreIndex\<close>: the loop slides a slot from left to right.\<close>

record Slide =
  slMisplaced :: int
  slBest :: int
  slBestAt :: nat
  slAtCur :: int

definition slide :: "(id \<Rightarrow> nat option) \<Rightarrow> nat \<Rightarrow> nat option \<Rightarrow> Slide \<Rightarrow> nat \<times> id \<Rightarrow> Slide" where
  "slide rank own cur st kx =
    (let (k, x) = kx;
         m = (case rank x of None \<Rightarrow> slMisplaced st | Some r \<Rightarrow> if r < own then slMisplaced st - 1 else slMisplaced st + 1);
         (best, bestAt) = (if m < slBest st then (m, k + 1) else (slBest st, slBestAt st))
     in \<lparr>slMisplaced = m, slBest = best, slBestAt = bestAt, slAtCur = (if cur = Some (k + 1) then m else slAtCur st)\<rparr>)"

definition restoreIndex :: "id list \<Rightarrow> id list \<Rightarrow> id \<Rightarrow> nat" where
  "restoreIndex baseIDs desiredIDs i =
    (let rank = map_of (rev (zip baseIDs [0..<length baseIDs])); (rest, cur) = split_out desiredIDs i
     in case rank i of
          None \<Rightarrow> (case cur of Some c \<Rightarrow> c | None \<Rightarrow> length rest)
        | Some own \<Rightarrow>
           (let misplaced = int (length (filter (\<lambda>x. case rank x of None \<Rightarrow> False | Some r \<Rightarrow> r < own) rest));
                st = foldl (slide rank own cur)
                       \<lparr>slMisplaced = misplaced, slBest = misplaced, slBestAt = 0, slAtCur = (if cur = Some 0 then misplaced else - 1)\<rparr>
                       (zip [0..<length rest] rest)
            in case cur of
                 Some c \<Rightarrow> if slAtCur st = slBest st then c else slBestAt st
               | None \<Rightarrow> slBestAt st))"

text \<open>\<open>rankSlot\<close>: the loop over what stays finds the range of slots behind exactly \<open>k\<close> shared objects.\<close>

fun slot_range :: "id set \<Rightarrow> nat \<Rightarrow> nat \<Rightarrow> nat \<Rightarrow> nat \<times> nat \<Rightarrow> id list \<Rightarrow> nat \<times> nat" where
  "slot_range inBase k i shared (lo, hi) [] = (lo, hi)"
| "slot_range inBase k i shared (lo, hi) (x # xs) =
    (if x \<notin> inBase then slot_range inBase k (i + 1) shared (lo, hi) xs
     else if shared = k then (lo, i)
     else slot_range inBase k (i + 1) (shared + 1) (if shared + 1 = k then i + 1 else lo, hi) xs)"

definition rankSlot :: "id list \<Rightarrow> id list \<Rightarrow> id \<Rightarrow> nat" where
  "rankSlot baseIDs desiredIDs i =
    (let k = length (filter (\<lambda>x. x \<in> set desiredIDs) (takeWhile (\<lambda>x. x \<noteq> i) baseIDs)); (rest, cur) = split_out desiredIDs i
     in if i \<notin> set baseIDs then (case cur of Some c \<Rightarrow> c | None \<Rightarrow> length rest)
        else let (lo, hi) = slot_range (set baseIDs) k 0 0 (0, length rest) rest
             in case cur of
                  None \<Rightarrow> lo
                | Some c \<Rightarrow> if c < lo then lo else if c > hi then hi else c)"

section \<open>Objects\<close>

definition undoOrdered :: "('a \<Rightarrow> id) \<Rightarrow> ('a \<Rightarrow> 'a \<Rightarrow> bool) \<Rightarrow> (id list \<Rightarrow> id list \<Rightarrow> id \<Rightarrow> nat) option \<Rightarrow> 'a list \<Rightarrow> 'a list \<Rightarrow> id \<Rightarrow> 'a list option" where
  "undoOrdered key eq slot base desired i =
    (case (indexByID key base i, indexByID key desired i) of
       (None, None) \<Rightarrow> None
     | (None, Some di) \<Rightarrow> Some (take di desired @ drop (di + 1) desired)
     | (Some bi, None) \<Rightarrow>
         Some (insertAt desired (base ! bi)
           ((case slot of Some f \<Rightarrow> f | None \<Rightarrow> restoreIndex) (map key base) (map key desired) i))
     | (Some bi, Some di) \<Rightarrow>
         (let target = (case slot of Some f \<Rightarrow> f (map key base) (map key desired) i | None \<Rightarrow> di)
          in if target = di \<and> eq (base ! bi) (desired ! di) then None
             else Some (insertAt (take di desired @ drop (di + 1) desired) (base ! bi) target)))"

definition endpointsEqual :: "Deps \<Rightarrow> Endpoint \<Rightarrow> Endpoint \<Rightarrow> bool" where
  "endpointsEqual dp a b \<longleftrightarrow> diffEndpointFields dp a b = []"

definition groupsEqual :: "Group \<Rightarrow> Group \<Rightarrow> bool" where
  "groupsEqual a b \<longleftrightarrow> diffGroups [a] [b] = []"

definition routingEqual :: "RoutingList \<Rightarrow> RoutingList \<Rightarrow> bool" where
  "routingEqual a b \<longleftrightarrow> diffRoutingLists [a] [b] = []"

definition rulesEqual :: "Rule \<Rightarrow> Rule \<Rightarrow> bool" where
  "rulesEqual a b \<longleftrightarrow> diffRules [a] [b] = []"

definition deviceGroupsEqual :: "DeviceGroup \<Rightarrow> DeviceGroup \<Rightarrow> bool" where
  "deviceGroupsEqual a b \<longleftrightarrow> diffDeviceGroups [a] [b] = []"

definition undoEndpointObject :: "Deps \<Rightarrow> Profile \<Rightarrow> Profile \<Rightarrow> id \<Rightarrow> Profile option" where
  "undoEndpointObject dp base desired i =
     map_option (\<lambda>s. desired\<lparr>prEndpoints := s\<rparr>) (undoOrdered epID (endpointsEqual dp) None (prEndpoints base) (prEndpoints desired) i)"

definition undoGroupObject :: "Profile \<Rightarrow> Profile \<Rightarrow> id \<Rightarrow> Profile option" where
  "undoGroupObject base desired i =
     map_option (\<lambda>s. desired\<lparr>prGroups := s\<rparr>) (undoOrdered grID groupsEqual None (prGroups base) (prGroups desired) i)"

definition keepRefreshClock :: "RoutingList \<Rightarrow> RoutingList \<Rightarrow> RoutingList" where
  "keepRefreshClock b cur =
    (let b1 = (if rlCIDRRefreshed cur \<noteq> 0 then b\<lparr>rlCIDRRefreshed := rlCIDRRefreshed cur\<rparr> else b)
     in if rlDomainRefreshed cur \<noteq> 0 then b1\<lparr>rlDomainRefreshed := rlDomainRefreshed cur\<rparr> else b1)"

definition undoRoutingObject :: "(id list \<Rightarrow> id list \<Rightarrow> id \<Rightarrow> nat) \<Rightarrow> Profile \<Rightarrow> Profile \<Rightarrow> id \<Rightarrow> Profile option" where
  "undoRoutingObject slot base desired i =
    (let baseLists = (case (indexByID rlID (prRoutingLists base) i, indexByID rlID (prRoutingLists desired) i) of
           (Some bi, Some di) \<Rightarrow> (prRoutingLists base)[bi := keepRefreshClock (prRoutingLists base ! bi) (prRoutingLists desired ! di)]
         | _ \<Rightarrow> prRoutingLists base)
     in map_option (\<lambda>s. desired\<lparr>prRoutingLists := s\<rparr>) (undoOrdered rlID routingEqual (Some slot) baseLists (prRoutingLists desired) i))"

definition undoRuleObject :: "Profile \<Rightarrow> Profile \<Rightarrow> id \<Rightarrow> Profile option" where
  "undoRuleObject base desired i =
     map_option (\<lambda>s. desired\<lparr>prRules := s\<rparr>) (undoOrdered ruID rulesEqual None (prRules base) (prRules desired) i)"

definition undoDeviceGroupObject :: "Profile \<Rightarrow> Profile \<Rightarrow> id \<Rightarrow> Profile option" where
  "undoDeviceGroupObject base desired i =
     map_option (\<lambda>s. desired\<lparr>prDeviceGroups := s\<rparr>) (undoOrdered dgID deviceGroupsEqual None (prDeviceGroups base) (prDeviceGroups desired) i)"

definition undoDNSObject :: "Profile \<Rightarrow> Profile \<Rightarrow> id \<Rightarrow> Profile option" where
  "undoDNSObject base desired i =
    (if i \<noteq> ''dns'' \<or> diffDNSPlane (prDNS base) (prDNS desired) = [] then None else Some (desired\<lparr>prDNS := prDNS base\<rparr>))"

definition settingsEqual :: "'c ReviewConfig_scheme \<Rightarrow> 'c ReviewConfig_scheme \<Rightarrow> bool" where
  "settingsEqual a b \<longleftrightarrow> cfRoutingMode a = cfRoutingMode b \<and> cfOffload a = cfOffload b \<and> cfRuleSetDetour a = cfRuleSetDetour b
     \<and> cfCoreOverride a = cfCoreOverride b"

definition restoreSettings :: "'c ReviewConfig_scheme \<Rightarrow> 'c ReviewConfig_scheme \<Rightarrow> 'c ReviewConfig_scheme" where
  "restoreSettings baseCfg desiredCfg = desiredCfg\<lparr>cfRoutingMode := cfRoutingMode baseCfg, cfOffload := cfOffload baseCfg,
     cfRuleSetDetour := cfRuleSetDetour baseCfg, cfCoreOverride := cfCoreOverride baseCfg\<rparr>"

definition wants :: "string \<Rightarrow> string \<Rightarrow> bool" where
  "wants objType kind \<longleftrightarrow> objType = '''' \<or> objType = kind"

text \<open>The first kind in a fixed order that the request may mean and that has something to undo.\<close>

fun first_kind :: "string \<Rightarrow> (string \<times> Profile option) list \<Rightarrow> Profile option" where
  "first_kind objType [] = None"
| "first_kind objType ((name, r) # ks) =
    (if \<not> wants objType name then first_kind objType ks
     else case r of Some p \<Rightarrow> Some p | None \<Rightarrow> first_kind objType ks)"

definition undoObject :: "Deps \<Rightarrow> (id list \<Rightarrow> id list \<Rightarrow> id \<Rightarrow> nat) \<Rightarrow> Profile \<Rightarrow> Profile \<Rightarrow> 'c ReviewConfig_scheme \<Rightarrow> 'c ReviewConfig_scheme \<Rightarrow> string \<Rightarrow> id
    \<Rightarrow> (Profile \<times> 'c ReviewConfig_scheme) option" where
  "undoObject dp slot base desired baseCfg desiredCfg objType i =
    (if wants objType ''setting'' \<and> i = ''settings'' \<and> \<not> settingsEqual baseCfg desiredCfg
     then Some (desired, restoreSettings baseCfg desiredCfg)
     else map_option (\<lambda>p. (p, desiredCfg)) (first_kind objType
       [(''endpoint'', undoEndpointObject dp base desired i), (''group'', undoGroupObject base desired i),
        (''routing_list'', undoRoutingObject slot base desired i), (''rule'', undoRuleObject base desired i),
        (''device_group'', undoDeviceGroupObject base desired i), (''dns'', undoDNSObject base desired i)]))"

section \<open>Fields\<close>

definition pset :: "string \<Rightarrow> param \<Rightarrow> (string \<times> param) list \<Rightarrow> (string \<times> param) list" where
  "pset k v m = (k, v) # filter (\<lambda>kv. fst kv \<noteq> k) m"

definition pdel :: "string \<Rightarrow> (string \<times> param) list \<Rightarrow> (string \<times> param) list" where
  "pdel k m = filter (\<lambda>kv. fst kv \<noteq> k) m"

definition revertParam :: "Deps \<Rightarrow> Endpoint \<Rightarrow> Endpoint \<Rightarrow> string \<Rightarrow> Endpoint option" where
  "revertParam dp e b f =
    (let key = paramKeyFromLabel dp f
     in if key = '''' then None
        else case map_of (epParams b) key of
               Some v \<Rightarrow> Some (e\<lparr>epParams := pset key v (epParams e)\<rparr>)
             | None \<Rightarrow> if map_of (epParams e) key = None then None else Some (e\<lparr>epParams := pdel key (epParams e)\<rparr>))"

definition revertEndpointField :: "Deps \<Rightarrow> Endpoint \<Rightarrow> Endpoint \<Rightarrow> string \<Rightarrow> Endpoint option" where
  "revertEndpointField dp e b f =
    (if f = ''Name'' then Some (e\<lparr>epName := epName b\<rparr>)
     else if f = ''Server'' then Some (e\<lparr>epServer := epServer b\<rparr>)
     else if f = ''Port'' then Some (e\<lparr>epPort := epPort b\<rparr>)
     else if f = ''Protocol'' then Some (e\<lparr>epProtocol := epProtocol b\<rparr>)
     else if f = ''Engine'' then Some (e\<lparr>epEngine := epEngine b\<rparr>)
     else if f = ''Enabled'' then Some (e\<lparr>epEnabled := epEnabled b\<rparr>)
     else if f = ''MTU'' then Some (e\<lparr>epMTU := epMTU b\<rparr>)
     else if f = fieldAWGEngine then Some (e\<lparr>epAWGUserspace := epAWGUserspace b\<rparr>)
     else if f = ''Owner'' then Some (e\<lparr>epOwner := epOwner b\<rparr>)
     else if f = ''Keepalive'' then Some (e\<lparr>epPersistentKeepalive := epPersistentKeepalive b\<rparr>)
     else if f = ''TLS settings'' then Some (e\<lparr>epTLS := epTLS b\<rparr>)
     else if f = ''Transport'' then Some (e\<lparr>epTransport := epTransport b\<rparr>)
     else if f = ''Multiplex'' then Some (e\<lparr>epMultiplex := epMultiplex b\<rparr>)
     else if f = ''Health test'' then Some (e\<lparr>epHealth := epHealth b\<rparr>)
     else revertParam dp e b f)"

definition revertGroupField :: "Group \<Rightarrow> Group \<Rightarrow> string \<Rightarrow> Group option" where
  "revertGroupField g b f =
    (if f = ''Name'' then Some (g\<lparr>grName := grName b\<rparr>)
     else if f = ''Type'' then Some (g\<lparr>grType := grType b\<rparr>)
     else if f = ''Members'' then Some (g\<lparr>grMembers := grMembers b\<rparr>)
     else if f = ''Health test'' then Some (g\<lparr>grTest := grTest b\<rparr>)
     else if f = ''Kill switch'' then Some (g\<lparr>grKillSwitch := grKillSwitch b\<rparr>)
     else if f = ''Interrupt on switch'' then Some (g\<lparr>grInterruptOnSwitch := grInterruptOnSwitch b\<rparr>)
     else if f = ''Managed by WayHop'' then Some (g\<lparr>grManaged := grManaged b\<rparr>)
     else None)"

definition revertDNSField :: "DNSSettings \<Rightarrow> DNSSettings \<Rightarrow> string \<Rightarrow> DNSSettings option" where
  "revertDNSField d b f =
    (if f = ''DNS management'' then Some (d\<lparr>dnEnabled := dnEnabled b\<rparr>)
     else if f = ''Leak protection'' then Some (d\<lparr>dnLeakProof := dnLeakProof b\<rparr>)
     else if f = ''FakeIP'' then Some (d\<lparr>dnFakeIP := dnFakeIP b\<rparr>)
     else if f = ''Strategy'' then Some (d\<lparr>dnStrategy := dnStrategy b\<rparr>)
     else if f = ''Resolvers'' then Some (d\<lparr>dnServers := dnServers b\<rparr>)
     else if f = ''DNS rules'' then Some (d\<lparr>dnRules := dnRules b\<rparr>)
     else if f = ''Default resolver'' then Some (d\<lparr>dnFinal := dnFinal b\<rparr>)
     else if f = ''Intercept DNS'' then Some (d\<lparr>dnIntercept := dnIntercept b\<rparr>)
     else if f = ''Reject encrypted DNS'' then Some (d\<lparr>dnInterceptRejectEncrypted := dnInterceptRejectEncrypted b\<rparr>)
     else if f = ''DNS cache'' then Some (d\<lparr>dnDisableCache := dnDisableCache b\<rparr>)
     else if f = ''Independent cache'' then Some (d\<lparr>dnIndependentCache := dnIndependentCache b\<rparr>)
     else if f = ''Client subnet'' then Some (d\<lparr>dnClientSubnet := dnClientSubnet b\<rparr>)
     else if f = ''Reverse mapping'' then Some (d\<lparr>dnReverseMapping := dnReverseMapping b\<rparr>)
     else None)"

definition revertRoutingField :: "RoutingList \<Rightarrow> RoutingList \<Rightarrow> string \<Rightarrow> RoutingList option" where
  "revertRoutingField r b f =
    (if f = ''Name'' then Some (r\<lparr>rlName := rlName b\<rparr>)
     else if f = ''Outbound'' then Some (r\<lparr>rlOutbound := rlOutbound b\<rparr>)
     else if f = ''Enabled'' then Some (r\<lparr>rlEnabled := rlEnabled b\<rparr>)
     else if f = ''Source URL'' then Some (r\<lparr>rlSource := rlSource b\<rparr>)
     else if f = ''Entries'' then Some (r\<lparr>rlManual := rlManual b\<rparr>)
     else if f = ''Feed format'' then Some (r\<lparr>rlFormat := rlFormat b\<rparr>)
     else if f = ''IP feed'' then Some (r\<lparr>rlCIDRCache := rlCIDRCache b\<rparr>)
     else if f = ''Name feed'' then Some (r\<lparr>rlDomainCache := rlDomainCache b\<rparr>)
     else if f = ''IP feed source'' then Some (r\<lparr>rlCIDRSource := rlCIDRSource b\<rparr>)
     else if f = ''Name feed source'' then Some (r\<lparr>rlDomainSource := rlDomainSource b\<rparr>)
     else if f = ''Download via'' then Some (r\<lparr>rlDownloadVia := rlDownloadVia b\<rparr>)
     else if f = ''Auto-update'' then Some (r\<lparr>rlRefreshHours := rlRefreshHours b\<rparr>)
     else if f = ''Applies to'' then Some (r\<lparr>rlScopeMode := rlScopeMode b, rlScopeGroups := rlScopeGroups b\<rparr>)
     else if f = ''TLS fragmentation'' then Some (r\<lparr>rlTLSFragment := rlTLSFragment b\<rparr>)
     else None)"

definition revertSetting :: "'c ReviewConfig_scheme \<Rightarrow> 'c ReviewConfig_scheme \<Rightarrow> string \<Rightarrow> 'c ReviewConfig_scheme" where
  "revertSetting c b f =
    (if f = ''Routing mode'' then c\<lparr>cfRoutingMode := cfRoutingMode b\<rparr>
     else if f = ''Flow offload'' then c\<lparr>cfOffload := cfOffload b\<rparr>
     else if f = ''Rule-set download route'' then c\<lparr>cfRuleSetDetour := cfRuleSetDetour b\<rparr>
     else if f = ''Core override'' then c\<lparr>cfCoreOverride := cfCoreOverride b\<rparr>
     else c)"

definition undoRoutingPosition :: "Profile \<Rightarrow> Profile \<Rightarrow> id \<Rightarrow> Profile option" where
  "undoRoutingPosition base desired i =
    (case (indexByID rlID (prRoutingLists desired) i, indexByID rlID (prRoutingLists base) i) of
       (Some di, Some bi) \<Rightarrow>
         (let ls = prRoutingLists desired; target = rankSlot (map rlID (prRoutingLists base)) (map rlID ls) i
          in if target = di then None
             else Some (desired\<lparr>prRoutingLists := insertAt (take di ls @ drop (di + 1) ls) (ls ! di) target\<rparr>))
     | _ \<Rightarrow> None)"

text \<open>Replace, in the desired state, the object of an id that both states hold.\<close>

definition revert_in :: "('a \<Rightarrow> id) \<Rightarrow> ('a \<Rightarrow> 'a \<Rightarrow> 'a option) \<Rightarrow> 'a list \<Rightarrow> 'a list \<Rightarrow> id \<Rightarrow> 'a list option" where
  "revert_in key revert base desired i =
    (case (indexByID key base i, indexByID key desired i) of
       (Some bi, Some di) \<Rightarrow> map_option (\<lambda>x. desired[di := x]) (revert (desired ! di) (base ! bi))
     | _ \<Rightarrow> None)"

fun or_try :: "'a option list \<Rightarrow> 'a option" where
  "or_try [] = None"
| "or_try (Some x # xs) = Some x"
| "or_try (None # xs) = or_try xs"

definition undoField :: "Deps \<Rightarrow> Profile \<Rightarrow> Profile \<Rightarrow> 'c ReviewConfig_scheme \<Rightarrow> 'c ReviewConfig_scheme \<Rightarrow> string \<Rightarrow> id \<Rightarrow> string \<Rightarrow> (Profile \<times> 'c ReviewConfig_scheme) option" where
  "undoField dp base desired baseCfg desiredCfg objType i f =
    (let out = revertSetting desiredCfg baseCfg f
     in if wants objType ''setting'' \<and> i = ''settings'' \<and> \<not> settingsEqual out desiredCfg then Some (desired, out)
        else map_option (\<lambda>p. (p, desiredCfg)) (or_try
          [if wants objType ''endpoint''
             then map_option (\<lambda>s. desired\<lparr>prEndpoints := s\<rparr>) (revert_in epID (\<lambda>e b. revertEndpointField dp e b f) (prEndpoints base) (prEndpoints desired) i)
             else None,
           if wants objType ''group''
             then map_option (\<lambda>s. desired\<lparr>prGroups := s\<rparr>) (revert_in grID (\<lambda>g b. revertGroupField g b f) (prGroups base) (prGroups desired) i)
             else None,
           if wants objType ''routing_list'' \<and> f = ''Position'' then undoRoutingPosition base desired i else None,
           if wants objType ''routing_list''
             then map_option (\<lambda>s. desired\<lparr>prRoutingLists := s\<rparr>)
               (revert_in rlID (\<lambda>r b. revertRoutingField r b f) (prRoutingLists base) (prRoutingLists desired) i)
             else None,
           if f = ''Rule definition'' \<and> wants objType ''rule'' \<and> indexByID ruID (prRules base) i \<noteq> None \<and> indexByID ruID (prRules desired) i \<noteq> None
             then undoRuleObject base desired i else None,
           if f = ''Members'' \<and> wants objType ''device_group'' \<and> indexByID dgID (prDeviceGroups base) i \<noteq> None
               \<and> indexByID dgID (prDeviceGroups desired) i \<noteq> None
             then undoDeviceGroupObject base desired i else None,
           if wants objType ''dns'' \<and> i = ''dns''
             then (case (prDNS base, prDNS desired) of
                     (Some b, Some d) \<Rightarrow> map_option (\<lambda>x. desired\<lparr>prDNS := Some x\<rparr>) (revertDNSField d b f)
                   | _ \<Rightarrow> None)
             else None]))"

section \<open>Subsystems and everything\<close>

record 'c UndoRun =
  urProfile :: Profile
  urConfig :: "'c ReviewConfig_scheme"
  urTouched :: bool
  urSeen :: "(string \<times> id) set"

definition undo_row :: "Deps \<Rightarrow> Profile \<Rightarrow> 'c ReviewConfig_scheme \<Rightarrow> 'c UndoRun \<Rightarrow> Change \<Rightarrow> 'c UndoRun" where
  "undo_row dp base baseCfg st ch =
    (if chType ch = ''setting'' then
       (case undoField dp base (urProfile st) baseCfg (urConfig st) ''setting'' (chID ch) (chField ch) of
          Some (p, c) \<Rightarrow> st\<lparr>urConfig := c, urTouched := True\<rparr>
        | None \<Rightarrow> st)
     else if (chType ch, chID ch) \<in> urSeen st then st
     else let st1 = st\<lparr>urSeen := insert (chType ch, chID ch) (urSeen st)\<rparr>
          in case undoObject dp restoreIndex base (urProfile st) baseCfg (urConfig st) (chType ch) (chID ch) of
               Some (p, c) \<Rightarrow> st1\<lparr>urProfile := p, urConfig := c, urTouched := True\<rparr>
             | None \<Rightarrow> st1)"

definition undoReportedOnce :: "Deps \<Rightarrow> Profile \<Rightarrow> Profile \<Rightarrow> 'c ReviewConfig_scheme \<Rightarrow> 'c ReviewConfig_scheme \<Rightarrow> (Change \<Rightarrow> bool) \<Rightarrow> 'c UndoRun" where
  "undoReportedOnce dp base desired baseCfg desiredCfg keep =
     foldl (undo_row dp base baseCfg) \<lparr>urProfile = desired, urConfig = desiredCfg, urTouched = False, urSeen = {}\<rparr>
       (filter keep (csChanges (Diff dp '''' '''' base desired baseCfg desiredCfg)))"

definition maxUndoPasses :: nat where "maxUndoPasses = 4"

fun undo_passes :: "nat \<Rightarrow> Deps \<Rightarrow> Profile \<Rightarrow> 'c ReviewConfig_scheme \<Rightarrow> (Change \<Rightarrow> bool) \<Rightarrow> Profile \<times> 'c ReviewConfig_scheme \<times> bool \<Rightarrow> Profile \<times> 'c ReviewConfig_scheme \<times> bool" where
  "undo_passes 0 dp base baseCfg keep (p, c, touched) = (p, c, touched)"
| "undo_passes (Suc n) dp base baseCfg keep (p, c, touched) =
    (let st = undoReportedOnce dp base p baseCfg c keep
     in if \<not> urTouched st then (p, c, touched) else undo_passes n dp base baseCfg keep (urProfile st, urConfig st, True))"

definition undoReported :: "Deps \<Rightarrow> Profile \<Rightarrow> Profile \<Rightarrow> 'c ReviewConfig_scheme \<Rightarrow> 'c ReviewConfig_scheme \<Rightarrow> (Change \<Rightarrow> bool) \<Rightarrow> Profile \<times> 'c ReviewConfig_scheme \<times> bool" where
  "undoReported dp base desired baseCfg desiredCfg keep = undo_passes maxUndoPasses dp base baseCfg keep (desired, desiredCfg, False)"

section \<open>Undo\<close>

datatype UndoScope = ScopeField | ScopeObject | ScopeSubsystem | ScopeAll | ScopeOther string

record UndoRequest =
  rqScope :: UndoScope
  rqID :: id
  rqObjectType :: string
  rqField :: string
  rqSubsystem :: string

datatype undo_error = NothingPending | SubsystemRequired | NothingInSubsystem string | ObjectIDRequired | NoObjectChange id
  | FieldRequired | NoFieldChange string id | UnknownScope string

definition undoAll :: "Deps \<Rightarrow> Profile \<Rightarrow> Profile \<Rightarrow> 'c ReviewConfig_scheme \<Rightarrow> 'c ReviewConfig_scheme \<Rightarrow> undo_error + Profile \<times> 'c ReviewConfig_scheme" where
  "undoAll dp base desired baseCfg desiredCfg =
    (case undoReported dp base desired baseCfg desiredCfg (\<lambda>_. True) of
       (p, c, touched) \<Rightarrow> if touched then Inr (p, c) else Inl NothingPending)"

definition undoSubsystem :: "Deps \<Rightarrow> Profile \<Rightarrow> Profile \<Rightarrow> 'c ReviewConfig_scheme \<Rightarrow> 'c ReviewConfig_scheme \<Rightarrow> string \<Rightarrow> undo_error + Profile \<times> 'c ReviewConfig_scheme" where
  "undoSubsystem dp base desired baseCfg desiredCfg sub =
    (if sub = '''' then Inl SubsystemRequired
     else case undoReported dp base desired baseCfg desiredCfg (\<lambda>ch. chSubsystem ch = sub) of
            (p, c, touched) \<Rightarrow> if touched then Inr (p, c) else Inl (NothingInSubsystem sub))"

definition Undo :: "Deps \<Rightarrow> Profile \<Rightarrow> Profile \<Rightarrow> 'c ReviewConfig_scheme \<Rightarrow> 'c ReviewConfig_scheme \<Rightarrow> UndoRequest \<Rightarrow> undo_error + Profile \<times> 'c ReviewConfig_scheme" where
  "Undo dp base desired baseCfg desiredCfg rq =
    (case rqScope rq of
       ScopeAll \<Rightarrow> undoAll dp base desired baseCfg desiredCfg
     | ScopeSubsystem \<Rightarrow> undoSubsystem dp base desired baseCfg desiredCfg (rqSubsystem rq)
     | ScopeObject \<Rightarrow>
         if rqID rq = '''' then Inl ObjectIDRequired
         else (case undoObject dp rankSlot base desired baseCfg desiredCfg (rqObjectType rq) (rqID rq) of
                 None \<Rightarrow> Inl (NoObjectChange (rqID rq))
               | Some r \<Rightarrow> Inr r)
     | ScopeField \<Rightarrow>
         if rqID rq = '''' \<or> rqField rq = '''' then Inl FieldRequired
         else (case undoField dp base desired baseCfg desiredCfg (rqObjectType rq) (rqID rq) (rqField rq) of
                 None \<Rightarrow> Inl (NoFieldChange (rqField rq) (rqID rq))
               | Some r \<Rightarrow> Inr r)
     | ScopeOther s \<Rightarrow> Inl (UnknownScope s))"

section \<open>The state shown to the operator\<close>

datatype LifecycleState = StateDraft | StateSavedNotApplied | StateLiveNotCommitted | StateCommitted | StateExternalDrift | StateUnverified
  | StateNothingConfigured

record Lifecycle =
  lcState :: LifecycleState
  lcLabel :: string
  lcDetail :: string
  lcActions :: "string list"
  lcAttention :: bool

record LifecycleInputs =
  liPendingChanges :: int
  liFailSafeArmed :: bool
  liEffective :: string
  liEffectiveReason :: string
  liNothingConfigured :: bool

definition reasonOr :: "string \<Rightarrow> string \<Rightarrow> string" where
  "reasonOr reason fallback = (if reason = '''' then fallback else reason)"

definition dash :: string where "dash = [CHR '' '', CHR 0xE2, CHR 0x80, CHR 0x94, CHR '' '']"

definition Describe :: "LifecycleInputs \<Rightarrow> Lifecycle" where
  "Describe li =
    (if liFailSafeArmed li then
       \<lparr>lcState = StateLiveNotCommitted, lcLabel = ''Live'' @ dash @ ''not saved permanently'',
        lcDetail = ''These changes are running now but will roll back automatically unless you confirm them.'',
        lcActions = [''apply_permanently'', ''rollback_now'', ''review_changes''], lcAttention = True\<rparr>
     else if liEffective li = ''drift'' then
       \<lparr>lcState = StateExternalDrift, lcLabel = ''Router changed outside WayHop'',
        lcDetail = reasonOr (liEffectiveReason li) ''The router's live configuration no longer matches what WayHop applied.'',
        lcActions = [''review_changes'', ''reapply'', ''accept_router_state'', ''run_diagnostics''], lcAttention = True\<rparr>
     else if liNothingConfigured li then
       \<lparr>lcState = StateNothingConfigured, lcLabel = ''No changes'', lcDetail = ''Nothing is configured yet. Add a connection to get started.'',
        lcActions = [''review_changes''], lcAttention = False\<rparr>
     else if liEffective li = ''unknown'' then
       \<lparr>lcState = StateUnverified, lcLabel = ''Not verified'',
        lcDetail = reasonOr (liEffectiveReason li) ''WayHop cannot confirm what the router is actually running.'',
        lcActions = [''run_diagnostics'', ''review_changes''], lcAttention = True\<rparr>
     else if liPendingChanges li > 0 then
       \<lparr>lcState = StateSavedNotApplied, lcLabel = ''Saved'' @ dash @ ''not applied yet'',
        lcDetail = ''Your changes are stored but the router is still running the previous configuration.'',
        lcActions = [''review_changes'', ''test_changes'', ''apply_permanently'', ''discard_all''], lcAttention = False\<rparr>
     else
       \<lparr>lcState = StateCommitted, lcLabel = ''Applied and confirmed'', lcDetail = ''The router is verified to be running this configuration.'',
        lcActions = [''review_changes''], lcAttention = False\<rparr>)"

end
