(* ===== verification/Change_Slots.thy ===== *)
theory Change_Slots
  imports Change_Undo
begin

text \<open>
  The two ways a list finds its place again. \<open>rankSlot\<close> puts it behind exactly as many shared lists as the
  baseline had there; \<open>restoreIndex\<close> puts it where the fewest shared lists are on the wrong side.
\<close>

section \<open>Taking an id out of a list\<close>

definition position :: "id list \<Rightarrow> id \<Rightarrow> nat" where
  "position ids i = length (takeWhile (\<lambda>x. x \<noteq> i) ids)"

lemma split_out_snoc: "split_out (xs @ [x]) i = (case split_out xs i of (rest, cur) \<Rightarrow> if x = i then (rest, Some (length rest)) else (rest @ [x], cur))"
  by (simp add: split_out_def split: prod.split)

lemma split_out_eq:
  "distinct ids \<Longrightarrow> split_out ids i = (filter (\<lambda>x. x \<noteq> i) ids, if i \<in> set ids then Some (position ids i) else None)"
proof (induction ids rule: rev_induct)
  case Nil
  then show ?case by (simp add: split_out_def)
next
  case (snoc x xs)
  have all: "filter (\<lambda>y. y \<noteq> i) xs = xs \<and> takeWhile (\<lambda>y. y \<noteq> i) xs = xs" if "i \<notin> set xs"
    using that by (metis (mono_tags, lifting) filter_True takeWhile_eq_all_conv)
  show ?case using snoc all by (auto simp: split_out_snoc position_def takeWhile_append)
qed

lemma cut_at: "i \<in> set ids \<Longrightarrow> \<exists>ys zs. ids = ys @ i # zs \<and> i \<notin> set ys \<and> length ys = position ids i"
proof -
  assume a: "i \<in> set ids"
  have "ids = takeWhile (\<lambda>x. x \<noteq> i) ids @ dropWhile (\<lambda>x. x \<noteq> i) ids" by simp
  moreover have "dropWhile (\<lambda>x. x \<noteq> i) ids \<noteq> []" using a by (simp add: dropWhile_eq_Nil_conv)
  moreover have "hd (dropWhile (\<lambda>x. x \<noteq> i) ids) = i" using calculation(2) hd_dropWhile by blast
  ultimately have "ids = takeWhile (\<lambda>x. x \<noteq> i) ids @ i # tl (dropWhile (\<lambda>x. x \<noteq> i) ids)" by (metis list.collapse)
  moreover have "i \<notin> set (takeWhile (\<lambda>x. x \<noteq> i) ids)" by (auto dest: set_takeWhileD)
  ultimately show ?thesis unfolding position_def by blast
qed

lemma position_cut [simp]: "i \<notin> set ys \<Longrightarrow> position (ys @ i # zs) i = length ys"
  by (simp add: position_def takeWhile_append)

lemma filter_out [simp]: "i \<notin> set ys \<Longrightarrow> filter (\<lambda>x. x \<noteq> i) ys = ys"
  by (induction ys) auto

lemma filter_cut [simp]: "i \<notin> set ys \<Longrightarrow> i \<notin> set zs \<Longrightarrow> filter (\<lambda>x. x \<noteq> i) (ys @ i # zs) = ys @ zs"
  by simp

lemma takeWhile_cut: "i \<notin> set ys \<Longrightarrow> takeWhile (\<lambda>x. x \<noteq> i) (ys @ i # zs) = ys"
  by (induction ys) auto

lemma insertAt_le: "n \<le> length xs \<Longrightarrow> insertAt xs x n = take n xs @ x # drop n xs"
  by (simp add: insertAt_def)

section \<open>rankSlot\<close>

definition shared :: "id set \<Rightarrow> id list \<Rightarrow> nat" where
  "shared B xs = length (filter (\<lambda>x. x \<in> B) xs)"

lemma shared_simps [simp]: "shared B [] = 0" "shared B (x # xs) = (if x \<in> B then Suc (shared B xs) else shared B xs)"
  "shared B (xs @ ys) = shared B xs + shared B ys"
  by (simp_all add: shared_def)

lemma slot_range_spec:
  assumes "slot_range B k m sh (lo, m + length xs) xs = (lo', hi')" "sh \<le> k" "k \<le> sh + shared B xs" "sh = k \<Longrightarrow> lo \<le> m"
  shows "(\<forall>n\<le>length xs. lo' \<le> m + n \<and> m + n \<le> hi' \<longleftrightarrow> sh + shared B (take n xs) = k)
     \<and> (sh < k \<longrightarrow> m < lo') \<and> (sh = k \<longrightarrow> lo' = lo \<and> m \<le> hi') \<and> lo' \<le> hi' \<and> hi' \<le> m + length xs"
  using assms
proof (induction xs arbitrary: m sh lo)
  case Nil
  then show ?case by auto
next
  case (Cons x xs)
  show ?case
  proof (cases "x \<in> B \<and> sh = k")
    case True
    then have r: "lo' = lo" "hi' = m" using Cons.prems(1) by auto
    have "lo' \<le> m + n \<and> m + n \<le> hi' \<longleftrightarrow> sh + shared B (take n (x # xs)) = k" for n
      using True r Cons.prems(4) by (cases n) auto
    then show ?thesis using True r Cons.prems(4) by auto
  next
    case False
    let ?sh = "if x \<in> B then sh + 1 else sh" and ?lo = "if x \<in> B \<and> sh + 1 = k then m + 1 else lo"
    have eq: "slot_range B k (m + 1) ?sh (?lo, (m + 1) + length xs) xs = (lo', hi')"
      using Cons.prems(1) False by (auto split: if_splits)
    have IH: "(\<forall>n\<le>length xs. lo' \<le> (m + 1) + n \<and> (m + 1) + n \<le> hi' \<longleftrightarrow> ?sh + shared B (take n xs) = k)
     \<and> (?sh < k \<longrightarrow> m + 1 < lo') \<and> (?sh = k \<longrightarrow> lo' = ?lo \<and> m + 1 \<le> hi') \<and> lo' \<le> hi' \<and> hi' \<le> (m + 1) + length xs"
      by (rule Cons.IH[OF eq]) (use Cons.prems False in \<open>auto split: if_splits\<close>)
    have z: "lo' \<le> m \<and> m \<le> hi' \<longleftrightarrow> sh = k"
      using IH Cons.prems(2,4) False by (auto split: if_splits)
    have "lo' \<le> m + n \<and> m + n \<le> hi' \<longleftrightarrow> sh + shared B (take n (x # xs)) = k" if "n \<le> length (x # xs)" for n
    proof (cases n)
      case 0
      then show ?thesis using z by simp
    next
      case (Suc j)
      then show ?thesis using IH that by auto
    qed
    moreover have "sh < k \<longrightarrow> m < lo'" using IH False by (auto split: if_splits)
    moreover have "sh = k \<longrightarrow> lo' = lo \<and> m \<le> hi'" using IH False by (auto split: if_splits)
    ultimately show ?thesis using IH by auto
  qed
qed

text \<open>The rank of an id among those that another list holds too.\<close>

definition rank_in :: "id list \<Rightarrow> id list \<Rightarrow> id \<Rightarrow> nat" where
  "rank_in ids other i = shared (set other) (takeWhile (\<lambda>x. x \<noteq> i) ids)"

lemma shared_take_le: "shared B (take n xs) \<le> shared B xs"
  by (metis append_take_drop_id le_add1 shared_simps(3))

lemma shared_card: "distinct xs \<Longrightarrow> shared B xs = card (set xs \<inter> B)"
  by (induction xs) auto

lemma rank_bound:
  assumes "distinct bs" "distinct ds" "i \<in> set bs"
  shows "rank_in bs ds i \<le> shared (set bs) (filter (\<lambda>x. x \<noteq> i) ds)"
proof -
  obtain ys zs where b: "bs = ys @ i # zs" "i \<notin> set ys" using cut_at[OF assms(3)] by blast
  have "rank_in bs ds i = card (set ys \<inter> set ds)"
    using b assms(1) by (simp add: rank_in_def takeWhile_append shared_card)
  also have "\<dots> \<le> card (set bs \<inter> set (filter (\<lambda>x. x \<noteq> i) ds))" using b by (intro card_mono) auto
  also have "\<dots> = shared (set bs) (filter (\<lambda>x. x \<noteq> i) ds)"
    using assms(2) by (simp add: shared_card Int_commute)
  finally show ?thesis .
qed

lemma rankSlot_spec:
  assumes "distinct bs" "distinct ds" "i \<in> set bs"
  defines "rest \<equiv> filter (\<lambda>x. x \<noteq> i) ds"
  shows "rankSlot bs ds i \<le> length rest" "shared (set bs) (take (rankSlot bs ds i) rest) = rank_in bs ds i"
    and "i \<in> set ds \<Longrightarrow> rankSlot bs ds i = position ds i \<longleftrightarrow> rank_in ds bs i = rank_in bs ds i"
proof -
  let ?k = "rank_in bs ds i"
  obtain lo hi where lh: "slot_range (set bs) ?k 0 0 (0, length rest) rest = (lo, hi)" by fastforce
  have spec: "\<forall>n\<le>length rest. lo \<le> n \<and> n \<le> hi \<longleftrightarrow> shared (set bs) (take n rest) = ?k" "lo \<le> hi" "hi \<le> length rest"
    using slot_range_spec[of "set bs" ?k 0 0 0 rest lo hi] lh rank_bound[OF assms(1,2,3)] by (auto simp: rest_def)
  have r: "rankSlot bs ds i = (if i \<in> set ds then (let c = position ds i in if c < lo then lo else if c > hi then hi else c) else lo)"
    using lh assms(3) split_out_eq[OF assms(2), of i]
    by (simp add: rankSlot_def rest_def rank_in_def shared_def Let_def)
  have in_range: "lo \<le> rankSlot bs ds i" "rankSlot bs ds i \<le> hi" using r spec(2) by (auto simp: Let_def)
  then show le: "rankSlot bs ds i \<le> length rest" using spec(3) by simp
  show "shared (set bs) (take (rankSlot bs ds i) rest) = ?k" using spec(1) le in_range by blast
  assume i: "i \<in> set ds"
  obtain ys zs where d: "ds = ys @ i # zs" "i \<notin> set ys" using cut_at[OF i] by blast
  have rest: "rest = ys @ zs" using d assms(2) unfolding rest_def by (simp add: filter_id_conv)
  have c: "position ds i = length ys" "rank_in ds bs i = shared (set bs) (take (length ys) rest)"
    using d rest by (simp_all add: rank_in_def takeWhile_append)
  have "lo \<le> length ys \<and> length ys \<le> hi \<longleftrightarrow> rank_in ds bs i = ?k" using spec(1) rest c(2) by auto
  moreover have "rankSlot bs ds i = position ds i \<longleftrightarrow> lo \<le> length ys \<and> length ys \<le> hi"
    using r i c(1) in_range by (auto simp: Let_def)
  ultimately show "rankSlot bs ds i = position ds i \<longleftrightarrow> rank_in ds bs i = ?k" by simp
qed

text \<open>A list placed by \<open>rankSlot\<close> has its baseline rank.\<close>

lemma rankSlot_rank:
  assumes "distinct bs" "distinct ds" "i \<in> set bs" "i \<in> set ds"
  defines "ds' \<equiv> insertAt (filter (\<lambda>x. x \<noteq> i) ds) i (rankSlot bs ds i)"
  shows "rank_in ds' bs i = rank_in bs ds' i" "filter (\<lambda>x. x \<noteq> i) ds' = filter (\<lambda>x. x \<noteq> i) ds" "set ds' = set ds" "distinct ds'"
proof -
  let ?r = "filter (\<lambda>x. x \<noteq> i) ds" and ?n = "rankSlot bs ds i"
  note s = rankSlot_spec[OF assms(1,2,3)]
  have e: "ds' = take ?n ?r @ i # drop ?n ?r" unfolding ds'_def by (rule insertAt_le[OF s(1)])
  have ni: "i \<notin> set (take ?n ?r)" "i \<notin> set (drop ?n ?r)" using set_take_subset[of ?n ?r] set_drop_subset[of ?n ?r] by auto
  have "set (take ?n ?r) \<union> set (drop ?n ?r) = set ?r" by (metis append_take_drop_id set_append)
  then show st: "set ds' = set ds" using e assms(4) by auto
  show "filter (\<lambda>x. x \<noteq> i) ds' = ?r" unfolding e filter_cut[OF ni] by simp
  have "set (take ?n ?r) \<inter> set (drop ?n ?r) = {}" by (rule set_take_disj_set_drop_if_distinct) (simp_all add: assms(2))
  moreover have "distinct (take ?n ?r)" "distinct (drop ?n ?r)" by (simp_all add: assms(2))
  ultimately show "distinct ds'" unfolding e distinct_append distinct.simps list.set(2) using ni by blast
  have "rank_in ds' bs i = shared (set bs) (take ?n ?r)" unfolding e rank_in_def takeWhile_cut[OF ni(1)] ..
  then show "rank_in ds' bs i = rank_in bs ds' i" using s(2) st by (simp add: rank_in_def)
qed

section \<open>restoreIndex\<close>

text \<open>How many shared objects are on the wrong side of a slot.\<close>

definition rank_of :: "id list \<Rightarrow> id \<Rightarrow> nat option" where
  "rank_of bs = map_of (rev (zip bs [0..<length bs]))"

definition before_in :: "id list \<Rightarrow> id \<Rightarrow> id \<Rightarrow> bool" where
  "before_in bs x y \<longleftrightarrow> (\<exists>r q. rank_of bs x = Some r \<and> rank_of bs y = Some q \<and> r < q)"

definition misplaced :: "id list \<Rightarrow> id list \<Rightarrow> id \<Rightarrow> nat \<Rightarrow> nat" where
  "misplaced bs rest i n = length (filter (\<lambda>x. before_in bs i x) (take n rest)) + length (filter (\<lambda>x. before_in bs x i) (drop n rest))"

lemma rank_of_None: "rank_of bs x = None \<longleftrightarrow> x \<notin> set bs"
  unfolding rank_of_def map_of_eq_None_iff set_rev by (simp flip: set_map)

lemma rank_of_nth: "distinct bs \<Longrightarrow> rank_of bs x = Some r \<longleftrightarrow> r < length bs \<and> bs ! r = x"
  unfolding rank_of_def by (subst map_of_eq_Some_iff) (auto simp: in_set_zip rev_map[symmetric])

lemma rank_inj: "distinct bs \<Longrightarrow> rank_of bs x = Some r \<Longrightarrow> rank_of bs y = Some r \<Longrightarrow> x = y"
  by (simp add: rank_of_nth)


lemma misplaced_step:
  assumes "distinct bs" "rank_of bs i = Some own" "m < length rest" "rest ! m \<noteq> i"
  shows "int (misplaced bs rest i (Suc m)) =
    (case rank_of bs (rest ! m) of None \<Rightarrow> int (misplaced bs rest i m)
     | Some r \<Rightarrow> if r < own then int (misplaced bs rest i m) - 1 else int (misplaced bs rest i m) + 1)"
proof -
  have t: "take (Suc m) rest = take m rest @ [rest ! m]" "drop m rest = rest ! m # drop (Suc m) rest"
    using assms(3) by (simp_all add: take_Suc_conv_app_nth Cons_nth_drop_Suc)
  have "r \<noteq> own" if "rank_of bs (rest ! m) = Some r" for r using rank_inj[OF assms(1) that, of i] assms(2,4) by blast
  then show ?thesis using assms(2) by (auto simp: misplaced_def t before_in_def split: option.split)
qed

text \<open>The state of the loop after the slots up to \<open>m\<close>.\<close>

definition slid :: "id list \<Rightarrow> id list \<Rightarrow> id \<Rightarrow> nat option \<Rightarrow> nat \<Rightarrow> Slide \<Rightarrow> bool" where
  "slid bs rest i cur m st \<longleftrightarrow> slMisplaced st = int (misplaced bs rest i m) \<and> slBestAt st \<le> m
     \<and> slBest st = int (misplaced bs rest i (slBestAt st)) \<and> (\<forall>n\<le>m. slBest st \<le> int (misplaced bs rest i n))
     \<and> (\<forall>c. cur = Some c \<and> c \<le> m \<longrightarrow> slAtCur st = int (misplaced bs rest i c))"

lemma slid_step:
  assumes "slid bs rest i cur m st" "distinct bs" "rank_of bs i = Some own" "m < length rest" "rest ! m \<noteq> i"
  shows "slid bs rest i cur (Suc m) (slide (rank_of bs) own cur st (m, rest ! m))"
proof -
  define F where "F n = int (misplaced bs rest i n)" for n
  let ?m = "F (Suc m)"
  have s: "slMisplaced st = F m" "slBestAt st \<le> m" "slBest st = F (slBestAt st)" "\<forall>n\<le>m. slBest st \<le> F n"
    "\<forall>c. cur = Some c \<and> c \<le> m \<longrightarrow> slAtCur st = F c" using assms(1) unfolding slid_def F_def by blast+
  have "slide (rank_of bs) own cur st (m, rest ! m) = \<lparr>slMisplaced = ?m, slBest = (if ?m < slBest st then ?m else slBest st),
      slBestAt = (if ?m < slBest st then m + 1 else slBestAt st), slAtCur = (if cur = Some (m + 1) then ?m else slAtCur st)\<rparr>"
    using misplaced_step[OF assms(2-5)] s(1) by (simp add: slide_def F_def Let_def split: option.split)
  then show ?thesis using s unfolding slid_def F_def[symmetric] by (auto simp: le_Suc_eq less_le)
qed

lemma slide_loop:
  assumes "distinct bs" "rank_of bs i = Some own" "i \<notin> set rest" "m \<le> length rest"
  defines "st0 cur \<equiv> \<lparr>slMisplaced = int (misplaced bs rest i 0), slBest = int (misplaced bs rest i 0), slBestAt = 0,
     slAtCur = (if cur = Some 0 then int (misplaced bs rest i 0) else - 1)\<rparr>"
  shows "slid bs rest i cur m (foldl (slide (rank_of bs) own cur) (st0 cur) (zip [0..<m] (take m rest)))"
  using assms(4)
proof (induction m)
  case 0
  then show ?case by (simp add: slid_def st0_def)
next
  case (Suc m)
  then have "take (Suc m) rest = take m rest @ [rest ! m]" "rest ! m \<noteq> i"
    using assms(3) by (auto simp: take_Suc_conv_app_nth)
  then show ?case using Suc slid_step[OF _ assms(1,2)] by (simp add: zip_append1)
qed

lemma restoreIndex_spec:
  assumes "distinct bs" "distinct ds" "i \<in> set bs"
  defines "rest \<equiv> filter (\<lambda>x. x \<noteq> i) ds"
  shows "restoreIndex bs ds i \<le> length rest"
    and "\<forall>n\<le>length rest. misplaced bs rest i (restoreIndex bs ds i) \<le> misplaced bs rest i n"
    and "i \<in> set ds \<Longrightarrow> restoreIndex bs ds i \<noteq> position ds i \<Longrightarrow>
       misplaced bs rest i (restoreIndex bs ds i) < misplaced bs rest i (position ds i)"
proof -
  obtain own where own: "rank_of bs i = Some own" using assms(3) rank_of_None[of bs i] by (cases "rank_of bs i") auto
  let ?cur = "if i \<in> set ds then Some (position ds i) else None"
  let ?m0 = "int (misplaced bs rest i 0)"
  let ?st = "foldl (slide (rank_of bs) own ?cur) \<lparr>slMisplaced = ?m0, slBest = ?m0, slBestAt = 0, slAtCur = (if ?cur = Some 0 then ?m0 else - 1)\<rparr>
    (zip [0..<length rest] rest)"
  have ni: "i \<notin> set rest" by (simp add: rest_def)
  have st: "slid bs rest i ?cur (length rest) ?st"
    using slide_loop[OF assms(1) own ni order_refl, of ?cur] by (simp only: take_all order_refl)
  have m0: "?m0 = int (length (filter (\<lambda>x. case rank_of bs x of None \<Rightarrow> False | Some r \<Rightarrow> r < own) rest))"
  proof -
    have "before_in bs x i = (case rank_of bs x of None \<Rightarrow> False | Some r \<Rightarrow> r < own)" for x
      using own by (auto simp: before_in_def split: option.split)
    then show ?thesis by (simp add: misplaced_def)
  qed
  have r: "restoreIndex bs ds i = (case ?cur of Some c \<Rightarrow> if slAtCur ?st = slBest ?st then c else slBestAt ?st | None \<Rightarrow> slBestAt ?st)"
    using own split_out_eq[OF assms(2), of i] m0
    by (simp add: restoreIndex_def rank_of_def[symmetric] rest_def[symmetric] Let_def)
  have pos: "position ds i \<le> length rest" if "i \<in> set ds"
    using cut_at[OF that] assms(2) by (auto simp: rest_def)
  have best: "\<forall>n\<le>length rest. slBest ?st \<le> int (misplaced bs rest i n)" "slBest ?st = int (misplaced bs rest i (slBestAt ?st))" "slBestAt ?st \<le> length rest"
    using st unfolding slid_def by blast+
  have cur: "slAtCur ?st = int (misplaced bs rest i (position ds i))" if "i \<in> set ds"
    using st that pos[OF that] unfolding slid_def by presburger
  show "restoreIndex bs ds i \<le> length rest" using r pos best(3) by (auto split: if_splits)
  have val: "int (misplaced bs rest i (restoreIndex bs ds i)) = slBest ?st"
    using r best(2) cur by (auto split: if_splits)
  show "\<forall>n\<le>length rest. misplaced bs rest i (restoreIndex bs ds i) \<le> misplaced bs rest i n" using val best(1) by (metis of_nat_le_iff)
  assume i: "i \<in> set ds" and ne: "restoreIndex bs ds i \<noteq> position ds i"
  then have "slAtCur ?st \<noteq> slBest ?st" using r by (auto split: if_splits)
  then have "slBest ?st < slAtCur ?st" using best(1) cur[OF i] pos[OF i] by (metis order_le_less)
  then show "misplaced bs rest i (restoreIndex bs ds i) < misplaced bs rest i (position ds i)" using val cur[OF i] by linarith
qed

end
