(* ===== verification/Change_Position.thy ===== *)
theory Change_Position
  imports Change_Slots "HOL-Library.Multiset"
begin

text \<open>
  Rows and the objects behind them: what the maps of the review hold, where an object stands, and the row for
  a moved routing list, which its own undo always clears.
\<close>

section \<open>Objects by id\<close>

lemma by_id_None: "by_id key xs i = None \<longleftrightarrow> i \<notin> key ` set xs"
  unfolding by_id_def map_of_eq_None_iff set_rev by (force simp: image_iff)

lemma by_id_Some: "distinct (map key xs) \<Longrightarrow> by_id key xs i = Some x \<longleftrightarrow> x \<in> set xs \<and> key x = i"
  unfolding by_id_def by (subst map_of_eq_Some_iff) (auto simp: rev_map[symmetric] comp_def)

lemma by_id_self: "distinct (map key xs) \<Longrightarrow> x \<in> set xs \<Longrightarrow> by_id key xs (key x) = Some x"
  by (simp add: by_id_Some)

lemma indexByID_eq: "indexByID key xs i = (if i \<in> key ` set xs then Some (position (map key xs) i) else None)"
  by (induction xs) (auto simp: position_def)

lemma position_nth:
  assumes "i \<in> key ` set xs"
  shows "position (map key xs) i < length xs" "key (xs ! position (map key xs) i) = i" "xs ! position (map key xs) i \<in> set xs"
proof -
  have "i \<in> set (map key xs)" using assms by simp
  from cut_at[OF this] obtain ys zs where c: "map key xs = ys @ i # zs" "length ys = position (map key xs) i" by metis
  then have l: "position (map key xs) i < length (map key xs)" by (metis length_append less_add_same_cancel1 length_Cons zero_less_Suc)
  then show "position (map key xs) i < length xs" "xs ! position (map key xs) i \<in> set xs" by simp_all
  have "map key xs ! position (map key xs) i = i" using c by (metis nth_append_length)
  then show "key (xs ! position (map key xs) i) = i" using l by simp
qed

lemma at_position: "distinct (map key xs) \<Longrightarrow> x \<in> set xs \<Longrightarrow> xs ! position (map key xs) (key x) = x"
  using position_nth[of "key x" key xs] by (metis (no_types, lifting) distinct_map imageI inj_onD)

lemma cut_out:
  assumes "distinct (map key xs)" "i \<in> key ` set xs"
  shows "take (position (map key xs) i) xs @ drop (position (map key xs) i + 1) xs = filter (\<lambda>x. key x \<noteq> i) xs"
  using assms
proof (induction xs)
  case (Cons x xs)
  show ?case
  proof (cases "key x = i")
    case True
    then have "filter (\<lambda>x. key x \<noteq> i) xs = xs" using Cons.prems(1) by (auto simp: filter_id_conv image_iff)
    then show ?thesis using True by (simp add: position_def)
  next
    case False
    then show ?thesis using Cons by (simp add: position_def)
  qed
qed simp

lemma map_insertAt: "map f (insertAt xs x n) = insertAt (map f xs) (f x) n"
  by (simp add: insertAt_def take_map drop_map Let_def)

lemma set_insertAt: "set (insertAt xs x n) = insert x (set xs)"
proof -
  have "set (take m xs) \<union> set (drop m xs) = set xs" for m by (metis append_take_drop_id set_append)
  then show ?thesis by (auto simp: insertAt_def Let_def)
qed

lemma filter_insertAt: "\<not> P x \<Longrightarrow> filter P (insertAt xs x n) = filter P xs"
proof -
  assume "\<not> P x"
  then have "filter P (take m xs @ [x] @ drop m xs) = filter P (take m xs @ drop m xs)" for m by (simp del: append_take_drop_id)
  then show ?thesis by (simp add: insertAt_def Let_def)
qed

lemma mset_insertAt: "mset (insertAt xs x n) = add_mset x (mset xs)"
proof -
  have "mset (take m xs) + mset (drop m xs) = mset xs" for m by (metis append_take_drop_id mset_append)
  then show ?thesis by (simp add: insertAt_def Let_def)
qed

lemma filter_map_key: "filter (\<lambda>i. i \<noteq> j) (map key xs) = map key (filter (\<lambda>x. key x \<noteq> j) xs)"
  by (simp add: filter_map comp_def)

lemma distinct_insertAt: "distinct (insertAt xs x n) \<longleftrightarrow> distinct xs \<and> x \<notin> set xs"
  by (metis mset_insertAt distinct.simps(2) mset.simps(2) mset_eq_imp_distinct_iff)

section \<open>Rows\<close>

lemma change_sel [simp]:
  "chID (change i t n a s m) = i" "chType (change i t n a s m) = t" "chField (change i t n a s m) = ''''" "chAction (change i t n a s m) = a"
  "chSubsystem (change i t n a s m) = s" "chName (change i t n a s m) = n"
  by (simp_all add: change_def)

lemma field_sel [simp]:
  "chID (field c f x y) = chID c" "chType (field c f x y) = chType c" "chField (field c f x y) = f" "chSubsystem (field c f x y) = chSubsystem c"
  "chName (field c f x y) = chName c" "chAction (field c f x y) = chAction c"
  by (simp_all add: field_def)

lemma row_sel [simp]:
  "chID (list_row d f x y) = rlID d" "chType (list_row d f x y) = ''routing_list''" "chField (list_row d f x y) = f"
  "chID (feed_row d f x y) = rlID d" "chType (feed_row d f x y) = ''routing_list''" "chField (feed_row d f x y) = f"
  "chID (position_row d m n) = rlID d" "chType (position_row d m n) = ''routing_list''" "chField (position_row d m n) = ''Position''"
  "chID (group_row g f x y) = grID g" "chType (group_row g f x y) = ''group''" "chField (group_row g f x y) = f"
  "chID (dns_row f x y) = ''dns''" "chType (dns_row f x y) = ''dns''" "chField (dns_row f x y) = f"
  "chID (setting_row f x y s im b) = ''settings''" "chType (setting_row f x y s im b) = ''setting''" "chField (setting_row f x y s im b) = f"
  "chSubsystem (list_row d f x y) = SubRouting" "chSubsystem (feed_row d f x y) = SubRouting" "chSubsystem (position_row d m n) = SubRouting"
  by (simp_all add: list_row_def feed_row_def position_row_def list_change_def group_row_def dns_row_def setting_row_def)

lemma endpoint_row_sel [simp]:
  "chID (endpoint_row d f x y s) = epID d" "chType (endpoint_row d f x y s) = ''endpoint''" "chField (endpoint_row d f x y s) = f"
  by (simp_all add: endpoint_row_def Let_def)

lemma set_only_if [simp]: "set (only_if b c) = (if b then {c} else {})"
  by (simp add: only_if_def)

lemma ball_only_if: "(\<forall>x\<in>set (only_if b c). P x) \<longleftrightarrow> (b \<longrightarrow> P c)"
  by simp

lemma only_if_Nil [simp]: "only_if b c = [] \<longleftrightarrow> \<not> b"
  by (simp add: only_if_def)

lemma set_diff_objects:
  "c \<in> set (diff_objects key added changed removed base desired) \<longleftrightarrow>
     (\<exists>d\<in>set desired. by_id key base (key d) = None \<and> c = added d)
     \<or> (\<exists>d\<in>set desired. \<exists>b. by_id key base (key d) = Some b \<and> c \<in> set (changed b d))
     \<or> (\<exists>b\<in>set base. key b \<notin> key ` set desired \<and> c = removed b)"
proof -
  have "c \<in> set (case by_id key base (key d) of None \<Rightarrow> [added d] | Some b \<Rightarrow> changed b d) \<longleftrightarrow>
      by_id key base (key d) = None \<and> c = added d \<or> (\<exists>b. by_id key base (key d) = Some b \<and> c \<in> set (changed b d))" for d
    by (cases "by_id key base (key d)") auto
  then show ?thesis by (simp add: diff_objects_def) blast
qed

section \<open>The rank of a list\<close>

lemma takeWhile_filter: "P i \<Longrightarrow> takeWhile (\<lambda>x. x \<noteq> i) (filter P xs) = filter P (takeWhile (\<lambda>x. x \<noteq> i) xs)"
  by (induction xs) auto

lemma rank_of_position: "distinct ids \<Longrightarrow> i \<in> set ids \<Longrightarrow> rank_of ids i = Some (position ids i)"
  using position_nth[of i "\<lambda>x. x" ids] by (simp add: rank_of_nth)

lemma relativeOrder_eq:
  assumes "distinct (map rlID ss)"
  shows "relativeOrder ss other i =
    (if i \<in> rlID ` set ss \<and> i \<in> rlID ` set other then Some (rank_in (map rlID ss) (map rlID other) i) else None)"
proof -
  let ?ids = "filter (\<lambda>i. i \<in> rlID ` set other) (map rlID ss)"
  have r: "relativeOrder ss other = rank_of ?ids" by (simp add: relativeOrder_def rank_of_def)
  show ?thesis
  proof (cases "i \<in> set ?ids")
    case True
    then have "position ?ids i = rank_in (map rlID ss) (map rlID other) i"
      by (simp add: position_def rank_in_def shared_def takeWhile_filter)
    then show ?thesis using True assms rank_of_position[of ?ids i] unfolding r by simp
  next
    case False
    then show ?thesis using rank_of_None[of ?ids i] unfolding r by auto
  qed
qed

definition moved :: "RoutingList list \<Rightarrow> RoutingList list \<Rightarrow> id \<Rightarrow> bool" where
  "moved base desired i \<longleftrightarrow> i \<in> rlID ` set base \<and> i \<in> rlID ` set desired
     \<and> rank_in (map rlID base) (map rlID desired) i \<noteq> rank_in (map rlID desired) (map rlID base) i"

lemma position_rows_eq:
  assumes "distinct (map rlID base)" "distinct (map rlID desired)" "d \<in> set desired"
  shows "position_rows (relativeOrder base desired) (relativeOrder desired base) d =
    only_if (moved base desired (rlID d)) (position_row d (rank_in (map rlID base) (map rlID desired) (rlID d)) (rank_in (map rlID desired) (map rlID base) (rlID d)))"
proof (cases "rlID d \<in> rlID ` set base")
  case True
  then show ?thesis using assms(3)
    by (simp add: position_rows_def relativeOrder_eq[OF assms(1)] relativeOrder_eq[OF assms(2)] moved_def Let_def)
next
  case False
  then show ?thesis by (simp add: position_rows_def relativeOrder_eq[OF assms(1)] moved_def only_if_def)
qed

lemma all_list_fields: "\<forall>c\<in>set (diffListFields b d). chField c \<noteq> ''Position'' \<and> chField c \<noteq> '''' \<and> chID c = rlID d \<and> chType c = ''routing_list''"
  by (simp add: diffListFields_def ball_Un ball_only_if del: set_only_if)

lemma list_field_names: "c \<in> set (diffListFields b d) \<Longrightarrow> chField c \<noteq> ''Position'' \<and> chField c \<noteq> '''' \<and> chID c = rlID d \<and> chType c = ''routing_list''"
  using all_list_fields by blast

lemma position_row_iff:
  assumes "distinct (map rlID base)" "distinct (map rlID desired)"
  shows "(\<exists>c\<in>set (diffRoutingLists base desired). chID c = i \<and> chField c = ''Position'') \<longleftrightarrow> moved base desired i"
proof
  assume "\<exists>c\<in>set (diffRoutingLists base desired). chID c = i \<and> chField c = ''Position''"
  then obtain c where c: "c \<in> set (diffRoutingLists base desired)" "chID c = i" "chField c = ''Position''" by blast
  then obtain d where d: "d \<in> set desired" "c \<in> set (position_rows (relativeOrder base desired) (relativeOrder desired base) d)"
    using list_field_names by (fastforce simp: diffRoutingLists_def set_diff_objects list_change_def)
  then show "moved base desired i" using c by (auto simp: position_rows_eq[OF assms] split: if_splits)
next
  assume m: "moved base desired i"
  then obtain d where d: "d \<in> set desired" "rlID d = i" by (auto simp: moved_def)
  obtain b where b: "by_id rlID base i = Some b" using m by_id_None[of rlID base i] by (cases "by_id rlID base i") (auto simp: moved_def)
  have "position_row d (rank_in (map rlID base) (map rlID desired) i) (rank_in (map rlID desired) (map rlID base) i)
      \<in> set (diffRoutingLists base desired)"
    unfolding diffRoutingLists_def set_diff_objects using d b m by (auto simp: position_rows_eq[OF assms])
  then show "\<exists>c\<in>set (diffRoutingLists base desired). chID c = i \<and> chField c = ''Position''" using d(2) by force
qed

end
