(* ===== verification/Change_Objects.thy ===== *)
theory Change_Objects
  imports Change_Position
begin

text \<open>
  Undoing one object: afterwards it is as in the baseline as far as the review can tell, and every other object
  of every kind is untouched.
\<close>

section \<open>One collection\<close>

text \<open>The review has nothing to say about an id: it is in neither state, or in both with no field row.\<close>

definition same_object :: "('a \<Rightarrow> 'a \<Rightarrow> bool) \<Rightarrow> 'a option \<Rightarrow> 'a option \<Rightarrow> bool" where
  "same_object eq b d \<longleftrightarrow> (case (b, d) of (None, None) \<Rightarrow> True | (Some b, Some d) \<Rightarrow> eq b d | _ \<Rightarrow> False)"

lemma same_object_simps [simp]:
  "same_object eq None d \<longleftrightarrow> d = None" "same_object eq b None \<longleftrightarrow> b = None" "same_object eq (Some x) (Some y) \<longleftrightarrow> eq x y"
  by (auto simp: same_object_def split: option.splits)

lemma by_id_cong:
  assumes "distinct (map key xs)" "distinct (map key ys)" "\<And>x. key x = i \<Longrightarrow> x \<in> set xs \<longleftrightarrow> x \<in> set ys"
  shows "by_id key xs i = by_id key ys i"
proof -
  have "by_id key xs i = Some x \<longleftrightarrow> by_id key ys i = Some x" for x unfolding by_id_Some[OF assms(1)] by_id_Some[OF assms(2)] using assms(3) by blast
  then show ?thesis by (metis option.exhaust)
qed

lemma filter_by_id:
  assumes "distinct (map key xs)" "distinct (map key ys)" "filter (\<lambda>x. key x \<noteq> i) xs = filter (\<lambda>x. key x \<noteq> i) ys" "j \<noteq> i"
  shows "by_id key xs j = by_id key ys j"
proof (rule by_id_cong[OF assms(1,2)])
  fix x assume "key x = j"
  then have "x \<in> set xs \<longleftrightarrow> x \<in> set (filter (\<lambda>x. key x \<noteq> i) xs)" "x \<in> set ys \<longleftrightarrow> x \<in> set (filter (\<lambda>x. key x \<noteq> i) ys)" using assms(4) by auto
  then show "x \<in> set xs \<longleftrightarrow> x \<in> set ys" by (simp only: assms(3))
qed

definition undone :: "('a \<Rightarrow> id) \<Rightarrow> 'a list \<Rightarrow> 'a list \<Rightarrow> id \<Rightarrow> 'a list \<Rightarrow> bool" where
  "undone key base desired i out \<longleftrightarrow> distinct (map key out) \<and> filter (\<lambda>x. key x \<noteq> i) out = filter (\<lambda>x. key x \<noteq> i) desired
     \<and> by_id key out i = by_id key base i"

lemma distinct_filter_key: "distinct (map key xs) \<Longrightarrow> distinct (map key (filter P xs))"
  by (simp add: distinct_map_filter)

lemma undone_insert:
  assumes "distinct (map key desired)" "distinct (map key base)" "b \<in> set base" "key b = i"
  shows "undone key base desired i (insertAt (filter (\<lambda>x. key x \<noteq> i) desired) b n)"
proof -
  let ?r = "filter (\<lambda>x. key x \<noteq> i) desired"
  have d: "distinct (map key (insertAt ?r b n))"
    using distinct_filter_key[OF assms(1)] assms(4) by (auto simp: map_insertAt distinct_insertAt)
  have "by_id key (insertAt ?r b n) i = Some b" unfolding by_id_Some[OF d] using assms(4) by (simp add: set_insertAt)
  moreover have "by_id key base i = Some b" unfolding by_id_Some[OF assms(2)] using assms(3,4) by simp
  ultimately show ?thesis using d assms(4) by (simp add: undone_def filter_insertAt)
qed

lemma undone_remove:
  assumes "distinct (map key desired)" "i \<notin> key ` set base"
  shows "undone key base desired i (filter (\<lambda>x. key x \<noteq> i) desired)"
proof -
  have "by_id key (filter (\<lambda>x. key x \<noteq> i) desired) i = None" "by_id key base i = None" unfolding by_id_None using assms(2) by auto
  then show ?thesis using distinct_filter_key[OF assms(1)] by (simp add: undone_def)
qed

lemma filter_key_id: "i \<notin> key ` set xs \<Longrightarrow> filter (\<lambda>x. key x \<noteq> i) xs = xs"
  by (auto simp: filter_id_conv image_iff)

definition in_place :: "(id list \<Rightarrow> id list \<Rightarrow> id \<Rightarrow> nat) option \<Rightarrow> id list \<Rightarrow> id list \<Rightarrow> id \<Rightarrow> bool" where
  "in_place slot bs ds i \<longleftrightarrow> (case slot of Some f \<Rightarrow> f bs ds i = position ds i | None \<Rightarrow> True)"

lemma undoOrdered_spec:
  assumes "distinct (map key base)" "distinct (map key desired)"
  shows "case undoOrdered key eq slot base desired i of
      Some out \<Rightarrow> undone key base desired i out
    | None \<Rightarrow> same_object eq (by_id key base i) (by_id key desired i)
        \<and> (i \<in> key ` set base \<and> i \<in> key ` set desired \<longrightarrow> in_place slot (map key base) (map key desired) i)"
proof (cases "i \<in> key ` set base")
  case False
  show ?thesis
  proof (cases "i \<in> key ` set desired")
    case True
    then show ?thesis using False undone_remove[OF assms(2) False] cut_out[OF assms(2) True]
      by (simp add: undoOrdered_def indexByID_eq del: set_map)
  next
    case no: False
    then show ?thesis using False by_id_None[of key base i] by_id_None[of key desired i] by (simp add: undoOrdered_def indexByID_eq)
  qed
next
  case True
  then obtain b where b: "b \<in> set base" "key b = i" by blast
  have bn: "base ! position (map key base) i = b" using at_position[OF assms(1) b(1)] b(2) by simp
  show ?thesis
  proof (cases "i \<in> key ` set desired")
    case False
    then show ?thesis using True undone_insert[OF assms(2,1) b] bn by (simp add: undoOrdered_def indexByID_eq filter_key_id)
  next
    case in_d: True
    then obtain d where d: "d \<in> set desired" "key d = i" by blast
    have dn: "desired ! position (map key desired) i = d" using at_position[OF assms(2) d(1)] d(2) by simp
    have l: "by_id key base i = Some b" "by_id key desired i = Some d" using by_id_Some assms b d by metis+
    have u: "undone key base desired i (insertAt (take (position (map key desired) i) desired @ drop (position (map key desired) i + 1) desired) b n)" for n
      unfolding cut_out[OF assms(2) in_d] by (rule undone_insert[OF assms(2,1) b])
    show ?thesis using True in_d bn dn l u
      by (cases slot) (simp_all add: undoOrdered_def indexByID_eq Let_def in_place_def)
  qed
qed

section \<open>All collections\<close>

definition distinct_ids :: "Profile \<Rightarrow> bool" where
  "distinct_ids p \<longleftrightarrow> distinct (map epID (prEndpoints p)) \<and> distinct (map grID (prGroups p)) \<and> distinct (map rlID (prRoutingLists p))
     \<and> distinct (map ruID (prRules p)) \<and> distinct (map dgID (prDeviceGroups p))"

datatype kind = KEndpoint | KGroup | KList | KRule | KDevices | KDNS

fun type_of :: "kind \<Rightarrow> string" where
  "type_of KEndpoint = ''endpoint''" | "type_of KGroup = ''group''" | "type_of KList = ''routing_list''"
| "type_of KRule = ''rule''" | "type_of KDevices = ''device_group''" | "type_of KDNS = ''dns''"

text \<open>No row about an object, its place aside.\<close>

definition object_settled :: "Deps \<Rightarrow> Profile \<Rightarrow> Profile \<Rightarrow> kind \<Rightarrow> id \<Rightarrow> bool" where
  "object_settled dp base p k i \<longleftrightarrow>
    (case k of
       KEndpoint \<Rightarrow> same_object (\<lambda>b d. diffEndpointFields dp b d = []) (by_id epID (prEndpoints base) i) (by_id epID (prEndpoints p) i)
     | KGroup \<Rightarrow> same_object (\<lambda>b d. diffGroupFields b d = []) (by_id grID (prGroups base) i) (by_id grID (prGroups p) i)
     | KList \<Rightarrow> same_object (\<lambda>b d. diffListFields b d = []) (by_id rlID (prRoutingLists base) i) (by_id rlID (prRoutingLists p) i)
     | KRule \<Rightarrow> same_object (=) (by_id ruID (prRules base) i) (by_id ruID (prRules p) i)
     | KDevices \<Rightarrow> same_object (=) (by_id dgID (prDeviceGroups base) i) (by_id dgID (prDeviceGroups p) i)
     | KDNS \<Rightarrow> i = ''dns'' \<longrightarrow> diffDNSPlane (prDNS base) (prDNS p) = [])"

text \<open>Two states agree on an object.\<close>

definition agree :: "Profile \<Rightarrow> Profile \<Rightarrow> kind \<Rightarrow> id \<Rightarrow> bool" where
  "agree p q k i \<longleftrightarrow>
    (case k of
       KEndpoint \<Rightarrow> by_id epID (prEndpoints p) i = by_id epID (prEndpoints q) i
     | KGroup \<Rightarrow> by_id grID (prGroups p) i = by_id grID (prGroups q) i
     | KList \<Rightarrow> by_id rlID (prRoutingLists p) i = by_id rlID (prRoutingLists q) i
     | KRule \<Rightarrow> by_id ruID (prRules p) i = by_id ruID (prRules q) i
     | KDevices \<Rightarrow> by_id dgID (prDeviceGroups p) i = by_id dgID (prDeviceGroups q) i
     | KDNS \<Rightarrow> i = ''dns'' \<longrightarrow> prDNS p = prDNS q)"

lemma agree_refl [simp]: "agree p p k i"
  by (simp add: agree_def split: kind.split)

lemma agree_trans: "agree p q k i \<Longrightarrow> agree q r k i \<Longrightarrow> agree p r k i"
  by (cases k) (simp_all add: agree_def)

lemma settled_agree: "agree p q k i \<Longrightarrow> object_settled dp base p k i \<longleftrightarrow> object_settled dp base q k i"
  by (cases k) (auto simp: agree_def object_settled_def)

definition reverted :: "Deps \<Rightarrow> Profile \<Rightarrow> Profile \<Rightarrow> kind \<Rightarrow> id \<Rightarrow> Profile \<Rightarrow> bool" where
  "reverted dp base p k i q \<longleftrightarrow> distinct_ids q \<and> object_settled dp base q k i \<and> (\<forall>k' j. (k', j) \<noteq> (k, i) \<longrightarrow> agree p q k' j)
     \<and> (k \<noteq> KList \<longrightarrow> map rlID (prRoutingLists q) = map rlID (prRoutingLists p))"

section \<open>An object is equal to itself\<close>

lemma sameJSON_refl [simp]: "sameJSON x x"
  by (simp add: sameJSON_def)

lemma only_if_False [simp]: "only_if False c = []"
  by simp

lemma diff_self [simp]:
  "diffEndpointFields dp e e = []" "diffGroupFields g g = []" "diffListFields l l = []" "diffDNSPlane d d = []"
proof -
  show "diffEndpointFields dp e e = []"
    by (simp add: diffEndpointFields_def scalar_rows_def struct_rows_def param_rows_def param_row_def Let_def)
  show "diffGroupFields g g = []" by (simp add: diffGroupFields_def)
  show "diffListFields l l = []" by (simp add: diffListFields_def sameStrings_def)
  show "diffDNSPlane d d = []" by (cases d) (simp_all add: diffDNSPlane_def diffDNSFields_def onOff_def)
qed

lemma diff_clock [simp]: "diffListFields b (keepRefreshClock b d) = []"
  by (simp add: diffListFields_def sameStrings_def keepRefreshClock_def Let_def)

lemma diff_clock_left [simp]: "diffListFields (keepRefreshClock b d) x = diffListFields b x"
  by (cases "rlCIDRRefreshed d = 0"; cases "rlDomainRefreshed d = 0") (simp_all add: keepRefreshClock_def Let_def diffListFields_def)

lemma clock_sel [simp]: "rlID (keepRefreshClock b d) = rlID b"
  by (simp add: keepRefreshClock_def Let_def)

lemma by_id_single [simp]: "by_id key [x] i = (if key x = i then Some x else None)"
  by (simp add: by_id_def)

lemma single_equal:
  "key b = key d \<Longrightarrow> diff_objects key added changed removed [b] [d] = changed b d"
  by (simp add: diff_objects_def)

lemma equal_iff:
  "endpointsEqual dp e f \<longleftrightarrow> diffEndpointFields dp e f = []"
  "grID g = grID h \<Longrightarrow> groupsEqual g h \<longleftrightarrow> diffGroupFields g h = []"
  "ruID r = ruID s \<Longrightarrow> rulesEqual r s \<longleftrightarrow> r = s"
  "dgID x = dgID y \<Longrightarrow> deviceGroupsEqual x y \<longleftrightarrow> x = y"
  by (simp_all add: endpointsEqual_def groupsEqual_def rulesEqual_def deviceGroupsEqual_def diffGroups_def diffRules_def diffDeviceGroups_def
      single_equal sameJSON_def)

lemma routingEqual_iff: "rlID l = rlID m \<Longrightarrow> routingEqual l m \<longleftrightarrow> diffListFields l m = []"
proof -
  assume a: "rlID l = rlID m"
  have "position_rows (relativeOrder [l] [m]) (relativeOrder [m] [l]) m = []" using a by (simp add: position_rows_def relativeOrder_def)
  then show ?thesis using a by (simp add: routingEqual_def diffRoutingLists_def single_equal)
qed


section \<open>undoObject\<close>

lemma kind_cases: "k' = KEndpoint \<or> k' = KGroup \<or> k' = KList \<or> k' = KRule \<or> k' = KDevices \<or> k' = KDNS"
  by (cases k') simp_all

lemma undoObject_kind:
  "undoObject dp slot base p bc c (type_of k) i = map_option (\<lambda>q. (q, c))
    (case k of KEndpoint \<Rightarrow> undoEndpointObject dp base p i | KGroup \<Rightarrow> undoGroupObject base p i | KList \<Rightarrow> undoRoutingObject slot base p i
     | KRule \<Rightarrow> undoRuleObject base p i | KDevices \<Rightarrow> undoDeviceGroupObject base p i | KDNS \<Rightarrow> undoDNSObject base p i)"
  by (cases k) (simp_all add: undoObject_def wants_def split: option.split)

lemma update_lookup:
  assumes "distinct (map rlID ls)" "l \<in> set ls" "rlID l' = rlID l"
  defines "ls' \<equiv> ls[position (map rlID ls) (rlID l) := l']"
  shows "map rlID ls' = map rlID ls" "by_id rlID ls' (rlID l) = Some l'"
proof -
  let ?n = "position (map rlID ls) (rlID l)"
  have n: "?n < length ls" "ls ! ?n = l" using position_nth[of "rlID l" rlID ls] at_position[OF assms(1,2)] assms(2) by auto
  have "map rlID ls' = (map rlID ls)[?n := rlID l]" using assms(3) by (simp add: ls'_def map_update)
  also have "\<dots> = map rlID ls" using n by (metis list_update_id nth_map)
  finally show m: "map rlID ls' = map rlID ls" .
  have "l' \<in> set ls'" using n(1) by (simp add: ls'_def set_update_memI)
  then show "by_id rlID ls' (rlID l) = Some l'" using by_id_Some[of rlID ls'] m assms(1,3) by simp
qed

text \<open>The ids of the lists after an object undo: a list of the baseline goes to its slot, an added one is gone.\<close>

definition placed :: "(id list \<Rightarrow> id list \<Rightarrow> id \<Rightarrow> nat) \<Rightarrow> id list \<Rightarrow> id list \<Rightarrow> id \<Rightarrow> id list" where
  "placed f bs ds i = (if i \<in> set bs then insertAt (filter (\<lambda>x. x \<noteq> i) ds) i (f bs ds i) else filter (\<lambda>x. x \<noteq> i) ds)"

lemma undoOrdered_ids:
  assumes "distinct (map key base)" "distinct (map key desired)" "undoOrdered key eq (Some f) base desired i = Some out"
  shows "map key out = placed f (map key base) (map key desired) i"
proof (cases "i \<in> key ` set base")
  case False
  then have "i \<in> key ` set desired" "out = filter (\<lambda>x. key x \<noteq> i) desired"
    using assms(3) cut_out[OF assms(2)] by (auto simp: undoOrdered_def indexByID_eq split: if_splits)
  then show ?thesis using False by (simp add: placed_def filter_map_key)
next
  case True
  let ?b = "base ! position (map key base) i" and ?r = "filter (\<lambda>x. key x \<noteq> i) desired" and ?n = "f (map key base) (map key desired) i"
  have b: "key ?b = i" using position_nth[OF True] by simp
  have "out = insertAt ?r ?b ?n"
  proof (cases "i \<in> key ` set desired")
    case in_d: True
    then show ?thesis using assms(3) True cut_out[OF assms(2) in_d] by (simp add: undoOrdered_def indexByID_eq Let_def split: if_splits)
  next
    case False
    then show ?thesis using assms(3) True by (simp add: undoOrdered_def indexByID_eq filter_key_id)
  qed
  then show ?thesis using True b by (simp add: placed_def map_insertAt filter_map_key)
qed

definition clocked :: "Profile \<Rightarrow> Profile \<Rightarrow> id \<Rightarrow> RoutingList list" where
  "clocked base desired i = (case (indexByID rlID (prRoutingLists base) i, indexByID rlID (prRoutingLists desired) i) of
     (Some bi, Some di) \<Rightarrow> (prRoutingLists base)[bi := keepRefreshClock (prRoutingLists base ! bi) (prRoutingLists desired ! di)]
   | _ \<Rightarrow> prRoutingLists base)"

lemma clocked_spec:
  assumes "distinct (map rlID (prRoutingLists base))" "distinct (map rlID (prRoutingLists p))"
  shows "map rlID (clocked base p i) = map rlID (prRoutingLists base)"
    and "by_id rlID (clocked base p i) i = (case by_id rlID (prRoutingLists base) i of None \<Rightarrow> None
      | Some b \<Rightarrow> (case by_id rlID (prRoutingLists p) i of None \<Rightarrow> Some b | Some d \<Rightarrow> Some (keepRefreshClock b d)))"
proof -
  let ?B = "prRoutingLists base" and ?D = "prRoutingLists p"
  have "map rlID (clocked base p i) = map rlID ?B \<and> by_id rlID (clocked base p i) i = (case by_id rlID ?B i of None \<Rightarrow> None
      | Some b \<Rightarrow> (case by_id rlID ?D i of None \<Rightarrow> Some b | Some d \<Rightarrow> Some (keepRefreshClock b d)))"
  proof (cases "i \<in> rlID ` set ?B \<and> i \<in> rlID ` set ?D")
    case True
    obtain b where b: "b \<in> set ?B" "rlID b = i" using True by auto
    obtain d where d: "d \<in> set ?D" "rlID d = i" using True by auto
    have "by_id rlID ?B i = Some b" "by_id rlID ?D i = Some d" using by_id_Some assms b d by metis+
    moreover have "clocked base p i = ?B[position (map rlID ?B) i := keepRefreshClock b d]"
      using True at_position[OF assms(1) b(1)] at_position[OF assms(2) d(1)] b(2) d(2) by (simp add: clocked_def indexByID_eq)
    ultimately show ?thesis using update_lookup[OF assms(1) b(1), of "keepRefreshClock b d"] b(2) by simp
  next
    case False
    then have "clocked base p i = ?B" by (auto simp: clocked_def indexByID_eq)
    moreover have "by_id rlID ?B i = None \<or> by_id rlID ?D i = None" using False by_id_None by metis
    ultimately show ?thesis by (auto split: option.split)
  qed
  then show "map rlID (clocked base p i) = map rlID ?B" "by_id rlID (clocked base p i) i = (case by_id rlID ?B i of None \<Rightarrow> None
      | Some b \<Rightarrow> (case by_id rlID ?D i of None \<Rightarrow> Some b | Some d \<Rightarrow> Some (keepRefreshClock b d)))" by blast+
qed

lemma undoRouting_clocked:
  "undoRoutingObject slot base p i = map_option (\<lambda>s. p\<lparr>prRoutingLists := s\<rparr>) (undoOrdered rlID routingEqual (Some slot) (clocked base p i) (prRoutingLists p) i)"
  by (simp add: undoRoutingObject_def clocked_def Let_def)

lemma undoRouting_spec:
  assumes "distinct_ids base" "distinct_ids p"
  shows "case undoRoutingObject slot base p i of
      Some q \<Rightarrow> reverted dp base p KList i q \<and> (\<exists>s. q = p\<lparr>prRoutingLists := s\<rparr>)
        \<and> map rlID (prRoutingLists q) = placed slot (map rlID (prRoutingLists base)) (map rlID (prRoutingLists p)) i
    | None \<Rightarrow> object_settled dp base p KList i
        \<and> (i \<in> rlID ` set (prRoutingLists base) \<and> i \<in> rlID ` set (prRoutingLists p)
           \<longrightarrow> slot (map rlID (prRoutingLists base)) (map rlID (prRoutingLists p)) i = position (map rlID (prRoutingLists p)) i)"
proof -
  let ?B = "prRoutingLists base" and ?D = "prRoutingLists p" and ?C = "clocked base p i"
  have db: "distinct (map rlID ?B)" and dd: "distinct (map rlID ?D)" using assms by (simp_all add: distinct_ids_def)
  note c = clocked_spec[OF db dd, of i]
  have dc: "distinct (map rlID ?C)" using db c(1) by simp
  have ids: "rlID ` set ?C = rlID ` set ?B" using c(1) by (metis image_set)
  note spec = undoOrdered_spec[OF dc dd, where eq = routingEqual and slot = "Some slot" and i = i]
  show ?thesis
  proof (cases "undoOrdered rlID routingEqual (Some slot) ?C ?D i")
    case None
    then have s: "same_object routingEqual (by_id rlID ?C i) (by_id rlID ?D i)"
        "i \<in> rlID ` set ?B \<and> i \<in> rlID ` set ?D \<longrightarrow> slot (map rlID ?B) (map rlID ?D) i = position (map rlID ?D) i"
      using spec ids c(1) by (simp_all add: in_place_def)
    have "object_settled dp base p KList i"
    proof (cases "by_id rlID ?B i")
      case None
      then show ?thesis using s(1) c(2) by (simp add: object_settled_def)
    next
      case (Some b)
      then obtain d where d: "by_id rlID ?D i = Some d" using s(1) c(2) by (cases "by_id rlID ?D i") simp_all
      then have "rlID b = i" "rlID d = i" using Some by_id_Some[OF db] by_id_Some[OF dd] by blast+
      then have "diffListFields (keepRefreshClock b d) d = []" using s(1) c(2) Some d routingEqual_iff[of "keepRefreshClock b d" d] by simp
      then have "diffListFields b d = []" by (simp only: diff_clock_left)
      then show ?thesis using Some d by (simp add: object_settled_def)
    qed
    then show ?thesis using None s(2) by (simp add: undoRouting_clocked)
  next
    case (Some s)
    then have u: "undone rlID ?C ?D i s" using spec by simp
    have ord: "map rlID s = placed slot (map rlID ?B) (map rlID ?D) i" using undoOrdered_ids[OF dc dd Some] c(1) by simp
    have ds: "distinct (map rlID s)" using u by (simp add: undone_def)
    have "object_settled dp base (p\<lparr>prRoutingLists := s\<rparr>) KList i"
      using u c(2) by (cases "by_id rlID ?B i"; cases "by_id rlID ?D i") (simp_all add: object_settled_def undone_def)
    moreover have "by_id rlID ?D j = by_id rlID s j" if "j \<noteq> i" for j
      using filter_by_id[OF dd ds _ that] u by (simp add: undone_def)
    ultimately have "reverted dp base p KList i (p\<lparr>prRoutingLists := s\<rparr>)"
      using assms(2) ds by (auto simp: reverted_def distinct_ids_def agree_def split: kind.split)
    then show ?thesis using Some ord by (auto simp: undoRouting_clocked)
  qed
qed


lemma same_object_mono:
  assumes "same_object eq (by_id key base i) (by_id key p i)" "distinct (map key base)" "distinct (map key p)"
    and "\<And>b d. key b = key d \<Longrightarrow> eq b d \<Longrightarrow> eq' b d"
  shows "same_object eq' (by_id key base i) (by_id key p i)"
proof (cases "by_id key base i")
  case (Some b)
  then obtain d where d: "by_id key p i = Some d" "eq b d" using assms(1) by (cases "by_id key p i") simp_all
  then have "key b = key d" using Some by_id_Some[OF assms(2)] by_id_Some[OF assms(3)] by metis
  then show ?thesis using Some d assms(4) by simp
qed (use assms(1) in simp)

text \<open>The collections without an order row: an undo resets, restores or drops the object in place.\<close>

lemma undo_plain:
  assumes "distinct_ids base" "distinct_ids p" "distinct (map key (coll base))" "distinct (map key (coll p))"
    and u: "u = map_option upd (undoOrdered key eq None (coll base) (coll p) i)"
    and same: "\<And>q. object_settled dp base q k i \<longleftrightarrow> same_object eq' (by_id key (coll base) i) (by_id key (coll q) i)"
    and eq: "\<And>b d. key b = key d \<Longrightarrow> eq b d \<Longrightarrow> eq' b d" "\<And>b. eq' b b"
    and upd: "\<And>s. coll (upd s) = s" "\<And>s. distinct (map key s) \<Longrightarrow> distinct_ids (upd s)" "\<And>s. prRoutingLists (upd s) = prRoutingLists p"
      "\<And>s k' j. k' \<noteq> k \<Longrightarrow> agree p (upd s) k' j" "\<And>s j. agree p (upd s) k j \<longleftrightarrow> by_id key (coll p) j = by_id key s j"
  shows "case u of Some q \<Rightarrow> reverted dp base p k i q | None \<Rightarrow> object_settled dp base p k i"
proof (cases "undoOrdered key eq None (coll base) (coll p) i")
  case None
  then have "same_object eq (by_id key (coll base) i) (by_id key (coll p) i)"
    using undoOrdered_spec[OF assms(3,4), where eq = eq and slot = None and i = i] by simp
  then show ?thesis using None u same same_object_mono[OF _ assms(3,4) eq(1)] by simp
next
  case (Some s)
  then have n: "undone key (coll base) (coll p) i s" using undoOrdered_spec[OF assms(3,4), where eq = eq and slot = None and i = i] by simp
  then have d: "distinct (map key s)" and own: "by_id key s i = by_id key (coll base) i" by (simp_all add: undone_def)
  have "object_settled dp base (upd s) k i" using same own upd(1) eq(2) by (cases "by_id key (coll base) i") simp_all
  moreover have "agree p (upd s) k' j" if "(k', j) \<noteq> (k, i)" for k' j
  proof (cases "k' = k")
    case True
    then have "j \<noteq> i" using that by simp
    then have "by_id key (coll p) j = by_id key s j" using filter_by_id[OF assms(4) d, of i j] n by (simp add: undone_def)
    then show ?thesis using True upd(5) by simp
  qed (use upd(4) in blast)
  ultimately show ?thesis using Some u upd(2)[OF d] upd(3) by (simp add: reverted_def)
qed

lemma undoObject_spec:
  assumes "distinct_ids base" "distinct_ids p"
  shows "case undoObject dp slot base p bc c (type_of k) i of Some (q, c') \<Rightarrow> c' = c \<and> reverted dp base p k i q | None \<Rightarrow> object_settled dp base p k i"
proof -
  note d = assms[unfolded distinct_ids_def]
  let ?u = "case k of KEndpoint \<Rightarrow> undoEndpointObject dp base p i | KGroup \<Rightarrow> undoGroupObject base p i | KList \<Rightarrow> undoRoutingObject slot base p i
     | KRule \<Rightarrow> undoRuleObject base p i | KDevices \<Rightarrow> undoDeviceGroupObject base p i | KDNS \<Rightarrow> undoDNSObject base p i"
  have "case ?u of Some q \<Rightarrow> reverted dp base p k i q | None \<Rightarrow> object_settled dp base p k i"
  proof (cases k)
    case KEndpoint
    have "case undoEndpointObject dp base p i of Some q \<Rightarrow> reverted dp base p KEndpoint i q | None \<Rightarrow> object_settled dp base p KEndpoint i"
      by (rule undo_plain[where key = epID and coll = prEndpoints and eq = "endpointsEqual dp" and eq' = "\<lambda>b d. diffEndpointFields dp b d = []",
            OF assms _ _ undoEndpointObject_def])
        (use d in \<open>auto simp: object_settled_def equal_iff distinct_ids_def agree_def split: kind.split\<close>)
    then show ?thesis unfolding KEndpoint by simp
  next
    case KGroup
    have "case undoGroupObject base p i of Some q \<Rightarrow> reverted dp base p KGroup i q | None \<Rightarrow> object_settled dp base p KGroup i"
      by (rule undo_plain[where key = grID and coll = prGroups and eq = groupsEqual and eq' = "\<lambda>b d. diffGroupFields b d = []",
            OF assms _ _ undoGroupObject_def])
        (use d in \<open>auto simp: object_settled_def equal_iff distinct_ids_def agree_def split: kind.split\<close>)
    then show ?thesis unfolding KGroup by simp
  next
    case KList
    then show ?thesis using undoRouting_spec[OF assms, where slot = slot and i = i and dp = dp] by (cases "undoRoutingObject slot base p i") simp_all
  next
    case KRule
    have "case undoRuleObject base p i of Some q \<Rightarrow> reverted dp base p KRule i q | None \<Rightarrow> object_settled dp base p KRule i"
      by (rule undo_plain[where key = ruID and coll = prRules and eq = rulesEqual and eq' = "(=)", OF assms _ _ undoRuleObject_def])
        (use d in \<open>auto simp: object_settled_def equal_iff distinct_ids_def agree_def split: kind.split\<close>)
    then show ?thesis unfolding KRule by simp
  next
    case KDevices
    have "case undoDeviceGroupObject base p i of Some q \<Rightarrow> reverted dp base p KDevices i q | None \<Rightarrow> object_settled dp base p KDevices i"
      by (rule undo_plain[where key = dgID and coll = prDeviceGroups and eq = deviceGroupsEqual and eq' = "(=)", OF assms _ _ undoDeviceGroupObject_def])
        (use d in \<open>auto simp: object_settled_def equal_iff distinct_ids_def agree_def split: kind.split\<close>)
    then show ?thesis unfolding KDevices by simp
  next
    case KDNS
    then show ?thesis using assms(2) by (auto simp: undoDNSObject_def object_settled_def reverted_def distinct_ids_def agree_def split: kind.split)
  qed
  then show ?thesis unfolding undoObject_kind by (cases ?u) simp_all
qed

section \<open>Rows and settled objects\<close>

lemma endpoint_fields_typed: "\<forall>c\<in>set (diffEndpointFields dp b d). chType c = ''endpoint'' \<and> chID c = epID d"
  by (auto simp: diffEndpointFields_def scalar_rows_def struct_rows_def param_rows_def param_row_def Let_def split: if_splits)

lemma group_fields_typed: "\<forall>c\<in>set (diffGroupFields b d). chType c = ''group'' \<and> chID c = grID d"
  by (simp add: diffGroupFields_def ball_Un ball_only_if del: set_only_if)

lemma dns_typed: "\<forall>c\<in>set (diffDNSPlane b d). chType c = ''dns'' \<and> chID c = ''dns''"
  by (cases b; cases d) (simp_all add: diffDNSPlane_def diffDNSFields_def onOff_def ball_Un ball_only_if del: set_only_if)

lemma settings_typed: "\<forall>c\<in>set (diffSettings dp b d). chType c = ''setting'' \<and> chID c = ''settings''"
  by (simp add: diffSettings_def ball_Un ball_only_if Let_def del: set_only_if)

end
