(* ===== verification/Change_Order.thy ===== *)
theory Change_Order
  imports Change_Position
begin

text \<open>
  How far an order is from the baseline's: the pairs that stand the wrong way round. Every slot \<open>restoreIndex\<close>
  changes makes them fewer, and as long as there is one, some list has a better slot.
\<close>

section \<open>Pairs out of order\<close>

fun inversions :: "id list \<Rightarrow> id list \<Rightarrow> nat" where
  "inversions bs [] = 0"
| "inversions bs (x # xs) = length (filter (\<lambda>y. before_in bs y x) xs) + inversions bs xs"

lemma inversions_cut: "inversions bs (ys @ i # zs) = inversions bs (ys @ zs) + misplaced bs (ys @ zs) i (length ys)"
  by (induction ys) (simp_all add: misplaced_def)

lemma inversions_insert: "n \<le> length xs \<Longrightarrow> inversions bs (insertAt xs i n) = inversions bs xs + misplaced bs xs i n"
  using inversions_cut[of bs "take n xs" i "drop n xs"] by (simp add: insertAt_le)

lemma inversions_bound: "inversions bs ds \<le> length ds * (length ds - 1) div 2"
proof (induction ds)
  case (Cons x xs)
  have "length (filter (\<lambda>y. before_in bs y x) xs) \<le> length xs" by (rule length_filter_le)
  moreover have "length xs + length xs * (length xs - 1) div 2 = Suc (length xs) * length xs div 2" by (cases "length xs") auto
  ultimately show ?case using Cons unfolding inversions.simps length_Cons diff_Suc_1 by linarith
qed simp

text \<open>An order with no pair the wrong way round is the baseline's.\<close>

lemma rank_of_Some: "x \<in> set bs \<Longrightarrow> \<exists>r. rank_of bs x = Some r"
  using rank_of_None[of bs x] by auto

lemma before_total:
  assumes "distinct bs" "x \<in> set bs" "y \<in> set bs" "x \<noteq> y" "\<not> before_in bs x y"
  shows "before_in bs y x"
proof -
  obtain r q where "rank_of bs x = Some r" "rank_of bs y = Some q" using rank_of_Some assms(2,3) by meson
  moreover from this have "r \<noteq> q" using rank_inj[OF assms(1)] assms(4) by blast
  ultimately show ?thesis using assms(5) by (auto simp: before_in_def)
qed

lemma before_trans: "before_in bs x y \<Longrightarrow> before_in bs y z \<Longrightarrow> before_in bs x z"
  by (auto simp: before_in_def)

lemma sorted_is_baseline:
  assumes "distinct bs" "distinct ds" "set ds = set bs" "sorted_wrt (before_in bs) ds"
  shows "ds = bs"
proof -
  let ?r = "\<lambda>x. the (rank_of bs x)"
  have s: "sorted (map ?r xs)" if "sorted_wrt (before_in bs) xs" for xs
    unfolding sorted_map by (rule sorted_wrt_mono_rel[OF _ that]) (auto simp: before_in_def)
  have "rank_of bs (bs ! m) = Some m" if "m < length bs" for m using assms(1) that by (simp add: rank_of_nth)
  then have "sorted_wrt (before_in bs) bs" by (simp add: sorted_wrt_iff_nth_less before_in_def)
  then have b: "sorted (map ?r bs)" by (rule s)
  have inj: "inj_on ?r (set bs)"
  proof (rule inj_onI)
    fix x y assume "x \<in> set bs" "y \<in> set bs" "?r x = ?r y"
    then obtain r q where "rank_of bs x = Some r" "rank_of bs y = Some q" "r = q" using rank_of_Some by (metis option.sel)
    then show "x = y" using rank_inj[OF assms(1)] by blast
  qed
  have "map ?r ds = map ?r bs"
    by (rule sorted_distinct_set_unique) (use s[OF assms(4)] b assms(1-3) inj in \<open>auto simp: distinct_map\<close>)
  then show ?thesis using inj assms(3) by (simp add: inj_on_map_eq_map)
qed

section \<open>Some list can still move\<close>

lemma adjacent: "\<not> successively P xs \<Longrightarrow> \<exists>ys a b zs. xs = ys @ a # b # zs \<and> \<not> P a b"
proof (induction P xs rule: successively.induct)
  case (3 P x y xs)
  show ?case
  proof (cases "P x y")
    case True
    then obtain ys a b zs where "y # xs = ys @ a # b # zs" "\<not> P a b" using 3 by auto
    then have "x # y # xs = (x # ys) @ a # b # zs" by simp
    then show ?thesis using \<open>\<not> P a b\<close> by blast
  next
    case False
    then have "x # y # xs = [] @ x # y # xs \<and> \<not> P x y" by simp
    then show ?thesis by blast
  qed
qed simp_all

lemma descent:
  assumes "distinct bs" "distinct ds" "set ds = set bs" "ds \<noteq> bs"
  shows "\<exists>ys a b zs. ds = ys @ a # b # zs \<and> before_in bs b a"
proof -
  have "\<not> successively (before_in bs) ds"
  proof
    assume "successively (before_in bs) ds"
    then have "sorted_wrt (before_in bs) ds" using before_trans by (metis successively_conv_sorted_wrt transpI)
    then show False using sorted_is_baseline[OF assms(1-3)] assms(4) by blast
  qed
  then obtain ys a b zs where d: "ds = ys @ a # b # zs" "\<not> before_in bs a b" using adjacent by blast
  then have "a \<in> set bs" "b \<in> set bs" "a \<noteq> b" using assms(2,3) by auto
  then show ?thesis using d before_total[OF assms(1)] by blast
qed

lemma better_slot:
  assumes "distinct bs" "distinct ds" "i \<in> set bs" "i \<in> set ds" "n \<le> length (filter (\<lambda>x. x \<noteq> i) ds)"
    and "misplaced bs (filter (\<lambda>x. x \<noteq> i) ds) i n < misplaced bs (filter (\<lambda>x. x \<noteq> i) ds) i (position ds i)"
  shows "restoreIndex bs ds i \<noteq> position ds i"
  using restoreIndex_spec(2)[OF assms(1-3)] assms(5,6) by (metis leD)

lemma stuck_is_baseline:
  assumes "distinct bs" "distinct ds" "set ds = set bs" "ds \<noteq> bs"
  shows "\<exists>i\<in>set ds. position bs i \<noteq> position ds i \<and> restoreIndex bs ds i \<noteq> position ds i"
proof -
  obtain ys a b zs where d: "ds = ys @ a # b # zs" "before_in bs b a" using descent[OF assms] by blast
  have n: "a \<notin> set ys" "a \<noteq> b" "a \<notin> set zs" "b \<notin> set ys" "b \<notin> set zs" using d(1) assms(2) by auto
  have ab: "\<not> before_in bs a b" using d(2) by (auto simp: before_in_def)
  have pos: "position ds a = length ys" "position ds b = Suc (length ys)"
    using d(1) n by (auto simp: position_def takeWhile_append)
  have rest: "filter (\<lambda>x. x \<noteq> a) ds = ys @ b # zs" "filter (\<lambda>x. x \<noteq> b) ds = ys @ a # zs" using d(1) n by auto
  have in_b: "a \<in> set bs" "b \<in> set bs" using assms(3) d(1) by auto
  have "misplaced bs (ys @ b # zs) a (Suc (length ys)) < misplaced bs (ys @ b # zs) a (length ys)"
    using d(2) ab by (simp add: misplaced_def)
  then have "restoreIndex bs ds a \<noteq> position ds a"
    using better_slot[OF assms(1,2) in_b(1), of "Suc (length ys)"] rest pos in_b assms(3) by simp
  moreover have "misplaced bs (ys @ a # zs) b (length ys) < misplaced bs (ys @ a # zs) b (Suc (length ys))"
    using d(2) ab by (simp add: misplaced_def)
  then have "restoreIndex bs ds b \<noteq> position ds b"
    using better_slot[OF assms(1,2) in_b(2), of "length ys"] rest pos in_b assms(3) by simp
  moreover have "\<not> (position bs a = position ds a \<and> position bs b = position ds b)"
  proof
    assume "position bs a = position ds a \<and> position bs b = position ds b"
    then have "rank_of bs a = Some (length ys)" "rank_of bs b = Some (Suc (length ys))"
      using pos rank_of_position[OF assms(1)] in_b by metis+
    then show False using d(2) by (auto simp: before_in_def)
  qed
  ultimately show ?thesis using d(1) by auto
qed

section \<open>Every move is progress\<close>

lemma restore_progress:
  assumes "distinct bs" "distinct ds" "i \<in> set bs" "i \<in> set ds"
  defines "out \<equiv> insertAt (filter (\<lambda>x. x \<noteq> i) ds) i (restoreIndex bs ds i)"
  shows "distinct out" "set out = set ds" "restoreIndex bs ds i = position ds i \<Longrightarrow> out = ds"
    "restoreIndex bs ds i \<noteq> position ds i \<Longrightarrow> inversions bs out < inversions bs ds"
proof -
  let ?r = "filter (\<lambda>x. x \<noteq> i) ds" and ?n = "restoreIndex bs ds i"
  note s = restoreIndex_spec[OF assms(1-3)]
  obtain ys zs where d: "ds = ys @ i # zs" "length ys = position ds i" "i \<notin> set ys" using cut_at[OF assms(4)] by blast
  then have r: "?r = ys @ zs" using assms(2) by auto
  have out: "out = take ?n ?r @ i # drop ?n ?r" unfolding out_def by (rule insertAt_le[OF s(1)])
  have "set (take ?n ?r) \<union> set (drop ?n ?r) = set ?r" by (metis append_take_drop_id set_append)
  then show "set out = set ds" using out assms(4) by auto
  show "distinct out" unfolding out_def distinct_insertAt by (simp add: assms(2))
  show "out = ds" if "?n = position ds i"
  proof -
    have "out = take (length ys) (ys @ zs) @ i # drop (length ys) (ys @ zs)" using that out r d(2) by metis
    then show ?thesis using d(1) by simp
  qed
  have "inversions bs ds = inversions bs ?r + misplaced bs ?r i (position ds i)" using inversions_cut[of bs ys i zs] d(1,2) r by simp
  moreover have "inversions bs out = inversions bs ?r + misplaced bs ?r i ?n" unfolding out_def by (rule inversions_insert[OF s(1)])
  ultimately show "inversions bs out < inversions bs ds" if "?n \<noteq> position ds i" using s(3)[OF assms(4) that] by simp
qed

end
