(* ===== verification/Change_Discard.thy ===== *)
theory Change_Discard
  imports Change_Objects Change_Order
begin

text \<open>
  "Discard all pending changes": every pass of \<open>undoReported\<close> settles every object, and what can survive a pass,
  the order of the routing lists, comes strictly closer to the baseline with each further pass.
\<close>

section \<open>Rows are about unsettled objects\<close>

lemma type_of_simps [simp]: "type_of k = type_of k' \<longleftrightarrow> k = k'" "type_of k \<noteq> ''setting''" "''setting'' \<noteq> type_of k"
  by (cases k; cases k'; simp)+

lemma diff_objects_row:
  assumes "distinct (map key base)" "distinct (map key desired)" "\<not> same_object (\<lambda>b d. changed b d = []) (by_id key base i) (by_id key desired i)"
    and "\<And>d. P (added d) (key d)" "\<And>b d. \<forall>c\<in>set (changed b d). P c (key d)" "\<And>b. P (removed b) (key b)"
  shows "\<exists>c\<in>set (diff_objects key added changed removed base desired). P c i"
proof (cases "by_id key base i")
  case None
  then obtain d where d: "by_id key desired i = Some d" using assms(3) by (cases "by_id key desired i") simp_all
  then have m: "d \<in> set desired" "key d = i" using by_id_Some[OF assms(2)] by blast+
  then have "added d \<in> set (diff_objects key added changed removed base desired)" unfolding set_diff_objects using None by blast
  then show ?thesis using assms(4)[of d] m by blast
next
  case (Some b)
  then have b: "b \<in> set base" "key b = i" using by_id_Some[OF assms(1)] by blast+
  show ?thesis
  proof (cases "by_id key desired i")
    case None
    then have "removed b \<in> set (diff_objects key added changed removed base desired)" unfolding set_diff_objects using b by_id_None by metis
    then show ?thesis using assms(6)[of b] b by blast
  next
    case d: (Some d)
    then have m: "d \<in> set desired" "key d = i" using by_id_Some[OF assms(2)] by blast+
    obtain c where "c \<in> set (changed b d)" using assms(3) Some d by (cases "changed b d") auto
    moreover from this have "c \<in> set (diff_objects key added changed removed base desired)" unfolding set_diff_objects using m Some by blast
    ultimately show ?thesis using assms(5) m by blast
  qed
qed

lemma diff_objects_settled:
  assumes "distinct (map key base)" "distinct (map key desired)" "\<And>i. same_object eq (by_id key base i) (by_id key desired i)"
    and "c \<in> set (diff_objects key added changed removed base desired)"
  shows "\<exists>b d. b \<in> set base \<and> d \<in> set desired \<and> key b = key d \<and> eq b d \<and> c \<in> set (changed b d)"
proof -
  have none: "by_id key base i = None \<longleftrightarrow> by_id key desired i = None" for i using assms(3)[of i] by (auto simp: same_object_def split: option.splits)
  consider d where "d \<in> set desired" "by_id key base (key d) = None" | d b where "d \<in> set desired" "by_id key base (key d) = Some b" "c \<in> set (changed b d)"
    | b where "b \<in> set base" "key b \<notin> key ` set desired"
    using assms(4) unfolding set_diff_objects by blast
  then show ?thesis
  proof cases
    case 1
    then have "by_id key desired (key d) = Some d" using by_id_self[OF assms(2)] by blast
    then show ?thesis using none[of "key d"] 1 by simp
  next
    case 2
    then have "by_id key desired (key d) = Some d" "b \<in> set base" "key b = key d" using by_id_self[OF assms(2)] by_id_Some[OF assms(1)] by blast+
    then show ?thesis using 2 assms(3)[of "key d"] by force
  next
    case 3
    then have "by_id key base (key b) = Some b" "by_id key desired (key b) = None" using by_id_self[OF assms(1)] by_id_None by metis+
    then show ?thesis using none[of "key b"] by simp
  qed
qed

lemma unsettled_row:
  assumes "distinct_ids base" "distinct_ids p" "\<not> object_settled dp base p k i"
  shows "\<exists>c\<in>set (changes dp base p bc c0). chType c = type_of k \<and> chID c = i"
proof (cases k)
  case KEndpoint
  then have "\<exists>c\<in>set (diffEndpoints dp (prEndpoints base) (prEndpoints p)). chType c = ''endpoint'' \<and> chID c = i"
    using assms endpoint_fields_typed unfolding diffEndpoints_def
    by (intro diff_objects_row) (auto simp: distinct_ids_def object_settled_def endpoint_added_def endpoint_removed_def Let_def)
  then show ?thesis unfolding changes_def set_append KEndpoint type_of.simps by blast
next
  case KGroup
  then have "\<exists>c\<in>set (diffGroups (prGroups base) (prGroups p)). chType c = ''group'' \<and> chID c = i"
    using assms group_fields_typed unfolding diffGroups_def by (intro diff_objects_row) (auto simp: distinct_ids_def object_settled_def)
  then show ?thesis unfolding changes_def set_append KGroup type_of.simps by blast
next
  case KList
  let ?ch = "\<lambda>b d. diffListFields b d @ position_rows (relativeOrder (prRoutingLists base) (prRoutingLists p)) (relativeOrder (prRoutingLists p) (prRoutingLists base)) d"
  have "\<not> same_object (\<lambda>b d. ?ch b d = []) (by_id rlID (prRoutingLists base) i) (by_id rlID (prRoutingLists p) i)"
    using assms(3) KList by (cases "by_id rlID (prRoutingLists base) i"; cases "by_id rlID (prRoutingLists p) i") (simp_all add: object_settled_def)
  moreover have "\<forall>c\<in>set (?ch b d). chType c = ''routing_list'' \<and> chID c = rlID d" for b d
    using all_list_fields by (auto simp: position_rows_def Let_def split: option.splits if_splits)
  ultimately have "\<exists>c\<in>set (diffRoutingLists (prRoutingLists base) (prRoutingLists p)). chType c = ''routing_list'' \<and> chID c = i"
    using assms unfolding diffRoutingLists_def by (intro diff_objects_row) (auto simp: distinct_ids_def list_change_def)
  then show ?thesis unfolding changes_def set_append KList type_of.simps by blast
next
  case KRule
  then have "\<exists>c\<in>set (diffRules (prRules base) (prRules p)). chType c = ''rule'' \<and> chID c = i"
    using assms unfolding diffRules_def
    by (intro diff_objects_row) (auto simp: distinct_ids_def object_settled_def rule_change_def sameJSON_def same_object_def split: option.splits)
  then show ?thesis unfolding changes_def set_append KRule type_of.simps by blast
next
  case KDevices
  then have "\<exists>c\<in>set (diffDeviceGroups (prDeviceGroups base) (prDeviceGroups p)). chType c = ''device_group'' \<and> chID c = i"
    using assms unfolding diffDeviceGroups_def
    by (intro diff_objects_row) (auto simp: distinct_ids_def object_settled_def device_change_def sameJSON_def same_object_def split: option.splits)
  then show ?thesis unfolding changes_def set_append KDevices type_of.simps by blast
next
  case KDNS
  then obtain c where "c \<in> set (diffDNSPlane (prDNS base) (prDNS p))" "i = ''dns''"
    using assms(3) by (cases "diffDNSPlane (prDNS base) (prDNS p)") (auto simp: object_settled_def)
  then show ?thesis using dns_typed unfolding changes_def set_append KDNS type_of.simps by blast
qed

text \<open>The settings a row is about.\<close>

lemma settings_rows:
  "diffSettings dp b d = [] \<longleftrightarrow> settingsEqual b d"
  "cfRoutingMode b \<noteq> cfRoutingMode d \<Longrightarrow> ''Routing mode'' \<in> chField ` set (diffSettings dp b d)"
  "cfOffload b \<noteq> cfOffload d \<Longrightarrow> ''Flow offload'' \<in> chField ` set (diffSettings dp b d)"
  "cfRuleSetDetour b \<noteq> cfRuleSetDetour d \<Longrightarrow> ''Rule-set download route'' \<in> chField ` set (diffSettings dp b d)"
  "cfCoreOverride b \<noteq> cfCoreOverride d \<Longrightarrow> ''Core override'' \<in> chField ` set (diffSettings dp b d)"
  by (simp_all add: diffSettings_def settingsEqual_def Let_def image_Un)

definition all_settled :: "Deps \<Rightarrow> Profile \<Rightarrow> Profile \<Rightarrow> bool" where
  "all_settled dp base p \<longleftrightarrow> (\<forall>k i. object_settled dp base p k i)"

text \<open>Once everything is settled, only moved lists are left to report.\<close>

lemma settled_rows:
  assumes "distinct_ids base" "distinct_ids p" "all_settled dp base p" "settingsEqual bc c0" "c \<in> set (changes dp base p bc c0)"
  shows "chType c = ''routing_list'' \<and> chField c = ''Position'' \<and> moved (prRoutingLists base) (prRoutingLists p) (chID c)"
proof -
  note d = assms(1,2)[unfolded distinct_ids_def]
  have s: "object_settled dp base p k i" for k i using assms(3) by (simp add: all_settled_def)
  have "c \<notin> set (diffEndpoints dp (prEndpoints base) (prEndpoints p))"
    using diff_objects_settled[of epID "prEndpoints base" "prEndpoints p"] s[of KEndpoint] d unfolding diffEndpoints_def object_settled_def by fastforce
  moreover have "c \<notin> set (diffGroups (prGroups base) (prGroups p))"
    using diff_objects_settled[of grID "prGroups base" "prGroups p"] s[of KGroup] d unfolding diffGroups_def object_settled_def by fastforce
  moreover have "c \<notin> set (diffRules (prRules base) (prRules p))"
    using diff_objects_settled[of ruID "prRules base" "prRules p" "(=)"] s[of KRule] d unfolding diffRules_def object_settled_def by fastforce
  moreover have "c \<notin> set (diffDeviceGroups (prDeviceGroups base) (prDeviceGroups p))"
    using diff_objects_settled[of dgID "prDeviceGroups base" "prDeviceGroups p" "(=)"] s[of KDevices] d unfolding diffDeviceGroups_def object_settled_def by fastforce
  moreover have "c \<notin> set (diffDNSPlane (prDNS base) (prDNS p))" using s[of KDNS "''dns''"] by (simp add: object_settled_def)
  moreover have "c \<notin> set (diffSettings dp bc c0)" using assms(4) by (simp add: settings_rows(1)[THEN iffD2])
  ultimately have c: "c \<in> set (diffRoutingLists (prRoutingLists base) (prRoutingLists p))" using assms(5) by (auto simp: changes_def)
  have dl: "distinct (map rlID (prRoutingLists base))" "distinct (map rlID (prRoutingLists p))" using d by simp_all
  obtain l m where lm: "l \<in> set (prRoutingLists base)" "m \<in> set (prRoutingLists p)" "rlID l = rlID m" "diffListFields l m = []"
    "c \<in> set (diffListFields l m @ position_rows (relativeOrder (prRoutingLists base) (prRoutingLists p)) (relativeOrder (prRoutingLists p) (prRoutingLists base)) m)"
    using diff_objects_settled[OF dl _ c[unfolded diffRoutingLists_def], where eq = "\<lambda>b d. diffListFields b d = []"] s[of KList]
    unfolding object_settled_def by auto
  then show ?thesis by (auto simp: position_rows_eq[OF dl] split: if_splits)
qed


section \<open>One pass\<close>

definition pass_inv :: "Deps \<Rightarrow> Profile \<Rightarrow> Profile \<Rightarrow> 'c UndoRun \<Rightarrow> bool" where
  "pass_inv dp base p0 st \<longleftrightarrow> distinct_ids (urProfile st)
     \<and> (\<forall>k i. (type_of k, i) \<in> urSeen st \<longrightarrow> object_settled dp base (urProfile st) k i)
     \<and> (\<forall>k i. (type_of k, i) \<notin> urSeen st \<longrightarrow> agree p0 (urProfile st) k i)"

lemma undoField_setting:
  "undoField dp base p bc c ''setting'' ''settings'' f =
    (if settingsEqual (revertSetting c bc f) c then None else Some (p, revertSetting c bc f))"
proof -
  have "or_try [None, None, None, None, None, None, None] = (None :: Profile option)" by simp
  then show ?thesis by (simp add: undoField_def wants_def Let_def)
qed

lemma undo_row_setting:
  assumes "chType ch = ''setting''" "chID ch = ''settings''"
  shows "undo_row dp base bc st ch = (if settingsEqual (revertSetting (urConfig st) bc (chField ch)) (urConfig st) then st
     else st\<lparr>urConfig := revertSetting (urConfig st) bc (chField ch), urTouched := True\<rparr>)"
  using assms by (simp add: undo_row_def undoField_setting)

lemma undo_row_kind:
  assumes "chType ch = type_of k"
  shows "undo_row dp base bc st ch = (if (type_of k, chID ch) \<in> urSeen st then st
     else case undoObject dp restoreIndex base (urProfile st) bc (urConfig st) (type_of k) (chID ch) of
            Some (p, c) \<Rightarrow> st\<lparr>urSeen := insert (type_of k, chID ch) (urSeen st), urProfile := p, urConfig := c, urTouched := True\<rparr>
          | None \<Rightarrow> st\<lparr>urSeen := insert (type_of k, chID ch) (urSeen st)\<rparr>)"
  using assms by (simp add: undo_row_def Let_def split: option.split)

definition valid_row :: "Change \<Rightarrow> bool" where
  "valid_row c \<longleftrightarrow> (\<exists>k. chType c = type_of k) \<or> chType c = ''setting'' \<and> chID c = ''settings''"

lemma pass_step:
  assumes "distinct_ids base" "pass_inv dp base p0 st" "valid_row ch"
  shows "pass_inv dp base p0 (undo_row dp base bc st ch)"
    and "chType ch = type_of k \<Longrightarrow> (type_of k, chID ch) \<in> urSeen (undo_row dp base bc st ch)"
    and "urSeen st \<subseteq> urSeen (undo_row dp base bc st ch)"
    and "urConfig (undo_row dp base bc st ch) = (if chType ch = ''setting'' \<and> \<not> settingsEqual (revertSetting (urConfig st) bc (chField ch)) (urConfig st)
       then revertSetting (urConfig st) bc (chField ch) else urConfig st)"
proof -
  let ?st = "undo_row dp base bc st ch"
  have "pass_inv dp base p0 ?st \<and> (\<forall>k. chType ch = type_of k \<longrightarrow> (type_of k, chID ch) \<in> urSeen ?st) \<and> urSeen st \<subseteq> urSeen ?st
    \<and> urConfig ?st = (if chType ch = ''setting'' \<and> \<not> settingsEqual (revertSetting (urConfig st) bc (chField ch)) (urConfig st)
       then revertSetting (urConfig st) bc (chField ch) else urConfig st)"
  proof (cases "chType ch = ''setting''")
    case True
    then have i: "chID ch = ''settings''" "\<And>k. chType ch \<noteq> type_of k" using assms(3) type_of_simps(2) by (auto simp: valid_row_def)
    show ?thesis using assms(2) True i(2) by (simp add: undo_row_setting[OF True i(1)] pass_inv_def)
  next
    case False
    then obtain k where k: "chType ch = type_of k" using assms(3) by (auto simp: valid_row_def)
    let ?i = "chID ch"
    show ?thesis
    proof (cases "(type_of k, ?i) \<in> urSeen st")
      case True
      then show ?thesis using assms(2) k False by (simp add: undo_row_kind[OF k])
    next
      case new: False
      have d: "distinct_ids (urProfile st)" using assms(2) by (simp add: pass_inv_def)
      note spec = undoObject_spec[OF assms(1) d, where dp = dp and slot = restoreIndex and bc = bc and c = "urConfig st" and k = k and i = ?i]
      show ?thesis
      proof (cases "undoObject dp restoreIndex base (urProfile st) bc (urConfig st) (type_of k) ?i")
        case None
        then have "object_settled dp base (urProfile st) k ?i" using spec by simp
        then show ?thesis using assms(2) k False new None by (simp add: undo_row_kind[OF k] pass_inv_def subset_insertI)
      next
        case (Some x)
        obtain q c' where x: "x = (q, c')" by (cases x)
        then have r: "c' = urConfig st" "reverted dp base (urProfile st) k ?i q" using spec Some by simp_all
        have "object_settled dp base q k' j" if "(type_of k', j) \<in> insert (type_of k, ?i) (urSeen st)" for k' j
        proof (cases "(k', j) = (k, ?i)")
          case True
          then show ?thesis using r(2) by (simp add: reverted_def)
        next
          case no: False
          then have "object_settled dp base (urProfile st) k' j" using assms(2) that by (auto simp: pass_inv_def)
          moreover have "agree (urProfile st) q k' j" using r(2) no unfolding reverted_def by blast
          ultimately show ?thesis using settled_agree by blast
        qed
        moreover have "agree p0 q k' j" if "(type_of k', j) \<notin> insert (type_of k, ?i) (urSeen st)" for k' j
        proof -
          have "(k', j) \<noteq> (k, ?i)" "(type_of k', j) \<notin> urSeen st" using that by auto
          then have "agree (urProfile st) q k' j" "agree p0 (urProfile st) k' j" using r(2) assms(2) unfolding reverted_def pass_inv_def by blast+
          then show ?thesis using agree_trans by blast
        qed
        moreover have "distinct_ids q" using r(2) by (simp add: reverted_def)
        ultimately have "pass_inv dp base p0 (st\<lparr>urSeen := insert (type_of k, ?i) (urSeen st), urProfile := q, urConfig := c', urTouched := True\<rparr>)"
          unfolding pass_inv_def by simp
        then show ?thesis using k False new Some x r(1) by (simp add: undo_row_kind[OF k] subset_insertI)
      qed
    qed
  qed
  then show "pass_inv dp base p0 ?st" "chType ch = type_of k \<Longrightarrow> (type_of k, chID ch) \<in> urSeen ?st" "urSeen st \<subseteq> urSeen ?st"
    "urConfig ?st = (if chType ch = ''setting'' \<and> \<not> settingsEqual (revertSetting (urConfig st) bc (chField ch)) (urConfig st)
       then revertSetting (urConfig st) bc (chField ch) else urConfig st)" by blast+
qed

text \<open>A reverted setting stays reverted.\<close>

definition reset_to :: "'c ReviewConfig_scheme \<Rightarrow> 'c ReviewConfig_scheme \<Rightarrow> string \<Rightarrow> bool" where
  "reset_to bc c f \<longleftrightarrow> (f = ''Routing mode'' \<longrightarrow> cfRoutingMode bc = cfRoutingMode c) \<and> (f = ''Flow offload'' \<longrightarrow> cfOffload bc = cfOffload c)
     \<and> (f = ''Rule-set download route'' \<longrightarrow> cfRuleSetDetour bc = cfRuleSetDetour c) \<and> (f = ''Core override'' \<longrightarrow> cfCoreOverride bc = cfCoreOverride c)"

lemma reset_revert: "reset_to bc (revertSetting c bc f) f" "reset_to bc c g \<Longrightarrow> reset_to bc (revertSetting c bc f) g"
  by (auto simp: reset_to_def revertSetting_def)

lemma reset_equal: "settingsEqual (revertSetting c bc f) c \<Longrightarrow> reset_to bc c f"
  by (auto simp: reset_to_def revertSetting_def settingsEqual_def split: if_splits)

lemma settings_reset: "settingsEqual bc c \<longleftrightarrow> (\<forall>f. reset_to bc c f)"
proof
  assume "\<forall>f. reset_to bc c f"
  then have "reset_to bc c ''Routing mode''" "reset_to bc c ''Flow offload''" "reset_to bc c ''Rule-set download route''" "reset_to bc c ''Core override''"
    by blast+
  then show "settingsEqual bc c" by (simp add: reset_to_def settingsEqual_def)
qed (simp add: reset_to_def settingsEqual_def)

lemma row_reset:
  assumes "distinct_ids base" "pass_inv dp base p0 st" "valid_row ch"
    and "reset_to bc (urConfig st) f \<or> chType ch = ''setting'' \<and> chField ch = f"
  shows "reset_to bc (urConfig (undo_row dp base bc st ch)) f"
proof -
  note c = pass_step(4)[OF assms(1-3), where bc = bc]
  show ?thesis
  proof (cases "chType ch = ''setting'' \<and> \<not> settingsEqual (revertSetting (urConfig st) bc (chField ch)) (urConfig st)")
    case True
    then have "urConfig (undo_row dp base bc st ch) = revertSetting (urConfig st) bc (chField ch)" using c by simp
    then show ?thesis using assms(4) reset_revert by metis
  next
    case False
    then have "urConfig (undo_row dp base bc st ch) = urConfig st" using c by (simp only: if_False)
    then show ?thesis using assms(4) False reset_equal by metis
  qed
qed

lemma pass_rows:
  fixes bc :: "'c ReviewConfig_scheme"
  assumes "distinct_ids base" "pass_inv dp base p0 st" "\<forall>ch\<in>set rows. valid_row ch"
  defines "out \<equiv> foldl (undo_row dp base bc) st rows"
  shows "pass_inv dp base p0 out"
    and "\<forall>k i. (type_of k, i) \<in> urSeen st \<or> (\<exists>ch\<in>set rows. chType ch = type_of k \<and> chID ch = i) \<longrightarrow> (type_of k, i) \<in> urSeen out"
    and "\<forall>f. reset_to bc (urConfig st) f \<or> (\<exists>ch\<in>set rows. chType ch = ''setting'' \<and> chField ch = f) \<longrightarrow> reset_to bc (urConfig out) f"
proof -
  have "pass_inv dp base p0 (foldl (undo_row dp base bc) st rows)
    \<and> (\<forall>k i. (type_of k, i) \<in> urSeen st \<or> (\<exists>ch\<in>set rows. chType ch = type_of k \<and> chID ch = i)
         \<longrightarrow> (type_of k, i) \<in> urSeen (foldl (undo_row dp base bc) st rows))
    \<and> (\<forall>f. reset_to bc (urConfig st) f \<or> (\<exists>ch\<in>set rows. chType ch = ''setting'' \<and> chField ch = f)
         \<longrightarrow> reset_to bc (urConfig (foldl (undo_row dp base bc) st rows)) f)"
    using assms(2,3)
  proof (induction rows arbitrary: st)
    case Nil
    then show ?case by simp
  next
    case (Cons ch rows)
    let ?st = "undo_row dp base bc st ch"
    have v: "valid_row ch" "\<forall>ch\<in>set rows. valid_row ch" using Cons.prems(2) by simp_all
    note s = pass_step(1-3)[OF assms(1) Cons.prems(1) v(1), where bc = bc]
    note IH = Cons.IH[OF s(1) v(2)]
    have "reset_to bc (urConfig ?st) f \<or> (\<exists>c\<in>set rows. chType c = ''setting'' \<and> chField c = f)"
      if "reset_to bc (urConfig st) f \<or> (\<exists>c\<in>set (ch # rows). chType c = ''setting'' \<and> chField c = f)" for f
      using that row_reset[OF assms(1) Cons.prems(1) v(1), where bc = bc and f = f] unfolding list.set(2) by blast
    moreover have "(type_of k, i) \<in> urSeen ?st \<or> (\<exists>c\<in>set rows. chType c = type_of k \<and> chID c = i)"
      if "(type_of k, i) \<in> urSeen st \<or> (\<exists>c\<in>set (ch # rows). chType c = type_of k \<and> chID c = i)" for k i
      using that s(2,3) unfolding list.set(2) by blast
    ultimately show ?case using IH unfolding foldl_Cons by blast
  qed
  then show "pass_inv dp base p0 out"
    and "\<forall>k i. (type_of k, i) \<in> urSeen st \<or> (\<exists>ch\<in>set rows. chType ch = type_of k \<and> chID ch = i) \<longrightarrow> (type_of k, i) \<in> urSeen out"
    and "\<forall>f. reset_to bc (urConfig st) f \<or> (\<exists>ch\<in>set rows. chType ch = ''setting'' \<and> chField ch = f) \<longrightarrow> reset_to bc (urConfig out) f"
    unfolding out_def by blast+
qed

lemma rows_typed:
  "\<forall>ch\<in>set (diffEndpoints dp es fs). chType ch = type_of KEndpoint" "\<forall>ch\<in>set (diffGroups gs hs). chType ch = type_of KGroup"
  "\<forall>ch\<in>set (diffRoutingLists ls ms). chType ch = type_of KList" "\<forall>ch\<in>set (diffRules rs ss). chType ch = type_of KRule"
  "\<forall>ch\<in>set (diffDeviceGroups xs ys). chType ch = type_of KDevices" "\<forall>ch\<in>set (diffDNSPlane x y). chType ch = type_of KDNS"
proof -
  show "\<forall>ch\<in>set (diffEndpoints dp es fs). chType ch = type_of KEndpoint"
    unfolding diffEndpoints_def using endpoint_fields_typed by (auto simp: set_diff_objects endpoint_added_def endpoint_removed_def Let_def)
  show "\<forall>ch\<in>set (diffGroups gs hs). chType ch = type_of KGroup"
    unfolding diffGroups_def using group_fields_typed by (auto simp: set_diff_objects)
  show "\<forall>ch\<in>set (diffRoutingLists ls ms). chType ch = type_of KList"
    using all_list_fields unfolding diffRoutingLists_def
    by (auto simp: set_diff_objects list_change_def position_rows_def Let_def split: option.splits if_splits)
  show "\<forall>ch\<in>set (diffRules rs ss). chType ch = type_of KRule"
    unfolding diffRules_def by (auto simp: set_diff_objects rule_change_def split: if_splits)
  show "\<forall>ch\<in>set (diffDeviceGroups xs ys). chType ch = type_of KDevices"
    unfolding diffDeviceGroups_def by (auto simp: set_diff_objects device_change_def split: if_splits)
  show "\<forall>ch\<in>set (diffDNSPlane x y). chType ch = type_of KDNS" using dns_typed by simp
qed

lemma rows_valid: "\<forall>ch\<in>set (changes dp base p bc c). valid_row ch"
proof -
  have k: "\<forall>ch\<in>A. chType ch = type_of k \<Longrightarrow> \<forall>ch\<in>A. valid_row ch" for A k unfolding valid_row_def by blast
  have s: "\<forall>ch\<in>set (diffSettings dp bc c). valid_row ch" using settings_typed unfolding valid_row_def by blast
  show ?thesis unfolding changes_def set_append ball_Un using rows_typed[THEN k] s by simp
qed

definition discard_pass :: "Deps \<Rightarrow> Profile \<Rightarrow> 'c ReviewConfig_scheme \<Rightarrow> Profile \<Rightarrow> 'c ReviewConfig_scheme \<Rightarrow> 'c UndoRun" where
  "discard_pass dp base bc p c = undoReportedOnce dp base p bc c (\<lambda>_. True)"

lemma pass_eq: "discard_pass dp base bc p c = foldl (undo_row dp base bc) \<lparr>urProfile = p, urConfig = c, urTouched = False, urSeen = {}\<rparr> (changes dp base p bc c)"
  by (simp add: discard_pass_def undoReportedOnce_def Diff_def)

lemma pass_settles:
  assumes "distinct_ids base" "distinct_ids p"
  shows "distinct_ids (urProfile (discard_pass dp base bc p c)) \<and> all_settled dp base (urProfile (discard_pass dp base bc p c))
    \<and> settingsEqual bc (urConfig (discard_pass dp base bc p c))"
proof -
  let ?start = "\<lparr>urProfile = p, urConfig = c, urTouched = False, urSeen = {}\<rparr>" and ?rows = "changes dp base p bc c"
  let ?st = "discard_pass dp base bc p c"
  have "pass_inv dp base p ?start" using assms(2) by (simp add: pass_inv_def)
  note r = pass_rows[OF assms(1) this rows_valid[where dp = dp and base = base and p = p and bc = bc and c = c], where bc = bc, folded pass_eq]
  have "object_settled dp base (urProfile ?st) k i" for k i
  proof (cases "(type_of k, i) \<in> urSeen ?st")
    case True
    then show ?thesis using r unfolding pass_inv_def by blast
  next
    case False
    then have "object_settled dp base p k i" using unsettled_row[OF assms, where k = k and i = i] r(2) by blast
    moreover have "agree p (urProfile ?st) k i" using False r(1) unfolding pass_inv_def by blast
    ultimately show ?thesis using settled_agree by blast
  qed
  moreover have "reset_to bc (urConfig ?st) f" for f
  proof -
    have "reset_to bc c f \<or> (\<exists>ch\<in>set ?rows. chType ch = ''setting'' \<and> chField ch = f)"
    proof (cases "reset_to bc c f")
      case False
      then have "f \<in> chField ` set (diffSettings dp bc c)" using settings_rows(2-5)[of bc c dp] unfolding reset_to_def by blast
      then show ?thesis using settings_typed[of dp bc c] unfolding changes_def set_append by blast
    qed simp
    then show ?thesis using r(3) by auto
  qed
  ultimately show ?thesis using r(1) by (simp add: all_settled_def settings_reset pass_inv_def)
qed


section \<open>The order of the lists\<close>

definition order_of :: "Profile \<Rightarrow> id list" where
  "order_of p = map rlID (prRoutingLists p)"

lemma order_distinct: "distinct_ids p \<Longrightarrow> distinct (order_of p)"
  by (simp add: order_of_def distinct_ids_def)

lemma same_lists: "all_settled dp base p \<Longrightarrow> set (order_of p) = set (order_of base)"
proof -
  assume a: "all_settled dp base p"
  have "i \<in> rlID ` set (prRoutingLists p) \<longleftrightarrow> i \<in> rlID ` set (prRoutingLists base)" for i
  proof -
    have "object_settled dp base p KList i" using a by (simp add: all_settled_def)
    then have "by_id rlID (prRoutingLists base) i = None \<longleftrightarrow> by_id rlID (prRoutingLists p) i = None"
      by (cases "by_id rlID (prRoutingLists base) i"; cases "by_id rlID (prRoutingLists p) i") (simp_all add: object_settled_def)
    then show ?thesis unfolding by_id_None by blast
  qed
  then show ?thesis by (auto simp: order_of_def)
qed

definition disorder :: "Profile \<Rightarrow> Profile \<Rightarrow> nat" where
  "disorder base p = inversions (order_of base) (order_of p)"

lemma list_step:
  fixes bc :: "'c ReviewConfig_scheme"
  assumes "distinct_ids base" "pass_inv dp base p0 st" "set (order_of (urProfile st)) = set (order_of base)"
    and "chType ch = type_of KList" "chID ch \<in> set (order_of base)"
  defines "p \<equiv> urProfile st" and "q \<equiv> urProfile (undo_row dp base bc st ch)"
  shows "set (order_of q) = set (order_of base)" "disorder base q < disorder base p \<or> order_of q = order_of p"
    "(type_of KList, chID ch) \<notin> urSeen st \<Longrightarrow> restoreIndex (order_of base) (order_of p) (chID ch) \<noteq> position (order_of p) (chID ch)
       \<Longrightarrow> disorder base q < disorder base p"
proof -
  let ?i = "chID ch" and ?bs = "order_of base"
  have d: "distinct_ids p" using assms(2) by (simp add: pass_inv_def p_def)
  note rp = restore_progress[OF order_distinct[OF assms(1)] order_distinct[OF d] assms(5)]
  have m: "?i \<in> set (order_of p)" using assms(3,5) by (simp add: p_def)
  have in_both: "?i \<in> rlID ` set (prRoutingLists base) \<and> ?i \<in> rlID ` set (prRoutingLists p)" using m assms(5) by (simp add: order_of_def)
  have none: "restoreIndex ?bs (order_of p) ?i = position (order_of p) ?i" if "undoRoutingObject restoreIndex base p ?i = None"
    using undoRouting_spec[OF assms(1) d, where slot = restoreIndex and i = ?i and dp = dp] that in_both by (simp add: order_of_def)
  have some: "order_of r = insertAt (filter (\<lambda>x. x \<noteq> ?i) (order_of p)) ?i (restoreIndex ?bs (order_of p) ?i)"
    if "undoRoutingObject restoreIndex base p ?i = Some r" for r
    using undoRouting_spec[OF assms(1) d, where slot = restoreIndex and i = ?i and dp = dp] that assms(5) by (simp add: order_of_def placed_def)
  let ?out = "insertAt (filter (\<lambda>x. x \<noteq> ?i) (order_of p)) ?i (restoreIndex ?bs (order_of p) ?i)"
  have q: "q = (if (type_of KList, ?i) \<in> urSeen st then p else case undoRoutingObject restoreIndex base p ?i of Some r \<Rightarrow> r | None \<Rightarrow> p)"
    unfolding q_def undo_row_kind[OF assms(4)] undoObject_kind by (simp add: p_def split: option.split)
  have o: "order_of q = order_of p \<or> order_of q = ?out" using q some by (cases "undoRoutingObject restoreIndex base p ?i") auto
  then show "set (order_of q) = set ?bs" using rp(2)[OF m] assms(3) by (auto simp: p_def)
  show "disorder base q < disorder base p \<or> order_of q = order_of p" using o rp(3,4)[OF m] unfolding disorder_def by metis
  assume new: "(type_of KList, ?i) \<notin> urSeen st" and ne: "restoreIndex ?bs (order_of p) ?i \<noteq> position (order_of p) ?i"
  obtain r where r: "undoRoutingObject restoreIndex base p ?i = Some r" using none ne by blast
  then have "order_of q = ?out" using q new some[OF r] by simp
  then show "disorder base q < disorder base p" using rp(4)[OF m ne] by (simp add: disorder_def)
qed

text \<open>Over the rows of a pass.\<close>

lemma list_rows:
  fixes bc :: "'c ReviewConfig_scheme"
  assumes "distinct_ids base" "pass_inv dp base p0 st" "set (order_of (urProfile st)) = set (order_of base)"
    and "\<forall>ch\<in>set rows. valid_row ch \<and> chType ch = type_of KList \<and> chID ch \<in> set (order_of base)"
  defines "p \<equiv> urProfile st" and "q \<equiv> urProfile (foldl (undo_row dp base bc) st rows)"
  shows "disorder base q < disorder base p \<or> order_of q = order_of p"
    "ch \<in> set rows \<Longrightarrow> (type_of KList, chID ch) \<notin> urSeen st \<Longrightarrow> restoreIndex (order_of base) (order_of p) (chID ch) \<noteq> position (order_of p) (chID ch)
       \<Longrightarrow> disorder base q < disorder base p"
proof -
  define Q where "Q st rows = urProfile (foldl (undo_row dp base bc) st rows)" for st rows
  have Q: "Q st [] = urProfile st" "Q st (c # rows) = Q (undo_row dp base bc st c) rows" for st c rows by (simp_all add: Q_def)
  have "(disorder base (Q st rows) < disorder base (urProfile st) \<or> order_of (Q st rows) = order_of (urProfile st))
    \<and> (ch \<in> set rows \<and> (type_of KList, chID ch) \<notin> urSeen st \<and> restoreIndex (order_of base) (order_of (urProfile st)) (chID ch) \<noteq> position (order_of (urProfile st)) (chID ch)
       \<longrightarrow> disorder base (Q st rows) < disorder base (urProfile st))"
    using assms(2-4)
  proof (induction rows arbitrary: st)
    case Nil
    then show ?case by (simp add: Q)
  next
    case (Cons c rows)
    let ?st = "undo_row dp base bc st c"
    have c: "valid_row c" "chType c = type_of KList" "chID c \<in> set (order_of base)" "\<forall>ch\<in>set rows. valid_row ch \<and> chType ch = type_of KList \<and> chID ch \<in> set (order_of base)"
      using Cons.prems(3) by simp_all
    note s = list_step[OF assms(1) Cons.prems(1,2) c(2,3), where bc = bc]
    note IH = Cons.IH[OF pass_step(1)[OF assms(1) Cons.prems(1) c(1)] s(1) c(4)]
    have same: "disorder base (urProfile ?st) = disorder base (urProfile st)" if "order_of (urProfile ?st) = order_of (urProfile st)"
      using that by (simp add: disorder_def)
    have sameQ: "disorder base (Q ?st rows) = disorder base (urProfile ?st)" if "order_of (Q ?st rows) = order_of (urProfile ?st)"
      using that by (simp add: disorder_def)
    have le: "disorder base (Q ?st rows) < disorder base (urProfile st) \<or> order_of (Q ?st rows) = order_of (urProfile st)"
      using IH s(2) same sameQ by (metis less_trans)
    have "disorder base (Q ?st rows) < disorder base (urProfile st)"
      if "ch \<in> set (c # rows)" "(type_of KList, chID ch) \<notin> urSeen st"
        "restoreIndex (order_of base) (order_of (urProfile st)) (chID ch) \<noteq> position (order_of (urProfile st)) (chID ch)"
    proof (cases "chID ch = chID c")
      case True
      then have "disorder base (urProfile ?st) < disorder base (urProfile st)" using s(3) that by simp
      then show ?thesis using IH sameQ by (metis less_trans)
    next
      case False
      then have "ch \<in> set rows" using that(1) by auto
      moreover have "(type_of KList, chID ch) \<notin> urSeen ?st"
        using that(2) False undo_row_kind[OF c(2), where dp = dp and base = base and bc = bc and st = st] by (auto split: option.splits)
      ultimately show ?thesis using IH s(2) same sameQ that(3) by (metis less_trans)
    qed
    then show ?case using le unfolding Q by blast
  qed
  then show "disorder base q < disorder base p \<or> order_of q = order_of p"
    "ch \<in> set rows \<Longrightarrow> (type_of KList, chID ch) \<notin> urSeen st \<Longrightarrow> restoreIndex (order_of base) (order_of p) (chID ch) \<noteq> position (order_of p) (chID ch)
       \<Longrightarrow> disorder base q < disorder base p"
    unfolding p_def q_def Q_def by blast+
qed

section \<open>Another pass\<close>

lemma moved_position:
  assumes "distinct_ids base" "distinct_ids p" "all_settled dp base p"
  shows "moved (prRoutingLists base) (prRoutingLists p) i \<longleftrightarrow> i \<in> set (order_of base) \<and> position (order_of base) i \<noteq> position (order_of p) i"
proof -
  have s: "set (order_of p) = set (order_of base)" by (rule same_lists[OF assms(3)])
  have "filter (\<lambda>x. x \<in> set xs) (takeWhile P xs) = takeWhile P xs" for P and xs :: "id list"
    using set_takeWhileD[of _ P xs] by (auto simp: filter_id_conv)
  then have "shared (set xs) (takeWhile P xs) = length (takeWhile P xs)" for P xs by (simp add: shared_def)
  then have "shared (set (order_of base)) (takeWhile P (order_of p)) = length (takeWhile P (order_of p))"
    "shared (set (order_of p)) (takeWhile P (order_of base)) = length (takeWhile P (order_of base))" for P
    using s by metis+
  then show ?thesis using s by (auto simp: moved_def rank_in_def position_def order_of_def[symmetric] simp flip: set_map)
qed

lemma settled_pass_rows:
  assumes "distinct_ids base" "distinct_ids p" "all_settled dp base p" "settingsEqual bc c" "ch \<in> set (changes dp base p bc c)"
  shows "chType ch = type_of KList" "chID ch \<in> set (order_of base)" "chField ch = ''Position''"
  using settled_rows[OF assms] by (auto simp: moved_def order_of_def)

lemma pass_progress:
  assumes "distinct_ids base" "distinct_ids p" "all_settled dp base p" "settingsEqual bc c" "changes dp base p bc c \<noteq> []"
  shows "disorder base (urProfile (discard_pass dp base bc p c)) < disorder base p"
proof -
  have "order_of p \<noteq> order_of base"
  proof
    assume "order_of p = order_of base"
    then show False using settled_rows[OF assms(1-4)] moved_position[OF assms(1-3)] assms(5) by (metis list.set_intros(1) neq_Nil_conv)
  qed
  then obtain i where i: "i \<in> set (order_of p)" "position (order_of base) i \<noteq> position (order_of p) i" "restoreIndex (order_of base) (order_of p) i \<noteq> position (order_of p) i"
    using stuck_is_baseline[OF order_distinct order_distinct, OF assms(1,2) same_lists[OF assms(3)]] by blast
  then have "moved (prRoutingLists base) (prRoutingLists p) i" using moved_position[OF assms(1-3)] same_lists[OF assms(3)] by blast
  then obtain ch where ch: "ch \<in> set (diffRoutingLists (prRoutingLists base) (prRoutingLists p))" "chID ch = i"
    using position_row_iff[of "prRoutingLists base" "prRoutingLists p" i] assms(1,2) unfolding distinct_ids_def by blast
  then have c: "ch \<in> set (changes dp base p bc c)" by (simp add: changes_def)
  have inv: "pass_inv dp base p \<lparr>urProfile = p, urConfig = c, urTouched = False, urSeen = {}\<rparr>" using assms(2) by (simp add: pass_inv_def)
  have rows: "\<forall>ch\<in>set (changes dp base p bc c). valid_row ch \<and> chType ch = type_of KList \<and> chID ch \<in> set (order_of base)"
    using settled_pass_rows[OF assms(1-4)] rows_valid by blast
  show ?thesis unfolding pass_eq
    using list_rows(2)[OF assms(1) inv _ rows c] same_lists[OF assms(3)] i(3) ch(2) by simp
qed

lemma list_count:
  assumes "distinct_ids base" "distinct_ids p" "all_settled dp base p"
  shows "length (prRoutingLists p) = length (prRoutingLists base)"
  using same_lists[OF assms(3)] order_distinct[OF assms(1)] order_distinct[OF assms(2)]
  by (metis distinct_card length_map order_of_def)

text \<open>A pass that changes nothing had nothing to do.\<close>

lemma untouched_row: "\<not> urTouched (undo_row dp base bc st ch) \<Longrightarrow> \<not> urTouched st \<and> urProfile (undo_row dp base bc st ch) = urProfile st \<and> urConfig (undo_row dp base bc st ch) = urConfig st"
  by (auto simp: undo_row_def Let_def split: if_splits option.splits prod.splits)

lemma untouched_rows:
  "\<not> urTouched (foldl (undo_row dp base bc) st rows) \<Longrightarrow>
    urProfile (foldl (undo_row dp base bc) st rows) = urProfile st \<and> urConfig (foldl (undo_row dp base bc) st rows) = urConfig st \<and> \<not> urTouched st"
  by (induction rows arbitrary: st) (auto dest: untouched_row)

lemma untouched_pass:
  assumes "distinct_ids base" "distinct_ids p"
  shows "urTouched (discard_pass dp base bc p c) \<longleftrightarrow> changes dp base p bc c \<noteq> []"
proof
  assume "changes dp base p bc c \<noteq> []"
  show "urTouched (discard_pass dp base bc p c)"
  proof (rule ccontr)
    assume "\<not> urTouched (discard_pass dp base bc p c)"
    then have "urProfile (discard_pass dp base bc p c) = p" "urConfig (discard_pass dp base bc p c) = c" using untouched_rows[where st = "\<lparr>urProfile = p, urConfig = c, urTouched = False, urSeen = {}\<rparr>"] unfolding pass_eq by simp_all
    then show False using pass_settles[OF assms, of dp bc c] pass_progress[OF assms, of dp bc c] \<open>changes dp base p bc c \<noteq> []\<close> by simp
  qed
next
  assume "urTouched (discard_pass dp base bc p c)"
  then show "changes dp base p bc c \<noteq> []" unfolding pass_eq by (cases "changes dp base p bc c") simp_all
qed

lemma undo_passes_Suc: "undo_passes (Suc n) dp base bc (\<lambda>_. True) (p, c, t) =
    (if urTouched (discard_pass dp base bc p c) then undo_passes n dp base bc (\<lambda>_. True) (urProfile (discard_pass dp base bc p c), urConfig (discard_pass dp base bc p c), True) else (p, c, t))"
  by (simp add: discard_pass_def Let_def)

definition settled_state :: "Deps \<Rightarrow> Profile \<Rightarrow> 'c ReviewConfig_scheme \<Rightarrow> Profile \<times> 'c ReviewConfig_scheme \<Rightarrow> bool" where
  "settled_state dp base bc s \<longleftrightarrow> distinct_ids (fst s) \<and> all_settled dp base (fst s) \<and> settingsEqual bc (snd s)"

lemma passes_settled:
  assumes "distinct_ids base" "settled_state dp base bc (p, c)"
  shows "case undo_passes n dp base bc (\<lambda>_. True) (p, c, t) of (p', c', t') \<Rightarrow> settled_state dp base bc (p', c') \<and> (disorder base p \<le> n \<longrightarrow> changes dp base p' bc c' = [])
     \<and> (t \<longrightarrow> t')"
  using assms(2)
proof (induction n arbitrary: p c t)
  case 0
  then have "changes dp base p bc c = []" if "disorder base p = 0"
    using pass_progress[OF assms(1), of p dp bc c] that unfolding settled_state_def by (metis fst_conv snd_conv not_less0)
  then show ?case using 0 by simp
next
  case (Suc n)
  let ?st = "discard_pass dp base bc p c"
  have s: "distinct_ids p" "all_settled dp base p" "settingsEqual bc c" using Suc.prems by (simp_all add: settled_state_def)
  note u = untouched_pass[OF assms(1) s(1), of dp bc c]
  show ?case
  proof (cases "urTouched ?st")
    case False
    then show ?thesis using u Suc.prems unfolding undo_passes_Suc by simp
  next
    case True
    have n: "settled_state dp base bc (urProfile ?st, urConfig ?st)" using pass_settles[OF assms(1) s(1)] by (simp add: settled_state_def)
    have "disorder base (urProfile ?st) < disorder base p" using pass_progress[OF assms(1) s] True u by blast
    then have "disorder base p \<le> Suc n \<longrightarrow> disorder base (urProfile ?st) \<le> n" by linarith
    then show ?thesis using Suc.IH[OF n, of True] True unfolding undo_passes_Suc by (auto split: prod.splits)
  qed
qed

text \<open>Each pass is at least one pair of lists closer.\<close>

lemma passes_progress:
  assumes "distinct_ids base" "settled_state dp base bc (p, c)"
  shows "case undo_passes n dp base bc (\<lambda>_. True) (p, c, t) of (p', c', t') \<Rightarrow> changes dp base p' bc c' = [] \<or> disorder base p' + n \<le> disorder base p"
  using assms(2)
proof (induction n arbitrary: p c t)
  case (Suc n)
  let ?st = "discard_pass dp base bc p c"
  have s: "distinct_ids p" "all_settled dp base p" "settingsEqual bc c" using Suc.prems by (simp_all add: settled_state_def)
  note u = untouched_pass[OF assms(1) s(1), of dp bc c]
  show ?case
  proof (cases "urTouched ?st")
    case False
    then show ?thesis using u unfolding undo_passes_Suc by simp
  next
    case True
    have n: "settled_state dp base bc (urProfile ?st, urConfig ?st)" using pass_settles[OF assms(1) s(1)] by (simp add: settled_state_def)
    have "disorder base (urProfile ?st) < disorder base p" using pass_progress[OF assms(1) s] True u by blast
    then show ?thesis using Suc.IH[OF n, of True] True unfolding undo_passes_Suc by (auto split: prod.splits)
  qed
qed simp

lemma passes_from_any:
  assumes "distinct_ids base" "distinct_ids p"
  shows "case undo_passes (Suc n) dp base bc (\<lambda>_. True) (p, c, False) of (p', c', t) \<Rightarrow>
    (t \<longleftrightarrow> changes dp base p bc c \<noteq> []) \<and> (\<not> t \<longrightarrow> p' = p \<and> c' = c) \<and> (t \<longrightarrow> settled_state dp base bc (p', c'))
    \<and> (changes dp base p' bc c' = [] \<or> disorder base p' + n \<le> length (prRoutingLists base) * (length (prRoutingLists base) - 1) div 2)
    \<and> (length (prRoutingLists base) * (length (prRoutingLists base) - 1) div 2 \<le> n \<longrightarrow> changes dp base p' bc c' = [])"
proof (cases "urTouched (discard_pass dp base bc p c)")
  case False
  then show ?thesis using untouched_pass[OF assms, of dp bc c] unfolding undo_passes_Suc by simp
next
  case True
  let ?st = "discard_pass dp base bc p c" and ?L = "length (prRoutingLists base)"
  have s: "settled_state dp base bc (urProfile ?st, urConfig ?st)" using pass_settles[OF assms] by (simp add: settled_state_def)
  then have "length (prRoutingLists (urProfile ?st)) = ?L" using list_count[OF assms(1), of "urProfile ?st" dp] by (simp add: settled_state_def)
  then have "disorder base (urProfile ?st) \<le> ?L * (?L - 1) div 2"
    using inversions_bound[of "order_of base" "order_of (urProfile ?st)"] by (simp add: disorder_def order_of_def)
  then show ?thesis using passes_settled[OF assms(1) s, of n True] passes_progress[OF assms(1) s, of n True] True untouched_pass[OF assms, of dp bc c] unfolding undo_passes_Suc
    by (auto split: prod.splits)
qed

end
