(* ===== verification/Change_Review.thy ===== *)
theory Change_Review
  imports Change_Discard
begin

text \<open>
  What the review promises: every reported change can be undone, an undo touches nothing else, discarding
  everything comes back to the baseline, and no secret value is ever printed.
\<close>

section \<open>The rows about one object\<close>

definition reported :: "Deps \<Rightarrow> Profile \<Rightarrow> Profile \<Rightarrow> 'c ReviewConfig_scheme \<Rightarrow> 'c ReviewConfig_scheme \<Rightarrow> kind \<Rightarrow> id \<Rightarrow> bool" where
  "reported dp base p bc c k i \<longleftrightarrow> (\<exists>ch\<in>set (csChanges (Diff dp '''' '''' base p bc c)). chType ch = type_of k \<and> chID ch = i)"

lemma reported_eq: "reported dp base p bc c k i \<longleftrightarrow> (\<exists>ch\<in>set (changes dp base p bc c). chType ch = type_of k \<and> chID ch = i)"
  by (simp add: reported_def Diff_def)

lemma diff_objects_none:
  assumes "distinct (map key base)" "distinct (map key desired)" "c \<in> set (diff_objects key added changed removed base desired)"
    and "same_object (\<lambda>b d. changed b d = []) (by_id key base i) (by_id key desired i)"
    and "\<And>d. chID (added d) = key d" "\<And>b d. \<forall>c\<in>set (changed b d). chID c = key d" "\<And>b. chID (removed b) = key b"
  shows "chID c \<noteq> i"
proof
  assume i: "chID c = i"
  consider d where "d \<in> set desired" "by_id key base (key d) = None" "c = added d"
    | d b where "d \<in> set desired" "by_id key base (key d) = Some b" "c \<in> set (changed b d)"
    | b where "b \<in> set base" "key b \<notin> key ` set desired" "c = removed b"
    using assms(3) unfolding set_diff_objects by blast
  then show False
  proof cases
    case 1
    then show False using i assms(4,5) by_id_self[OF assms(2)] by force
  next
    case 2
    then show False using i assms(4,6) by_id_self[OF assms(2), of d] by force
  next
    case 3
    then have "by_id key base i = Some b" "by_id key desired i = None" using i assms(7) by_id_self[OF assms(1)] by_id_None by metis+
    then show False using assms(4) by simp
  qed
qed

definition section_of :: "Deps \<Rightarrow> Profile \<Rightarrow> Profile \<Rightarrow> kind \<Rightarrow> Change list" where
  "section_of dp base p k =
    (case k of KEndpoint \<Rightarrow> diffEndpoints dp (prEndpoints base) (prEndpoints p) | KGroup \<Rightarrow> diffGroups (prGroups base) (prGroups p)
     | KList \<Rightarrow> diffRoutingLists (prRoutingLists base) (prRoutingLists p) | KRule \<Rightarrow> diffRules (prRules base) (prRules p)
     | KDevices \<Rightarrow> diffDeviceGroups (prDeviceGroups base) (prDeviceGroups p) | KDNS \<Rightarrow> diffDNSPlane (prDNS base) (prDNS p))"

lemma kind_ex: "(\<exists>k. P k) \<longleftrightarrow> P KEndpoint \<or> P KGroup \<or> P KList \<or> P KRule \<or> P KDevices \<or> P KDNS"
  using kind.exhaust by metis

lemma section_typed: "ch \<in> set (section_of dp base p k) \<Longrightarrow> chType ch = type_of k"
  using rows_typed by (cases k) (simp_all add: section_of_def)

lemma changes_sections: "ch \<in> set (changes dp base p bc c) \<longleftrightarrow> (\<exists>k. ch \<in> set (section_of dp base p k)) \<or> ch \<in> set (diffSettings dp bc c)"
  unfolding kind_ex by (simp add: changes_def section_of_def)

lemma reported_section: "reported dp base p bc c k i \<longleftrightarrow> (\<exists>ch\<in>set (section_of dp base p k). chID ch = i)"
proof -
  have "ch \<in> set (changes dp base p bc c) \<and> chType ch = type_of k \<longleftrightarrow> ch \<in> set (section_of dp base p k)" for ch
    using section_typed[of ch dp base p] settings_typed[of dp bc c] type_of_simps unfolding changes_sections by metis
  then show ?thesis unfolding reported_eq by blast
qed

lemma not_reported:
  assumes "distinct_ids base" "distinct_ids p" "object_settled dp base p k i" "k = KList \<Longrightarrow> \<not> moved (prRoutingLists base) (prRoutingLists p) i"
  shows "\<not> reported dp base p bc c k i"
proof -
  note d = assms(1,2)[unfolded distinct_ids_def]
  have "chID ch \<noteq> i" if ch: "ch \<in> set (section_of dp base p k)" for ch
  proof (cases k)
    case KEndpoint
    show ?thesis using ch d assms(3) endpoint_fields_typed unfolding KEndpoint section_of_def kind.case diffEndpoints_def
      by (elim conjE diff_objects_none[rotated 2]) (simp_all add: object_settled_def endpoint_added_def endpoint_removed_def Let_def)
  next
    case KGroup
    show ?thesis using ch d assms(3) group_fields_typed unfolding KGroup section_of_def kind.case diffGroups_def
      by (elim conjE diff_objects_none[rotated 2]) (simp_all add: object_settled_def)
  next
    case KList
    let ?b = "prRoutingLists base" and ?d = "prRoutingLists p"
    let ?ch = "\<lambda>b d. diffListFields b d @ position_rows (relativeOrder ?b ?d) (relativeOrder ?d ?b) d"
    have dl: "distinct (map rlID ?b)" "distinct (map rlID ?d)" using d by simp_all
    have "same_object (\<lambda>b d. ?ch b d = []) (by_id rlID ?b i) (by_id rlID ?d i)"
    proof (cases "by_id rlID ?d i")
      case (Some x)
      then have "position_rows (relativeOrder ?b ?d) (relativeOrder ?d ?b) x = []"
        using assms(4)[OF KList] by_id_Some[OF dl(2)] position_rows_eq[OF dl] by (metis only_if_def)
      then show ?thesis using Some assms(3) KList by (cases "by_id rlID ?b i") (simp_all add: object_settled_def)
    qed (use assms(3) KList in \<open>simp add: object_settled_def\<close>)
    moreover have "\<forall>c\<in>set (?ch x y). chID c = rlID y" for x y
      using all_list_fields by (auto simp: position_rows_def Let_def split: option.splits if_splits)
    ultimately show ?thesis using diff_objects_none[OF dl, where c = ch and i = i] ch
      unfolding KList section_of_def kind.case diffRoutingLists_def by (simp add: list_change_def)
  next
    case KRule
    show ?thesis using ch d assms(3) unfolding KRule section_of_def kind.case diffRules_def
      by (elim conjE diff_objects_none[rotated 2]) (auto simp: object_settled_def rule_change_def sameJSON_def same_object_def split: option.splits)
  next
    case KDevices
    show ?thesis using ch d assms(3) unfolding KDevices section_of_def kind.case diffDeviceGroups_def
      by (elim conjE diff_objects_none[rotated 2]) (auto simp: object_settled_def device_change_def sameJSON_def same_object_def split: option.splits)
  next
    case KDNS
    then show ?thesis using ch assms(3) dns_typed by (auto simp: object_settled_def section_of_def)
  qed
  then show ?thesis unfolding reported_section by blast
qed

lemma reported_iff:
  assumes "distinct_ids base" "distinct_ids p"
  shows "reported dp base p bc c k i \<longleftrightarrow> \<not> object_settled dp base p k i \<or> k = KList \<and> moved (prRoutingLists base) (prRoutingLists p) i"
proof -
  have "reported dp base p bc c KList i" if "moved (prRoutingLists base) (prRoutingLists p) i"
    using that position_row_iff[of "prRoutingLists base" "prRoutingLists p" i] assms
    unfolding reported_section section_of_def distinct_ids_def by auto
  then show ?thesis using unsettled_row[OF assms, where k = k and i = i] not_reported[OF assms, where k = k and i = i] unfolding reported_eq by blast
qed

section \<open>Undoing one object\<close>

lemma undoOrdered_None:
  assumes "distinct (map key base)" "distinct (map key desired)" "same_object eq (by_id key base i) (by_id key desired i)"
    and "i \<in> key ` set base \<and> i \<in> key ` set desired \<Longrightarrow> in_place slot (map key base) (map key desired) i"
  shows "undoOrdered key eq slot base desired i = None"
proof (cases "by_id key base i")
  case None
  then have "by_id key desired i = None" using assms(3) by simp
  then show ?thesis using None by_id_None[of key base i] by_id_None[of key desired i] by (simp add: undoOrdered_def indexByID_eq)
next
  case (Some b)
  then obtain d where d: "by_id key desired i = Some d" "eq b d" using assms(3) by (cases "by_id key desired i") simp_all
  have m: "b \<in> set base" "key b = i" "d \<in> set desired" "key d = i" using Some d by_id_Some assms(1,2) by metis+
  then have "base ! position (map key base) i = b" "desired ! position (map key desired) i = d" using at_position assms(1,2) by metis+
  moreover have "i \<in> key ` set base" "i \<in> key ` set desired" using imageI[OF m(1), of key] imageI[OF m(3), of key] m(2,4) by simp_all
  ultimately show ?thesis using d(2) assms(4) by (cases slot) (simp_all add: undoOrdered_def indexByID_eq in_place_def Let_def)
qed

lemma undo_settled:
  assumes "distinct_ids base" "distinct_ids p" "object_settled dp base p k i"
    and "k = KList \<and> i \<in> set (order_of base) \<and> i \<in> set (order_of p) \<Longrightarrow> slot (order_of base) (order_of p) i = position (order_of p) i"
  shows "undoObject dp slot base p bc c (type_of k) i = None"
proof -
  note d = assms(1,2)[unfolded distinct_ids_def]
  note N = undoOrdered_None[where slot = None, unfolded in_place_def option.case]
  show ?thesis
  proof (cases k)
    case KEndpoint
    then show ?thesis using N[of epID "prEndpoints base" "prEndpoints p" "endpointsEqual dp" i] d assms(3)
      unfolding undoObject_kind by (simp add: undoEndpointObject_def object_settled_def endpointsEqual_def[abs_def])
  next
    case KGroup
    have "same_object groupsEqual (by_id grID (prGroups base) i) (by_id grID (prGroups p) i)"
      by (rule same_object_mono[where eq = "\<lambda>b d. diffGroupFields b d = []"]) (use d assms(3) KGroup in \<open>simp_all add: object_settled_def equal_iff\<close>)
    then show ?thesis using N[of grID "prGroups base" "prGroups p" groupsEqual i] d KGroup unfolding undoObject_kind by (simp add: undoGroupObject_def)
  next
    case KRule
    have "same_object rulesEqual (by_id ruID (prRules base) i) (by_id ruID (prRules p) i)"
      by (rule same_object_mono[where eq = "(=)"]) (use d assms(3) KRule in \<open>simp_all add: object_settled_def equal_iff\<close>)
    then show ?thesis using N[of ruID "prRules base" "prRules p" rulesEqual i] d KRule unfolding undoObject_kind by (simp add: undoRuleObject_def)
  next
    case KDevices
    have "same_object deviceGroupsEqual (by_id dgID (prDeviceGroups base) i) (by_id dgID (prDeviceGroups p) i)"
      by (rule same_object_mono[where eq = "(=)"]) (use d assms(3) KDevices in \<open>simp_all add: object_settled_def equal_iff\<close>)
    then show ?thesis using N[of dgID "prDeviceGroups base" "prDeviceGroups p" deviceGroupsEqual i] d KDevices unfolding undoObject_kind by (simp add: undoDeviceGroupObject_def)
  next
    case KDNS
    then show ?thesis using assms(3) unfolding undoObject_kind by (auto simp: undoDNSObject_def object_settled_def)
  next
    case KList
    let ?B = "prRoutingLists base" and ?D = "prRoutingLists p" and ?C = "clocked base p i"
    have dd: "distinct (map rlID ?B)" "distinct (map rlID ?D)" using d by simp_all
    note cl = clocked_spec[OF dd, of i]
    have ids: "rlID ` set ?C = rlID ` set ?B" using cl(1) by (metis image_set)
    have "same_object (\<lambda>b d. diffListFields b d = []) (by_id rlID ?C i) (by_id rlID ?D i)"
      using assms(3) KList cl(2) by (cases "by_id rlID ?B i"; cases "by_id rlID ?D i") (simp_all add: object_settled_def)
    then have "same_object routingEqual (by_id rlID ?C i) (by_id rlID ?D i)"
      by (rule same_object_mono) (use dd cl(1) in \<open>simp_all add: routingEqual_iff\<close>)
    moreover have "in_place (Some slot) (map rlID ?C) (map rlID ?D) i" if "i \<in> rlID ` set ?C \<and> i \<in> rlID ` set ?D"
      using that assms(4) KList ids cl(1) by (simp add: in_place_def order_of_def)
    ultimately have "undoOrdered rlID routingEqual (Some slot) ?C ?D i = None" using undoOrdered_None[of rlID ?C ?D routingEqual i "Some slot"] dd cl(1) by simp
    then show ?thesis unfolding undoObject_kind KList by (simp add: undoRouting_clocked)
  qed
qed


lemma placed_spec:
  assumes "distinct bs" "distinct ds"
  shows "filter (\<lambda>j. j \<noteq> i) (placed f bs ds i) = filter (\<lambda>j. j \<noteq> i) ds"
    and "i \<in> set bs \<Longrightarrow> rank_in (placed rankSlot bs ds i) bs i = rank_in bs (placed rankSlot bs ds i) i"
proof -
  show "filter (\<lambda>j. j \<noteq> i) (placed f bs ds i) = filter (\<lambda>j. j \<noteq> i) ds" by (simp add: placed_def filter_insertAt)
  assume i: "i \<in> set bs"
  let ?r = "filter (\<lambda>x. x \<noteq> i) ds" and ?n = "rankSlot bs ds i" and ?out = "placed rankSlot bs ds i"
  note s = rankSlot_spec[OF assms i]
  have out: "?out = take ?n ?r @ i # drop ?n ?r" using i insertAt_le[OF s(1)] by (simp add: placed_def)
  have "i \<notin> set (take ?n ?r)" using set_take_subset[of ?n ?r] by auto
  then have "rank_in ?out bs i = shared (set bs) (take ?n ?r)" unfolding out rank_in_def by (subst takeWhile_cut) simp_all
  moreover have "set ?out = insert i (set ds)" using i by (auto simp: placed_def set_insertAt)
  then have "rank_in bs ?out i = rank_in bs ds i" using set_takeWhileD[of _ "\<lambda>x. x \<noteq> i" bs]
    unfolding rank_in_def shared_def by (metis (mono_tags, lifting) filter_cong insert_iff)
  ultimately show "rank_in ?out bs i = rank_in bs ?out i" using s(2) by simp
qed

section \<open>Undoing a move\<close>

definition row_pending :: "Deps \<Rightarrow> Profile \<Rightarrow> Profile \<Rightarrow> 'c ReviewConfig_scheme \<Rightarrow> 'c ReviewConfig_scheme \<Rightarrow> kind \<Rightarrow> id \<Rightarrow> string \<Rightarrow> bool" where
  "row_pending dp base p bc c k i f \<longleftrightarrow> (\<exists>ch\<in>set (csChanges (Diff dp '''' '''' base p bc c)). chType ch = type_of k \<and> chID ch = i \<and> chField ch = f)"

lemma position_pending:
  assumes "distinct_ids base" "distinct_ids p"
  shows "row_pending dp base p bc c KList i ''Position'' \<longleftrightarrow> moved (prRoutingLists base) (prRoutingLists p) i"
proof -
  have "ch \<in> set (changes dp base p bc c) \<and> chType ch = type_of KList \<longleftrightarrow> ch \<in> set (section_of dp base p KList)" for ch
    using section_typed[of ch dp base p] settings_typed[of dp bc c] type_of_simps unfolding changes_sections by metis
  then show ?thesis using position_row_iff[of "prRoutingLists base" "prRoutingLists p" i] assms
    unfolding row_pending_def Diff_def distinct_ids_def by (auto simp: section_of_def)
qed

lemma undoField_position:
  "undoField dp base p bc c ''routing_list'' i ''Position'' = map_option (\<lambda>q. (q, c)) (undoRoutingPosition base p i)"
proof -
  have n: "revertRoutingField r b ''Position'' = None" for r b by (simp add: revertRoutingField_def)
  have "revert_in rlID (\<lambda>r b. revertRoutingField r b ''Position'') bs ds i = None" for bs ds
    unfolding n by (simp add: revert_in_def split: option.split)
  then show ?thesis by (cases "undoRoutingPosition base p i") (simp_all add: undoField_def wants_def Let_def)
qed

lemma undoRoutingPosition_spec:
  assumes "distinct_ids base" "distinct_ids p"
  shows "case undoRoutingPosition base p i of
      None \<Rightarrow> \<not> moved (prRoutingLists base) (prRoutingLists p) i
    | Some q \<Rightarrow> moved (prRoutingLists base) (prRoutingLists p) i \<and> \<not> moved (prRoutingLists base) (prRoutingLists q) i
        \<and> (\<exists>ls. q = p\<lparr>prRoutingLists := ls\<rparr> \<and> mset ls = mset (prRoutingLists p)
            \<and> filter (\<lambda>l. rlID l \<noteq> i) ls = filter (\<lambda>l. rlID l \<noteq> i) (prRoutingLists p))"
proof -
  let ?B = "prRoutingLists base" and ?D = "prRoutingLists p"
  let ?n = "rankSlot (map rlID ?B) (map rlID ?D) i" and ?r = "filter (\<lambda>l. rlID l \<noteq> i) ?D"
  have d: "distinct (map rlID ?B)" "distinct (map rlID ?D)" using assms by (simp_all add: distinct_ids_def)
  show ?thesis
  proof (cases "i \<in> rlID ` set ?B \<and> i \<in> rlID ` set ?D")
    case False
    then show ?thesis by (auto simp: undoRoutingPosition_def indexByID_eq moved_def split: option.split)
  next
    case True
    then have m: "i \<in> set (map rlID ?B)" "i \<in> set (map rlID ?D)" by simp_all
    let ?x = "?D ! position (map rlID ?D) i"
    have x: "?x \<in> set ?D" "rlID ?x = i" using position_nth[of i rlID ?D] True by simp_all
    have mv: "moved ?B ?D i \<longleftrightarrow> ?n \<noteq> position (map rlID ?D) i" using rankSlot_spec(3)[OF d m] True by (auto simp: moved_def)
    have u: "undoRoutingPosition base p i = (if ?n = position (map rlID ?D) i then None else Some (p\<lparr>prRoutingLists := insertAt ?r ?x ?n\<rparr>))"
      using True cut_out[OF d(2), of i] by (simp add: undoRoutingPosition_def indexByID_eq Let_def)
    let ?out = "insertAt ?r ?x ?n"
    have ids: "map rlID ?out = placed rankSlot (map rlID ?B) (map rlID ?D) i" using x(2) m(1) by (simp add: placed_def map_insertAt filter_map_key)
    have "\<not> moved ?B ?out i" using placed_spec(2)[OF d m(1)] unfolding ids[symmetric] moved_def by simp
    moreover have "mset ?out = mset ?D"
    proof -
      let ?k = "position (map rlID ?D) i"
      have "?D = take ?k ?D @ ?x # drop (Suc ?k) ?D" using position_nth(1)[of i rlID ?D] True by (simp add: id_take_nth_drop)
      then have "mset ?D = add_mset ?x (mset (take ?k ?D) + mset (drop (Suc ?k) ?D))"
        by (metis (no_types, lifting) mset.simps(2) mset_append union_mset_add_mset_right)
      also have "mset (take ?k ?D) + mset (drop (Suc ?k) ?D) = mset ?r" using cut_out[OF d(2), of i] True by (metis Suc_eq_plus1 mset_append)
      finally show ?thesis by (simp add: mset_insertAt)
    qed
    ultimately show ?thesis using u mv x(2) by (auto simp: filter_insertAt)
  qed
qed


section \<open>A review\<close>

definition a_list :: "id \<Rightarrow> RoutingList" where
  "a_list i = \<lparr>rlID = i, rlName = i, rlSource = '''', rlFormat = '''', rlManual = [''10.0.0.0/8''], rlOutbound = ''direct'', rlDownloadVia = '''',
     rlRefreshHours = 0, rlEnabled = True, rlCIDRSource = '''', rlCIDRCache = [], rlCIDRRefreshed = 0, rlDomainSource = '''',
     rlDomainCache = [], rlDomainRefreshed = 0, rlScopeMode = '''', rlScopeGroups = [], rlTLSFragment = ''''\<rparr>"

definition lists_only :: "RoutingList list \<Rightarrow> Profile" where
  "lists_only ls = \<lparr>prEndpoints = [], prGroups = [], prRules = [], prRoutingLists = ls, prDeviceGroups = [], prDNS = None\<rparr>"

definition base_lists :: Profile where
  "base_lists = lists_only [a_list ''a'', a_list ''b'', a_list ''c'']"

definition now_lists :: Profile where
  "now_lists = lists_only [(a_list ''c'')\<lparr>rlEnabled := False\<rparr>, a_list ''a'', a_list ''b'']"

definition some_config :: ReviewConfig where
  "some_config = \<lparr>cfRoutingMode = ''pbr'', cfOffload = '''', cfRuleSetDetour = '''', cfCoreOverride = ''''\<rparr>"

definition plain_deps :: Deps where
  "plain_deps = \<lparr>dpUnicode = (\<lambda>s. s), dpDigest = (\<lambda>s. ''digest''), dpKeys = (\<lambda>s. None)\<rparr>"

lemma sample_distinct: "distinct_ids base_lists" "distinct_ids now_lists"
  by (simp_all add: distinct_ids_def base_lists_def now_lists_def lists_only_def a_list_def)

definition undo_object :: "kind \<Rightarrow> id \<Rightarrow> UndoRequest" where
  "undo_object k i = \<lparr>rqScope = ScopeObject, rqID = i, rqObjectType = type_of k, rqField = '''', rqSubsystem = ''''\<rparr>"

definition undo_position :: "id \<Rightarrow> UndoRequest" where
  "undo_position i = \<lparr>rqScope = ScopeField, rqID = i, rqObjectType = type_of KList, rqField = ''Position'', rqSubsystem = ''''\<rparr>"

definition undo_everything :: UndoRequest where
  "undo_everything = \<lparr>rqScope = ScopeAll, rqID = '''', rqObjectType = '''', rqField = '''', rqSubsystem = ''''\<rparr>"

text \<open>C13. Undo of one object, exactly: it is refused if and only if the review shows no row about the object; otherwise
  afterwards no row about it is left, every other object of every kind is as it was, the routing lists keep their order
  apart from the one undone, and the settings are untouched.\<close>

theorem object_undo_exact:
  assumes "distinct_ids base" "distinct_ids p" "i \<noteq> ''''"
  shows "case Undo dp base p bc c (undo_object k i) of
      Inl e \<Rightarrow> e = NoObjectChange i \<and> \<not> reported dp base p bc c k i
    | Inr (p', c') \<Rightarrow> reported dp base p bc c k i \<and> \<not> reported dp base p' bc c' k i \<and> c' = c
        \<and> (\<forall>k' j. (k', j) \<noteq> (k, i) \<longrightarrow> agree p p' k' j)
        \<and> filter (\<lambda>j. j \<noteq> i) (order_of p') = filter (\<lambda>j. j \<noteq> i) (order_of p)"
proof -
  note spec = undoObject_spec[OF assms(1,2), where dp = dp and slot = rankSlot and bc = bc and c = c and k = k and i = i]
  note lists = undoRouting_spec[OF assms(1,2), where slot = rankSlot and i = i and dp = dp]
  note d = order_distinct[OF assms(1)] order_distinct[OF assms(2)]
  have mv: "moved (prRoutingLists base) (prRoutingLists p) i \<longleftrightarrow> i \<in> set (order_of base) \<and> i \<in> set (order_of p)
      \<and> rankSlot (order_of base) (order_of p) i \<noteq> position (order_of p) i"
  proof -
    have "moved (prRoutingLists base) (prRoutingLists p) i \<longleftrightarrow> i \<in> set (order_of base) \<and> i \<in> set (order_of p)
        \<and> rank_in (order_of base) (order_of p) i \<noteq> rank_in (order_of p) (order_of base) i"
      by (simp add: moved_def order_of_def)
    then show ?thesis using rankSlot_spec(3)[OF d, of i] by metis
  qed
  show ?thesis
  proof (cases "undoObject dp rankSlot base p bc c (type_of k) i")
    case None
    then have s: "object_settled dp base p k i" using spec by simp
    have "\<not> moved (prRoutingLists base) (prRoutingLists p) i" if "k = KList"
      using None lists that mv unfolding that undoObject_kind by (auto simp: order_of_def split: option.splits)
    then have "\<not> reported dp base p bc c k i" using s reported_iff[OF assms(1,2)] by blast
    then show ?thesis using None assms(3) by (simp add: Undo_def undo_object_def)
  next
    case (Some x)
    obtain q c' where x: "x = (q, c')" by (cases x)
    then have r: "c' = c" "reverted dp base p k i q" using Some spec by simp_all
    then have q: "distinct_ids q" "object_settled dp base q k i" by (simp_all add: reverted_def)
    have pend: "reported dp base p bc c k i"
      using Some undo_settled[OF assms(1,2), where dp = dp and k = k and i = i and slot = rankSlot and bc = bc and c = c] mv
      unfolding reported_iff[OF assms(1,2)] by fastforce
    have ord: "k = KList \<longrightarrow> order_of q = placed rankSlot (order_of base) (order_of p) i" "k \<noteq> KList \<longrightarrow> order_of q = order_of p"
      using Some lists r(2) x unfolding undoObject_kind by (auto simp: order_of_def reverted_def split: option.splits)
    have "\<not> moved (prRoutingLists base) (prRoutingLists q) i" if "k = KList"
      using ord(1) that placed_spec(2)[OF d, of i] by (auto simp: moved_def order_of_def)
    then have "\<not> reported dp base q bc c' k i" using q reported_iff[OF assms(1) q(1)] by blast
    moreover have "filter (\<lambda>j. j \<noteq> i) (order_of q) = filter (\<lambda>j. j \<noteq> i) (order_of p)"
      using ord placed_spec(1)[OF d] by metis
    ultimately show ?thesis using Some x r pend assms(3) by (simp add: Undo_def undo_object_def reverted_def)
  qed
qed

text \<open>Undoing the moved and disabled list of the sample.\<close>

lemma sample_undo: "Undo plain_deps base_lists now_lists some_config some_config (undo_object KList ''c'') = Inr (base_lists, some_config)"
  by code_simp

lemma object_undo_exact_witness:
  "reported plain_deps base_lists now_lists some_config some_config KList ''c'' \<and> \<not> reported plain_deps base_lists base_lists some_config some_config KList ''c''"
  using object_undo_exact[OF sample_distinct, of "''c''" plain_deps some_config some_config KList] sample_undo by simp

text \<open>C18. Undo of a move, exactly: the \<^verbatim>\<open>Position\<close> row of a routing list can be undone if and only if the review shows it; the
  undo clears that row, changes no list, keeps the order of all the others, and touches nothing else.\<close>

theorem position_undo_exact:
  assumes "distinct_ids base" "distinct_ids p" "i \<noteq> ''''"
  shows "case Undo dp base p bc c (undo_position i) of
      Inl e \<Rightarrow> e = NoFieldChange ''Position'' i \<and> \<not> row_pending dp base p bc c KList i ''Position''
    | Inr (p', c') \<Rightarrow> row_pending dp base p bc c KList i ''Position'' \<and> \<not> row_pending dp base p' bc c' KList i ''Position'' \<and> c' = c
        \<and> p' = p\<lparr>prRoutingLists := prRoutingLists p'\<rparr> \<and> mset (prRoutingLists p') = mset (prRoutingLists p)
        \<and> filter (\<lambda>l. rlID l \<noteq> i) (prRoutingLists p') = filter (\<lambda>l. rlID l \<noteq> i) (prRoutingLists p)"
proof (cases "undoRoutingPosition base p i")
  case None
  then show ?thesis using undoRoutingPosition_spec[OF assms(1,2), of i] assms(3)
    by (simp add: Undo_def undo_position_def undoField_position position_pending[OF assms(1,2)])
next
  case (Some q)
  then obtain ls where q: "q = p\<lparr>prRoutingLists := ls\<rparr>" "mset ls = mset (prRoutingLists p)"
    "filter (\<lambda>l. rlID l \<noteq> i) ls = filter (\<lambda>l. rlID l \<noteq> i) (prRoutingLists p)"
    and m: "moved (prRoutingLists base) (prRoutingLists p) i" "\<not> moved (prRoutingLists base) (prRoutingLists q) i"
    using undoRoutingPosition_spec[OF assms(1,2), of i] by auto
  have "mset (map rlID ls) = mset (map rlID (prRoutingLists p))" using q(2) by simp
  then have "distinct (map rlID ls) \<longleftrightarrow> distinct (map rlID (prRoutingLists p))" by (rule mset_eq_imp_distinct_iff)
  then have "distinct_ids q" using assms(2) unfolding q(1) distinct_ids_def by simp
  then show ?thesis using Some q m assms(3)
    by (simp add: Undo_def undo_position_def undoField_position position_pending[OF assms(1,2)] position_pending[OF assms(1)])
qed

lemma position_undo_exact_witness:
  "case Undo plain_deps base_lists now_lists some_config some_config (undo_position ''c'') of
      Inl e \<Rightarrow> False | Inr (p', c') \<Rightarrow> \<not> row_pending plain_deps base_lists p' some_config c' KList ''c'' ''Position''"
proof -
  have "\<not> isl (Undo plain_deps base_lists now_lists some_config some_config (undo_position ''c''))" by code_simp
  then show ?thesis using position_undo_exact[OF sample_distinct, of "''c''" plain_deps some_config some_config]
    by (auto split: sum.splits)
qed

text \<open>C19. Discarding everything: it is refused if and only if the review is empty. Otherwise every endpoint, group, list, rule,
  device group, the DNS plane and the settings are as in the baseline as far as the review can tell: only moved routing
  lists can be left to report, and none with at most three lists.\<close>

theorem discard_all_discards:
  assumes "distinct_ids base" "distinct_ids p"
  shows "case Undo dp base p bc c undo_everything of
      Inl e \<Rightarrow> e = NothingPending \<and> csChanges (Diff dp '''' '''' base p bc c) = []
    | Inr (p', c') \<Rightarrow> csChanges (Diff dp '''' '''' base p bc c) \<noteq> []
        \<and> (\<forall>ch\<in>set (csChanges (Diff dp '''' '''' base p' bc c')). chType ch = type_of KList \<and> chField ch = ''Position'')
        \<and> (length (prRoutingLists base) \<le> 3 \<longrightarrow> csChanges (Diff dp '''' '''' base p' bc c') = [])"
proof -
  obtain p' c' t where u: "undo_passes (Suc 3) dp base bc (\<lambda>_. True) (p, c, False) = (p', c', t)" using prod_cases3 by blast
  note s = passes_from_any[OF assms, where n = 3 and dp = dp and bc = bc and c = c, unfolded u prod.case]
  have "length (prRoutingLists base) * (length (prRoutingLists base) - 1) div 2 \<le> 3" if "length (prRoutingLists base) \<le> 3"
  proof -
    have "length (prRoutingLists base) * (length (prRoutingLists base) - 1) \<le> 3 * 2" by (rule mult_le_mono) (use that in auto)
    then show ?thesis by simp
  qed
  then show ?thesis using u s settled_rows[OF assms(1), of p' dp bc c']
    by (auto simp: Undo_def undo_everything_def undoAll_def undoReported_def maxUndoPasses_def Diff_def settled_state_def eval_nat_numeral simp del: undo_passes.simps)
qed

lemma discard_all_discards_witness:
  "case Undo plain_deps base_lists now_lists some_config some_config undo_everything of
      Inl e \<Rightarrow> False | Inr (p', c') \<Rightarrow> csChanges (Diff plain_deps '''' '''' base_lists p' some_config c') = []"
proof -
  have "\<not> isl (Undo plain_deps base_lists now_lists some_config some_config undo_everything)" by code_simp
  then show ?thesis using discard_all_discards[OF sample_distinct, of plain_deps some_config some_config]
    by (auto simp: base_lists_def lists_only_def split: sum.splits)
qed

section \<open>Discarding again\<close>

text \<open>The operator presses "Discard all" up to \<open>k\<close> times, each time on what the last one left.\<close>

fun discards :: "nat \<Rightarrow> Deps \<Rightarrow> Profile \<Rightarrow> 'c ReviewConfig_scheme \<Rightarrow> Profile \<times> 'c ReviewConfig_scheme \<Rightarrow> Profile \<times> 'c ReviewConfig_scheme" where
  "discards 0 dp base bc s = s"
| "discards (Suc k) dp base bc s =
    (case Undo dp base (fst s) bc (snd s) undo_everything of Inl e \<Rightarrow> s | Inr s' \<Rightarrow> discards k dp base bc s')"

definition pairs :: "Profile \<Rightarrow> nat" where
  "pairs p = length (prRoutingLists p) * (length (prRoutingLists p) - 1) div 2"

lemma undo_all_eq: "Undo dp base p bc c undo_everything =
    (case undo_passes 4 dp base bc (\<lambda>_. True) (p, c, False) of (p', c', t) \<Rightarrow> if t then Inr (p', c') else Inl NothingPending)"
  by (simp add: Undo_def undo_everything_def undoAll_def undoReported_def maxUndoPasses_def del: undo_passes.simps)

lemma discard_any:
  assumes "distinct_ids base" "distinct_ids p"
  shows "case Undo dp base p bc c undo_everything of
      Inl e \<Rightarrow> changes dp base p bc c = []
    | Inr s \<Rightarrow> settled_state dp base bc s \<and> (changes dp base (fst s) bc (snd s) = [] \<or> disorder base (fst s) + 3 \<le> pairs base)"
  using passes_from_any[OF assms, where n = 3 and dp = dp and bc = bc and c = c] unfolding undo_all_eq
  by (auto simp: pairs_def eval_nat_numeral split: prod.splits simp del: undo_passes.simps)

lemma discard_settled:
  assumes "distinct_ids base" "settled_state dp base bc (p, c)"
  shows "case Undo dp base p bc c undo_everything of
      Inl e \<Rightarrow> changes dp base p bc c = []
    | Inr s \<Rightarrow> settled_state dp base bc s \<and> (changes dp base (fst s) bc (snd s) = [] \<or> disorder base (fst s) + 4 \<le> disorder base p)"
proof -
  have "distinct_ids p" using assms(2) by (simp add: settled_state_def)
  from discard_any[OF assms(1) this, of dp bc c] show ?thesis
    using passes_progress[OF assms, where n = 4 and t = False] unfolding undo_all_eq
    by (auto split: prod.splits sum.splits if_splits simp del: undo_passes.simps)
qed

lemma discards_done: "distinct_ids base \<Longrightarrow> distinct_ids p \<Longrightarrow> changes dp base p bc c = [] \<Longrightarrow> discards k dp base bc (p, c) = (p, c)"
  using passes_from_any[where n = 3 and dp = dp and bc = bc and c = c and base = base and p = p]
  by (cases k) (auto simp: undo_all_eq eval_nat_numeral split: prod.splits simp del: undo_passes.simps)

lemma discards_settled:
  assumes "distinct_ids base" "settled_state dp base bc s" "disorder base (fst s) \<le> 4 * k"
  shows "changes dp base (fst (discards k dp base bc s)) bc (snd (discards k dp base bc s)) = []"
  using assms(2,3)
proof (induction k arbitrary: s)
  case 0
  then have "changes dp base (fst s) bc (snd s) = []"
    using pass_progress[OF assms(1), of "fst s" dp bc "snd s"] unfolding settled_state_def by (metis le_zero_eq mult_0_right not_less0)
  then show ?case by simp
next
  case (Suc k)
  have s: "settled_state dp base bc (fst s, snd s)" using Suc.prems by simp
  show ?case
  proof (cases "Undo dp base (fst s) bc (snd s) undo_everything")
    case (Inl e)
    then show ?thesis using discard_settled[OF assms(1) s] by simp
  next
    case (Inr s')
    then have n: "settled_state dp base bc s'" "changes dp base (fst s') bc (snd s') = [] \<or> disorder base (fst s') + 4 \<le> disorder base (fst s)"
      using discard_settled[OF assms(1) s] by simp_all
    show ?thesis
    proof (cases "changes dp base (fst s') bc (snd s') = []")
      case True
      then have "discards k dp base bc s' = s'" using discards_done[OF assms(1), of "fst s'" dp bc "snd s'" k] n(1) by (simp add: settled_state_def)
      then show ?thesis using Inr True by simp
    next
      case False
      then show ?thesis using Suc.IH[OF n(1)] n(2) Suc.prems(2) Inr by simp
    qed
  qed
qed

text \<open>C12. Discarding terminates in the empty review. Each accepted "Discard all", with its four passes, after an
  earlier one either leaves an empty review or brings the order of the routing lists at least four pairs closer to
  the baseline's; so, whatever the two states hold, pressing it more often than a quarter of the number of pairs of
  lists leaves nothing to review.\<close>

theorem discard_reaches_baseline:
  assumes "distinct_ids base" "distinct_ids p"
  shows "(case Undo dp base p bc c undo_everything of
       Inl e \<Rightarrow> csChanges (Diff dp '''' '''' base p bc c) = []
     | Inr (p1, c1) \<Rightarrow>
        (case Undo dp base p1 bc c1 undo_everything of
           Inl e \<Rightarrow> csChanges (Diff dp '''' '''' base p1 bc c1) = []
         | Inr (p2, c2) \<Rightarrow> csChanges (Diff dp '''' '''' base p2 bc c2) = [] \<or> disorder base p2 + 4 \<le> disorder base p1))
    \<and> (pairs base < 4 * k \<longrightarrow>
        csChanges (Diff dp '''' '''' base (fst (discards k dp base bc (p, c))) bc (snd (discards k dp base bc (p, c)))) = [])"
proof (cases "Undo dp base p bc c undo_everything")
  case (Inl e)
  then have "changes dp base p bc c = []" using discard_any[OF assms, of dp bc c] by simp
  moreover from this have "discards k dp base bc (p, c) = (p, c)" by (rule discards_done[OF assms])
  ultimately show ?thesis using Inl by (simp add: Diff_def)
next
  case (Inr s)
  have s: "settled_state dp base bc (fst s, snd s)" "changes dp base (fst s) bc (snd s) = [] \<or> disorder base (fst s) + 3 \<le> pairs base"
    using Inr discard_any[OF assms, of dp bc c] by simp_all
  have "changes dp base (fst (discards k dp base bc (p, c))) bc (snd (discards k dp base bc (p, c))) = []" if k: "pairs base < 4 * k"
  proof -
    obtain j where j: "k = Suc j" using k by (cases k) auto
    show ?thesis
    proof (cases "changes dp base (fst s) bc (snd s) = []")
      case True
      then have "discards j dp base bc s = s" using discards_done[OF assms(1), of "fst s" dp bc "snd s" j] s(1) by (simp add: settled_state_def)
      then show ?thesis using True Inr j by simp
    next
      case False
      then have "disorder base (fst s) \<le> 4 * j" using s(2) k j by simp
      then show ?thesis using discards_settled[OF assms(1), of dp bc s j] s(1) Inr j by simp
    qed
  qed
  then show ?thesis using Inr discard_settled[OF assms(1) s(1)] by (auto simp: Diff_def split: sum.splits)
qed

lemma discard_reaches_baseline_witness:
  "csChanges (Diff plain_deps '''' '''' base_lists (fst (discards 1 plain_deps base_lists some_config (now_lists, some_config))) some_config
     (snd (discards 1 plain_deps base_lists some_config (now_lists, some_config)))) = []"
  using discard_reaches_baseline[OF sample_distinct, of plain_deps some_config some_config 1] by (simp add: pairs_def base_lists_def lists_only_def)

end
