(* ===== verification/Change_Secrets.thy ===== *)
theory Change_Secrets
  imports Change_Review
begin

text \<open>
  Secrets and the review. The review of the connections is a function of what the definitions below let through:
  of a credential only whether it is set and whether it changed. Which parameters are credentials is said here, by
  protocol, and not taken from the code's own list. And three places where the rows say too much or too little.
\<close>

section \<open>What the review may see of a connection\<close>

text \<open>The parameters that authenticate a connection or decrypt it, by the protocol that has them: WireGuard and AmneziaWG,
  the sing-box protocols and Hysteria, Snell, SSH, OpenConnect, OpenVPN, and the keys of panels and subscriptions. They
  may be spelt in any case, with white space around them.\<close>

definition credential_names :: "string list" where
  "credential_names =
     [''private_key'', ''pre_shared_key'', ''header_protection_key'',
      ''uuid'', ''password'', ''short_id'', ''auth'', ''auth_str'', ''obfs_password'', ''token'', ''realm'',
      ''psk'', ''userkey'',
      ''private_key_passphrase'',
      ''totp_secret'',
      ''key'', ''control_key'', ''static_key'',
      ''secret'', ''api_key'', ''subscription'']"

definition credential :: "Deps \<Rightarrow> string \<Rightarrow> bool" where
  "credential dp k \<longleftrightarrow> ToLower (dpUnicode dp) (TrimSpace k) \<in> set credential_names"

text \<open>The one credential the code's list lacks, the shared header key of AmneziaWG 3.0
  (\<open>header_protection_key_shown\<close> below): a connection that has none under any spelling.\<close>

definition no_header_key :: "Deps \<Rightarrow> Endpoint \<Rightarrow> bool" where
  "no_header_key dp e \<longleftrightarrow> (\<forall>k\<in>set (map fst (epParams e)). ToLower (dpUnicode dp) (TrimSpace k) \<noteq> ''header_protection_key'')"

lemma credentials_masked:
  "ToLower (dpUnicode dp) (TrimSpace k) \<noteq> ''header_protection_key'' \<Longrightarrow> credential dp k \<Longrightarrow> IsSecretField dp k"
  unfolding credential_def IsSecretField_def credential_names_def secretParamKeys_def by auto

lemma masked_credentials: "IsSecretField dp k \<Longrightarrow> credential dp k"
  unfolding credential_def IsSecretField_def credential_names_def secretParamKeys_def by auto

definition param_view :: "Deps \<Rightarrow> string \<Rightarrow> param \<Rightarrow> bool \<times> string" where
  "param_view dp k v = (isEmptyParam v, if credential dp k then boolWord (sprint v = ''<nil>'') else valueWord v)"

definition tls_view :: "Deps \<Rightarrow> TLS \<Rightarrow> TLS" where
  "tls_view dp t = t\<lparr>tlALPN := [], tlFingerprint := '''', tlPublicKey := '''', tlShortID := '''', tlPinCertMayBeCA := False,
     tlPinCertBesideChain := False, tlPinCertMayBeCAOf := [], tlPinCertBesideChainOf := [],
     tlECH := map_option (\<lambda>e. e\<lparr>ecConfig := (if ecConfig e = '''' then '''' else ''#'' @ dpDigest dp (ecConfig e))\<rparr>) (tlECH t)\<rparr>"

definition transport_view :: "Transport \<Rightarrow> Transport" where
  "transport_view t = t\<lparr>trPath := '''', trServiceName := '''', trHeaders := []\<rparr>"

text \<open>Another connection the reader of the review could not tell from this one.\<close>

definition alike :: "Deps \<Rightarrow> Endpoint \<Rightarrow> Endpoint \<Rightarrow> bool" where
  "alike dp e f \<longleftrightarrow> f = e\<lparr>epParams := epParams f, epTLS := epTLS f, epTransport := epTransport f\<rparr>
     \<and> map fst (epParams f) = map fst (epParams e)
     \<and> (\<forall>k. param_view dp k (pget (epParams f) k) = param_view dp k (pget (epParams e) k))
     \<and> map_option (tls_view dp) (epTLS f) = map_option (tls_view dp) (epTLS e)
     \<and> map_option transport_view (epTransport f) = map_option transport_view (epTransport e)"

text \<open>Two pairs with the same pattern of what changed.\<close>

definition same_changes :: "Endpoint \<Rightarrow> Endpoint \<Rightarrow> Endpoint \<Rightarrow> Endpoint \<Rightarrow> bool" where
  "same_changes b d b' d' \<longleftrightarrow>
     (\<forall>k. sprint (pget (epParams b') k) = sprint (pget (epParams d') k) \<longleftrightarrow> sprint (pget (epParams b) k) = sprint (pget (epParams d) k))
     \<and> (epTLS b' = epTLS d' \<longleftrightarrow> epTLS b = epTLS d) \<and> (epTransport b' = epTransport d' \<longleftrightarrow> epTransport b = epTransport d)"

lemma alike_same: "alike dp e f \<Longrightarrow> epID f = epID e \<and> epName f = epName e \<and> epServer f = epServer e \<and> epPort f = epPort e
    \<and> epProtocol f = epProtocol e \<and> epEngine f = epEngine e \<and> epEnabled f = epEnabled e \<and> epMTU f = epMTU e
    \<and> epPersistentKeepalive f = epPersistentKeepalive e \<and> epOwner f = epOwner e \<and> epAWGUserspace f = epAWGUserspace e
    \<and> epMultiplex f = epMultiplex e \<and> epHealth f = epHealth e"
proof -
  assume "alike dp e f"
  then have eq: "f = e\<lparr>epParams := epParams f, epTLS := epTLS f, epTransport := epTransport f\<rparr>" unfolding alike_def by blast
  show ?thesis by (subst (1 2 3 4 5 6 7 8 9 10 11 12 13) eq) simp
qed

lemma tls_view_sel:
  "tlEnabled (tls_view dp t) = tlEnabled t" "tlType (tls_view dp t) = tlType t" "tlSNI (tls_view dp t) = tlSNI t"
  "tlInsecure (tls_view dp t) = tlInsecure t" "tlFragment (tls_view dp t) = tlFragment t" "tlRecordFragment (tls_view dp t) = tlRecordFragment t"
  "tlPinCertSHA256 (tls_view dp t) = tlPinCertSHA256 t" "tlPinPubKeySHA256 (tls_view dp t) = tlPinPubKeySHA256 t"
  "tlECH (tls_view dp t) = map_option (\<lambda>e. e\<lparr>ecConfig := (if ecConfig e = '''' then '''' else ''#'' @ dpDigest dp (ecConfig e))\<rparr>) (tlECH t)"
  by (simp_all add: tls_view_def)

lemma through_view:
  assumes "map_option v t = map_option v t'" "\<And>x y. v x = v y \<Longrightarrow> F (Some x) = F (Some y)"
  shows "F t = F t'"
proof (cases t)
  case None
  then have "t' = None" using assms(1) by (cases t') simp_all
  then show ?thesis unfolding None by (simp only:)
next
  case (Some x)
  then obtain y where "t' = Some y" "v x = v y" using assms(1) by (cases t') simp_all
  then show ?thesis using assms(2)[of x y] unfolding Some by (simp only:)
qed

lemma describeTLS_view:
  assumes "map_option (tls_view dp) t = map_option (tls_view dp) t'"
  shows "describeTLS dp t = describeTLS dp t'"
proof -
  have "describeTLS dp (Some t) = describeTLS dp (Some t')" if "tls_view dp t = tls_view dp t'" for t t'
  proof -
    have s: "tlEnabled t = tlEnabled t'" "tlType t = tlType t'" "tlSNI t = tlSNI t'" "tlInsecure t = tlInsecure t'" "tlFragment t = tlFragment t'"
      "tlRecordFragment t = tlRecordFragment t'" "tlPinCertSHA256 t = tlPinCertSHA256 t'" "tlPinPubKeySHA256 t = tlPinPubKeySHA256 t'"
      "map_option (\<lambda>e. e\<lparr>ecConfig := (if ecConfig e = '''' then '''' else ''#'' @ dpDigest dp (ecConfig e))\<rparr>) (tlECH t)
        = map_option (\<lambda>e. e\<lparr>ecConfig := (if ecConfig e = '''' then '''' else ''#'' @ dpDigest dp (ecConfig e))\<rparr>) (tlECH t')"
      using arg_cong[OF that, of tlEnabled] arg_cong[OF that, of tlType] arg_cong[OF that, of tlSNI] arg_cong[OF that, of tlInsecure]
        arg_cong[OF that, of tlFragment] arg_cong[OF that, of tlRecordFragment] arg_cong[OF that, of tlPinCertSHA256]
        arg_cong[OF that, of tlPinPubKeySHA256] arg_cong[OF that, of tlECH] by (simp_all only: tls_view_sel)
    have h: "(ecEnabled e = ecEnabled e' \<and> ecQueryServerName e = ecQueryServerName e' \<and> (ecConfig e = '''' \<longleftrightarrow> ecConfig e' = '''')
        \<and> (ecConfig e \<noteq> '''' \<longrightarrow> dpDigest dp (ecConfig e) = dpDigest dp (ecConfig e')))" if "tlECH t = Some e" "tlECH t' = Some e'" for e e'
    proof -
      have eq: "e\<lparr>ecConfig := (if ecConfig e = '''' then '''' else ''#'' @ dpDigest dp (ecConfig e))\<rparr>
          = e'\<lparr>ecConfig := (if ecConfig e' = '''' then '''' else ''#'' @ dpDigest dp (ecConfig e'))\<rparr>" using s(9) that by simp
      show ?thesis using arg_cong[OF eq, of ecEnabled] arg_cong[OF eq, of ecQueryServerName] arg_cong[OF eq, of ecConfig] by (simp split: if_splits)
    qed
    have n: "tlECH t = None \<longleftrightarrow> tlECH t' = None" using s(9) by (cases "tlECH t"; cases "tlECH t'") simp_all
    have "(case tlECH t of None \<Rightarrow> [] | Some e \<Rightarrow> if \<not> ecEnabled e then []
          else if ecConfig e \<noteq> '''' then [''ECH (config '' @ dpDigest dp (ecConfig e) @ '')'']
          else if ecQueryServerName e \<noteq> '''' then [''ECH (DNS, '' @ ecQueryServerName e @ '')'']
          else [''ECH (DNS)'']) =
        (case tlECH t' of None \<Rightarrow> [] | Some e \<Rightarrow> if \<not> ecEnabled e then []
          else if ecConfig e \<noteq> '''' then [''ECH (config '' @ dpDigest dp (ecConfig e) @ '')'']
          else if ecQueryServerName e \<noteq> '''' then [''ECH (DNS, '' @ ecQueryServerName e @ '')'']
          else [''ECH (DNS)''])"
    proof (cases "tlECH t")
      case None
      then have "tlECH t' = None" using n by blast
      then show ?thesis unfolding None by (simp only:)
    next
      case (Some e)
      then obtain e' where e': "tlECH t' = Some e'" using n by (cases "tlECH t'") simp_all
      show ?thesis using h[OF Some e'] unfolding Some e' option.case by presburger
    qed
    then show ?thesis unfolding describeTLS_def option.case Let_def s(1-8) by (simp only:)
  qed
  then show ?thesis by (rule through_view[where F = "describeTLS dp", OF assms])
qed

lemma describeTransport_view:
  assumes "map_option transport_view t = map_option transport_view t'"
  shows "describeTransport t = describeTransport t'"
proof -
  have "describeTransport (Some t) = describeTransport (Some t')" if "transport_view t = transport_view t'" for t t'
    using arg_cong[OF that, of trType] arg_cong[OF that, of trHost] by (simp add: transport_view_def describeTransport_def)
  then show ?thesis by (rule through_view[where F = describeTransport, OF assms])
qed

lemma endpoint_row_alike: "alike dp d d' \<Longrightarrow> endpoint_row d' f x y s = endpoint_row d f x y s"
  using alike_same[of dp d d'] by (simp add: endpoint_row_def endpointName_def endpointSubsystem_def)

lemma param_row_alike:
  assumes "alike dp b b'" "alike dp d d'" "same_changes b d b' d'" "ToLower (dpUnicode dp) (TrimSpace k) \<noteq> ''header_protection_key''"
  shows "param_row dp d' k (pget (epParams b') k) (pget (epParams d') k) = param_row dp d k (pget (epParams b) k) (pget (epParams d) k)"
proof -
  have v: "param_view dp k (pget (epParams b') k) = param_view dp k (pget (epParams b) k)" "param_view dp k (pget (epParams d') k) = param_view dp k (pget (epParams d) k)"
    using assms(1,2) by (simp_all add: alike_def)
  have word: "boolWord x = boolWord y \<longleftrightarrow> x = y" for x y by (simp add: boolWord_def)
  have "sprint (pget (epParams b') k) = sprint (pget (epParams d') k) \<longleftrightarrow> sprint (pget (epParams b) k) = sprint (pget (epParams d) k)"
    using assms(3) by (simp add: same_changes_def)
  moreover have "IsSecretField dp k \<longleftrightarrow> credential dp k" using credentials_masked[OF assms(4)] masked_credentials by blast
  ultimately show ?thesis using v endpoint_row_alike[OF assms(2)]
    by (cases "credential dp k") (simp_all add: param_row_def param_view_def secretTransition_def word Let_def)
qed

lemma fields_alike:
  assumes "alike dp b b'" "alike dp d d'" "same_changes b d b' d'" "no_header_key dp b" "no_header_key dp d"
  shows "diffEndpointFields dp b' d' = diffEndpointFields dp b d"
proof -
  have "scalar_rows b' d' = scalar_rows b d"
  proof -
    have "endpointScalarFields e' = endpointScalarFields e" if "alike dp e e'" for e e'
      using alike_same[OF that] by (simp add: endpointScalarFields_def)
    note fields = this[OF assms(1)] this[OF assms(2)]
    show ?thesis unfolding scalar_rows_def fields endpoint_row_alike[OF assms(2)] by (rule refl)
  qed
  moreover have "struct_rows dp b' d' = struct_rows dp b d"
  proof -
    have "describeTLS dp (epTLS e') = describeTLS dp (epTLS e)" "describeTransport (epTransport e') = describeTransport (epTransport e)"
      if "alike dp e e'" for e e'
      using that describeTLS_view describeTransport_view unfolding alike_def by blast+
    note words = this[OF assms(1)] this[OF assms(2)]
    show ?thesis using alike_same[OF assms(1)] alike_same[OF assms(2)] assms(3)
      unfolding struct_rows_def sameJSON_def same_changes_def words endpoint_row_alike[OF assms(2)] by simp
  qed
  moreover have "param_rows dp b' d' = param_rows dp b d"
  proof -
    have "map fst (epParams b') = map fst (epParams b)" "map fst (epParams d') = map fst (epParams d)" using assms(1,2) unfolding alike_def by blast+
    moreover have "param_row dp d' k (pget (epParams b') k) (pget (epParams d') k) = param_row dp d k (pget (epParams b) k) (pget (epParams d) k)"
      if "k \<in> set (map fst (epParams b) @ map fst (epParams d))" for k
      using param_row_alike[OF assms(1-3)] that assms(4,5) unfolding no_header_key_def set_append by blast
    ultimately show ?thesis unfolding param_rows_def by (intro arg_cong[where f = concat] map_cong) (simp_all only: set_sort set_remdups)
  qed
  ultimately show ?thesis by (simp add: diffEndpointFields_def)
qed


section \<open>The whole review\<close>

lemma by_id_map: "\<forall>x\<in>set xs. key (h x) = key x \<Longrightarrow> by_id key (map h xs) i = map_option h (by_id key xs i)"
proof -
  assume a: "\<forall>x\<in>set xs. key (h x) = key x"
  have "map (\<lambda>x. (key x, x)) (map h xs) = map (\<lambda>(k, v). (k, h v)) (map (\<lambda>x. (key x, x)) xs)" using a by simp
  then show ?thesis unfolding by_id_def by (simp only: rev_map map_of_map comp_def)
qed

lemma by_id_mem: "by_id key xs i = Some x \<Longrightarrow> x \<in> set xs \<and> key x = i"
  unfolding by_id_def by (drule map_of_SomeD) auto

lemma endpoints_alike:
  assumes "\<forall>b\<in>set bs. alike dp b (h b)" "\<forall>d\<in>set ds. alike dp d (g d)"
    and "\<forall>b\<in>set bs. \<forall>d\<in>set ds. epID b = epID d \<longrightarrow> same_changes b d (h b) (g d)"
    and "\<forall>e\<in>set bs \<union> set ds. no_header_key dp e"
  shows "diffEndpoints dp (map h bs) (map g ds) = diffEndpoints dp bs ds"
proof -
  have id: "\<forall>b\<in>set bs. epID (h b) = epID b" "\<forall>d\<in>set ds. epID (g d) = epID d" using assms(1,2) alike_same by blast+
  have row: "(case by_id epID (map h bs) (epID (g d)) of None \<Rightarrow> [endpoint_added (g d)] | Some b \<Rightarrow> diffEndpointFields dp b (g d))
    = (case by_id epID bs (epID d) of None \<Rightarrow> [endpoint_added d] | Some b \<Rightarrow> diffEndpointFields dp b d)" if d: "d \<in> set ds" for d
  proof (cases "by_id epID bs (epID d)")
    case None
    have "alike dp d (g d)" using assms(2) d by blast
    then have "endpoint_added (g d) = endpoint_added d"
      using alike_same[of dp d "g d"] by (simp add: endpoint_added_def endpointName_def endpointSubsystem_def)
    then show ?thesis using None by_id_map[OF id(1)] id(2) d by simp
  next
    case (Some b)
    then have "b \<in> set bs" "epID b = epID d" using by_id_mem by metis+
    then have "diffEndpointFields dp (h b) (g d) = diffEndpointFields dp b d" using fields_alike assms d by blast
    then show ?thesis using Some by_id_map[OF id(1)] id(2) d by simp
  qed
  have ids: "epID ` set (map g ds) = epID ` set ds" unfolding set_map image_image using id(2) by simp
  have "map endpoint_removed (filter (\<lambda>b. epID b \<notin> epID ` set ds) (map h bs)) = map endpoint_removed (filter (\<lambda>b. epID b \<notin> epID ` set ds) bs)"
  proof -
    have "endpoint_removed (h b) = endpoint_removed b" if "b \<in> set bs" for b
      using alike_same[of dp b "h b"] assms(1) that by (simp add: endpoint_removed_def endpointName_def endpointSubsystem_def Let_def)
    moreover have "filter (\<lambda>b. epID b \<notin> epID ` set ds) (map h bs) = map h (filter (\<lambda>b. epID b \<notin> epID ` set ds) bs)"
      using id(1) by (auto simp: filter_map comp_def intro!: arg_cong[where f = "map h"] filter_cong)
    ultimately show ?thesis by simp
  qed
  moreover have "concat (map (\<lambda>d. case by_id epID (map h bs) (epID d) of None \<Rightarrow> [endpoint_added d] | Some b \<Rightarrow> diffEndpointFields dp b d) (map g ds))
    = concat (map (\<lambda>d. case by_id epID bs (epID d) of None \<Rightarrow> [endpoint_added d] | Some b \<Rightarrow> diffEndpointFields dp b d) ds)"
    unfolding map_map comp_def by (rule arg_cong[where f = concat], rule map_cong[OF refl row])
  ultimately show ?thesis unfolding diffEndpoints_def diff_objects_def ids by (simp only:)
qed

text \<open>C14. No credential is shown, the header protection key of AmneziaWG 3.0 apart. Take a baseline and a saved state
  whose connections have no such key. Replace in both every other credential of \<open>credential_names\<close>, however its name
  is spelt, by any value that is set where the old one was and differs where the old ones differed, every nested
  parameter, every REALITY key and short id, every transport path and header by anything else, and every ECH config by
  one with the same digest: the review is the same, row for row. \<open>credential_names\<close> is not the code's list of
  secrets: a credential missing from that list would change the review.\<close>

theorem review_hides_secrets:
  assumes "\<forall>b\<in>set (prEndpoints base). alike dp b (h b)" "\<forall>d\<in>set (prEndpoints p). alike dp d (g d)"
    and "\<forall>b\<in>set (prEndpoints base). \<forall>d\<in>set (prEndpoints p). epID b = epID d \<longrightarrow> same_changes b d (h b) (g d)"
    and "\<forall>e\<in>set (prEndpoints base) \<union> set (prEndpoints p). no_header_key dp e"
  shows "Diff dp r s (base\<lparr>prEndpoints := map h (prEndpoints base)\<rparr>) (p\<lparr>prEndpoints := map g (prEndpoints p)\<rparr>) bc c = Diff dp r s base p bc c"
  using endpoints_alike[OF assms] by (simp add: Diff_def changes_def)

definition an_endpoint :: Endpoint where
  "an_endpoint = \<lparr>epID = ''e'', epName = ''Home'', epEngine = EngineSingBox, epProtocol = ''trojan'', epOwner = '''', epServer = ''vpn.example'',
     epPort = 443, epParams = [(''password'', PStr ''hunter2''), (''flow'', PStr ''x'')], epTransport = None, epTLS = None, epMultiplex = None, epHealth = None,
     epEnabled = True, epMTU = 0, epPersistentKeepalive = 0, epAWGUserspace = False, epImport = ''''\<rparr>"

definition with_params :: "(string \<times> param) list \<Rightarrow> Endpoint" where
  "with_params ps = an_endpoint\<lparr>epParams := ps\<rparr>"

definition one_endpoint :: "Endpoint \<Rightarrow> Profile" where
  "one_endpoint e = (lists_only [])\<lparr>prEndpoints := [e]\<rparr>"

lemma password_secret: "credential plain_deps ''password''" "no_header_key plain_deps (with_params [(''password'', v)])"
  unfolding no_header_key_def with_params_def by (code_simp, simp add: an_endpoint_def) code_simp

lemma password_alike: "s \<noteq> '''' \<Longrightarrow> t \<noteq> '''' \<Longrightarrow> s \<noteq> ''<nil>'' \<Longrightarrow> t \<noteq> ''<nil>'' \<Longrightarrow>
    alike plain_deps (with_params [(''password'', PStr s)]) (with_params [(''password'', PStr t)])"
  by (simp add: alike_def with_params_def an_endpoint_def pget_def param_view_def isEmptyParam_def password_secret)

lemma review_hides_secrets_witness:
  "Diff plain_deps '''' '''' (one_endpoint (with_params [(''password'', PStr ''alpha'')])) (one_endpoint (with_params [(''password'', PStr ''beta'')])) some_config some_config
   = Diff plain_deps '''' '''' (one_endpoint (with_params [(''password'', PStr ''gamma'')])) (one_endpoint (with_params [(''password'', PStr ''delta'')])) some_config some_config
   \<and> map (\<lambda>ch. (chField ch, chBefore ch, chAfter ch)) (csChanges (Diff plain_deps '''' '''' (one_endpoint (with_params [(''password'', PStr ''gamma'')]))
       (one_endpoint (with_params [(''password'', PStr ''delta'')])) some_config some_config)) = [(''Password'', ''Set'', ''Changed'')]"
proof -
  let ?h = "\<lambda>_. with_params [(''password'', PStr ''alpha'')]" and ?g = "\<lambda>_. with_params [(''password'', PStr ''beta'')]"
  have "same_changes (with_params [(''password'', PStr ''gamma'')]) (with_params [(''password'', PStr ''delta'')])
      (with_params [(''password'', PStr ''alpha'')]) (with_params [(''password'', PStr ''beta'')])"
    by (simp add: same_changes_def with_params_def an_endpoint_def pget_def)
  then have "Diff plain_deps '''' '''' (one_endpoint (with_params [(''password'', PStr ''alpha'')])) (one_endpoint (with_params [(''password'', PStr ''beta'')])) some_config some_config
   = Diff plain_deps '''' '''' (one_endpoint (with_params [(''password'', PStr ''gamma'')])) (one_endpoint (with_params [(''password'', PStr ''delta'')])) some_config some_config"
    using review_hides_secrets[of "one_endpoint (with_params [(''password'', PStr ''gamma'')])" plain_deps ?h "one_endpoint (with_params [(''password'', PStr ''delta'')])" ?g
        "''''" "''''" some_config some_config] password_alike password_secret(2)
    by (simp add: one_endpoint_def)
  moreover have "map (\<lambda>ch. (chField ch, chBefore ch, chAfter ch)) (csChanges (Diff plain_deps '''' '''' (one_endpoint (with_params [(''password'', PStr ''gamma'')]))
       (one_endpoint (with_params [(''password'', PStr ''delta'')])) some_config some_config)) = [(''Password'', ''Set'', ''Changed'')]" by code_simp
  ultimately show ?thesis ..
qed

section \<open>Rows that say too much or too little\<close>

text \<open>The shared header protection key of AmneziaWG 3.0 is not in the list of secrets: the review prints it.\<close>

lemma header_protection_key_shown:
  "map (\<lambda>ch. (chField ch, chBefore ch, chAfter ch, chSecret ch))
     (csChanges (Diff plain_deps '''' '''' (one_endpoint (with_params [(''header_protection_key'', PStr ''old key'')]))
       (one_endpoint (with_params [(''header_protection_key'', PStr ''new key'')])) some_config some_config))
   = [(''Header protection key'', ''old key'', ''new key'', False)]"
  by code_simp

text \<open>A connection that changed its engine to AmneziaWG has an engine-choice row of its own; its undo is accepted, and the row
  is still there.\<close>

definition undo_awg_engine :: UndoRequest where
  "undo_awg_engine = \<lparr>rqScope = ScopeField, rqID = ''e'', rqObjectType = type_of KEndpoint, rqField = fieldAWGEngine, rqSubsystem = ''''\<rparr>"

lemma awg_engine_undo_leaves_row:
  "Undo plain_deps (one_endpoint an_endpoint) (one_endpoint (an_endpoint\<lparr>epEngine := EngineAmneziaWG\<rparr>)) some_config some_config undo_awg_engine
   = Inr (one_endpoint (an_endpoint\<lparr>epEngine := EngineAmneziaWG\<rparr>), some_config)
   \<and> row_pending plain_deps (one_endpoint an_endpoint) (one_endpoint (an_endpoint\<lparr>epEngine := EngineAmneziaWG\<rparr>)) some_config some_config KEndpoint ''e'' fieldAWGEngine"
  by code_simp

text \<open>Entries are compared as one joined text: two different lists of entries can look the same.\<close>

lemma joined_entries_hidden:
  "csChanges (Diff plain_deps '''' '''' (lists_only [(a_list ''a'')\<lparr>rlManual := [''a.example,b.example'', ''c.example'']\<rparr>])
     (lists_only [(a_list ''a'')\<lparr>rlManual := [''a.example'', ''b.example,c.example'']\<rparr>]) some_config some_config) = []"
  by code_simp

end
