(* ===== verification/Spec2Isabelle.thy ===== *)
theory Spec2Isabelle
  imports Failover_Runner Failsafe_Concurrent Watchdog Traffic_Ring Health_Monitor Ctflush_Sets List_Failover Store_Safety Change_Secrets
begin

text \<open>
  WayHop is a router daemon: it manages tunnels (endpoints and groups of endpoints), decides which
  traffic takes which of them, watches their health, moves traffic away from dead ones, and reverts a
  configuration change that cuts the router off. This library models the parts of it that take those
  decisions, translated from the Go sources under \<open>src/internal\<close>.

  Parts and theories.
  \<^item> \<open>WH_Prelude\<close>: shared lemmas, the contracts \<open>invariant_machine\<close> (a step function with an invariant) and
    \<open>bounded_log\<close> (a log that keeps the newest entries), both interpreted on the components below.
  \<^item> \<open>Failover_Controller\<close>, \<open>Failover_Detectors\<close>, \<open>Failover_Runner\<close>: package \<open>failover\<close>. \<open>Decide\<close> with its three
    policies (\<open>controller.go\<close>), the flap damper (\<open>damper.go\<close>), the outlier detector (\<open>outlier.go\<close>) and the
    control loop that combines them (\<open>runner.go\<close>). One tick takes what the interfaces answered as an
    environment and emits calls as effects; runs are lists of ticks.
  \<^item> \<open>Failsafe_Manager\<close>, \<open>Failsafe_Concurrent\<close>: package \<open>failsafe\<close>, the dead-man switch around an apply. The
    first theory is the manager's state and its handlers, the second the goroutines of past and present
    windows, manual rollbacks and the apply path as an interleaving step relation.
  \<^item> \<open>Watchdog\<close>: package \<open>watchdog\<close>, crash restarts with backoff and jitter.
  \<^item> \<open>Traffic_Ring\<close>: package \<open>traffic\<close>, the sample ring and its subscribers.
  \<^item> \<open>WH_Model\<close>: package \<open>model\<close>, the records of the configuration.
  \<^item> \<open>Health_Stats\<close>, \<open>Health_Groups\<close>, \<open>Health_Monitor\<close>: package \<open>health\<close>. Recording of probes with
    hysteresis, the probe window and the event ring; the tick, the derivation of group health and the
    local-fault guard; traffic accounting, election sampling, the snapshot and its causes.
  \<^item> \<open>Net_Addr\<close>, \<open>PBR_Prefix\<close>, \<open>PBR_Compile\<close>, \<open>PBR_Plan\<close>: package \<open>pbr\<close>, the compiler from a profile to a
    kernel routing plan. \<open>Net_Addr\<close> is Go's standard library as far as it is used (\<open>strings\<close>, \<open>net/netip\<close>,
    \<open>net.ParseMAC\<close>) on byte strings and words; \<open>PBR_Prefix\<close> classifies and collapses address lists;
    \<open>PBR_Compile\<close> is \<open>Compile\<close> itself; \<open>PBR_Plan\<close> proves what the plan guarantees.
  \<^item> \<open>Ctflush_Netlink\<close>, \<open>Ctflush\<close>, \<open>Ctflush_Sets\<close>: package \<open>ctflush\<close>, which deletes connection-tracking entries
    that would leave by another exit under the new plan. The first theory is the netlink encoding and the
    request loops (\<open>nlmsg.go\<close>, \<open>sock_linux.go\<close>), the second the decision and the flush (\<open>ctflush.go\<close>), the third
    relates the sets the decision searches to the address lists they were compiled from.
  \<^item> \<open>List_Failover\<close>: \<open>server/listfailover.go\<close>, the loop that re-points the routing table of a group at a healthy
    member; it joins the compiled plan with the health monitor.
  \<^item> \<open>Profile_Validate\<close>, \<open>Profile_Wellformed\<close>, \<open>Profile_DNS\<close>: \<open>model/validate.go\<close> and \<open>model/dns.go\<close>. The first theory
    is \<open>Validate\<close> and \<open>ValidateDNS\<close> as written, with the checks of one endpoint's protocol parameters as
    arguments; the other two say what they accept without loops.
  \<^item> \<open>Profile_Store\<close>, \<open>Store_Run\<close>, \<open>Store_Valid\<close>, \<open>Store_Moves\<close>, \<open>Store_Safety\<close>: package \<open>store\<close>, the published profile with its generation and
    its file. An operation is an edit of the profile followed by \<open>publish\<close>; \<open>Store_Run\<close> treats sequences of
    operations, \<open>Store_Valid\<close> and \<open>Store_Moves\<close> what the plain edits and the moves of dependents do to validity, and
    \<open>Store_Safety\<close> draws the conclusions for the operations of the store.
  \<^item> \<open>Change_Words\<close>, \<open>Change_Diff\<close>, \<open>Change_Undo\<close>: package \<open>changeset\<close>, the review of what an Apply would change
    (\<open>changeset.go\<close>), the undo of a row, an object, a subsystem or everything (\<open>undo.go\<close>) and the state shown to
    the operator (\<open>lifecycle.go\<close>). A row is a \<open>Change\<close>; the two states are profiles with the four reviewed settings
    of the configuration. The digest of an ECH config, the Unicode tables and the keys of a core override are
    arguments. \<open>Change_Slots\<close> and \<open>Change_Order\<close> treat the places of routing lists, \<open>Change_Position\<close> and
    \<open>Change_Objects\<close> rows and single objects, \<open>Change_Discard\<close> the passes of discarding everything, \<open>Change_Review\<close>
    and \<open>Change_Secrets\<close> the promises of the review. The code stops after four passes: enough for three routing lists; for more, the rows that
    can remain are named, and a further discard brings the order at least four pairs closer.

  How state and effects are modelled. Structs are records, Go maps are partial functions (association
  lists where a literal value is needed), times are integers in milliseconds, 32- and 128-bit values are
  words. Mutexes make each handler atomic, so a handler is one function from state to state; where
  handlers of several goroutines interleave, the interleaving is a step relation. Calls that leave the
  modelled code (selectors, supervisors, probes, the core's API) are arguments, one answer per call.
  Errors are options or sums, log and warning texts are constructors with their arguments.

  What is shown. Failover: a graceful switch waits out dwell and hold while an emergency commits at once,
  the filtered view only removes candidates and never the last one, each outcome is counted once per
  tick, damper and detector stay within their bounds. Fail-safe: the manager refines an abstract window,
  escalation is earned and ordered, and however goroutines interleave one rollback is in flight. Watchdog:
  restarts are paced and counted. Health: the committed state is a function of the probe history, the
  in-place passes compute group health as reachability, rings hold the newest entries, snapshots explain
  what is down. Routing: address sets are disjoint and lose nothing, resolution through nested or cyclic
  groups is sound and complete, set names are distinct, marks identify outbounds, a block wins over
  whatever overlaps it, no zone captures more than its rule names, switched-off entries are inert.
  Connection tracking: a delete request names exactly its entry, a dump hands over exactly its own answers,
  only flows that change their exit are deleted, and the searched sets hold what the lists name. List
  failover: a pass writes exactly the tables that are due, a group's only for its own members, and one pass
  settles them.
  Validation accepts exactly the well-formed profiles, and the check of the DNS page agrees with it. Store: a
  write is all or nothing, the file holds what is published, a generation identifies a profile, and a
  conditional save overwrites nothing its author has not seen. Deletes, moves, feed refreshes and DNS
  saves keep a valid profile valid under named conditions, no run of writes strands a VPN resolver, and a DNS detour
  decides whether two other accepted writes break the profile.
  Review: an undo is accepted exactly when there is a row, clears it and touches nothing else; discarding
  everything settles every object and brings the order of the lists home when pressed often enough; no credential reaches a row, with the one
  exception of the AmneziaWG header protection key.

  Loops and bounds. All recursions are total: structural, or with a measure (the group walk on unseen
  groups and remaining members, the search for a free set name on the finitely many names in use). No
  fuel is used. The bounded passes over groups are bounded as in the code, by the number of groups.

  Not modelled. Everything that is mainly input and output: process control, package managers, HTTP
  handlers, the Telegram bot, router command interfaces, generators of engine configurations and the
  parsers of share links. Within the modelled packages: ticker loops, demo mode's fabricated samples,
  and the rendering of a routing plan to nftables or ipset commands.
\<close>

section \<open>The failover loop on top of the health monitor\<close>

text \<open>The runner's \<open>HealthSource\<close> interface implemented by the monitor's \<open>MemberHealth\<close>.\<close>

definition monitored :: "TickEnv \<Rightarrow> (nat \<Rightarrow> Monitor) \<Rightarrow> bool" where
  "monitored env mon \<longleftrightarrow> (\<forall>k ids. teHealth env k ids = MemberHealth_of ids (mon k))"

lemma MemberHealth_of_alive:
  "h \<in> set (MemberHealth_of ids m) \<Longrightarrow> mhAlive h \<Longrightarrow>
     mhID h \<in> set ids \<and> (mhID h = ''direct'' \<or> state_of (mStats m (mhID h)) = Alive)"
  by (auto simp: MemberHealth_of_def state_of_def split: if_splits option.splits)

lemma tick_group_target:
  assumes "tick_group env k g now st = (st', Some sw, effs)"
  shows "swGroup sw = gsID g \<and> (\<exists>h\<in>set (teHealth env k (gsMembers g)). mhID h = swTo sw \<and> mhAlive h)"
proof -
  obtain r rec where st: "st = (r, rec)" by (cases st)
  obtain d reason ch raw r1 rec1 where t: "tick_decide env k g now r rec = ((d, reason, ch), raw, r1, rec1)"
    by (metis prod.exhaust)
  have c: "tick_commit env k g now (d, reason, ch) raw r1 = (fst st', Some sw, effs)"
    using assms st t by (auto simp: tick_group_def split: prod.splits)
  then obtain sel: "ch" "swTo sw = d" "swGroup sw = gsID g" by (cases rule: tick_commit_cases) auto
  let ?health = "teHealth env k (gsMembers g)"
  let ?view = "fst (filteredHealth r (teFailing env k) ?health now rec)"
  have "\<exists>inp. diMembers inp = ?view \<and> Decide inp = (d, reason, ch)"
    using t by (auto simp: tick_decide_def Let_def split: prod.splits intro!: exI)
  then obtain inp where "diMembers inp = ?view" "Decide inp = (d, reason, True)" using sel by auto
  then obtain m where "m \<in> set ?view" "mhID m = d" "mhAlive m" using ideal_alive[of inp d reason] by (auto simp: Decide_changed)
  then show ?thesis using weaker_view_alive[OF filteredHealth_view] sel by metis
qed

lemma tick_groups_target:
  "sw \<in> set (fst (snd (tick_groups env k gs now st))) \<Longrightarrow>
     \<exists>i<length gs. swGroup sw = gsID (gs ! i)
       \<and> (\<exists>h\<in>set (teHealth env (k + i) (gsMembers (gs ! i))). mhID h = swTo sw \<and> mhAlive h)"
proof (induction gs arbitrary: k st)
  case Nil
  then show ?case by simp
next
  case (Cons g gs)
  obtain st1 s effs where t: "tick_group env k g now st = (st1, s, effs)" by (cases "tick_group env k g now st")
  show ?case
  proof (cases "s = Some sw")
    case True
    then show ?thesis using tick_group_target[of env k g now st st1 sw effs] t by (intro exI[of _ 0]) auto
  next
    case False
    then have "sw \<in> set (fst (snd (tick_groups env (Suc k) gs now st1)))"
      using Cons.prems t by (auto split: prod.splits option.splits)
    then obtain i where "i < length gs" "swGroup sw = gsID (gs ! i)"
      "\<exists>h\<in>set (teHealth env (Suc k + i) (gsMembers (gs ! i))). mhID h = swTo sw \<and> mhAlive h" using Cons.IH by blast
    then show ?thesis by (intro exI[of _ "Suc i"]) simp
  qed
qed

text \<open>C25. Failover only moves to members the monitor has confirmed. When the runner reads its health from the
  monitor, every switch a tick commits goes, for a group of that tick, to a member of that group which
  is the built-in direct route or whose committed monitor state is alive at that moment; damping and
  outlier ejection can only remove candidates.
\<close>

theorem failover_follows_monitor:
  assumes "monitored env mon"
  shows "\<forall>sw\<in>set (fst (snd (Tick r gs (Some env) now))). \<exists>i<length gs.
     swGroup sw = gsID (gs ! i) \<and> swTo sw \<in> set (gsMembers (gs ! i))
     \<and> (swTo sw = ''direct'' \<or> state_of (mStats (mon i) (swTo sw)) = Alive)"
proof
  fix sw
  assume "sw \<in> set (fst (snd (Tick r gs (Some env) now)))"
  then have "sw \<in> set (fst (snd (tick_groups env 0 gs now (r, {}))))" by (auto simp: Tick_def split: if_splits)
  from tick_groups_target[OF this] show "\<exists>i<length gs. swGroup sw = gsID (gs ! i) \<and> swTo sw \<in> set (gsMembers (gs ! i))
     \<and> (swTo sw = ''direct'' \<or> state_of (mStats (mon i) (swTo sw)) = Alive)"
    using assms MemberHealth_of_alive unfolding monitored_def by (metis add_0)
qed

definition exMonitor :: Monitor where
  "exMonitor = exTick Alive 10 (NewMonitor False)"

definition exSpec :: GroupSpec where
  "exSpec = \<lparr>gsID = ''g'', gsPolicy = PolicyOrdered, gsMembers = [''gone'', ''x''], gsCfg = sampleCfg\<rparr>"

definition exEnv :: TickEnv where
  "exEnv = \<lparr>teHealth = (\<lambda>k ids. MemberHealth_of ids exMonitor), teCurrent = (\<lambda>k gid. ''gone''),
     teFailing = (\<lambda>k. None), teSelect = (\<lambda>k gid m. True)\<rparr>"

lemma exMonitor_health:
  "MemberHealth_of [''gone'', ''x''] exMonitor =
     [\<lparr>mhID = ''gone'', mhAlive = False, mhLatencyMs = 0\<rparr>, \<lparr>mhID = ''x'', mhAlive = True, mhLatencyMs = 20\<rparr>]"
  by code_simp

theorem failover_follows_monitor_witness:
  "map swTo (fst (snd (Tick NewRunner [exSpec] (Some exEnv) 100))) = [''x''] \<and> state_of (mStats exMonitor ''x'') = Alive"
proof -
  have m: "monitored exEnv (\<lambda>_. exMonitor)" by (simp add: monitored_def exEnv_def)
  have t: "map swTo (fst (snd (Tick NewRunner [exSpec] (Some exEnv) 100))) = [''x'']"
    by (simp add: exSpec_def exEnv_def exMonitor_health runner_eval controller_eval)
  then obtain sw where "sw \<in> set (fst (snd (Tick NewRunner [exSpec] (Some exEnv) 100)))" "swTo sw = ''x''"
    by (metis (no_types, lifting) in_set_conv_decomp map_eq_Cons_conv list.set_intros(1))
  then have "state_of (mStats exMonitor ''x'') = Alive" using failover_follows_monitor[OF m] by fastforce
  then show ?thesis using t by simp
qed

end
